(* ===== verification/Prelude.thy ===== *)
theory Prelude
  imports Main "HOL-Library.Word" "HOL-Library.Sublist"
begin

text \<open>
  Shared vocabulary of the development: the fixed-width integer types of the C sources, the
  big-endian byte layout of packed structs on s390, C's truncating integer division, the string
  functions of the C library the sources call, and the collections of simplification rules that
  the component theories extend.

  Strings are byte lists.  A \<open>char\<close> array is the list of all its bytes; a C string is such a list
  whose meaning ends before the first zero byte.  On s390 plain \<open>char\<close> is unsigned, so a byte
  is an \<open>8 word\<close> throughout.
\<close>

unbundle bit_operations_syntax

type_synonym u8 = "8 word"
type_synonym u16 = "16 word"
type_synonym u32 = "32 word"
type_synonym u64 = "64 word"
type_synonym bytes = "8 word list"

named_theorems codec_simps \<open>decoding the encoding of a field, field by field\<close>
named_theorems codec_length \<open>lengths of encoded fields\<close>


section \<open>Integers\<close>

text \<open>C's \<open>/\<close> and \<open>%\<close> on \<open>int\<close>: the quotient is truncated towards zero and the
  remainder has the sign of the dividend.  Callers test the divisor for zero first.\<close>

definition c_quot :: "int \<Rightarrow> int \<Rightarrow> int" where
  "c_quot a b = sgn a * sgn b * (\<bar>a\<bar> div \<bar>b\<bar>)"

definition c_rem :: "int \<Rightarrow> int \<Rightarrow> int" where
  "c_rem a b = a - c_quot a b * b"

lemma c_quot_pos [simp]: "0 \<le> a \<Longrightarrow> 0 < b \<Longrightarrow> c_quot a b = a div b"
  by (cases "a = 0") (auto simp: c_quot_def sgn_if)

lemma c_rem_pos [simp]: "0 \<le> a \<Longrightarrow> 0 < b \<Longrightarrow> c_rem a b = a mod b"
  by (simp add: c_rem_def minus_div_mult_eq_mod)

lemma uint_word_of_int_small:
  "0 \<le> k \<Longrightarrow> k < 2 ^ LENGTH('a) \<Longrightarrow> uint (word_of_int k :: 'a::len word) = k"
  by (simp add: uint_word_of_int)

lemma unat_of_nat_small:
  "n < 2 ^ LENGTH('a) \<Longrightarrow> unat (word_of_nat n :: 'a::len word) = n"
  by (simp add: unat_of_nat)

lemma unat_eqI:
  "w = word_of_nat n \<Longrightarrow> n < 2 ^ LENGTH('a) \<Longrightarrow> unat (w :: 'a::len word) = n"
  by (simp add: unat_of_nat_small)

lemma bit_less_of_unat:
  fixes w :: "'a::len word"
  assumes "unat w < 2 ^ k" and "bit w n"
  shows "n < k"
proof -
  have "bit (unat w) n"
    using assms(2) by (simp add: bit_unsigned_iff bit_imp_le_length)
  moreover have "take_bit k (unat w) = unat w"
    using assms(1) by (rule take_bit_nat_eq_self)
  ultimately show ?thesis
    by (metis bit_take_bit_iff)
qed

lemma unat_less_of_bits:
  fixes w :: "'a::len word"
  assumes "\<And>k. bit w k \<Longrightarrow> k < n"
  shows "unat w < 2 ^ n"
proof -
  have "take_bit n w = w"
    by (rule bit_word_eqI) (use assms in \<open>auto simp: bit_simps\<close>)
  then have "take_bit n (unat w) = unat w"
    by (metis unsigned_take_bit_eq)
  then show ?thesis
    by (metis take_bit_nat_less_exp)
qed

lemma uint_u8_bound: "uint (x :: u8) < 256"
  using uint_lt2p [of x] by simp

lemma uint_u16_bound: "uint (x :: u16) < 65536"
  using uint_lt2p [of x] by simp

lemma uint_u32_bound: "uint (x :: u32) < 4294967296"
  using uint_lt2p [of x] by simp

lemma unat_u8_bound: "unat (x :: u8) < 256"
  using unsigned_less [of x, where ?'a = nat] by simp


section \<open>Results\<close>

text \<open>Code that may stop early returns \<open>Inl\<close> with what it reported; \<open>bind_err\<close> sequences two
  such steps.\<close>

definition bind_err :: "'e + 'a \<Rightarrow> ('a \<Rightarrow> 'e + 'b) \<Rightarrow> 'e + 'b" where
  "bind_err m f = (case m of Inl e \<Rightarrow> Inl e | Inr x \<Rightarrow> f x)"

lemma bind_err_simps [simp]: "bind_err (Inl e) f = Inl e" "bind_err (Inr x) f = f x"
  by (simp_all add: bind_err_def)

lemma bind_err_Inr: "bind_err m f = Inr y \<longleftrightarrow> (\<exists>x. m = Inr x \<and> f x = Inr y)"
  by (cases m) auto

lemma bind_err_Inl: "bind_err m f = Inl e \<longleftrightarrow> m = Inl e \<or> (\<exists>x. m = Inr x \<and> f x = Inl e)"
  by (cases m) auto

lemma bind_err_cong [fundef_cong]:
  "m = m' \<Longrightarrow> (\<And>x. m' = Inr x \<Longrightarrow> f x = f' x) \<Longrightarrow> bind_err m f = bind_err m' f'"
  by (cases m') auto


section \<open>Big-endian fields of packed structs\<close>

definition be16 :: "u16 \<Rightarrow> bytes" where
  "be16 w = [ucast (drop_bit 8 w), ucast w]"

definition be32 :: "u32 \<Rightarrow> bytes" where
  "be32 w = be16 (ucast (drop_bit 16 w)) @ be16 (ucast w)"

definition be64 :: "u64 \<Rightarrow> bytes" where
  "be64 w = be32 (ucast (drop_bit 32 w)) @ be32 (ucast w)"

text \<open>Readers take a field off the front of a byte list and return the rest.\<close>

fun get8 :: "bytes \<Rightarrow> u8 \<times> bytes" where
  "get8 (b # bs) = (b, bs)"
| "get8 [] = (0, [])"

definition get16 :: "bytes \<Rightarrow> u16 \<times> bytes" where
  "get16 bs = (let (h, bs) = get8 bs; (l, bs) = get8 bs in
     (push_bit 8 (ucast h) OR ucast l, bs))"

definition get32 :: "bytes \<Rightarrow> u32 \<times> bytes" where
  "get32 bs = (let (h, bs) = get16 bs; (l, bs) = get16 bs in
     (push_bit 16 (ucast h) OR ucast l, bs))"

definition get64 :: "bytes \<Rightarrow> u64 \<times> bytes" where
  "get64 bs = (let (h, bs) = get32 bs; (l, bs) = get32 bs in
     (push_bit 32 (ucast h) OR ucast l, bs))"

definition getn :: "nat \<Rightarrow> bytes \<Rightarrow> bytes \<times> bytes" where
  "getn n bs = (take n bs, drop n bs)"

lemma length_be16 [simp, codec_length]: "length (be16 w) = 2"
  by (simp add: be16_def)

lemma length_be32 [simp, codec_length]: "length (be32 w) = 4"
  by (simp add: be32_def)

lemma length_be64 [simp, codec_length]: "length (be64 w) = 8"
  by (simp add: be64_def)

lemma word_halves16: "push_bit 8 (ucast (ucast (drop_bit 8 w) :: u8)) OR ucast (ucast w :: u8) = (w :: u16)"
  by (rule bit_word_eqI) (auto simp: bit_simps)

lemma word_halves32: "push_bit 16 (ucast (ucast (drop_bit 16 w) :: u16)) OR ucast (ucast w :: u16) = (w :: u32)"
  by (rule bit_word_eqI) (auto simp: bit_simps)

lemma word_halves64: "push_bit 32 (ucast (ucast (drop_bit 32 w) :: u32)) OR ucast (ucast w :: u32) = (w :: u64)"
  by (rule bit_word_eqI) (auto simp: bit_simps)

lemma get8_Cons [codec_simps]: "get8 (b # bs) = (b, bs)"
  by simp

lemma get16_be16 [simp, codec_simps]: "get16 (be16 w @ bs) = (w, bs)"
  by (simp add: get16_def be16_def word_halves16)

lemma get32_be32 [simp, codec_simps]: "get32 (be32 w @ bs) = (w, bs)"
  by (simp add: get32_def be32_def word_halves32)

lemma get64_be64 [simp, codec_simps]: "get64 (be64 w @ bs) = (w, bs)"
  by (simp add: get64_def be64_def word_halves64)

lemma getn_append [simp, codec_simps]: "length xs = n \<Longrightarrow> getn n (xs @ bs) = (xs, bs)"
  by (simp add: getn_def)

text \<open>Arrays of structs are the concatenation of the images of their elements.\<close>

fun dec_list :: "(bytes \<Rightarrow> 'a \<times> bytes) \<Rightarrow> nat \<Rightarrow> bytes \<Rightarrow> 'a list \<times> bytes" where
  "dec_list dec 0 bs = ([], bs)"
| "dec_list dec (Suc n) bs =
     (let (x, bs) = dec bs; (xs, bs) = dec_list dec n bs in (x # xs, bs))"

lemma dec_list_enc:
  assumes "\<And>x bs. dec (enc x @ bs) = (x, bs)" and "length xs = n"
  shows "dec_list dec n (concat (map enc xs) @ bs) = (xs, bs)"
  using assms(2) by (induction xs arbitrary: n) (auto simp: assms(1))

lemma length_concat_enc:
  assumes "\<And>x. length (enc x) = k"
  shows "length (concat (map enc xs)) = k * length xs"
  by (induction xs) (simp_all add: assms)

text \<open>Conversely, a reader leaves exactly the bytes behind its field, and the field it read has the
  consumed bytes as its image.  Together with \<open>take_join\<close> these rules collapse the image of a
  freshly decoded struct to the bytes it was read from.\<close>

named_theorems image_simps \<open>the image of a decoded field is the bytes read\<close>

lemma snd_get8 [simp, image_simps]: "snd (get8 bs) = drop 1 bs"
  by (cases bs) auto

lemma snd_get16 [simp, image_simps]: "snd (get16 bs) = drop 2 bs"
  by (simp add: get16_def split_beta Let_def numeral_2_eq_2)

lemma snd_get32 [simp, image_simps]: "snd (get32 bs) = drop 4 bs"
  by (simp add: get32_def split_beta Let_def)

lemma snd_get64 [simp, image_simps]: "snd (get64 bs) = drop 8 bs"
  by (simp add: get64_def split_beta Let_def)

lemma snd_getn [simp, image_simps]: "snd (getn n bs) = drop n bs"
  and fst_getn [simp, image_simps]: "fst (getn n bs) = take n bs"
  by (simp_all add: getn_def)

lemma image_get8 [image_simps]:
  "1 \<le> length bs \<Longrightarrow> fst (get8 bs) # r = take 1 bs @ r"
  by (cases bs) auto

lemma image_get16 [image_simps]: "2 \<le> length bs \<Longrightarrow> be16 (fst (get16 bs)) = take 2 bs"
proof -
  assume "2 \<le> length bs"
  then obtain h l r where bs: "bs = h # l # r"
    by (metis Suc_le_length_iff numeral_2_eq_2)
  have "ucast (drop_bit 8 (push_bit 8 (ucast h) OR ucast l :: u16)) = h"
    and "ucast (push_bit 8 (ucast h) OR ucast l :: u16) = l"
    by (rule bit_word_eqI; auto simp: bit_simps dest: bit_imp_le_length)+
  then show ?thesis by (simp add: bs get16_def be16_def)
qed

lemma image_get32 [image_simps]: "4 \<le> length bs \<Longrightarrow> be32 (fst (get32 bs)) = take 4 bs"
proof -
  assume len: "4 \<le> length bs"
  define h l where "h = fst (get16 bs)" and "l = fst (get16 (drop 2 bs))"
  have "ucast (drop_bit 16 (push_bit 16 (ucast h) OR ucast l :: u32)) = h"
    and "ucast (push_bit 16 (ucast h) OR ucast l :: u32) = l"
    by (rule bit_word_eqI; auto simp: bit_simps dest: bit_imp_le_length)+
  then have "be32 (fst (get32 bs)) = be16 h @ be16 l"
    by (simp add: get32_def be32_def split_beta Let_def h_def l_def)
  also have "\<dots> = take 2 bs @ take 2 (drop 2 bs)"
    using len by (simp add: h_def l_def image_get16)
  also have "\<dots> = take 4 bs"
    by (simp flip: take_add)
  finally show ?thesis .
qed

lemma image_get64 [image_simps]: "8 \<le> length bs \<Longrightarrow> be64 (fst (get64 bs)) = take 8 bs"
proof -
  assume len: "8 \<le> length bs"
  define h l where "h = fst (get32 bs)" and "l = fst (get32 (drop 4 bs))"
  have "ucast (drop_bit 32 (push_bit 32 (ucast h) OR ucast l :: u64)) = h"
    and "ucast (push_bit 32 (ucast h) OR ucast l :: u64) = l"
    by (rule bit_word_eqI; auto simp: bit_simps dest: bit_imp_le_length)+
  then have "be64 (fst (get64 bs)) = be32 h @ be32 l"
    by (simp add: get64_def be64_def split_beta Let_def h_def l_def)
  also have "\<dots> = take 4 bs @ take 4 (drop 4 bs)"
    using len by (simp add: h_def l_def image_get32)
  also have "\<dots> = take 8 bs"
    by (simp flip: take_add)
  finally show ?thesis .
qed

lemma take_join [image_simps]:
  "m + a = k \<Longrightarrow> take a (drop m bs) @ take b (drop k bs) @ r = take (a + b) (drop m bs) @ r"
  by (auto simp: take_add add.commute)

lemma take_join_end [image_simps]:
  "m + a = k \<Longrightarrow> take a (drop m bs) @ take b (drop k bs) = take (a + b) (drop m bs)"
  by (auto simp: take_add add.commute)

lemma take_join0 [image_simps]:
  "take a bs @ take b (drop a bs) @ r = take (a + b) bs @ r"
  by (simp add: take_add)

lemma take_join0_end [image_simps]:
  "take a bs @ take b (drop a bs) = take (a + b) bs"
  by (simp add: take_add)

lemma snd_dec_list:
  assumes "\<And>bs. snd (dec bs) = drop k bs"
  shows "snd (dec_list dec n bs) = drop (n * k) bs"
  by (induction n arbitrary: bs) (simp_all add: split_beta Let_def assms add.commute)

lemma length_dec_list [simp]: "length (fst (dec_list dec n bs)) = n"
  by (induction n arbitrary: bs) (simp_all add: split_beta Let_def)

lemma image_dec_list:
  assumes "\<And>bs. snd (dec bs) = drop k bs"
    and "\<And>bs. k \<le> length bs \<Longrightarrow> enc (fst (dec bs)) = take k bs"
    and "n * k \<le> length bs"
  shows "concat (map enc (fst (dec_list dec n bs))) = take (n * k) bs"
  using assms(3)
  by (induction n arbitrary: bs) (simp_all add: split_beta Let_def assms(1,2) take_add)


section \<open>The byte image of a struct\<close>

text \<open>The contract between the struct definitions and everything that copies structs to and from a
  device: images have a fixed size, decode to what they came from, and every string of that size is
  the image of the struct decoded from it.\<close>

locale struct_image =
  fixes enc :: "'a \<Rightarrow> bytes"
    and dec :: "bytes \<Rightarrow> 'a \<times> bytes"
    and ok :: "'a \<Rightarrow> bool"
    and size_of :: nat
  assumes image_length: "ok x \<Longrightarrow> length (enc x) = size_of"
    and dec_image: "ok x \<Longrightarrow> dec (enc x @ bs) = (x, bs)"
    and image_dec: "length bs = size_of \<Longrightarrow> enc (fst (dec bs)) = bs"
    and wf_dec: "length bs = size_of \<Longrightarrow> ok (fst (dec bs))"
begin

lemma fst_dec_image [simp]: "ok x \<Longrightarrow> fst (dec (enc x)) = x"
  using dec_image [of x "[]"] by simp

lemma image_inj: "ok x \<Longrightarrow> ok y \<Longrightarrow> enc x = enc y \<Longrightarrow> x = y"
  by (metis fst_dec_image)

lemma image_eq_iff: "ok x \<Longrightarrow> length bs = size_of \<Longrightarrow> enc x = bs \<longleftrightarrow> x = fst (dec bs)"
  by (metis fst_dec_image image_dec)

end


section \<open>Byte strings and the C library\<close>

definition bytes_of :: "string \<Rightarrow> bytes" where
  "bytes_of s = map of_char s"

lemma length_bytes_of [simp]: "length (bytes_of s) = length s"
  by (simp add: bytes_of_def)

text \<open>\<open>strlen\<close>; the string is what precedes the first zero byte.\<close>

definition cstr :: "bytes \<Rightarrow> bytes" where
  "cstr s = takeWhile (\<lambda>c. c \<noteq> 0) s"

definition strlen :: "bytes \<Rightarrow> nat" where
  "strlen s = length (cstr s)"

text \<open>The \<open>n\<close> bytes \<open>strncpy\<close> stores: the source up to its end, then zero bytes.\<close>

definition strncpy_data :: "bytes \<Rightarrow> nat \<Rightarrow> bytes" where
  "strncpy_data src n = (let s = cstr (take n src) in s @ replicate (n - length s) 0)"

text \<open>\<open>memcpy\<close>/\<open>strncpy\<close> into the first bytes of an array.\<close>

definition overwrite :: "bytes \<Rightarrow> nat \<Rightarrow> bytes \<Rightarrow> bytes" where
  "overwrite dst off src = take off dst @ src @ drop (off + length src) dst"

lemma length_strncpy_data [simp]: "length (strncpy_data src n) = n"
proof -
  have "length (cstr (take n src)) \<le> length (take n src)"
    unfolding cstr_def by (rule length_takeWhile_le)
  then show ?thesis by (simp add: strncpy_data_def Let_def)
qed

lemma cstr_no_zero: "0 \<notin> set s \<Longrightarrow> cstr s = s"
  unfolding cstr_def by (subst takeWhile_eq_all_conv) auto

lemma strncpy_data_no_zero:
  "0 \<notin> set (take n src) \<Longrightarrow> n \<le> length src \<Longrightarrow> strncpy_data src n = take n src"
  by (simp add: strncpy_data_def cstr_no_zero)

lemma cstr_prefix: "s = cstr s @ dropWhile (\<lambda>c. c \<noteq> 0) s"
  by (simp add: cstr_def)

lemma cstr_take: "n \<le> strlen s \<Longrightarrow> take n s = take n (cstr s)"
  by (subst cstr_prefix [of s]) (simp add: strlen_def)

lemma strlen_le: "strlen s \<le> length s"
  by (simp add: strlen_def cstr_def length_takeWhile_le)

lemma zero_notin_cstr [simp]: "0 \<notin> set (cstr s)"
  by (auto simp: cstr_def dest: set_takeWhileD)

lemma strncpy_data_cstr: "n \<le> strlen s \<Longrightarrow> strncpy_data s n = take n (cstr s)"
proof -
  assume n: "n \<le> strlen s"
  have "0 \<notin> set (take n (cstr s))"
    by (meson in_set_takeD zero_notin_cstr)
  then have "strncpy_data s n = take n s"
    using n strlen_le [of s] by (intro strncpy_data_no_zero) (simp_all add: cstr_take)
  then show ?thesis
    using n by (simp add: cstr_take)
qed

lemma length_overwrite [simp]:
  "off + length src \<le> length dst \<Longrightarrow> length (overwrite dst off src) = length dst"
  by (simp add: overwrite_def)

lemma overwrite_all [simp]: "length src = length dst \<Longrightarrow> overwrite dst 0 src = src"
  by (simp add: overwrite_def)

definition c_toupper :: "u8 \<Rightarrow> u8" where
  "c_toupper c = (if 0x61 \<le> c \<and> c \<le> 0x7a then c - 0x20 else c)"

definition c_isdigit :: "u8 \<Rightarrow> bool" where
  "c_isdigit c \<longleftrightarrow> 0x30 \<le> c \<and> c \<le> 0x39"

lemma c_toupper_idem [simp]: "c_toupper (c_toupper c) = c_toupper c"
proof (cases "0x61 \<le> c \<and> c \<le> 0x7a")
  case True
  then have "\<not> 0x61 \<le> c - 0x20"
    by (auto simp: word_le_nat_alt unat_sub_if')
  with True show ?thesis by (simp add: c_toupper_def)
next
  case False
  then show ?thesis by (auto simp: c_toupper_def)
qed

lemma c_toupper_zero_iff [simp]: "c_toupper c = 0 \<longleftrightarrow> c = 0"
  by (auto simp: c_toupper_def word_le_nat_alt unat_sub_if' split: if_splits)

text \<open>\<open>strstr\<close> and \<open>strchr\<close>: the index of the first occurrence.\<close>

fun find_sub :: "bytes \<Rightarrow> bytes \<Rightarrow> nat option" where
  "find_sub pat [] = (if pat = [] then Some 0 else None)"
| "find_sub pat (c # s) = (if prefix pat (c # s) then Some 0 else map_option Suc (find_sub pat s))"

definition c_strstr :: "bytes \<Rightarrow> bytes \<Rightarrow> nat option" where
  "c_strstr s pat = find_sub pat (cstr s)"

definition c_strchr :: "bytes \<Rightarrow> u8 \<Rightarrow> nat option" where
  "c_strchr s c = find_sub [c] (cstr s)"

lemma find_sub_Some:
  "find_sub pat s = Some i \<Longrightarrow> prefix pat (drop i s) \<and> i + length pat \<le> length s"
proof (induction s arbitrary: i)
  case Nil
  then show ?case by (simp split: if_splits)
next
  case (Cons c s)
  show ?case
  proof (cases "prefix pat (c # s)")
    case True
    with Cons.prems have "i = 0" by simp
    with True show ?thesis using prefix_length_le by fastforce
  next
    case False
    with Cons.prems obtain j where "find_sub pat s = Some j" "i = Suc j" by auto
    with Cons.IH show ?thesis by auto
  qed
qed

lemma find_sub_least:
  "find_sub pat s = Some i \<Longrightarrow> j < i \<Longrightarrow> \<not> prefix pat (drop j s)"
proof (induction s arbitrary: i j)
  case Nil
  then show ?case by (simp split: if_splits)
next
  case (Cons c s)
  then obtain k where k: "find_sub pat s = Some k" "i = Suc k" "\<not> prefix pat (c # s)"
    by (auto split: if_splits)
  show ?case
  proof (cases j)
    case 0
    with k show ?thesis by simp
  next
    case (Suc m)
    with Cons.prems k have "m < k" by simp
    from Cons.IH [OF k(1) this] Suc show ?thesis by simp
  qed
qed

end
