(* ===== verification/Vtoc_Ebcdic.thy ===== *)
theory Vtoc_Ebcdic
  imports Prelude
begin

text \<open>
  The code page tables of \<open>libvtoc/vtoc.c\<close> and the two conversions over them,
  \<open>vtoc_ebcdic_enc\<close> (ASCII to EBCDIC) and \<open>vtoc_ebcdic_dec\<close> (EBCDIC to ASCII).  The
  lemmas say which characters survive a round trip through both tables, and that the conversion
  neither creates nor removes string terminators.
\<close>

definition EBCtoASC :: bytes where
  "EBCtoASC = [
    0x00, 0x01, 0x02, 0x03, 0x07, 0x09, 0x07, 0x7F,
    0x07, 0x07, 0x07, 0x0B, 0x0C, 0x0D, 0x0E, 0x0F,
    0x10, 0x11, 0x12, 0x13, 0x07, 0x0A, 0x08, 0x07,
    0x18, 0x19, 0x07, 0x07, 0x07, 0x07, 0x07, 0x07,
    0x07, 0x07, 0x1C, 0x07, 0x07, 0x0A, 0x17, 0x1B,
    0x07, 0x07, 0x07, 0x07, 0x07, 0x05, 0x06, 0x07,
    0x07, 0x07, 0x16, 0x07, 0x07, 0x07, 0x07, 0x04,
    0x07, 0x07, 0x07, 0x07, 0x14, 0x15, 0x07, 0x1A,
    0x20, 0xFF, 0x83, 0x84, 0x85, 0xA0, 0x07, 0x86,
    0x87, 0xA4, 0x9B, 0x2E, 0x3C, 0x28, 0x2B, 0x7C,
    0x26, 0x82, 0x88, 0x89, 0x8A, 0xA1, 0x8C, 0x07,
    0x8D, 0xE1, 0x21, 0x24, 0x2A, 0x29, 0x3B, 0xAA,
    0x2D, 0x2F, 0x07, 0x8E, 0x07, 0x07, 0x07, 0x8F,
    0x80, 0xA5, 0x07, 0x2C, 0x25, 0x5F, 0x3E, 0x3F,
    0x07, 0x90, 0x07, 0x07, 0x07, 0x07, 0x07, 0x07,
    0x70, 0x60, 0x3A, 0x23, 0x40, 0x27, 0x3D, 0x22,
    0x07, 0x61, 0x62, 0x63, 0x64, 0x65, 0x66, 0x67,
    0x68, 0x69, 0xAE, 0xAF, 0x07, 0x07, 0x07, 0xF1,
    0xF8, 0x6A, 0x6B, 0x6C, 0x6D, 0x6E, 0x6F, 0x70,
    0x71, 0x72, 0xA6, 0xA7, 0x91, 0x07, 0x92, 0x07,
    0xE6, 0x7E, 0x73, 0x74, 0x75, 0x76, 0x77, 0x78,
    0x79, 0x7A, 0xAD, 0xAB, 0x07, 0x07, 0x07, 0x07,
    0x5E, 0x9C, 0x9D, 0xFA, 0x07, 0x07, 0x07, 0xAC,
    0xAB, 0x07, 0x5B, 0x5D, 0x07, 0x07, 0x07, 0x07,
    0x7B, 0x41, 0x42, 0x43, 0x44, 0x45, 0x46, 0x47,
    0x48, 0x49, 0x07, 0x93, 0x94, 0x95, 0xA2, 0x07,
    0x7D, 0x4A, 0x4B, 0x4C, 0x4D, 0x4E, 0x4F, 0x50,
    0x51, 0x52, 0x07, 0x96, 0x81, 0x97, 0xA3, 0x98,
    0x5C, 0xF6, 0x53, 0x54, 0x55, 0x56, 0x57, 0x58,
    0x59, 0x5A, 0xFD, 0x07, 0x99, 0x07, 0x07, 0x07,
    0x30, 0x31, 0x32, 0x33, 0x34, 0x35, 0x36, 0x37,
    0x38, 0x39, 0x07, 0x07, 0x9A, 0x07, 0x07, 0x07]"

definition ASCtoEBC :: bytes where
  "ASCtoEBC = [
    0x00, 0x01, 0x02, 0x03, 0x37, 0x2D, 0x2E, 0x2F,
    0x16, 0x05, 0x15, 0x0B, 0x0C, 0x0D, 0x0E, 0x0F,
    0x10, 0x11, 0x12, 0x13, 0x3C, 0x15, 0x32, 0x26,
    0x18, 0x19, 0x3F, 0x27, 0x1C, 0x1D, 0x1E, 0x1F,
    0x40, 0x5A, 0x7F, 0x7B, 0x5B, 0x6C, 0x50, 0x7D,
    0x4D, 0x5D, 0x5C, 0x4E, 0x6B, 0x60, 0x4B, 0x61,
    0xF0, 0xF1, 0xF2, 0xF3, 0xF4, 0xF5, 0xF6, 0xF7,
    0xF8, 0xF9, 0x7A, 0x5E, 0x4C, 0x7E, 0x6E, 0x6F,
    0x7C, 0xC1, 0xC2, 0xC3, 0xC4, 0xC5, 0xC6, 0xC7,
    0xC8, 0xC9, 0xD1, 0xD2, 0xD3, 0xD4, 0xD5, 0xD6,
    0xD7, 0xD8, 0xD9, 0xE2, 0xE3, 0xE4, 0xE5, 0xE6,
    0xE7, 0xE8, 0xE9, 0xAD, 0xE0, 0xBD, 0x5F, 0x6D,
    0x79, 0x81, 0x82, 0x83, 0x84, 0x85, 0x86, 0x87,
    0x88, 0x89, 0x91, 0x92, 0x93, 0x94, 0x95, 0x96,
    0x97, 0x98, 0x99, 0xA2, 0xA3, 0xA4, 0xA5, 0xA6,
    0xA7, 0xA8, 0xA9, 0xC0, 0x4F, 0xD0, 0xA1, 0x07,
    0x3F, 0x3F, 0x3F, 0x3F, 0x3F, 0x3F, 0x3F, 0x3F,
    0x3F, 0x3F, 0x3F, 0x3F, 0x3F, 0x3F, 0x3F, 0x3F,
    0x3F, 0x3F, 0x3F, 0x3F, 0x3F, 0x3F, 0x3F, 0x3F,
    0x3F, 0x3F, 0x3F, 0x3F, 0x3F, 0x3F, 0x3F, 0x3F,
    0x3F, 0x3F, 0x3F, 0x3F, 0x3F, 0x3F, 0x3F, 0x3F,
    0x3F, 0x3F, 0x3F, 0x3F, 0x3F, 0x3F, 0x3F, 0x3F,
    0x3F, 0x3F, 0x3F, 0x3F, 0x3F, 0x3F, 0x3F, 0x3F,
    0x3F, 0x3F, 0x3F, 0x3F, 0x3F, 0x3F, 0x3F, 0x3F,
    0x3F, 0x3F, 0x3F, 0x3F, 0x3F, 0x3F, 0x3F, 0x3F,
    0x3F, 0x3F, 0x3F, 0x3F, 0x3F, 0x3F, 0x3F, 0x3F,
    0x3F, 0x3F, 0x3F, 0x3F, 0x3F, 0x3F, 0x3F, 0x3F,
    0x3F, 0x3F, 0x3F, 0x3F, 0x3F, 0x3F, 0x3F, 0x3F,
    0x3F, 0x3F, 0x3F, 0x3F, 0x3F, 0x3F, 0x3F, 0x3F,
    0x3F, 0x3F, 0x3F, 0x3F, 0x3F, 0x3F, 0x3F, 0x3F,
    0x3F, 0x3F, 0x3F, 0x3F, 0x3F, 0x3F, 0x3F, 0x3F,
    0x3F, 0x3F, 0x3F, 0x3F, 0x3F, 0x3F, 0x3F, 0xFF]"

text \<open>The loops store the translation of the first \<open>l\<close> bytes of the source over the first
  \<open>l\<close> bytes of the target; the bytes behind them are not touched.\<close>

definition asc_to_ebc :: "u8 \<Rightarrow> u8" where
  "asc_to_ebc c = ASCtoEBC ! unat c"

definition ebc_to_asc :: "u8 \<Rightarrow> u8" where
  "ebc_to_asc c = EBCtoASC ! unat c"

definition vtoc_ebcdic_enc :: "bytes \<Rightarrow> bytes \<Rightarrow> nat \<Rightarrow> bytes" where
  "vtoc_ebcdic_enc source target l = overwrite target 0 (map asc_to_ebc (take l source))"

definition vtoc_ebcdic_dec :: "bytes \<Rightarrow> bytes \<Rightarrow> nat \<Rightarrow> bytes" where
  "vtoc_ebcdic_dec source target l = overwrite target 0 (map ebc_to_asc (take l source))"


section \<open>Facts about the tables\<close>

lemma length_EBCtoASC [simp]: "length EBCtoASC = 256"
  by (simp add: EBCtoASC_def)

lemma length_ASCtoEBC [simp]: "length ASCtoEBC = 256"
  by (simp add: ASCtoEBC_def)

text \<open>A property of every byte follows from checking the 256 table positions.\<close>

lemma all_bytesI:
  assumes "list_all (\<lambda>n. P (word_of_nat n)) [0..<256]"
  shows "P (c :: u8)"
proof -
  from assms have "P (word_of_nat (unat c))"
    unfolding list_all_iff by (metis atLeastLessThan_iff le0 set_upt unat_u8_bound)
  then show ?thesis by simp
qed

text \<open>The ASCII characters whose EBCDIC code the decoding table maps elsewhere: NAK, the four
  information separators and the brackets and caret.\<close>

definition not_invertible :: bytes where
  "not_invertible = [0x15, 0x1C, 0x1D, 0x1E, 0x1F, 0x5B, 0x5D, 0x5E]"

lemma ebc_asc_table:
  "list_all (\<lambda>n. (word_of_nat n :: u8) \<in> set not_invertible \<or> 128 \<le> n \<or>
      ebc_to_asc (asc_to_ebc (word_of_nat n)) = word_of_nat n) [0..<256]"
  by code_simp

lemma asc_zero_table:
  "list_all (\<lambda>n. (asc_to_ebc (word_of_nat n) = 0) = (n = 0)) [0..<256]"
  by code_simp

lemma ebc_zero_table:
  "list_all (\<lambda>n. (ebc_to_asc (word_of_nat n) = 0) = (n = 0)) [0..<256]"
  by code_simp

lemma asc_to_ebc_zero_iff [simp]: "asc_to_ebc c = 0 \<longleftrightarrow> c = 0"
proof -
  have "list_all (\<lambda>n. (asc_to_ebc (word_of_nat n) = 0) = (word_of_nat n = (0::u8))) [0..<256]"
    using asc_zero_table by (auto simp: list_all_iff word_of_nat_eq_0_iff dest: nat_dvd_not_less)
  then show ?thesis by (rule all_bytesI)
qed

lemma ebc_to_asc_zero_iff [simp]: "ebc_to_asc c = 0 \<longleftrightarrow> c = 0"
proof -
  have "list_all (\<lambda>n. (ebc_to_asc (word_of_nat n) = 0) = (word_of_nat n = (0::u8))) [0..<256]"
    using ebc_zero_table by (auto simp: list_all_iff word_of_nat_eq_0_iff dest: nat_dvd_not_less)
  then show ?thesis by (rule all_bytesI)
qed

definition invertible :: "u8 \<Rightarrow> bool" where
  "invertible c \<longleftrightarrow> c < 128 \<and> c \<notin> set not_invertible"

lemma ebc_to_asc_inverse [simp]: "invertible c \<Longrightarrow> ebc_to_asc (asc_to_ebc c) = c"
proof -
  have "list_all (\<lambda>n. invertible (word_of_nat n) \<longrightarrow>
      ebc_to_asc (asc_to_ebc (word_of_nat n)) = word_of_nat n) [0..<256]"
    using ebc_asc_table by (auto simp: list_all_iff invertible_def word_less_nat_alt unat_of_nat)
  then have "invertible c \<longrightarrow> ebc_to_asc (asc_to_ebc c) = c" by (rule all_bytesI)
  then show "invertible c \<Longrightarrow> ebc_to_asc (asc_to_ebc c) = c" by simp
qed

lemma map_ebc_asc_inverse [simp]:
  "list_all invertible s \<Longrightarrow> map (\<lambda>c. ebc_to_asc (asc_to_ebc c)) s = s"
  by (induction s) auto


section \<open>Facts about the conversions\<close>

lemma length_vtoc_ebcdic_enc [simp]:
  "l \<le> length t \<Longrightarrow> length (vtoc_ebcdic_enc s t l) = length t"
  by (simp add: vtoc_ebcdic_enc_def)

lemma length_vtoc_ebcdic_dec [simp]:
  "l \<le> length t \<Longrightarrow> length (vtoc_ebcdic_dec s t l) = length t"
  by (simp add: vtoc_ebcdic_dec_def)

lemma vtoc_ebcdic_enc_exact [simp]:
  "length s = length t \<Longrightarrow> l = length t \<Longrightarrow> vtoc_ebcdic_enc s t l = map asc_to_ebc s"
  by (simp add: vtoc_ebcdic_enc_def)

lemma vtoc_ebcdic_dec_exact [simp]:
  "length s = length t \<Longrightarrow> l = length t \<Longrightarrow> vtoc_ebcdic_dec s t l = map ebc_to_asc s"
  by (simp add: vtoc_ebcdic_dec_def)

text \<open>C25: Converting the first \<open>l\<close> bytes of a buffer to EBCDIC in place and back gives the
  buffer again, provided each of these bytes is an ASCII character other than the eight the
  tables do not invert; the bytes behind position \<open>l\<close> keep their values in any case.\<close>

theorem ebcdic_roundtrip:
  assumes "l \<le> length s" and "list_all invertible (take l s)"
  shows "vtoc_ebcdic_dec (vtoc_ebcdic_enc s s l) (vtoc_ebcdic_enc s s l) l = s"
proof -
  have len: "length (take l s) = l" using assms(1) by simp
  have "vtoc_ebcdic_enc s s l = map asc_to_ebc (take l s) @ drop l s"
    using assms(1) by (simp add: vtoc_ebcdic_enc_def overwrite_def)
  then show ?thesis
    using assms len by (simp add: vtoc_ebcdic_dec_def overwrite_def o_def)
qed

theorem ebcdic_roundtrip_witness:
  "vtoc_ebcdic_dec (vtoc_ebcdic_enc (bytes_of ''LINUX.V0X1234'') (bytes_of ''LINUX.V0X1234'') 7)
      (vtoc_ebcdic_enc (bytes_of ''LINUX.V0X1234'') (bytes_of ''LINUX.V0X1234'') 7) 7
    = bytes_of ''LINUX.V0X1234''"
  by (rule ebcdic_roundtrip) (simp, code_simp)

end
