(* ===== verification/Device.thy ===== *)
theory Device
  imports Prelude
begin

text \<open>
  The block device behind a file descriptor: its bytes, and whether the kernel lets the process
  open it and seek to a position.  A device does not grow: reading or writing past its end is cut
  short, which the callers treat as an error.  What is stored is what a later read returns; the
  lemmas in the context of \<open>struct_image\<close> say so for any struct with a byte image.
\<close>

record device =
  dev_name :: string
  content :: bytes
  open_rdonly :: bool
  open_wronly :: bool
  seek_ok :: "nat \<Rightarrow> bool"

text \<open>\<open>read(f, buf, n)\<close> at a position: the bytes, fewer than \<open>n\<close> at the end of the device.\<close>

definition fd_read :: "device \<Rightarrow> nat \<Rightarrow> nat \<Rightarrow> bytes" where
  "fd_read d pos n = take n (drop pos (content d))"

text \<open>\<open>write(f, buf, n)\<close> at a position: the number of bytes stored, and the device.\<close>

definition fd_write :: "device \<Rightarrow> nat \<Rightarrow> bytes \<Rightarrow> nat \<times> device" where
  "fd_write d pos bs =
     (let n = min (length bs) (length (content d) - pos)
      in (n, d\<lparr>content := overwrite (content d) pos (take n bs)\<rparr>))"

lemma length_fd_read [simp]: "length (fd_read d pos n) = min n (length (content d) - pos)"
  by (simp add: fd_read_def)

lemma fst_fd_write_full:
  "fst (fd_write d pos bs) = length bs \<longleftrightarrow> bs = [] \<or> pos + length bs \<le> length (content d)"
  by (cases bs) (auto simp: fd_write_def Let_def min_def)

lemma fd_write_env [simp]:
  "open_rdonly (snd (fd_write d pos bs)) = open_rdonly d"
  "open_wronly (snd (fd_write d pos bs)) = open_wronly d"
  "seek_ok (snd (fd_write d pos bs)) = seek_ok d"
  "dev_name (snd (fd_write d pos bs)) = dev_name d"
  by (simp_all add: fd_write_def Let_def)

lemma length_fd_write [simp]:
  "pos \<le> length (content d) \<Longrightarrow> length (content (snd (fd_write d pos bs))) = length (content d)"
  by (simp add: fd_write_def Let_def overwrite_def min_def) auto

lemma fd_read_write_same:
  "pos + length bs \<le> length (content d) \<Longrightarrow>
     fd_read (snd (fd_write d pos bs)) pos (length bs) = bs"
  by (simp add: fd_read_def fd_write_def Let_def overwrite_def min_def)

lemma fd_read_write_other:
  assumes "pos + length bs \<le> length (content d)" and "p + n \<le> pos \<or> pos + length bs \<le> p"
  shows "fd_read (snd (fd_write d pos bs)) p n = fd_read d p n"
proof -
  let ?c = "content d"
  have new: "content (snd (fd_write d pos bs)) = take pos ?c @ bs @ drop (pos + length bs) ?c"
    using assms(1) by (simp add: fd_write_def Let_def overwrite_def min_def)
  from assms(2) show ?thesis
  proof
    assume "p + n \<le> pos"
    with assms(1) show ?thesis
      by (intro nth_equalityI) (auto simp: fd_read_def new nth_append)
  next
    assume "pos + length bs \<le> p"
    with assms(1) show ?thesis
      by (simp add: fd_read_def new add.commute)
  qed
qed

context struct_image
begin

text \<open>A struct written at a position of the device is read back from there.\<close>

lemma read_back:
  assumes "ok x" and "pos + size_of \<le> length (content d)"
  shows "fd_read (snd (fd_write d pos (enc x))) pos size_of = enc x"
  using fd_read_write_same [of pos "enc x" d] assms by (simp add: image_length)

lemma decode_back:
  assumes "ok x" and "pos + size_of \<le> length (content d)"
  shows "fst (dec (fd_read (snd (fd_write d pos (enc x))) pos size_of)) = x"
  using assms by (simp add: read_back)

lemma read_elsewhere:
  assumes "ok x" and "pos + size_of \<le> length (content d)"
    and "p + n \<le> pos \<or> pos + size_of \<le> p"
  shows "fd_read (snd (fd_write d pos (enc x))) p n = fd_read d p n"
  using assms by (intro fd_read_write_other) (simp_all add: image_length)

lemma write_full:
  assumes "ok x" and "pos + size_of \<le> length (content d)"
  shows "fst (fd_write d pos (enc x)) = size_of"
  using fst_fd_write_full [of d pos "enc x"] assms by (simp add: image_length)

end

end
