(* ===== verification/Vtoc_Types.thy ===== *)
theory Vtoc_Types
  imports Device
begin

text \<open>
  The packed structs of \<open>include/lib/vtoc.h\<close> as records, and their byte images.  \<open>enc_x\<close> is
  the memory image of a struct on big-endian s390, \<open>dec_x\<close> reads a struct off the front of a byte
  list and returns the remaining bytes.  Well-formedness (\<open>wf_x\<close>) fixes the lengths of the
  \<open>char\<close> and extent arrays, which the C types carry.

  Each image decodes to the struct it came from, and every DSCB image is 140 bytes long, so that
  a DSCB read as one format and reinterpreted as another loses nothing.
\<close>

section \<open>Addresses, dates, extents\<close>

record hd_geometry =
  heads :: u8
  sectors :: u8
  cylinders :: u16
  geo_start :: u64

record ttr_t =
  ttr_tt :: u16
  ttr_r :: u8

record cchhb_t =
  b_cc :: u16
  b_hh :: u16
  b_b :: u8

record cchh_t =
  a_cc :: u16
  a_hh :: u16

record labeldate_t =
  d_year :: u8
  d_day :: u16

record extent_t =
  typeind :: u8
  seqno :: u8
  llimit :: cchh_t
  ulimit :: cchh_t

definition enc_ttr :: "ttr_t \<Rightarrow> bytes" where
  "enc_ttr x = be16 (ttr_tt x) @ [ttr_r x]"

definition dec_ttr :: "bytes \<Rightarrow> ttr_t \<times> bytes" where
  "dec_ttr bs = (let (a, bs) = get16 bs; (r, bs) = get8 bs in (\<lparr>ttr_tt = a, ttr_r = r\<rparr>, bs))"

definition enc_cchhb :: "cchhb_t \<Rightarrow> bytes" where
  "enc_cchhb x = be16 (b_cc x) @ be16 (b_hh x) @ [b_b x]"

definition dec_cchhb :: "bytes \<Rightarrow> cchhb_t \<times> bytes" where
  "dec_cchhb bs = (let (c, bs) = get16 bs; (h, bs) = get16 bs; (b, bs) = get8 bs in
     (\<lparr>b_cc = c, b_hh = h, b_b = b\<rparr>, bs))"

definition enc_cchh :: "cchh_t \<Rightarrow> bytes" where
  "enc_cchh x = be16 (a_cc x) @ be16 (a_hh x)"

definition dec_cchh :: "bytes \<Rightarrow> cchh_t \<times> bytes" where
  "dec_cchh bs = (let (c, bs) = get16 bs; (h, bs) = get16 bs in (\<lparr>a_cc = c, a_hh = h\<rparr>, bs))"

definition enc_date :: "labeldate_t \<Rightarrow> bytes" where
  "enc_date x = d_year x # be16 (d_day x)"

definition dec_date :: "bytes \<Rightarrow> labeldate_t \<times> bytes" where
  "dec_date bs = (let (y, bs) = get8 bs; (d, bs) = get16 bs in (\<lparr>d_year = y, d_day = d\<rparr>, bs))"

definition enc_extent :: "extent_t \<Rightarrow> bytes" where
  "enc_extent x = typeind x # seqno x # enc_cchh (llimit x) @ enc_cchh (ulimit x)"

definition dec_extent :: "bytes \<Rightarrow> extent_t \<times> bytes" where
  "dec_extent bs = (let (t, bs) = get8 bs; (s, bs) = get8 bs;
       (l, bs) = dec_cchh bs; (u, bs) = dec_cchh bs in
     (\<lparr>typeind = t, seqno = s, llimit = l, ulimit = u\<rparr>, bs))"

lemma dec_enc_ttr [simp, codec_simps]: "dec_ttr (enc_ttr x @ bs) = (x, bs)"
  by (simp add: dec_ttr_def enc_ttr_def)

lemma dec_enc_cchhb [simp, codec_simps]: "dec_cchhb (enc_cchhb x @ bs) = (x, bs)"
  by (simp add: dec_cchhb_def enc_cchhb_def)

lemma dec_enc_cchh [simp, codec_simps]: "dec_cchh (enc_cchh x @ bs) = (x, bs)"
  by (simp add: dec_cchh_def enc_cchh_def)

lemma dec_enc_date [simp, codec_simps]: "dec_date (enc_date x @ bs) = (x, bs)"
  by (simp add: dec_date_def enc_date_def)

lemma dec_enc_extent [simp, codec_simps]: "dec_extent (enc_extent x @ bs) = (x, bs)"
  by (simp add: dec_extent_def enc_extent_def)

lemma length_enc_ttr [simp, codec_length]: "length (enc_ttr x) = 3"
  by (simp add: enc_ttr_def)

lemma length_enc_cchhb [simp, codec_length]: "length (enc_cchhb x) = 5"
  by (simp add: enc_cchhb_def)

lemma length_enc_cchh [simp, codec_length]: "length (enc_cchh x) = 4"
  by (simp add: enc_cchh_def)

lemma length_enc_date [simp, codec_length]: "length (enc_date x) = 3"
  by (simp add: enc_date_def)

lemma length_enc_extent [simp, codec_length]: "length (enc_extent x) = 10"
  by (simp add: enc_extent_def)

lemma snd_dec_ttr [simp]: "snd (dec_ttr bs) = drop 3 bs"
  by (simp add: dec_ttr_def split_beta Let_def numeral_eq_Suc)

lemma snd_dec_cchhb [simp]: "snd (dec_cchhb bs) = drop 5 bs"
  by (simp add: dec_cchhb_def split_beta Let_def numeral_eq_Suc)

lemma snd_dec_cchh [simp]: "snd (dec_cchh bs) = drop 4 bs"
  by (simp add: dec_cchh_def split_beta Let_def)

lemma snd_dec_date [simp]: "snd (dec_date bs) = drop 3 bs"
  by (simp add: dec_date_def split_beta Let_def)

lemma snd_dec_extent [simp]: "snd (dec_extent bs) = drop 10 bs"
  by (simp add: dec_extent_def split_beta Let_def)

lemma image_ttr [image_simps]: "3 \<le> length bs \<Longrightarrow> enc_ttr (fst (dec_ttr bs)) = take 3 bs"
  by (simp add: dec_ttr_def enc_ttr_def split_beta Let_def image_simps)

lemma image_cchhb [image_simps]: "5 \<le> length bs \<Longrightarrow> enc_cchhb (fst (dec_cchhb bs)) = take 5 bs"
  by (simp add: dec_cchhb_def enc_cchhb_def split_beta Let_def image_simps)

lemma image_cchh [image_simps]: "4 \<le> length bs \<Longrightarrow> enc_cchh (fst (dec_cchh bs)) = take 4 bs"
  by (simp add: dec_cchh_def enc_cchh_def split_beta Let_def image_simps)

lemma image_date [image_simps]: "3 \<le> length bs \<Longrightarrow> enc_date (fst (dec_date bs)) = take 3 bs"
  by (simp add: dec_date_def enc_date_def split_beta Let_def image_simps numeral_3_eq_3)

lemma image_extent [image_simps]: "10 \<le> length bs \<Longrightarrow> enc_extent (fst (dec_extent bs)) = take 10 bs"
  by (simp add: dec_extent_def enc_extent_def split_beta Let_def image_simps)


section \<open>The volume label\<close>

record volume_label_t =
  volkey :: bytes
  vollbl :: bytes
  volid :: bytes
  security :: u8
  vtoc :: cchhb_t
  vl_res1 :: bytes
  cisize :: bytes
  blkperci :: bytes
  labperci :: bytes
  vl_res2 :: bytes
  lvtoc :: bytes
  vl_res3 :: bytes
  ldl_version :: u8
  formatted_blocks :: u64

definition wf_vlabel :: "volume_label_t \<Rightarrow> bool" where
  "wf_vlabel v \<longleftrightarrow> length (volkey v) = 4 \<and> length (vollbl v) = 4 \<and> length (volid v) = 6 \<and>
     length (vl_res1 v) = 5 \<and> length (cisize v) = 4 \<and> length (blkperci v) = 4 \<and>
     length (labperci v) = 4 \<and> length (vl_res2 v) = 4 \<and> length (lvtoc v) = 14 \<and>
     length (vl_res3 v) = 28"

definition enc_vlabel :: "volume_label_t \<Rightarrow> bytes" where
  "enc_vlabel v = volkey v @ vollbl v @ volid v @ security v # enc_cchhb (vtoc v) @
     vl_res1 v @ cisize v @ blkperci v @ labperci v @ vl_res2 v @ lvtoc v @ vl_res3 v @
     ldl_version v # be64 (formatted_blocks v)"

definition dec_vlabel :: "bytes \<Rightarrow> volume_label_t \<times> bytes" where
  "dec_vlabel bs = (let (x1, bs) = getn 4 bs; (x2, bs) = getn 4 bs; (x3, bs) = getn 6 bs;
       (x4, bs) = get8 bs; (x5, bs) = dec_cchhb bs; (x6, bs) = getn 5 bs; (x7, bs) = getn 4 bs;
       (x8, bs) = getn 4 bs; (x9, bs) = getn 4 bs; (x10, bs) = getn 4 bs; (x11, bs) = getn 14 bs;
       (x12, bs) = getn 28 bs; (x13, bs) = get8 bs; (x14, bs) = get64 bs in
     (\<lparr>volkey = x1, vollbl = x2, volid = x3, security = x4, vtoc = x5, vl_res1 = x6,
       cisize = x7, blkperci = x8, labperci = x9, vl_res2 = x10, lvtoc = x11, vl_res3 = x12,
       ldl_version = x13, formatted_blocks = x14\<rparr>, bs))"

lemma dec_enc_vlabel: "wf_vlabel v \<Longrightarrow> dec_vlabel (enc_vlabel v @ bs) = (v, bs)"
  by (simp add: dec_vlabel_def enc_vlabel_def wf_vlabel_def)

lemma length_enc_vlabel: "wf_vlabel v \<Longrightarrow> length (enc_vlabel v) = 92"
  by (simp add: enc_vlabel_def wf_vlabel_def)

lemma image_dec_vlabel: "length bs = 92 \<Longrightarrow> enc_vlabel (fst (dec_vlabel bs)) = bs"
  by (simp add: dec_vlabel_def enc_vlabel_def split_beta Let_def image_simps)

lemma wf_dec_vlabel: "length bs = 92 \<Longrightarrow> wf_vlabel (fst (dec_vlabel bs))"
  by (simp add: dec_vlabel_def wf_vlabel_def split_beta Let_def)

interpretation vlabel: struct_image enc_vlabel dec_vlabel wf_vlabel 92
  by unfold_locales (simp_all add: dec_enc_vlabel length_enc_vlabel image_dec_vlabel wf_dec_vlabel)


section \<open>Format 1 and format 8 DSCBs\<close>

record format1_label_t =
  DS1DSNAM :: bytes
  DS1FMTID :: u8
  DS1DSSN :: bytes
  DS1VOLSQ :: u16
  DS1CREDT :: labeldate_t
  DS1EXPDT :: labeldate_t
  DS1NOEPV :: u8
  DS1NOBDB :: u8
  DS1FLAG1 :: u8
  DS1SYSCD :: bytes
  DS1REFD :: labeldate_t
  DS1SMSFG :: u8
  DS1SCXTF :: u8
  DS1SCXTV :: u16
  DS1DSRG1 :: u8
  DS1DSRG2 :: u8
  DS1RECFM :: u8
  DS1OPTCD :: u8
  DS1BLKL :: u16
  DS1LRECL :: u16
  DS1KEYL :: u8
  DS1RKP :: u16
  DS1DSIND :: u8
  DS1SCAL1 :: u8
  DS1SCAL3 :: bytes
  DS1LSTAR :: ttr_t
  DS1TRBAL :: u16
  f1_res1 :: u16
  DS1EXT1 :: extent_t
  DS1EXT2 :: extent_t
  DS1EXT3 :: extent_t
  DS1PTRDS :: cchhb_t

definition wf_f1 :: "format1_label_t \<Rightarrow> bool" where
  "wf_f1 f \<longleftrightarrow> length (DS1DSNAM f) = 44 \<and> length (DS1DSSN f) = 6 \<and>
     length (DS1SYSCD f) = 13 \<and> length (DS1SCAL3 f) = 3"

definition enc_f1 :: "format1_label_t \<Rightarrow> bytes" where
  "enc_f1 f = DS1DSNAM f @ DS1FMTID f # DS1DSSN f @ be16 (DS1VOLSQ f) @
     enc_date (DS1CREDT f) @ enc_date (DS1EXPDT f) @ DS1NOEPV f # DS1NOBDB f # DS1FLAG1 f #
     DS1SYSCD f @ enc_date (DS1REFD f) @ DS1SMSFG f # DS1SCXTF f # be16 (DS1SCXTV f) @
     DS1DSRG1 f # DS1DSRG2 f # DS1RECFM f # DS1OPTCD f # be16 (DS1BLKL f) @
     be16 (DS1LRECL f) @ DS1KEYL f # be16 (DS1RKP f) @ DS1DSIND f # DS1SCAL1 f #
     DS1SCAL3 f @ enc_ttr (DS1LSTAR f) @ be16 (DS1TRBAL f) @ be16 (f1_res1 f) @
     enc_extent (DS1EXT1 f) @ enc_extent (DS1EXT2 f) @ enc_extent (DS1EXT3 f) @
     enc_cchhb (DS1PTRDS f)"

definition dec_f1 :: "bytes \<Rightarrow> format1_label_t \<times> bytes" where
  "dec_f1 bs = (let (x1, bs) = getn 44 bs; (x2, bs) = get8 bs; (x3, bs) = getn 6 bs;
       (x4, bs) = get16 bs; (x5, bs) = dec_date bs; (x6, bs) = dec_date bs; (x7, bs) = get8 bs;
       (x8, bs) = get8 bs; (x9, bs) = get8 bs; (x10, bs) = getn 13 bs; (x11, bs) = dec_date bs;
       (x12, bs) = get8 bs; (x13, bs) = get8 bs; (x14, bs) = get16 bs; (x15, bs) = get8 bs;
       (x16, bs) = get8 bs; (x17, bs) = get8 bs; (x18, bs) = get8 bs; (x19, bs) = get16 bs;
       (x20, bs) = get16 bs; (x21, bs) = get8 bs; (x22, bs) = get16 bs; (x23, bs) = get8 bs;
       (x24, bs) = get8 bs; (x25, bs) = getn 3 bs; (x26, bs) = dec_ttr bs; (x27, bs) = get16 bs;
       (x28, bs) = get16 bs; (x29, bs) = dec_extent bs; (x30, bs) = dec_extent bs;
       (x31, bs) = dec_extent bs; (x32, bs) = dec_cchhb bs in
     (\<lparr>DS1DSNAM = x1, DS1FMTID = x2, DS1DSSN = x3, DS1VOLSQ = x4, DS1CREDT = x5, DS1EXPDT = x6,
       DS1NOEPV = x7, DS1NOBDB = x8, DS1FLAG1 = x9, DS1SYSCD = x10, DS1REFD = x11, DS1SMSFG = x12,
       DS1SCXTF = x13, DS1SCXTV = x14, DS1DSRG1 = x15, DS1DSRG2 = x16, DS1RECFM = x17,
       DS1OPTCD = x18, DS1BLKL = x19, DS1LRECL = x20, DS1KEYL = x21, DS1RKP = x22, DS1DSIND = x23,
       DS1SCAL1 = x24, DS1SCAL3 = x25, DS1LSTAR = x26, DS1TRBAL = x27, f1_res1 = x28,
       DS1EXT1 = x29, DS1EXT2 = x30, DS1EXT3 = x31, DS1PTRDS = x32\<rparr>, bs))"

lemma dec_enc_f1: "wf_f1 f \<Longrightarrow> dec_f1 (enc_f1 f @ bs) = (f, bs)"
  by (simp add: dec_f1_def enc_f1_def wf_f1_def)

lemma length_enc_f1: "wf_f1 f \<Longrightarrow> length (enc_f1 f) = 140"
  by (simp add: enc_f1_def wf_f1_def)

lemma image_dec_f1: "length bs = 140 \<Longrightarrow> enc_f1 (fst (dec_f1 bs)) = bs"
  by (simp add: dec_f1_def enc_f1_def split_beta Let_def image_simps)

lemma wf_dec_f1: "length bs = 140 \<Longrightarrow> wf_f1 (fst (dec_f1 bs))"
  by (simp add: dec_f1_def wf_f1_def split_beta Let_def)

interpretation f1: struct_image enc_f1 dec_f1 wf_f1 140
  by unfold_locales (simp_all add: dec_enc_f1 length_enc_f1 image_dec_f1 wf_dec_f1)


section \<open>Format 4 DSCBs\<close>

record dev_const_t =
  DS4DSCYL :: u16
  DS4DSTRK :: u16
  DS4DEVTK :: u16
  DS4DEVI :: u8
  DS4DEVL :: u8
  DS4DEVK :: u8
  DS4DEVFG :: u8
  DS4DEVTL :: u16
  DS4DEVDT :: u8
  DS4DEVDB :: u8

definition enc_dev_const :: "dev_const_t \<Rightarrow> bytes" where
  "enc_dev_const x = be16 (DS4DSCYL x) @ be16 (DS4DSTRK x) @ be16 (DS4DEVTK x) @ DS4DEVI x #
     DS4DEVL x # DS4DEVK x # DS4DEVFG x # be16 (DS4DEVTL x) @ [DS4DEVDT x, DS4DEVDB x]"

definition dec_dev_const :: "bytes \<Rightarrow> dev_const_t \<times> bytes" where
  "dec_dev_const bs = (let (x1, bs) = get16 bs; (x2, bs) = get16 bs; (x3, bs) = get16 bs;
       (x4, bs) = get8 bs; (x5, bs) = get8 bs; (x6, bs) = get8 bs; (x7, bs) = get8 bs;
       (x8, bs) = get16 bs; (x9, bs) = get8 bs; (x10, bs) = get8 bs in
     (\<lparr>DS4DSCYL = x1, DS4DSTRK = x2, DS4DEVTK = x3, DS4DEVI = x4, DS4DEVL = x5, DS4DEVK = x6,
       DS4DEVFG = x7, DS4DEVTL = x8, DS4DEVDT = x9, DS4DEVDB = x10\<rparr>, bs))"

lemma dec_enc_dev_const [simp, codec_simps]: "dec_dev_const (enc_dev_const x @ bs) = (x, bs)"
  by (simp add: dec_dev_const_def enc_dev_const_def)

lemma length_enc_dev_const [simp, codec_length]: "length (enc_dev_const x) = 14"
  by (simp add: enc_dev_const_def)

lemma snd_dec_dev_const [simp]: "snd (dec_dev_const bs) = drop 14 bs"
  by (simp add: dec_dev_const_def split_beta Let_def numeral_eq_Suc)

lemma image_dev_const [image_simps]:
  "14 \<le> length bs \<Longrightarrow> enc_dev_const (fst (dec_dev_const bs)) = take 14 bs"
  by (simp add: dec_dev_const_def enc_dev_const_def split_beta Let_def image_simps)

record format4_label_t =
  DS4KEYCD :: bytes
  DS4IDFMT :: u8
  DS4HPCHR :: cchhb_t
  DS4DSREC :: u16
  DS4HCCHH :: cchh_t
  DS4NOATK :: u16
  DS4VTOCI :: u8
  DS4NOEXT :: u8
  DS4SMSFG :: u8
  DS4DEVAC :: u8
  DS4DEVCT :: dev_const_t
  DS4AMTIM :: bytes
  DS4AMCAT :: bytes
  DS4R2TIM :: bytes
  f4_res1 :: bytes
  DS4F6PTR :: bytes
  DS4VTOCE :: extent_t
  f4_res2 :: bytes
  DS4EFLVL :: u8
  DS4EFPTR :: cchhb_t
  f4_res3 :: u8
  DS4DCYL :: u32
  f4_res4 :: bytes
  DS4DEVF2 :: u8
  f4_res5 :: u8

definition wf_f4 :: "format4_label_t \<Rightarrow> bool" where
  "wf_f4 f \<longleftrightarrow> length (DS4KEYCD f) = 44 \<and> length (DS4AMTIM f) = 8 \<and> length (DS4AMCAT f) = 3 \<and>
     length (DS4R2TIM f) = 8 \<and> length (f4_res1 f) = 5 \<and> length (DS4F6PTR f) = 5 \<and>
     length (f4_res2 f) = 10 \<and> length (f4_res4 f) = 2"

definition enc_f4 :: "format4_label_t \<Rightarrow> bytes" where
  "enc_f4 f = DS4KEYCD f @ DS4IDFMT f # enc_cchhb (DS4HPCHR f) @ be16 (DS4DSREC f) @
     enc_cchh (DS4HCCHH f) @ be16 (DS4NOATK f) @ DS4VTOCI f # DS4NOEXT f # DS4SMSFG f #
     DS4DEVAC f # enc_dev_const (DS4DEVCT f) @ DS4AMTIM f @ DS4AMCAT f @ DS4R2TIM f @
     f4_res1 f @ DS4F6PTR f @ enc_extent (DS4VTOCE f) @ f4_res2 f @ DS4EFLVL f #
     enc_cchhb (DS4EFPTR f) @ f4_res3 f # be32 (DS4DCYL f) @ f4_res4 f @
     [DS4DEVF2 f, f4_res5 f]"

definition dec_f4 :: "bytes \<Rightarrow> format4_label_t \<times> bytes" where
  "dec_f4 bs = (let (x1, bs) = getn 44 bs; (x2, bs) = get8 bs; (x3, bs) = dec_cchhb bs;
       (x4, bs) = get16 bs; (x5, bs) = dec_cchh bs; (x6, bs) = get16 bs; (x7, bs) = get8 bs;
       (x8, bs) = get8 bs; (x9, bs) = get8 bs; (x10, bs) = get8 bs; (x11, bs) = dec_dev_const bs;
       (x12, bs) = getn 8 bs; (x13, bs) = getn 3 bs; (x14, bs) = getn 8 bs; (x15, bs) = getn 5 bs;
       (x16, bs) = getn 5 bs; (x17, bs) = dec_extent bs; (x18, bs) = getn 10 bs;
       (x19, bs) = get8 bs; (x20, bs) = dec_cchhb bs; (x21, bs) = get8 bs; (x22, bs) = get32 bs;
       (x23, bs) = getn 2 bs; (x24, bs) = get8 bs; (x25, bs) = get8 bs in
     (\<lparr>DS4KEYCD = x1, DS4IDFMT = x2, DS4HPCHR = x3, DS4DSREC = x4, DS4HCCHH = x5, DS4NOATK = x6,
       DS4VTOCI = x7, DS4NOEXT = x8, DS4SMSFG = x9, DS4DEVAC = x10, DS4DEVCT = x11,
       DS4AMTIM = x12, DS4AMCAT = x13, DS4R2TIM = x14, f4_res1 = x15, DS4F6PTR = x16,
       DS4VTOCE = x17, f4_res2 = x18, DS4EFLVL = x19, DS4EFPTR = x20, f4_res3 = x21,
       DS4DCYL = x22, f4_res4 = x23, DS4DEVF2 = x24, f4_res5 = x25\<rparr>, bs))"

lemma dec_enc_f4: "wf_f4 f \<Longrightarrow> dec_f4 (enc_f4 f @ bs) = (f, bs)"
  by (simp add: dec_f4_def enc_f4_def wf_f4_def)

lemma length_enc_f4: "wf_f4 f \<Longrightarrow> length (enc_f4 f) = 140"
  by (simp add: enc_f4_def wf_f4_def)

lemma image_dec_f4: "length bs = 140 \<Longrightarrow> enc_f4 (fst (dec_f4 bs)) = bs"
  by (simp add: dec_f4_def enc_f4_def split_beta Let_def image_simps)

lemma wf_dec_f4: "length bs = 140 \<Longrightarrow> wf_f4 (fst (dec_f4 bs))"
  by (simp add: dec_f4_def wf_f4_def split_beta Let_def)

interpretation f4: struct_image enc_f4 dec_f4 wf_f4 140
  by unfold_locales (simp_all add: dec_enc_f4 length_enc_f4 image_dec_f4 wf_dec_f4)


section \<open>Format 5 DSCBs: free space in tracks and cylinders\<close>

record ds5ext_t =
  e_t :: u16
  e_fc :: u16
  e_ft :: u8

record format5_label_t =
  DS5KEYID :: bytes
  DS5AVEXT :: ds5ext_t
  DS5EXTAV :: "ds5ext_t list"
  DS5FMTID :: u8
  DS5MAVET :: "ds5ext_t list"
  DS5PTRDS :: cchhb_t

definition enc_ds5ext :: "ds5ext_t \<Rightarrow> bytes" where
  "enc_ds5ext x = be16 (e_t x) @ be16 (e_fc x) @ [e_ft x]"

definition dec_ds5ext :: "bytes \<Rightarrow> ds5ext_t \<times> bytes" where
  "dec_ds5ext bs = (let (x1, bs) = get16 bs; (x2, bs) = get16 bs; (x3, bs) = get8 bs in
     (\<lparr>e_t = x1, e_fc = x2, e_ft = x3\<rparr>, bs))"

definition wf_f5 :: "format5_label_t \<Rightarrow> bool" where
  "wf_f5 f \<longleftrightarrow> length (DS5KEYID f) = 4 \<and> length (DS5EXTAV f) = 7 \<and> length (DS5MAVET f) = 18"

definition enc_f5 :: "format5_label_t \<Rightarrow> bytes" where
  "enc_f5 f = DS5KEYID f @ enc_ds5ext (DS5AVEXT f) @ concat (map enc_ds5ext (DS5EXTAV f)) @
     DS5FMTID f # concat (map enc_ds5ext (DS5MAVET f)) @ enc_cchhb (DS5PTRDS f)"

definition dec_f5 :: "bytes \<Rightarrow> format5_label_t \<times> bytes" where
  "dec_f5 bs = (let (x1, bs) = getn 4 bs; (x2, bs) = dec_ds5ext bs;
       (x3, bs) = dec_list dec_ds5ext 7 bs; (x4, bs) = get8 bs;
       (x5, bs) = dec_list dec_ds5ext 18 bs; (x6, bs) = dec_cchhb bs in
     (\<lparr>DS5KEYID = x1, DS5AVEXT = x2, DS5EXTAV = x3, DS5FMTID = x4, DS5MAVET = x5,
       DS5PTRDS = x6\<rparr>, bs))"

lemma dec_enc_ds5ext [simp, codec_simps]: "dec_ds5ext (enc_ds5ext x @ bs) = (x, bs)"
  by (simp add: dec_ds5ext_def enc_ds5ext_def)

lemma length_enc_ds5ext [simp, codec_length]: "length (enc_ds5ext x) = 5"
  by (simp add: enc_ds5ext_def)

lemma snd_dec_ds5ext [simp]: "snd (dec_ds5ext bs) = drop 5 bs"
  by (simp add: dec_ds5ext_def split_beta Let_def numeral_eq_Suc)

lemma image_ds5ext [image_simps]:
  "5 \<le> length bs \<Longrightarrow> enc_ds5ext (fst (dec_ds5ext bs)) = take 5 bs"
  by (simp add: dec_ds5ext_def enc_ds5ext_def split_beta Let_def image_simps)

lemmas ds5ext_list_simps =
  dec_list_enc [where enc = enc_ds5ext and dec = dec_ds5ext]
  length_concat_enc [where enc = enc_ds5ext and k = 5]
  snd_dec_list [where dec = dec_ds5ext and k = 5]
  image_dec_list [where enc = enc_ds5ext and dec = dec_ds5ext and k = 5]

lemma dec_enc_f5: "wf_f5 f \<Longrightarrow> dec_f5 (enc_f5 f @ bs) = (f, bs)"
  by (simp add: dec_f5_def enc_f5_def wf_f5_def ds5ext_list_simps)

lemma length_enc_f5: "wf_f5 f \<Longrightarrow> length (enc_f5 f) = 140"
  by (simp add: enc_f5_def wf_f5_def ds5ext_list_simps)

lemma image_dec_f5: "length bs = 140 \<Longrightarrow> enc_f5 (fst (dec_f5 bs)) = bs"
  by (simp add: dec_f5_def enc_f5_def split_beta Let_def ds5ext_list_simps image_simps)

lemma wf_dec_f5: "length bs = 140 \<Longrightarrow> wf_f5 (fst (dec_f5 bs))"
  by (simp add: dec_f5_def wf_f5_def split_beta Let_def)

interpretation f5: struct_image enc_f5 dec_f5 wf_f5 140
  by unfold_locales (simp_all add: dec_enc_f5 length_enc_f5 image_dec_f5 wf_dec_f5)


section \<open>Format 7 DSCBs: free space in track intervals\<close>

record ds7ext_t =
  ea :: u32
  eb :: u32

record format7_label_t =
  DS7KEYID :: bytes
  DS7EXTNT :: "ds7ext_t list"
  DS7FMTID :: u8
  DS7ADEXT :: "ds7ext_t list"
  f7_res1 :: bytes
  DS7PTRDS :: cchhb_t

definition enc_ds7ext :: "ds7ext_t \<Rightarrow> bytes" where
  "enc_ds7ext x = be32 (ea x) @ be32 (eb x)"

definition dec_ds7ext :: "bytes \<Rightarrow> ds7ext_t \<times> bytes" where
  "dec_ds7ext bs = (let (x1, bs) = get32 bs; (x2, bs) = get32 bs in (\<lparr>ea = x1, eb = x2\<rparr>, bs))"

definition wf_f7 :: "format7_label_t \<Rightarrow> bool" where
  "wf_f7 f \<longleftrightarrow> length (DS7KEYID f) = 4 \<and> length (DS7EXTNT f) = 5 \<and>
     length (DS7ADEXT f) = 11 \<and> length (f7_res1 f) = 2"

definition enc_f7 :: "format7_label_t \<Rightarrow> bytes" where
  "enc_f7 f = DS7KEYID f @ concat (map enc_ds7ext (DS7EXTNT f)) @ DS7FMTID f #
     concat (map enc_ds7ext (DS7ADEXT f)) @ f7_res1 f @ enc_cchhb (DS7PTRDS f)"

definition dec_f7 :: "bytes \<Rightarrow> format7_label_t \<times> bytes" where
  "dec_f7 bs = (let (x1, bs) = getn 4 bs; (x2, bs) = dec_list dec_ds7ext 5 bs;
       (x3, bs) = get8 bs; (x4, bs) = dec_list dec_ds7ext 11 bs; (x5, bs) = getn 2 bs;
       (x6, bs) = dec_cchhb bs in
     (\<lparr>DS7KEYID = x1, DS7EXTNT = x2, DS7FMTID = x3, DS7ADEXT = x4, f7_res1 = x5,
       DS7PTRDS = x6\<rparr>, bs))"

lemma dec_enc_ds7ext [simp, codec_simps]: "dec_ds7ext (enc_ds7ext x @ bs) = (x, bs)"
  by (simp add: dec_ds7ext_def enc_ds7ext_def)

lemma length_enc_ds7ext [simp, codec_length]: "length (enc_ds7ext x) = 8"
  by (simp add: enc_ds7ext_def)

lemma snd_dec_ds7ext [simp]: "snd (dec_ds7ext bs) = drop 8 bs"
  by (simp add: dec_ds7ext_def split_beta Let_def)

lemma image_ds7ext [image_simps]:
  "8 \<le> length bs \<Longrightarrow> enc_ds7ext (fst (dec_ds7ext bs)) = take 8 bs"
  by (simp add: dec_ds7ext_def enc_ds7ext_def split_beta Let_def image_simps)

lemmas ds7ext_list_simps =
  dec_list_enc [where enc = enc_ds7ext and dec = dec_ds7ext]
  length_concat_enc [where enc = enc_ds7ext and k = 8]
  snd_dec_list [where dec = dec_ds7ext and k = 8]
  image_dec_list [where enc = enc_ds7ext and dec = dec_ds7ext and k = 8]

lemma dec_enc_f7: "wf_f7 f \<Longrightarrow> dec_f7 (enc_f7 f @ bs) = (f, bs)"
  by (simp add: dec_f7_def enc_f7_def wf_f7_def ds7ext_list_simps)

lemma length_enc_f7: "wf_f7 f \<Longrightarrow> length (enc_f7 f) = 140"
  by (simp add: enc_f7_def wf_f7_def ds7ext_list_simps)

lemma image_dec_f7: "length bs = 140 \<Longrightarrow> enc_f7 (fst (dec_f7 bs)) = bs"
  by (simp add: dec_f7_def enc_f7_def split_beta Let_def ds7ext_list_simps image_simps)

lemma wf_dec_f7: "length bs = 140 \<Longrightarrow> wf_f7 (fst (dec_f7 bs))"
  by (simp add: dec_f7_def wf_f7_def split_beta Let_def ds7ext_list_simps)

interpretation f7: struct_image enc_f7 dec_f7 wf_f7 140
  by unfold_locales (simp_all add: dec_enc_f7 length_enc_f7 image_dec_f7 wf_dec_f7)


section \<open>Format 9 DSCBs\<close>

record format9_label_t =
  DS9KEYID :: u8
  DS9SUBTY :: u8
  DS9NUMF9 :: u8
  f9_res1 :: bytes
  DS9FMTID :: u8
  f9_res2 :: bytes
  DS9PTRDS :: cchhb_t

definition wf_f9 :: "format9_label_t \<Rightarrow> bool" where
  "wf_f9 f \<longleftrightarrow> length (f9_res1 f) = 41 \<and> length (f9_res2 f) = 90"

definition enc_f9 :: "format9_label_t \<Rightarrow> bytes" where
  "enc_f9 f = DS9KEYID f # DS9SUBTY f # DS9NUMF9 f # f9_res1 f @ DS9FMTID f # f9_res2 f @
     enc_cchhb (DS9PTRDS f)"

definition dec_f9 :: "bytes \<Rightarrow> format9_label_t \<times> bytes" where
  "dec_f9 bs = (let (x1, bs) = get8 bs; (x2, bs) = get8 bs; (x3, bs) = get8 bs;
       (x4, bs) = getn 41 bs; (x5, bs) = get8 bs; (x6, bs) = getn 90 bs; (x7, bs) = dec_cchhb bs in
     (\<lparr>DS9KEYID = x1, DS9SUBTY = x2, DS9NUMF9 = x3, f9_res1 = x4, DS9FMTID = x5, f9_res2 = x6,
       DS9PTRDS = x7\<rparr>, bs))"

lemma dec_enc_f9: "wf_f9 f \<Longrightarrow> dec_f9 (enc_f9 f @ bs) = (f, bs)"
  by (simp add: dec_f9_def enc_f9_def wf_f9_def)

lemma length_enc_f9: "wf_f9 f \<Longrightarrow> length (enc_f9 f) = 140"
  by (simp add: enc_f9_def wf_f9_def)

lemma image_dec_f9: "length bs = 140 \<Longrightarrow> enc_f9 (fst (dec_f9 bs)) = bs"
  by (simp add: dec_f9_def enc_f9_def split_beta Let_def image_simps)

lemma wf_dec_f9: "length bs = 140 \<Longrightarrow> wf_f9 (fst (dec_f9 bs))"
  by (simp add: dec_f9_def wf_f9_def split_beta Let_def)

interpretation f9: struct_image enc_f9 dec_f9 wf_f9 140
  by unfold_locales (simp_all add: dec_enc_f9 length_enc_f9 image_dec_f9 wf_dec_f9)

end
