(* ===== verification/Vtoc_Addr.thy ===== *)
theory Vtoc_Addr
  imports Vtoc_Types
begin

text \<open>
  Cylinder-head addresses of \<open>libvtoc/vtoc.c\<close>.  A 16-bit cylinder field is too small for large
  volumes, so the upper twelve bits of the head field hold cylinder bits 16 to 27.  The lemmas say
  that packing and unpacking are inverse for cylinders below \<open>2^28\<close> and heads below 16, and that the
  conversions to track and block numbers are then the linear formulas one expects, with no
  wrap-around.
\<close>

section \<open>Operations\<close>

definition vtoc_set_extent :: "u8 \<Rightarrow> u8 \<Rightarrow> cchh_t \<Rightarrow> cchh_t \<Rightarrow> extent_t" where
  "vtoc_set_extent ti sn lower upper =
     \<lparr>typeind = ti, seqno = sn, llimit = lower, ulimit = upper\<rparr>"

definition vtoc_set_cchh :: "u32 \<Rightarrow> u16 \<Rightarrow> cchh_t" where
  "vtoc_set_cchh c h =
     \<lparr>a_cc = ucast c, a_hh = push_bit 4 (ucast (drop_bit 16 c)) OR h\<rparr>"

definition vtoc_get_cyl_from_cchh :: "cchh_t \<Rightarrow> u32" where
  "vtoc_get_cyl_from_cchh a = push_bit 12 (ucast (a_hh a AND 0xFFF0)) OR ucast (a_cc a)"

definition vtoc_get_head_from_cchh :: "cchh_t \<Rightarrow> u16" where
  "vtoc_get_head_from_cchh a = a_hh a AND 0x000F"

definition vtoc_set_ttr :: "u16 \<Rightarrow> u8 \<Rightarrow> ttr_t" where
  "vtoc_set_ttr tt r = \<lparr>ttr_tt = tt, ttr_r = r\<rparr>"

definition vtoc_set_cchhb :: "u32 \<Rightarrow> u16 \<Rightarrow> u8 \<Rightarrow> cchhb_t" where
  "vtoc_set_cchhb c h b =
     \<lparr>b_cc = ucast c, b_hh = push_bit 4 (ucast (drop_bit 16 c)) OR h, b_b = b\<rparr>"

definition vtoc_get_cyl_from_cchhb :: "cchhb_t \<Rightarrow> u32" where
  "vtoc_get_cyl_from_cchhb a = push_bit 12 (ucast (b_hh a AND 0xFFF0)) OR ucast (b_cc a)"

definition vtoc_get_head_from_cchhb :: "cchhb_t \<Rightarrow> u16" where
  "vtoc_get_head_from_cchhb a = b_hh a AND 0x000F"

definition cchhb2blk :: "cchhb_t \<Rightarrow> hd_geometry \<Rightarrow> u64" where
  "cchhb2blk p geo =
     ucast (vtoc_get_cyl_from_cchhb p) * ucast (heads geo) * ucast (sectors geo) +
     ucast (vtoc_get_head_from_cchhb p) * ucast (sectors geo) + ucast (b_b p)"

definition cchh2blk :: "cchh_t \<Rightarrow> hd_geometry \<Rightarrow> u64" where
  "cchh2blk p geo =
     ucast (vtoc_get_cyl_from_cchh p) * ucast (heads geo) * ucast (sectors geo) +
     ucast (vtoc_get_head_from_cchh p) * ucast (sectors geo)"

definition cchh2trk :: "cchh_t \<Rightarrow> hd_geometry \<Rightarrow> u32" where
  "cchh2trk p geo =
     vtoc_get_cyl_from_cchh p * ucast (heads geo) + ucast (vtoc_get_head_from_cchh p)"

definition vtoc_set_date :: "u8 \<Rightarrow> u16 \<Rightarrow> labeldate_t" where
  "vtoc_set_date y d = \<lparr>d_year = y, d_day = d\<rparr>"


section \<open>Packing and unpacking\<close>

lemma bit_FFF0: "bit (0xFFF0 :: u16) k \<longleftrightarrow> 4 \<le> k \<and> k < 16"
proof -
  have eq: "(0xFFF0 :: u16) = push_bit 4 (mask 12)" by (simp add: mask_eq_decr_exp)
  show ?thesis by (simp only: eq bit_push_bit_iff bit_mask_iff) auto
qed

lemma bit_000F: "bit (0x000F :: u16) k \<longleftrightarrow> k < 4"
proof -
  have eq: "(0x000F :: u16) = mask 4" by (simp add: mask_eq_decr_exp)
  show ?thesis by (simp only: eq bit_mask_iff) auto
qed

lemma head_field_cyl:
  fixes c :: u32 and h :: u16
  assumes "unat c < 2 ^ 28" and "unat h < 16"
  shows "push_bit 12 (ucast ((push_bit 4 (ucast (drop_bit 16 c)) OR h) AND 0xFFF0)) OR
     ucast (ucast c :: u16) = c" (is "?l = c")
proof (rule bit_word_eqI)
  fix n
  assume n: "n < LENGTH(32)"
  have h: "k < 4" if "bit h k" for k
    using that assms(2) bit_less_of_unat [of h 4 k] by simp
  have c: "k < 28" if "bit c k" for k
    using that assms(1) bit_less_of_unat [of c 28 k] by simp
  show "bit ?l n = bit c n"
    using n by (auto simp: bit_simps bit_FFF0 not_le not_less simp del: bit_numeral_word_iff dest: h c)
qed

lemma head_field_head:
  fixes c :: u16 and h :: u16
  assumes "unat h < 16"
  shows "(push_bit 4 c OR h) AND 0x000F = h" (is "?l = h")
proof (rule bit_word_eqI)
  fix n
  assume n: "n < LENGTH(16)"
  have h: "k < 4" if "bit h k" for k
    using that assms bit_less_of_unat [of h 4 k] by simp
  show "bit ?l n = bit h n"
    using n by (auto simp: bit_simps bit_000F not_le not_less simp del: bit_numeral_word_iff dest: h)
qed

text \<open>The addresses the functions are meant for.\<close>

definition cyl_ok :: "u32 \<Rightarrow> bool" where
  "cyl_ok c \<longleftrightarrow> unat c < 2 ^ 28"

definition head_ok :: "u16 \<Rightarrow> bool" where
  "head_ok h \<longleftrightarrow> unat h < 16"

lemma get_cyl_set_cchh [simp]:
  "cyl_ok c \<Longrightarrow> head_ok h \<Longrightarrow> vtoc_get_cyl_from_cchh (vtoc_set_cchh c h) = c"
  by (simp add: vtoc_get_cyl_from_cchh_def vtoc_set_cchh_def cyl_ok_def head_ok_def head_field_cyl)

lemma get_head_set_cchh [simp]:
  "head_ok h \<Longrightarrow> vtoc_get_head_from_cchh (vtoc_set_cchh c h) = h"
  by (simp add: vtoc_get_head_from_cchh_def vtoc_set_cchh_def head_ok_def head_field_head)

lemma get_cyl_set_cchhb [simp]:
  "cyl_ok c \<Longrightarrow> head_ok h \<Longrightarrow> vtoc_get_cyl_from_cchhb (vtoc_set_cchhb c h b) = c"
  by (simp add: vtoc_get_cyl_from_cchhb_def vtoc_set_cchhb_def cyl_ok_def head_ok_def head_field_cyl)

lemma get_head_set_cchhb [simp]:
  "head_ok h \<Longrightarrow> vtoc_get_head_from_cchhb (vtoc_set_cchhb c h b) = h"
  by (simp add: vtoc_get_head_from_cchhb_def vtoc_set_cchhb_def head_ok_def head_field_head)

lemma b_set_cchhb [simp]: "b_b (vtoc_set_cchhb c h b) = b"
  by (simp add: vtoc_set_cchhb_def)

lemma extent_sel [simp]:
  "llimit (vtoc_set_extent ti sn l u) = l" "ulimit (vtoc_set_extent ti sn l u) = u"
  "typeind (vtoc_set_extent ti sn l u) = ti" "seqno (vtoc_set_extent ti sn l u) = sn"
  by (simp_all add: vtoc_set_extent_def)


section \<open>Track and block numbers\<close>

lemma cyl_from_cchh_bound: "unat (vtoc_get_cyl_from_cchh a) < 2 ^ 28"
  unfolding vtoc_get_cyl_from_cchh_def
  by (rule unat_less_of_bits)
    (auto simp: bit_simps bit_FFF0 simp del: bit_numeral_word_iff dest: bit_imp_le_length)

lemma cyl_from_cchhb_bound: "unat (vtoc_get_cyl_from_cchhb a) < 2 ^ 28"
  unfolding vtoc_get_cyl_from_cchhb_def
  by (rule unat_less_of_bits)
    (auto simp: bit_simps bit_FFF0 simp del: bit_numeral_word_iff dest: bit_imp_le_length)

lemma head_from_cchh_bound: "unat (vtoc_get_head_from_cchh a) < 2 ^ 4"
  unfolding vtoc_get_head_from_cchh_def
  by (rule unat_less_of_bits)
    (auto simp: bit_simps bit_000F simp del: bit_numeral_word_iff)

lemma head_from_cchhb_bound: "unat (vtoc_get_head_from_cchhb a) < 2 ^ 4"
  unfolding vtoc_get_head_from_cchhb_def
  by (rule unat_less_of_bits)
    (auto simp: bit_simps bit_000F simp del: bit_numeral_word_iff)

lemma block_formula_nat:
  fixes c :: u32 and h :: u16 and hd s b :: u8
  assumes "unat c < 2 ^ 28" and "unat h < 2 ^ 4"
  shows "unat (ucast c * ucast hd * ucast s + ucast h * ucast s + ucast b :: u64) =
     (unat c * unat hd + unat h) * unat s + unat b"
proof -
  have "unat c * unat hd * unat s \<le> 2 ^ 28 * 2 ^ 8 * 2 ^ 8"
    using assms(1) by (intro mult_le_mono) (simp_all add: less_imp_le unat_u8_bound)
  moreover have "unat h * unat s \<le> 2 ^ 4 * 2 ^ 8"
    using assms(2) by (intro mult_le_mono) (simp_all add: less_imp_le unat_u8_bound)
  moreover have "unat b < 2 ^ 8" using unat_u8_bound [of b] by simp
  ultimately have less: "unat c * unat hd * unat s + unat h * unat s + unat b < 2 ^ 64"
    by simp
  have "unat (ucast c * ucast hd * ucast s + ucast h * ucast s + ucast b :: u64) =
      unat c * unat hd * unat s + unat h * unat s + unat b"
    by (rule unat_eqI) (use less in simp_all)
  then show ?thesis
    by (simp add: add_mult_distrib)
qed

text \<open>C27: For every stored address and every geometry the block number is cylinder, head and block
  combined linearly: the 64-bit computation never wraps around.\<close>

theorem cchhb2blk_exact:
  "unat (cchhb2blk p geo) =
     (unat (vtoc_get_cyl_from_cchhb p) * unat (heads geo) + unat (vtoc_get_head_from_cchhb p)) *
       unat (sectors geo) + unat (b_b p)"
  unfolding cchhb2blk_def
  by (rule block_formula_nat [OF cyl_from_cchhb_bound head_from_cchhb_bound])

lemma cchh2blk_exact:
  "unat (cchh2blk p geo) =
     (unat (vtoc_get_cyl_from_cchh p) * unat (heads geo) + unat (vtoc_get_head_from_cchh p)) *
       unat (sectors geo)"
  using block_formula_nat [OF cyl_from_cchh_bound head_from_cchh_bound, of p "heads geo" "sectors geo" p 0]
  by (simp add: cchh2blk_def)

lemma cchh2trk_exact:
  assumes "unat (vtoc_get_cyl_from_cchh p) * unat (heads geo) + 16 \<le> 2 ^ 32"
  shows "unat (cchh2trk p geo) =
     unat (vtoc_get_cyl_from_cchh p) * unat (heads geo) + unat (vtoc_get_head_from_cchh p)"
proof -
  have less: "unat (vtoc_get_cyl_from_cchh p) * unat (heads geo) +
      unat (vtoc_get_head_from_cchh p) < 2 ^ 32"
    using assms head_from_cchh_bound [of p] by simp
  show ?thesis
    by (rule unat_eqI) (use less in \<open>simp_all add: cchh2trk_def\<close>)
qed

text \<open>The packed address of a track number.\<close>

definition trk_addr :: "hd_geometry \<Rightarrow> nat \<Rightarrow> cchh_t" where
  "trk_addr geo n = vtoc_set_cchh (word_of_nat (n div unat (heads geo)))
     (word_of_nat (n mod unat (heads geo)))"

definition geo_ok :: "hd_geometry \<Rightarrow> bool" where
  "geo_ok geo \<longleftrightarrow> 0 < unat (heads geo) \<and> unat (heads geo) \<le> 16"

text \<open>Splitting a track number, packing the address and converting it back gives the number, for
  every track of the first \<open>2^28 - 1\<close> cylinders.\<close>

lemma trk_addr_inverse:
  assumes "geo_ok geo" and "n < (2 ^ 28 - 1) * unat (heads geo)"
  shows "unat (cchh2trk (trk_addr geo n) geo) = n"
proof -
  let ?H = "unat (heads geo)"
  have H: "0 < ?H" "?H \<le> 16" using assms(1) by (auto simp: geo_ok_def)
  have q: "n div ?H < 2 ^ 28 - 1" using assms(2) H(1) by (simp add: less_mult_imp_div_less)
  have r: "n mod ?H < 16" using H by (meson mod_less_divisor order_less_le_trans)
  have c: "unat (word_of_nat (n div ?H) :: u32) = n div ?H"
    using q by (intro unat_of_nat_small) simp
  have h: "unat (word_of_nat (n mod ?H) :: u16) = n mod ?H"
    using r by (intro unat_of_nat_small) simp
  have ok: "cyl_ok (word_of_nat (n div ?H))" "head_ok (word_of_nat (n mod ?H))"
    using q r by (simp_all add: cyl_ok_def head_ok_def c h)
  have "n div ?H * ?H \<le> (2 ^ 28 - 1) * 16"
    using q H by (intro mult_le_mono) auto
  then have "unat (vtoc_get_cyl_from_cchh (trk_addr geo n)) * ?H + 16 \<le> 2 ^ 32"
    using ok by (simp add: trk_addr_def c)
  then have "unat (cchh2trk (trk_addr geo n) geo) = n div ?H * ?H + n mod ?H"
    using ok by (simp add: cchh2trk_exact trk_addr_def c h)
  then show ?thesis by simp
qed

text \<open>C26: Packing a cylinder below \<open>2^28\<close> and a head below 16 into a \<open>cchh_t\<close> loses nothing, and the
  track number of the address is cylinder times heads plus head, without wrap-around as long as the
  number fits into 32 bits.\<close>

theorem cchh_roundtrip:
  assumes "unat c < 2 ^ 28" "unat h < 16" "unat c * unat (heads geo) + 16 \<le> 2 ^ 32"
  shows "vtoc_get_cyl_from_cchh (vtoc_set_cchh c h) = c \<and>
    vtoc_get_head_from_cchh (vtoc_set_cchh c h) = h \<and>
    unat (cchh2trk (vtoc_set_cchh c h) geo) = unat c * unat (heads geo) + unat h"
proof -
  have "cyl_ok c" "head_ok h" using assms by (simp_all add: cyl_ok_def head_ok_def)
  then show ?thesis using assms(3) by (simp add: cchh2trk_exact)
qed

theorem cchh_roundtrip_witness:
  "vtoc_get_cyl_from_cchh (vtoc_set_cchh 65667 14) = 65667 \<and>
   vtoc_get_head_from_cchh (vtoc_set_cchh 65667 14) = 14 \<and>
   unat (cchh2trk (vtoc_set_cchh 65667 14)
     \<lparr>heads = 15, sectors = 12, cylinders = 65534, geo_start = 0\<rparr>) = 985019"
  using cchh_roundtrip [of 65667 14 "\<lparr>heads = 15, sectors = 12, cylinders = 65534, geo_start = 0\<rparr>"]
  by simp

end
