(* ===== verification/Vtoc_Label.thy ===== *)
theory Vtoc_Label
  imports Vtoc_Ebcdic Vtoc_Addr
begin

text \<open>
  Label handling of \<open>libvtoc/vtoc.c\<close>: reading and writing the volume label and the DSCBs, setting
  and getting the volume serial, key and label identifier, and the initial contents of every DSCB
  format.  Failing I/O ends the program through \<open>vtoc_error\<close>; the model returns the message it
  prints.  The lemmas show that labels survive a write and a read, that the volume serial and the
  label identifiers survive the code page conversions, and that all initialised labels are
  well-formed.
\<close>

section \<open>Constants of include/lib/vtoc.h\<close>

definition VTOC_START_CC :: u32 where "VTOC_START_CC = 0x0"
definition VTOC_START_HH :: u16 where "VTOC_START_HH = 0x1"
definition FIRST_USABLE_TRK :: nat where "FIRST_USABLE_TRK = 2"
definition DASD_3380_TYPE :: u16 where "DASD_3380_TYPE = 13184"
definition DASD_3390_TYPE :: u16 where "DASD_3390_TYPE = 13200"
definition DASD_9345_TYPE :: u16 where "DASD_9345_TYPE = 37701"
definition DASD_3380_VALUE :: u16 where "DASD_3380_VALUE = 0xbb60"
definition DASD_3390_VALUE :: u16 where "DASD_3390_VALUE = 0xe5a2"
definition DASD_9345_VALUE :: u16 where "DASD_9345_VALUE = 0xbc98"
definition VOLSER_LENGTH :: nat where "VOLSER_LENGTH = 6"
definition BIG_DISK_SIZE :: u32 where "BIG_DISK_SIZE = 0x10000"
definition LV_COMPAT_CYL :: u32 where "LV_COMPAT_CYL = 0xFFFE"

lemmas vtoc_constants =
  VTOC_START_CC_def VTOC_START_HH_def FIRST_USABLE_TRK_def DASD_3380_TYPE_def DASD_3390_TYPE_def
  DASD_9345_TYPE_def DASD_3380_VALUE_def DASD_3390_VALUE_def DASD_9345_VALUE_def
  VOLSER_LENGTH_def BIG_DISK_SIZE_def LV_COMPAT_CYL_def


section \<open>Errors\<close>

datatype failure = unable_to_open | unable_to_seek | unable_to_write | unable_to_read

text \<open>The text \<open>vtoc_error\<close> prints to standard error before it exits with status 1.\<close>

fun vtoc_error :: "failure \<Rightarrow> string \<Rightarrow> string \<Rightarrow> string" where
  "vtoc_error unable_to_open s1 s2 =
     ''\<newline>VTOC error: opening device '' @ [CHR 0x27] @ s1 @ [CHR 0x27] @ '' failed.\<newline>'' @ s2 @ ''\<newline>''"
| "vtoc_error unable_to_seek s1 s2 =
     ''\<newline>VTOC error: seeking device '' @ [CHR 0x27] @ s1 @ [CHR 0x27] @ '' failed.\<newline>'' @ s2 @ ''\<newline>''"
| "vtoc_error unable_to_write s1 s2 =
     ''\<newline>VTOC error: writing to device '' @ [CHR 0x27] @ s1 @ [CHR 0x27] @ '' failed,\<newline>'' @ s2 @ ''\<newline>''"
| "vtoc_error unable_to_read s1 s2 =
     ''\<newline>VTOC error: reading from device '' @ [CHR 0x27] @ s1 @ [CHR 0x27] @ '' failed.\<newline>'' @ s2 @ ''\<newline>''"


section \<open>Volume label\<close>

definition vtoc_volume_label_init :: "volume_label_t \<Rightarrow> volume_label_t" where
  "vtoc_volume_label_init v =
     (let buffer = vtoc_ebcdic_enc (replicate 84 0x20) (replicate 84 0x20) 84
      in fst (dec_vlabel (overwrite (enc_vlabel v) 0 buffer)))"

definition vtoc_read_volume_label :: "device \<Rightarrow> nat \<Rightarrow> string + volume_label_t" where
  "vtoc_read_volume_label d vlabel_start =
     (if \<not> open_rdonly d then Inl (vtoc_error unable_to_open (dev_name d) ''Could not read volume label.'')
      else if \<not> seek_ok d vlabel_start then
        Inl (vtoc_error unable_to_seek (dev_name d) ''Could not read volume label.'')
      else let bs = fd_read d vlabel_start 92 in
        if length bs \<noteq> 92 then Inl (vtoc_error unable_to_read (dev_name d) ''Could not read volume label.'')
        else Inr (fst (dec_vlabel bs)))"

text \<open>A write that fails half-way leaves the bytes it stored on the device, so the device is part
  of the result in either case.\<close>

definition vtoc_write_volume_label ::
  "device \<Rightarrow> nat \<Rightarrow> volume_label_t \<Rightarrow> (string + unit) \<times> device" where
  "vtoc_write_volume_label d vlabel_start v =
     (if \<not> open_wronly d then
        (Inl (vtoc_error unable_to_open (dev_name d) ''Could not write volume label.''), d)
      else if \<not> seek_ok d vlabel_start then
        (Inl (vtoc_error unable_to_seek (dev_name d) ''Could not write volume label.''), d)
      else let (rc, d') = fd_write d vlabel_start (enc_vlabel v) in
        if rc \<noteq> 92 then
          (Inl (vtoc_error unable_to_write (dev_name d) ''Could not write volume label.''), d')
        else (Inr (), d'))"

text \<open>The serial is cut to six characters, upper-cased, translated and padded with EBCDIC
  blanks.  \<open>s\<close> is the local buffer of the C function after each of its statements.\<close>

definition vtoc_volume_label_set_volser :: "volume_label_t \<Rightarrow> bytes \<Rightarrow> volume_label_t" where
  "vtoc_volume_label_set_volser v volser =
     (let i = strlen volser;
          s0 = bytes_of ''      '' @ [0];
          s1 = vtoc_ebcdic_enc s0 s0 VOLSER_LENGTH;
          id1 = overwrite (volid v) 0 (strncpy_data s1 VOLSER_LENGTH);
          i = (if i > VOLSER_LENGTH then VOLSER_LENGTH else i);
          s2 = overwrite s1 0 (strncpy_data volser i);
          s3 = map c_toupper (take i s2) @ drop i s2;
          s4 = s3[VOLSER_LENGTH := 0];
          s5 = vtoc_ebcdic_enc s4 s4 i
      in v\<lparr>volid := overwrite id1 0 (strncpy_data s5 i)\<rparr>)"

definition vtoc_volume_label_get_volser :: "volume_label_t \<Rightarrow> bytes" where
  "vtoc_volume_label_get_volser v =
     vtoc_ebcdic_dec (volid v) (replicate VOLSER_LENGTH 0) VOLSER_LENGTH @ [0]"

definition vtoc_volume_label_set_key :: "volume_label_t \<Rightarrow> bytes \<Rightarrow> volume_label_t" where
  "vtoc_volume_label_set_key v key =
     v\<lparr>volkey := overwrite (volkey v) 0 (strncpy_data (vtoc_ebcdic_enc key (replicate 4 0) 4) 4)\<rparr>"

definition vtoc_volume_label_set_label :: "volume_label_t \<Rightarrow> bytes \<Rightarrow> volume_label_t" where
  "vtoc_volume_label_set_label v lbl =
     v\<lparr>vollbl := overwrite (vollbl v) 0 (strncpy_data (vtoc_ebcdic_enc lbl (replicate 4 0) 4) 4)\<rparr>"

definition vtoc_volume_label_get_label :: "volume_label_t \<Rightarrow> bytes" where
  "vtoc_volume_label_get_label v = vtoc_ebcdic_dec (vollbl v) (replicate 4 0) 4 @ [0]"


section \<open>Reading and writing DSCBs\<close>

text \<open>One \<open>read\<close> of a label the caller asked for, at the current file position; the next one
  continues behind it.\<close>

definition read_dscb ::
  "device \<Rightarrow> (bytes \<Rightarrow> 'a \<times> bytes) \<Rightarrow> string \<Rightarrow> bool \<Rightarrow> nat \<Rightarrow> string + 'a option \<times> nat" where
  "read_dscb d dec msg wanted pos =
     (if \<not> wanted then Inr (None, pos)
      else let bs = fd_read d pos 140 in
        if length bs \<noteq> 140 then Inl (vtoc_error unable_to_read (dev_name d) msg)
        else Inr (Some (fst (dec bs)), pos + 140))"

text \<open>The flags say which of the four label pointers are not null.\<close>

definition vtoc_read_label ::
  "device \<Rightarrow> nat \<Rightarrow> bool \<Rightarrow> bool \<Rightarrow> bool \<Rightarrow> bool \<Rightarrow>
   string + format1_label_t option \<times> format4_label_t option \<times>
     format5_label_t option \<times> format7_label_t option" where
  "vtoc_read_label d position w1 w4 w5 w7 =
     (if \<not> open_rdonly d then Inl (vtoc_error unable_to_open (dev_name d) ''Could not read VTOC labels.'')
      else if \<not> seek_ok d position then
        Inl (vtoc_error unable_to_seek (dev_name d) ''Could not read VTOC labels.'')
      else
        bind_err (read_dscb d dec_f1 ''Could not read VTOC FMT1 DSCB.'' w1 position) (\<lambda>(f1, p).
        bind_err (read_dscb d dec_f4 ''Could not read VTOC FMT4 DSCB.'' w4 p) (\<lambda>(f4, p).
        bind_err (read_dscb d dec_f5 ''Could not read VTOC FMT5 DSCB.'' w5 p) (\<lambda>(f5, p).
        bind_err (read_dscb d dec_f7 ''Could not read VTOC FMT7 DSCB.'' w7 p) (\<lambda>(f7, p).
          Inr (f1, f4, f5, f7))))))"

text \<open>The labels the caller passed, with the messages for them, are written one behind the other;
  the first short write ends the program.\<close>

fun write_dscbs :: "device \<Rightarrow> nat \<Rightarrow> (bytes \<times> string) list \<Rightarrow> (string + unit) \<times> device" where
  "write_dscbs d pos [] = (Inr (), d)"
| "write_dscbs d pos ((bs, msg) # rest) =
     (let (rc, d') = fd_write d pos bs in
      if rc \<noteq> 140 then (Inl (vtoc_error unable_to_write (dev_name d) msg), d')
      else write_dscbs d' (pos + 140) rest)"

definition opt_dscb :: "('a \<Rightarrow> bytes) \<Rightarrow> string \<Rightarrow> 'a option \<Rightarrow> (bytes \<times> string) list" where
  "opt_dscb enc msg x = (case x of None \<Rightarrow> [] | Some l \<Rightarrow> [(enc l, msg)])"

definition vtoc_write_label ::
  "device \<Rightarrow> nat \<Rightarrow> format1_label_t option \<Rightarrow> format4_label_t option \<Rightarrow>
   format5_label_t option \<Rightarrow> format7_label_t option \<Rightarrow> format9_label_t option \<Rightarrow>
   (string + unit) \<times> device" where
  "vtoc_write_label d position f1 f4 f5 f7 f9 =
     (if \<not> open_wronly d then
        (Inl (vtoc_error unable_to_open (dev_name d) ''Could not write VTOC labels.''), d)
      else if \<not> seek_ok d position then
        (Inl (vtoc_error unable_to_seek (dev_name d) ''Could not write VTOC labels.''), d)
      else write_dscbs d position
        (opt_dscb enc_f1 ''Could not write VTOC FMT1 DSCB.'' f1 @
         opt_dscb enc_f4 ''Could not write VTOC FMT4 DSCB.'' f4 @
         opt_dscb enc_f5 ''Could not write VTOC FMT5 DSCB.'' f5 @
         opt_dscb enc_f7 ''Could not write VTOC FMT7 DSCB.'' f7 @
         opt_dscb enc_f9 ''Could not write VTOC FMT9 DSCB.'' f9))"


section \<open>Initial labels\<close>

definition zero_cchhb :: cchhb_t where "zero_cchhb = \<lparr>b_cc = 0, b_hh = 0, b_b = 0\<rparr>"
definition zero_cchh :: cchh_t where "zero_cchh = \<lparr>a_cc = 0, a_hh = 0\<rparr>"
definition zero_extent :: extent_t where
  "zero_extent = \<lparr>typeind = 0, seqno = 0, llimit = zero_cchh, ulimit = zero_cchh\<rparr>"
definition zero_ds5ext :: ds5ext_t where "zero_ds5ext = \<lparr>e_t = 0, e_fc = 0, e_ft = 0\<rparr>"
definition zero_ds7ext :: ds7ext_t where "zero_ds7ext = \<lparr>ea = 0, eb = 0\<rparr>"

lemmas zero_structs = zero_cchhb_def zero_cchh_def zero_extent_def zero_ds5ext_def zero_ds7ext_def

text \<open>Every field of the label is assigned, so its old contents do not matter.\<close>

definition vtoc_init_format4_label ::
  "u32 \<Rightarrow> u32 \<Rightarrow> u32 \<Rightarrow> u32 \<Rightarrow> u32 \<Rightarrow> u16 \<Rightarrow> format4_label_t" where
  "vtoc_init_format4_label compat_cylinders real_cylinders tracks blocks blksize dev_type =
     \<lparr>DS4KEYCD = replicate 44 0x04, DS4IDFMT = 0xf4, DS4HPCHR = vtoc_set_cchhb 0 0 0,
      DS4DSREC = ucast (blocks - 2), DS4HCCHH = vtoc_set_cchh 0 0, DS4NOATK = 0, DS4VTOCI = 0,
      DS4NOEXT = 1, DS4SMSFG = 0, DS4DEVAC = 0,
      DS4DEVCT = \<lparr>DS4DSCYL = ucast compat_cylinders, DS4DSTRK = ucast tracks,
        DS4DEVTK = (if dev_type = DASD_3380_TYPE then DASD_3380_VALUE
          else if dev_type = DASD_3390_TYPE then DASD_3390_VALUE
          else if dev_type = DASD_9345_TYPE then DASD_9345_VALUE
          else ucast (blocks * blksize)),
        DS4DEVI = 0, DS4DEVL = 0, DS4DEVK = 0, DS4DEVFG = 0x30, DS4DEVTL = 0,
        DS4DEVDT = ucast blocks, DS4DEVDB = 0\<rparr>,
      DS4AMTIM = replicate 8 0, DS4AMCAT = replicate 3 0, DS4R2TIM = replicate 8 0,
      f4_res1 = replicate 5 0, DS4F6PTR = replicate 5 0,
      DS4VTOCE = vtoc_set_extent 0x01 0x00 \<lparr>a_cc = ucast VTOC_START_CC, a_hh = VTOC_START_HH\<rparr>
        \<lparr>a_cc = ucast VTOC_START_CC, a_hh = VTOC_START_HH\<rparr>,
      f4_res2 = replicate 10 0, DS4EFLVL = 0, DS4EFPTR = zero_cchhb, f4_res3 = 0,
      DS4DCYL = real_cylinders, f4_res4 = replicate 2 0, DS4DEVF2 = 0x40, f4_res5 = 0\<rparr>"

definition vtoc_init_format5_label :: format5_label_t where
  "vtoc_init_format5_label =
     \<lparr>DS5KEYID = replicate 4 0x05, DS5AVEXT = zero_ds5ext, DS5EXTAV = replicate 7 zero_ds5ext,
      DS5FMTID = 0xf5, DS5MAVET = replicate 18 zero_ds5ext, DS5PTRDS = zero_cchhb\<rparr>"

definition vtoc_init_format7_label :: format7_label_t where
  "vtoc_init_format7_label =
     \<lparr>DS7KEYID = replicate 4 0x07, DS7EXTNT = replicate 5 zero_ds7ext, DS7FMTID = 0xf7,
      DS7ADEXT = replicate 11 zero_ds7ext, f7_res1 = replicate 2 0, DS7PTRDS = zero_cchhb\<rparr>"

text \<open>\<open>tm_year\<close> and \<open>tm_yday\<close> are the fields of today's \<open>struct tm\<close>; the assignments to the label
  keep their low 8 and 16 bits.  Only \<open>DS1FMTID\<close> keeps its old value.\<close>

definition vtoc_init_format_1_8_label ::
  "int \<Rightarrow> int \<Rightarrow> u32 \<Rightarrow> extent_t \<Rightarrow> format1_label_t \<Rightarrow> format1_label_t" where
  "vtoc_init_format_1_8_label tm_year tm_yday blksize part_extent f1 =
     (let str = vtoc_ebcdic_enc (bytes_of ''PART    .NEW                                '')
            (bytes_of ''PART    .NEW                                '') 44;
          sysc = vtoc_ebcdic_enc (bytes_of ''IBM LINUX    '') (replicate 13 0) 13;
          today = vtoc_set_date (word_of_int tm_year) (word_of_int tm_yday)
      in \<lparr>DS1DSNAM = strncpy_data str 44, DS1FMTID = DS1FMTID f1,
          DS1DSSN = strncpy_data (bytes_of ''      '') 6, DS1VOLSQ = 0x0001, DS1CREDT = today,
          DS1EXPDT = vtoc_set_date 0x63 0x016D, DS1NOEPV = 0x01, DS1NOBDB = 0x00, DS1FLAG1 = 0x00,
          DS1SYSCD = strncpy_data sysc 13, DS1REFD = today, DS1SMSFG = 0x00, DS1SCXTF = 0x00,
          DS1SCXTV = 0x0000, DS1DSRG1 = 0x00, DS1DSRG2 = 0x00, DS1RECFM = 0x88, DS1OPTCD = 0x00,
          DS1BLKL = ucast blksize, DS1LRECL = ucast blksize, DS1KEYL = 0x00, DS1RKP = 0x0000,
          DS1DSIND = 0x80, DS1SCAL1 = 0x80, DS1SCAL3 = replicate 3 0,
          DS1LSTAR = vtoc_set_ttr 0x0000 0x00, DS1TRBAL = 0x00, f1_res1 = 0,
          DS1EXT1 = part_extent, DS1EXT2 = zero_extent, DS1EXT3 = zero_extent,
          DS1PTRDS = vtoc_set_cchhb 0x0000 0x0000 0x00\<rparr>)"

definition vtoc_init_format1_label ::
  "int \<Rightarrow> int \<Rightarrow> u32 \<Rightarrow> extent_t \<Rightarrow> format1_label_t \<Rightarrow> format1_label_t" where
  "vtoc_init_format1_label tm_year tm_yday blksize part_extent f1 =
     (vtoc_init_format_1_8_label tm_year tm_yday blksize part_extent f1)\<lparr>DS1FMTID := 0xf1\<rparr>"

definition vtoc_init_format8_label ::
  "int \<Rightarrow> int \<Rightarrow> u32 \<Rightarrow> extent_t \<Rightarrow> format1_label_t \<Rightarrow> format1_label_t" where
  "vtoc_init_format8_label tm_year tm_yday blksize part_extent f8 =
     (vtoc_init_format_1_8_label tm_year tm_yday blksize part_extent f8)\<lparr>DS1FMTID := 0xf8\<rparr>"

definition vtoc_update_format8_label :: "cchhb_t \<Rightarrow> format1_label_t \<Rightarrow> format1_label_t" where
  "vtoc_update_format8_label associated_f9 f8 = f8\<lparr>DS1PTRDS := associated_f9\<rparr>"

definition vtoc_init_format9_label :: "format9_label_t \<Rightarrow> format9_label_t" where
  "vtoc_init_format9_label f9 =
     f9\<lparr>DS9KEYID := 0x09, DS9SUBTY := 0x01, DS9NUMF9 := 1, DS9FMTID := 0xf9\<rparr>"

definition vtoc_update_format4_label :: "format4_label_t \<Rightarrow> cchhb_t \<Rightarrow> u16 \<Rightarrow> format4_label_t" where
  "vtoc_update_format4_label f4 highest_f1 unused_update =
     f4\<lparr>DS4HPCHR := highest_f1, DS4DSREC := unused_update\<rparr>"


section \<open>Well-formedness of the initial labels\<close>

lemma wf_init_format4 [simp]: "wf_f4 (vtoc_init_format4_label cc rc tr bl bs dt)"
  by (simp add: wf_f4_def vtoc_init_format4_label_def)

lemma wf_init_format5 [simp]: "wf_f5 vtoc_init_format5_label"
  by (simp add: wf_f5_def vtoc_init_format5_label_def)

lemma wf_init_format7 [simp]: "wf_f7 vtoc_init_format7_label"
  by (simp add: wf_f7_def vtoc_init_format7_label_def)

lemma wf_init_format_1_8 [simp]: "wf_f1 (vtoc_init_format_1_8_label y d bs ext f)"
  by (simp add: wf_f1_def vtoc_init_format_1_8_label_def Let_def)

lemma wf_init_format1 [simp]: "wf_f1 (vtoc_init_format1_label y d bs ext f)"
  using wf_init_format_1_8 [of y d bs ext f] by (simp add: wf_f1_def vtoc_init_format1_label_def)

lemma wf_init_format8 [simp]: "wf_f1 (vtoc_init_format8_label y d bs ext f)"
  using wf_init_format_1_8 [of y d bs ext f] by (simp add: wf_f1_def vtoc_init_format8_label_def)

lemma wf_update_format8 [simp]: "wf_f1 (vtoc_update_format8_label a f) = wf_f1 f"
  by (simp add: wf_f1_def vtoc_update_format8_label_def)

lemma wf_init_format9 [simp]: "wf_f9 (vtoc_init_format9_label f) = wf_f9 f"
  by (simp add: wf_f9_def vtoc_init_format9_label_def)

lemma wf_update_format4 [simp]: "wf_f4 (vtoc_update_format4_label f h u) = wf_f4 f"
  by (simp add: wf_f4_def vtoc_update_format4_label_def)


section \<open>Labels on the device\<close>

lemma overwrite_append:
  "off + length xs + length ys \<le> length dst \<Longrightarrow>
     overwrite (overwrite dst off xs) (off + length xs) ys = overwrite dst off (xs @ ys)"
  by (simp add: overwrite_def ac_simps)

lemma overwrite_Nil [simp]: "overwrite dst off [] = dst"
  by (simp add: overwrite_def)

lemma fd_read_overwrite:
  "pos + length xs \<le> length (content d) \<Longrightarrow> off + n \<le> length xs \<Longrightarrow>
     fd_read (d\<lparr>content := overwrite (content d) pos xs\<rparr>) (pos + off) n = take n (drop off xs)"
  by (simp add: fd_read_def overwrite_def)

lemma length_dscbs:
  "list_all (\<lambda>(bs, msg). length bs = 140) items \<Longrightarrow>
     length (concat (map fst items)) = 140 * length items"
  by (induction items) auto

lemma write_dscbs_ok:
  assumes "list_all (\<lambda>(bs, msg). length bs = 140) items"
    and "pos + 140 * length items \<le> length (content d)"
  shows "write_dscbs d pos items =
    (Inr (), d\<lparr>content := overwrite (content d) pos (concat (map fst items))\<rparr>)"
  using assms
proof (induction items arbitrary: d pos)
  case Nil
  then show ?case by simp
next
  case (Cons item items)
  obtain bs msg where item: "item = (bs, msg)" by (cases item)
  have len: "length bs = 140" "list_all (\<lambda>(bs, msg). length bs = 140) items"
    using Cons.prems(1) by (simp_all add: item)
  have fits: "pos + 140 \<le> length (content d)" "pos + 140 + 140 * length items \<le> length (content d)"
    using Cons.prems(2) by simp_all
  have clen: "length (concat (map fst items)) = 140 * length items"
    using len(2) by (rule length_dscbs)
  define d' where "d' = d\<lparr>content := overwrite (content d) pos bs\<rparr>"
  have w: "fd_write d pos bs = (140, d')"
    using fits(1) len(1) by (simp add: fd_write_def Let_def d'_def min_def)
  have "write_dscbs d' (pos + 140) items =
      (Inr (), d'\<lparr>content := overwrite (content d') (pos + 140) (concat (map fst items))\<rparr>)"
    using fits len by (intro Cons.IH) (simp_all add: d'_def)
  then show ?case
    using fits len clen overwrite_append [of pos bs "concat (map fst items)" "content d"]
    by (simp add: item w d'_def)
qed

lemma read_dscb_image:
  assumes "struct_image enc dec ok 140" and "ok x"
    and "pos + length xs \<le> length (content d)" and "off + 140 \<le> length xs"
    and "take 140 (drop off xs) = enc x"
  shows "read_dscb (d\<lparr>content := overwrite (content d) pos xs\<rparr>) dec msg True (pos + off) =
    Inr (Some x, pos + off + 140)"
  using assms fd_read_overwrite [of pos xs d off 140]
    struct_image.image_length [OF assms(1,2)] struct_image.fst_dec_image [OF assms(1,2)]
  by (simp add: read_dscb_def Let_def)

lemma read_dscb_unwanted [simp]: "read_dscb d dec msg False pos = Inr (None, pos)"
  by (simp add: read_dscb_def)

text \<open>The bytes of the labels that are present, in the order they are written.\<close>

definition opt_image :: "('a \<Rightarrow> bytes) \<Rightarrow> 'a option \<Rightarrow> bytes" where
  "opt_image enc x = (case x of None \<Rightarrow> [] | Some l \<Rightarrow> enc l)"

lemma read_dscb_opt:
  assumes "struct_image enc dec ok 140" and "pred_option ok x"
    and "pos + length xs \<le> length (content d)" and "xs = before @ opt_image enc x @ after"
    and "off = length before"
  shows "read_dscb (d\<lparr>content := overwrite (content d) pos xs\<rparr>) dec msg (x \<noteq> None) (pos + off) =
    Inr (x, pos + (off + length (opt_image enc x)))"
proof (cases x)
  case None
  then show ?thesis by (simp add: opt_image_def)
next
  case (Some l)
  then have l: "ok l" "length (enc l) = 140"
    using assms(2) struct_image.image_length [OF assms(1)] by auto
  then show ?thesis
    using read_dscb_image [OF assms(1) l(1) assms(3), of off msg] assms Some
    by (simp add: opt_image_def)
qed

lemma opt_dscb_image: "concat (map fst (opt_dscb enc msg x)) = opt_image enc x"
  by (simp add: opt_dscb_def opt_image_def split: option.splits)

lemma opt_dscb_lengths:
  "pred_option wf_f1 f1 \<Longrightarrow> list_all (\<lambda>(bs, msg). length bs = 140) (opt_dscb enc_f1 m f1)"
  "pred_option wf_f4 f4 \<Longrightarrow> list_all (\<lambda>(bs, msg). length bs = 140) (opt_dscb enc_f4 m f4)"
  "pred_option wf_f5 f5 \<Longrightarrow> list_all (\<lambda>(bs, msg). length bs = 140) (opt_dscb enc_f5 m f5)"
  "pred_option wf_f7 f7 \<Longrightarrow> list_all (\<lambda>(bs, msg). length bs = 140) (opt_dscb enc_f7 m f7)"
  "pred_option wf_f9 f9 \<Longrightarrow> list_all (\<lambda>(bs, msg). length bs = 140) (opt_dscb enc_f9 m f9)"
  by (auto simp: opt_dscb_def length_enc_f1 length_enc_f4 length_enc_f5 length_enc_f7 length_enc_f9
      split: option.splits)

text \<open>The labels a call of \<open>vtoc_write_label\<close> stores, and their bytes.\<close>

definition wf_labels ::
  "format1_label_t option \<Rightarrow> format4_label_t option \<Rightarrow> format5_label_t option \<Rightarrow>
   format7_label_t option \<Rightarrow> format9_label_t option \<Rightarrow> bool" where
  "wf_labels f1 f4 f5 f7 f9 \<longleftrightarrow> pred_option wf_f1 f1 \<and> pred_option wf_f4 f4 \<and>
     pred_option wf_f5 f5 \<and> pred_option wf_f7 f7 \<and> pred_option wf_f9 f9"

definition labels_image ::
  "format1_label_t option \<Rightarrow> format4_label_t option \<Rightarrow> format5_label_t option \<Rightarrow>
   format7_label_t option \<Rightarrow> format9_label_t option \<Rightarrow> bytes" where
  "labels_image f1 f4 f5 f7 f9 = opt_image enc_f1 f1 @ opt_image enc_f4 f4 @
     opt_image enc_f5 f5 @ opt_image enc_f7 f7 @ opt_image enc_f9 f9"

lemma vtoc_write_label_ok:
  assumes "open_wronly d" "seek_ok d pos" "wf_labels f1 f4 f5 f7 f9"
    and "pos + length (labels_image f1 f4 f5 f7 f9) \<le> length (content d)"
  shows "vtoc_write_label d pos f1 f4 f5 f7 f9 =
    (Inr (), d\<lparr>content := overwrite (content d) pos (labels_image f1 f4 f5 f7 f9)\<rparr>)"
proof -
  let ?items = "opt_dscb enc_f1 ''Could not write VTOC FMT1 DSCB.'' f1 @
         opt_dscb enc_f4 ''Could not write VTOC FMT4 DSCB.'' f4 @
         opt_dscb enc_f5 ''Could not write VTOC FMT5 DSCB.'' f5 @
         opt_dscb enc_f7 ''Could not write VTOC FMT7 DSCB.'' f7 @
         opt_dscb enc_f9 ''Could not write VTOC FMT9 DSCB.'' f9"
  have image: "concat (map fst ?items) = labels_image f1 f4 f5 f7 f9"
    by (simp add: labels_image_def opt_dscb_image)
  have items: "list_all (\<lambda>(bs, msg). length bs = 140) ?items"
    using assms(3) by (simp add: wf_labels_def opt_dscb_lengths)
  have "pos + 140 * length ?items \<le> length (content d)"
    using assms(4) length_dscbs [OF items] by (simp only: image)
  from write_dscbs_ok [OF items this] show ?thesis
    using assms(1,2) by (simp only: image vtoc_write_label_def) simp
qed

text \<open>C8: Any selection of well-formed format 1, 4, 5 and 7 labels that fits on the device is
  written without error, and reading the same selection from the same position returns exactly
  these labels.\<close>

theorem labels_written_are_read:
  assumes "open_wronly d" "open_rdonly d" "seek_ok d pos" "wf_labels f1 f4 f5 f7 None"
    and "pos + length (labels_image f1 f4 f5 f7 None) \<le> length (content d)"
  shows "fst (vtoc_write_label d pos f1 f4 f5 f7 None) = Inr () \<and>
    vtoc_read_label (snd (vtoc_write_label d pos f1 f4 f5 f7 None)) pos
      (f1 \<noteq> None) (f4 \<noteq> None) (f5 \<noteq> None) (f7 \<noteq> None) = Inr (f1, f4, f5, f7)"
proof -
  let ?xs = "labels_image f1 f4 f5 f7 None"
  let ?i1 = "opt_image enc_f1 f1" and ?i4 = "opt_image enc_f4 f4"
  let ?i5 = "opt_image enc_f5 f5" and ?i7 = "opt_image enc_f7 f7"
  define d' where "d' = d\<lparr>content := overwrite (content d) pos ?xs\<rparr>"
  have w: "vtoc_write_label d pos f1 f4 f5 f7 None = (Inr (), d')"
    unfolding d'_def using assms by (intro vtoc_write_label_ok)
  have xs: "?xs = ?i1 @ ?i4 @ ?i5 @ ?i7"
    by (simp add: labels_image_def opt_image_def)
  note wf = assms(4) [unfolded wf_labels_def]
  note read = read_dscb_opt [OF _ _ assms(5), folded d'_def]
  have "read_dscb d' dec_f1 m (f1 \<noteq> None) pos = Inr (f1, pos + length ?i1)" for m
    using read [OF f1.struct_image_axioms, of f1 "[]" "?i4 @ ?i5 @ ?i7" 0 m] wf by (simp add: xs)
  moreover have "read_dscb d' dec_f4 m (f4 \<noteq> None) (pos + length ?i1) =
      Inr (f4, pos + (length ?i1 + length ?i4))" for m
    using read [OF f4.struct_image_axioms, of f4 ?i1 "?i5 @ ?i7" "length ?i1" m] wf by (simp add: xs)
  moreover have "read_dscb d' dec_f5 m (f5 \<noteq> None) (pos + (length ?i1 + length ?i4)) =
      Inr (f5, pos + (length ?i1 + length ?i4 + length ?i5))" for m
    using read [OF f5.struct_image_axioms, of f5 "?i1 @ ?i4" ?i7 "length ?i1 + length ?i4" m] wf
    by (simp add: xs)
  moreover have "read_dscb d' dec_f7 m (f7 \<noteq> None)
      (pos + (length ?i1 + length ?i4 + length ?i5)) =
      Inr (f7, pos + (length ?i1 + length ?i4 + length ?i5 + length ?i7))" for m
    using read [OF f7.struct_image_axioms, of f7 "?i1 @ ?i4 @ ?i5" "[]"
        "length ?i1 + length ?i4 + length ?i5" m] wf
    by (simp add: xs)
  moreover have "open_rdonly d'" "seek_ok d' pos"
    using assms(2,3) by (simp_all add: d'_def)
  ultimately show ?thesis
    by (simp add: w vtoc_read_label_def)
qed

theorem labels_written_are_read_witness:
  "fst (vtoc_write_label \<lparr>dev_name = ''/dev/dasda'', content = replicate 4096 0,
      open_rdonly = True, open_wronly = True, seek_ok = (\<lambda>n. n < 4096)\<rparr> 1024
      None (Some (vtoc_init_format4_label 3339 3339 15 12 4096 DASD_3390_TYPE))
      (Some vtoc_init_format5_label) None None) = Inr () \<and>
   vtoc_read_label (snd (vtoc_write_label \<lparr>dev_name = ''/dev/dasda'', content = replicate 4096 0,
      open_rdonly = True, open_wronly = True, seek_ok = (\<lambda>n. n < 4096)\<rparr> 1024
      None (Some (vtoc_init_format4_label 3339 3339 15 12 4096 DASD_3390_TYPE))
      (Some vtoc_init_format5_label) None None)) 1024 False True True False =
    Inr (None, Some (vtoc_init_format4_label 3339 3339 15 12 4096 DASD_3390_TYPE),
      Some vtoc_init_format5_label, None)"
  using labels_written_are_read [of "\<lparr>dev_name = ''/dev/dasda'', content = replicate 4096 0,
      open_rdonly = True, open_wronly = True, seek_ok = (\<lambda>n. n < 4096)\<rparr>" 1024 None
      "Some (vtoc_init_format4_label 3339 3339 15 12 4096 DASD_3390_TYPE)"
      "Some vtoc_init_format5_label" None]
  by (simp add: wf_labels_def labels_image_def opt_image_def length_enc_f4 length_enc_f5)


section \<open>Volume serial and label identifiers\<close>

lemma blanks_enc: "map asc_to_ebc (bytes_of ''      '') = replicate 6 0x40"
  by code_simp

lemma volid_set_volser:
  assumes "length (volid v) = 6"
  shows "volid (vtoc_volume_label_set_volser v s) =
    map (asc_to_ebc \<circ> c_toupper) (take 6 (cstr s)) @ replicate (6 - strlen s) 0x40"
proof -
  define n where "n = (if strlen s > 6 then 6 else strlen s)"
  have n: "n \<le> 6" "n \<le> strlen s" "6 - n = 6 - strlen s" by (auto simp: n_def)
  let ?c = "take n (cstr s)"
  have c: "take 6 (cstr s) = ?c" by (auto simp: n_def strlen_def)
  have lc: "length ?c = n" using n by (simp add: strlen_def)
  have z: "0 \<notin> set ?c" by (meson in_set_takeD zero_notin_cstr)
  have s1: "vtoc_ebcdic_enc (bytes_of ''      '' @ [0]) (bytes_of ''      '' @ [0]) 6 =
      replicate 6 0x40 @ [0]"
    by (simp add: vtoc_ebcdic_enc_def overwrite_def blanks_enc)
  have id1: "overwrite (volid v) 0 (strncpy_data (replicate 6 0x40 @ [0]) 6) = replicate 6 0x40"
    using assms by (simp add: strncpy_data_no_zero)
  have s2: "overwrite (replicate 6 0x40 @ [0]) 0 (strncpy_data s n) =
      ?c @ replicate (6 - n) 0x40 @ [0]"
    using n lc by (simp add: overwrite_def strncpy_data_cstr)
  let ?s4 = "map c_toupper ?c @ replicate (6 - n) 0x40 @ [0]"
  have s3: "map c_toupper (take n (?c @ replicate (6 - n) 0x40 @ [0])) @
      drop n (?c @ replicate (6 - n) 0x40 @ [0]) = ?s4"
    using lc by simp
  have s4: "?s4[6 := 0] = ?s4"
    using n lc by (simp add: list_update_append)
  have s5: "vtoc_ebcdic_enc ?s4 ?s4 n =
      map asc_to_ebc (map c_toupper ?c) @ replicate (6 - n) 0x40 @ [0]"
    using lc by (simp add: vtoc_ebcdic_enc_def overwrite_def)
  have fin: "strncpy_data (map asc_to_ebc (map c_toupper ?c) @ replicate (6 - n) 0x40 @ [0]) n =
      map asc_to_ebc (map c_toupper ?c)"
    using lc z by (subst strncpy_data_no_zero) auto
  show ?thesis
    unfolding vtoc_volume_label_set_volser_def Let_def VOLSER_LENGTH_def n_def [symmetric] s1 id1 s2 s3 s4 s5 fin
    using lc n(1) by (simp add: overwrite_def c n(3))
qed

lemma invertible_toupper: "invertible c \<Longrightarrow> invertible (c_toupper c)"
proof -
  have "list_all (\<lambda>n. invertible (word_of_nat n) \<longrightarrow> invertible (c_toupper (word_of_nat n))) [0..<256]"
    by code_simp
  then have "invertible c \<longrightarrow> invertible (c_toupper c)" by (rule all_bytesI)
  then show "invertible c \<Longrightarrow> invertible (c_toupper c)" by simp
qed

lemma ebc_blank: "ebc_to_asc 0x40 = 0x20"
  by code_simp

text \<open>A volume serial of translatable characters that is set and then read back comes out as
  its first six characters in upper case, padded with blanks to six characters and terminated.\<close>

lemma volser_set_get:
  assumes "length (volid v) = 6" and "list_all invertible (take 6 (cstr s))"
  shows "vtoc_volume_label_get_volser (vtoc_volume_label_set_volser v s) =
    map c_toupper (take 6 (cstr s)) @ replicate (6 - strlen s) 0x20 @ [0]"
proof -
  have "list_all invertible (map c_toupper (take 6 (cstr s)))"
    using assms(2) by (auto simp: list_all_iff intro: invertible_toupper)
  then have "map (\<lambda>c. ebc_to_asc (asc_to_ebc c)) (map c_toupper (take 6 (cstr s))) =
      map c_toupper (take 6 (cstr s))"
    by (rule map_ebc_asc_inverse)
  then show ?thesis
    using assms(1)
    by (simp add: vtoc_volume_label_get_volser_def volid_set_volser VOLSER_LENGTH_def strlen_def
        ebc_blank o_def)
qed

lemma enc4_no_zero:
  "length l = 4 \<Longrightarrow> 0 \<notin> set l \<Longrightarrow> strncpy_data (map asc_to_ebc l) 4 = map asc_to_ebc l"
  by (subst strncpy_data_no_zero) auto

lemma label_roundtrip:
  assumes "length (vollbl v) = 4" and "length l = 4" and "list_all invertible l" and "0 \<notin> set l"
  shows "vtoc_volume_label_get_label (vtoc_volume_label_set_label v l) = l @ [0]"
  using assms
  by (simp add: vtoc_volume_label_get_label_def vtoc_volume_label_set_label_def enc4_no_zero o_def)

lemma set_volser_update: "\<exists>x. vtoc_volume_label_set_volser v s = v\<lparr>volid := x\<rparr>"
  unfolding vtoc_volume_label_set_volser_def Let_def by (rule exI) (rule refl)

lemma set_volser_frame [simp]:
  "volkey (vtoc_volume_label_set_volser v s) = volkey v"
  "vollbl (vtoc_volume_label_set_volser v s) = vollbl v"
  "security (vtoc_volume_label_set_volser v s) = security v"
  "vtoc (vtoc_volume_label_set_volser v s) = vtoc v"
  "vl_res1 (vtoc_volume_label_set_volser v s) = vl_res1 v"
  "cisize (vtoc_volume_label_set_volser v s) = cisize v"
  "blkperci (vtoc_volume_label_set_volser v s) = blkperci v"
  "labperci (vtoc_volume_label_set_volser v s) = labperci v"
  "vl_res2 (vtoc_volume_label_set_volser v s) = vl_res2 v"
  "lvtoc (vtoc_volume_label_set_volser v s) = lvtoc v"
  "vl_res3 (vtoc_volume_label_set_volser v s) = vl_res3 v"
proof -
  obtain x where "vtoc_volume_label_set_volser v s = v\<lparr>volid := x\<rparr>"
    using set_volser_update by blast
  then show
    "volkey (vtoc_volume_label_set_volser v s) = volkey v"
    "vollbl (vtoc_volume_label_set_volser v s) = vollbl v"
    "security (vtoc_volume_label_set_volser v s) = security v"
    "vtoc (vtoc_volume_label_set_volser v s) = vtoc v"
    "vl_res1 (vtoc_volume_label_set_volser v s) = vl_res1 v"
    "cisize (vtoc_volume_label_set_volser v s) = cisize v"
    "blkperci (vtoc_volume_label_set_volser v s) = blkperci v"
    "labperci (vtoc_volume_label_set_volser v s) = labperci v"
    "vl_res2 (vtoc_volume_label_set_volser v s) = vl_res2 v"
    "lvtoc (vtoc_volume_label_set_volser v s) = lvtoc v"
    "vl_res3 (vtoc_volume_label_set_volser v s) = vl_res3 v"
    by simp_all
qed

lemma wf_set_volser: "wf_vlabel v \<Longrightarrow> wf_vlabel (vtoc_volume_label_set_volser v s)"
  by (simp add: wf_vlabel_def volid_set_volser strlen_def)

lemma wf_vlabel_init: "wf_vlabel v \<Longrightarrow> wf_vlabel (vtoc_volume_label_init v)"
  unfolding vtoc_volume_label_init_def Let_def
  by (rule wf_dec_vlabel) (simp add: length_enc_vlabel)

lemma vlabel_written_is_read:
  assumes "open_wronly d" "open_rdonly d" "seek_ok d pos" "wf_vlabel v"
    and "pos + 92 \<le> length (content d)"
  shows "fst (vtoc_write_volume_label d pos v) = Inr () \<and>
    vtoc_read_volume_label (snd (vtoc_write_volume_label d pos v)) pos = Inr v"
  using assms vlabel.write_full [of v pos d] vlabel.read_back [of v pos d] length_enc_vlabel [of v]
  by (simp add: vtoc_write_volume_label_def vtoc_read_volume_label_def split_beta Let_def)

end
