(* ===== verification/Freespace_Spec.thy ===== *)
theory Freespace_Spec
  imports Prelude "HOL-Library.Multiset"
begin

text \<open>
  What the free-space labels of a volume promise, independent of how a label stores its extents.
  A label is a table of slots, each empty or an interval of track numbers; it stands for the set of
  tracks in its intervals.  The update routines of the format 5 and the format 7 label share one
  algorithm: a new interval goes into the first empty slot and is then joined with its neighbours
  by a scan that restarts after every join.  It is stated and proved correct here over plain
  intervals (\<open>iv_merge\<close>, \<open>iv_add\<close>, \<open>iv_del\<close>); the theories of the two formats show that the code on
  machine words computes the same table.

  The locale \<open>free_space\<close> is the interface the partitioning code relies on.
\<close>

type_synonym slot = "(nat \<times> nat) option"

fun slot_trks :: "slot \<Rightarrow> nat set" where
  "slot_trks None = {}"
| "slot_trks (Some (a, b)) = {a..<b}"

definition trks :: "slot list \<Rightarrow> nat set" where
  "trks xs = (\<Union>s \<in> set xs. slot_trks s)"

text \<open>Two intervals are apart when they share no track, and separate when a track lies between
  them as well.\<close>

fun apart :: "slot \<Rightarrow> slot \<Rightarrow> bool" where
  "apart (Some (a, b)) (Some (c, d)) \<longleftrightarrow> b \<le> c \<or> d \<le> a"
| "apart _ _ \<longleftrightarrow> True"

fun separate :: "slot \<Rightarrow> slot \<Rightarrow> bool" where
  "separate (Some (a, b)) (Some (c, d)) \<longleftrightarrow> b < c \<or> d < a"
| "separate _ _ \<longleftrightarrow> True"

fun slot_ok :: "slot \<Rightarrow> bool" where
  "slot_ok (Some (a, b)) \<longleftrightarrow> 0 < a \<and> a < b"
| "slot_ok None \<longleftrightarrow> True"

definition table_ok :: "slot list \<Rightarrow> bool" where
  "table_ok xs \<longleftrightarrow> (\<forall>i < length xs. slot_ok (xs ! i)) \<and>
     (\<forall>i < length xs. \<forall>j < length xs. i \<noteq> j \<longrightarrow> separate (xs ! i) (xs ! j))"

lemma separate_sym: "separate p q \<longleftrightarrow> separate q p"
  by (cases "(p, q)" rule: separate.cases) auto

lemma apart_sym: "apart p q \<longleftrightarrow> apart q p"
  by (cases "(p, q)" rule: apart.cases) auto

lemma separate_apart: "separate p q \<Longrightarrow> apart p q"
  by (cases "(p, q)" rule: apart.cases) auto

lemma apart_disjoint:
  "slot_ok p \<Longrightarrow> slot_ok q \<Longrightarrow> apart p q \<longleftrightarrow> slot_trks p \<inter> slot_trks q = {}"
proof (cases "(p, q)" rule: apart.cases)
  case (1 a b c d)
  assume "slot_ok p" "slot_ok q"
  with 1 have lt: "a < b" "c < d" by auto
  have "b \<le> c \<or> d \<le> a" if dis: "{a..<b} \<inter> {c..<d} = {}"
  proof (rule ccontr)
    assume "\<not> (b \<le> c \<or> d \<le> a)"
    with lt have "max a c \<in> {a..<b} \<inter> {c..<d}" by auto
    with dis show False by blast
  qed
  with 1 show ?thesis by auto
qed auto

lemma trks_nth: "k \<in> trks xs \<longleftrightarrow> (\<exists>i < length xs. k \<in> slot_trks (xs ! i))"
  by (auto simp: trks_def in_set_conv_nth) (metis nth_mem)

lemma trks_mset: "mset xs = mset ys \<Longrightarrow> trks xs = trks ys"
  by (metis trks_def set_mset_mset)

lemma table_ok_sep: "table_ok xs \<Longrightarrow> i < length xs \<Longrightarrow> j < length xs \<Longrightarrow> i \<noteq> j \<Longrightarrow>
    separate (xs ! i) (xs ! j)"
  by (simp add: table_ok_def)

lemma table_ok_slot: "table_ok xs \<Longrightarrow> i < length xs \<Longrightarrow> slot_ok (xs ! i)"
  by (simp add: table_ok_def)

text \<open>The property is symmetric in the slots, so exchanging two of them keeps it.\<close>

lemma table_ok_swap:
  assumes "table_ok xs" and "i < length xs" and "j < length xs"
  shows "table_ok (xs[i := xs ! j, j := xs ! i])"
  using assms unfolding table_ok_def
  by (auto simp: nth_list_update separate_sym)

lemma trks_swap:
  "i < length xs \<Longrightarrow> j < length xs \<Longrightarrow> trks (xs[i := xs ! j, j := xs ! i]) = trks xs"
  by (rule trks_mset) (simp add: mset_swap)


section \<open>Joining a new interval with its neighbours\<close>

definition used_slots :: "slot list \<Rightarrow> nat set" where
  "used_slots xs = {i. i < length xs \<and> xs ! i \<noteq> None}"

lemma finite_used_slots [simp]: "finite (used_slots xs)"
  by (simp add: used_slots_def)

text \<open>Slot \<open>tmp\<close> holds the new interval and \<open>i\<close> is the slot the scan looks at.\<close>

function iv_merge :: "slot list \<Rightarrow> nat \<Rightarrow> nat \<Rightarrow> slot list" where
  "iv_merge xs tmp i =
     (if i < length xs \<and> tmp < length xs then
        (case (xs ! tmp, xs ! i) of
           (Some (a, b), Some (c, d)) \<Rightarrow>
             if d = a then iv_merge (xs[i := Some (c, b), tmp := None]) i 0
             else if b = c then iv_merge (xs[i := Some (a, d), tmp := None]) i 0
             else iv_merge xs tmp (Suc i)
         | (Some _, None) \<Rightarrow> iv_merge xs tmp (Suc i)
         | (None, _) \<Rightarrow> xs)
      else xs)"
  by pat_completeness auto

lemma used_slots_join:
  assumes "i < length xs" "tmp < length xs" "xs ! tmp \<noteq> None" "xs ! i \<noteq> None"
  shows "card (used_slots (xs[i := Some p, tmp := None])) < card (used_slots xs)"
proof (rule psubset_card_mono)
  show "used_slots (xs[i := Some p, tmp := None]) \<subset> used_slots xs"
    using assms by (auto simp: used_slots_def nth_list_update split: if_splits)
qed simp

termination iv_merge
proof (relation "measures [\<lambda>(xs, tmp, i). card (used_slots xs), \<lambda>(xs, tmp, i). length xs - i]",
    goal_cases)
  case 1
  then show ?case by simp
next
  case (3 xs tmp i)
  then show ?case using used_slots_join [of i xs tmp] by (simp, metis option.distinct(1))
next
  case (4 xs tmp i)
  then show ?case using used_slots_join [of i xs tmp] by (simp, metis option.distinct(1))
qed auto

declare iv_merge.simps [simp del]

text \<open>What the scan keeps: all slots are intervals or empty and share no track; slots other than
  the new one are separate from each other, and those already scanned are separate from it.\<close>

definition merging :: "slot list \<Rightarrow> nat \<Rightarrow> nat \<Rightarrow> bool" where
  "merging xs tmp i \<longleftrightarrow> tmp < length xs \<and> xs ! tmp \<noteq> None \<and>
     (\<forall>j < length xs. slot_ok (xs ! j)) \<and>
     (\<forall>j < length xs. \<forall>k < length xs. j \<noteq> k \<longrightarrow> apart (xs ! j) (xs ! k)) \<and>
     (\<forall>j < length xs. \<forall>k < length xs. j \<noteq> k \<and> j \<noteq> tmp \<and> k \<noteq> tmp \<longrightarrow> separate (xs ! j) (xs ! k)) \<and>
     (\<forall>j < length xs. j < i \<and> j \<noteq> tmp \<longrightarrow> separate (xs ! j) (xs ! tmp))"

lemma merging_end: "merging xs tmp i \<Longrightarrow> length xs \<le> i \<Longrightarrow> table_ok xs"
  unfolding merging_def table_ok_def by (metis order_less_le_trans separate_sym)

lemma merging_next:
  assumes "merging xs tmp i" and "i = tmp \<or> separate (xs ! i) (xs ! tmp)"
  shows "merging xs tmp (Suc i)"
  using assms unfolding merging_def by (auto simp: less_Suc_eq)

text \<open>A join replaces two neighbouring intervals by their union.\<close>

lemma join_slots:
  assumes "i < length xs" "tmp < length xs" "i \<noteq> tmp"
    and "slot_trks (Some p) = slot_trks (xs ! i) \<union> slot_trks (xs ! tmp)"
  shows "trks (xs[i := Some p, tmp := None]) = trks xs"
proof -
  let ?ys = "xs[i := Some p, tmp := None]"
  have "k \<in> trks ?ys \<longleftrightarrow> k \<in> trks xs" for k
  proof
    assume "k \<in> trks ?ys"
    then obtain m where m: "m < length xs" "k \<in> slot_trks (?ys ! m)" by (auto simp: trks_nth)
    with assms show "k \<in> trks xs"
      unfolding trks_nth by (cases "m = tmp"; cases "m = i") auto
  next
    assume "k \<in> trks xs"
    then obtain m where m: "m < length xs" "k \<in> slot_trks (xs ! m)" by (auto simp: trks_nth)
    show "k \<in> trks ?ys"
    proof (cases "m = tmp \<or> m = i")
      case True
      with m assms have "k \<in> slot_trks (?ys ! i)" by auto
      with assms(1) show ?thesis unfolding trks_nth by auto
    next
      case False
      with m have "k \<in> slot_trks (?ys ! m)" by simp
      with m(1) show ?thesis unfolding trks_nth by auto
    qed
  qed
  then show ?thesis by blast
qed

lemma merging_join:
  assumes m: "merging xs tmp i" and i: "i < length xs" "i \<noteq> tmp"
    and tmp: "xs ! tmp = Some (a, b)" and ext: "xs ! i = Some (c, d)"
    and p: "(d = a \<and> p = (c, b)) \<or> (b = c \<and> p = (a, d))"
  shows "merging (xs[i := Some p, tmp := None]) i 0"
    and "trks (xs[i := Some p, tmp := None]) = trks xs"
proof -
  have len: "tmp < length xs" and ok: "a < b" "0 < a" "c < d" "0 < c"
    using m i tmp ext by (auto simp: merging_def)
  show "trks (xs[i := Some p, tmp := None]) = trks xs"
    by (rule join_slots) (use i len ok p tmp ext in auto)
  let ?ys = "xs[i := Some p, tmp := None]"
  have new: "?ys ! k = (if k = tmp then None else if k = i then Some p else xs ! k)"
    if "k < length xs" for k
    using that i len by (simp add: nth_list_update)
  have okp: "slot_ok (Some p)" using ok p by auto
  have ap: "apart (Some p) (xs ! k)" if "k < length xs" "k \<noteq> i" "k \<noteq> tmp" for k
  proof -
    have "apart (xs ! i) (xs ! k)" "apart (xs ! tmp) (xs ! k)" "slot_ok (xs ! k)"
      using m that i(1) len by (auto simp: merging_def)
    then show ?thesis
      using tmp ext p ok by (cases "xs ! k") auto
  qed
  have all_ok: "\<forall>j < length xs. slot_ok (xs ! j)"
    and all_ap: "\<forall>j < length xs. \<forall>k < length xs. j \<noteq> k \<longrightarrow> apart (xs ! j) (xs ! k)"
    and all_sep: "\<forall>j < length xs. \<forall>k < length xs. j \<noteq> k \<and> j \<noteq> tmp \<and> k \<noteq> tmp \<longrightarrow>
      separate (xs ! j) (xs ! k)"
    using m by (auto simp: merging_def)
  have "apart (?ys ! j) (?ys ! k)" if "j < length xs" "k < length xs" "j \<noteq> k" for j k
    using that all_ap ap by (auto simp: new apart_sym)
  moreover have "separate (?ys ! j) (?ys ! k)"
    if "j < length xs" "k < length xs" "j \<noteq> k" "j \<noteq> i" "k \<noteq> i" for j k
    using that all_sep by (auto simp: new)
  moreover have "slot_ok (?ys ! j)" if "j < length xs" for j
    using that all_ok okp by (auto simp: new)
  ultimately show "merging ?ys i 0"
    using i unfolding merging_def by (auto simp: new)
qed

lemma iv_merge_correct:
  "merging xs tmp i \<Longrightarrow> table_ok (iv_merge xs tmp i) \<and> trks (iv_merge xs tmp i) = trks xs \<and>
     length (iv_merge xs tmp i) = length xs"
proof (induction xs tmp i rule: iv_merge.induct)
  case (1 xs tmp i)
  note m = 1(5)
  then obtain a b where tmp: "tmp < length xs" "xs ! tmp = Some (a, b)" "a < b"
    by (auto simp: merging_def)
  show ?case
  proof (cases "i < length xs")
    case False
    with m show ?thesis by (simp add: merging_end iv_merge.simps [of xs tmp i])
  next
    case i: True
    show ?thesis
    proof (cases "xs ! i")
      case None
      with m have "merging xs tmp (Suc i)" by (intro merging_next) auto
      with 1(1) i tmp None show ?thesis by (simp add: iv_merge.simps [of xs tmp i])
    next
      case (Some p)
      obtain c d where ext: "xs ! i = Some (c, d)" using Some by (cases p) auto
      consider (pre) "d = a" | (suc) "d \<noteq> a" "b = c" | (no) "d \<noteq> a" "b \<noteq> c" by blast
      then show ?thesis
      proof cases
        case pre
        with tmp ext have "i \<noteq> tmp" by auto
        note j = merging_join [OF m i this tmp(2) ext, of "(c, b)"]
        from 1(2) i tmp ext pre j show ?thesis
          by (simp add: iv_merge.simps [of xs tmp i])
      next
        case suc
        with tmp ext have "i \<noteq> tmp" by auto
        note j = merging_join [OF m i this tmp(2) ext, of "(a, d)"]
        from 1(3) i tmp ext suc j show ?thesis
          by (simp add: iv_merge.simps [of xs tmp i])
      next
        case no
        have "i = tmp \<or> apart (xs ! i) (xs ! tmp)"
          using m i tmp(1) by (auto simp: merging_def)
        with no ext tmp have "i = tmp \<or> separate (xs ! i) (xs ! tmp)" by auto
        with m have "merging xs tmp (Suc i)" by (rule merging_next)
        with 1(4) i tmp ext no show ?thesis
          by (simp add: iv_merge.simps [of xs tmp i])
      qed
    qed
  qed
qed

lemma iv_merge_noop:
  assumes "tmp < length xs" and "xs ! tmp = Some (a, b)"
    and "\<And>j c d. j < length xs \<Longrightarrow> xs ! j = Some (c, d) \<Longrightarrow> d \<noteq> a \<and> c \<noteq> b"
  shows "iv_merge xs tmp i = xs"
  using assms
proof (induction "length xs - i" arbitrary: i)
  case 0
  then show ?case by (simp add: iv_merge.simps [of xs tmp i])
next
  case (Suc n)
  from Suc(2) have "n = length xs - Suc i" by simp
  then have "iv_merge xs tmp (Suc i) = xs" by (rule Suc(1)) (use Suc in blast)+
  with Suc(2-) show ?case
    by (auto simp: iv_merge.simps [of xs tmp i] split: option.split)
qed


section \<open>Runs of a set of tracks\<close>

text \<open>The last tracks of the maximal runs.  A separate table holds one interval per run, so the
  number of slots in use is a function of the set alone.\<close>

definition runs :: "nat set \<Rightarrow> nat set" where
  "runs T = {k \<in> T. Suc k \<notin> T}"

lemma slot_in_trks: "i < length xs \<Longrightarrow> xs ! i = Some (c, d) \<Longrightarrow> k \<in> {c..<d} \<Longrightarrow> k \<in> trks xs"
  unfolding trks_nth by (metis slot_trks.simps(2))

lemma slot_end_not_in_trks:
  assumes "table_ok xs" "i < length xs" "xs ! i = Some (c, d)"
  shows "d \<notin> trks xs"
proof
  assume "d \<in> trks xs"
  then obtain j where j: "j < length xs" "d \<in> slot_trks (xs ! j)" by (auto simp: trks_nth)
  then obtain e f where ef: "xs ! j = Some (e, f)" "e \<le> d" "d < f"
    by (cases "xs ! j") auto
  have "c < d" using table_ok_slot [OF assms(1,2)] assms(3) by simp
  with table_ok_sep [OF assms(1,2) j(1)] ef assms(3) show False by (cases "i = j") auto
qed

lemma card_used_slots:
  assumes ok: "table_ok xs"
  shows "card (used_slots xs) = card (runs (trks xs))"
proof -
  let ?last = "\<lambda>i. snd (the (xs ! i)) - 1"
  have ext: "\<exists>c d. xs ! i = Some (c, d) \<and> 0 < c \<and> c < d" if "i \<in> used_slots xs" for i
    using that table_ok_slot [OF ok] by (cases "xs ! i") (fastforce simp: used_slots_def)+
  have "bij_betw ?last (used_slots xs) (runs (trks xs))"
    unfolding bij_betw_def
  proof
    show "inj_on ?last (used_slots xs)"
    proof (rule inj_onI)
      fix i j assume ij: "i \<in> used_slots xs" "j \<in> used_slots xs" "?last i = ?last j"
      obtain a d where ad: "xs ! i = Some (a, d)" "a < d" using ext [OF ij(1)] by blast
      obtain c e where ce: "xs ! j = Some (c, e)" "c < e" using ext [OF ij(2)] by blast
      from ad ce ij(3) have "d = e" by auto
      with ad ce ij table_ok_sep [OF ok, of i j] show "i = j"
        by (cases "i = j") (auto simp: used_slots_def)
    qed
    show "?last ` used_slots xs = runs (trks xs)"
    proof
      show "?last ` used_slots xs \<subseteq> runs (trks xs)"
      proof
        fix k assume "k \<in> ?last ` used_slots xs"
        then obtain i where i: "i \<in> used_slots xs" "k = ?last i" by blast
        obtain c d where cd: "xs ! i = Some (c, d)" "0 < c" "c < d" using ext [OF i(1)] by blast
        from i(1) have l: "i < length xs" by (simp add: used_slots_def)
        from slot_end_not_in_trks [OF ok l cd(1)] slot_in_trks [OF l cd(1), of k] i(2) cd
        show "k \<in> runs (trks xs)" by (auto simp: runs_def)
      qed
      show "runs (trks xs) \<subseteq> ?last ` used_slots xs"
      proof
        fix k assume k: "k \<in> runs (trks xs)"
        then obtain i where i: "i < length xs" "k \<in> slot_trks (xs ! i)"
          by (auto simp: runs_def trks_nth)
        then obtain c d where cd: "xs ! i = Some (c, d)" "c \<le> k" "k < d" by (cases "xs ! i") auto
        have "d = Suc k"
          using slot_in_trks [OF i(1) cd(1), of "Suc k"] k cd
          by (cases "Suc k < d") (auto simp: runs_def)
        with cd i show "k \<in> ?last ` used_slots xs"
          by (intro image_eqI [of _ _ i]) (auto simp: used_slots_def)
      qed
    qed
  qed
  then show ?thesis by (rule bij_betw_same_card)
qed

lemma runs_remove: "runs (T - {a..<b}) \<subseteq> insert (a - 1) (runs T)"
  by (auto simp: runs_def)

lemma runs_add: "runs (T \<union> {a..<b}) \<subseteq> insert (b - 1) (runs T)"
  by (auto simp: runs_def)

lemma card_runs_step:
  assumes "finite T"
  shows "card (runs (T - {a..<b})) \<le> Suc (card (runs T))"
    and "card (runs (T \<union> {a..<b})) \<le> Suc (card (runs T))"
proof -
  have fin: "finite (runs T)" using assms by (simp add: runs_def)
  have le: "card R \<le> Suc (card (runs T))" if "R \<subseteq> insert k (runs T)" for R k
  proof -
    have "card R \<le> card (insert k (runs T))" using that fin by (intro card_mono) auto
    also have "\<dots> \<le> Suc (card (runs T))" using fin by (simp add: card_insert_if)
    finally show ?thesis .
  qed
  show "card (runs (T - {a..<b})) \<le> Suc (card (runs T))" by (rule le) (rule runs_remove)
  show "card (runs (T \<union> {a..<b})) \<le> Suc (card (runs T))" by (rule le) (rule runs_add)
qed

lemma finite_trks [simp]: "finite (trks xs)"
proof -
  have "finite (slot_trks s)" for s by (cases s rule: slot_trks.cases) auto
  then show ?thesis by (simp add: trks_def)
qed


section \<open>Adding and removing an interval\<close>

definition free_slot :: "slot list \<Rightarrow> nat option" where
  "free_slot xs = find (\<lambda>i. xs ! i = None) [0..<length xs]"

definition iv_add :: "slot list \<Rightarrow> nat \<Rightarrow> nat \<Rightarrow> slot list option" where
  "iv_add xs a b = (case free_slot xs of
       None \<Rightarrow> None
     | Some k \<Rightarrow> Some (iv_merge (xs[k := Some (a, b)]) k 0))"

fun iv_holds :: "slot \<Rightarrow> nat \<Rightarrow> nat \<Rightarrow> bool" where
  "iv_holds None a b \<longleftrightarrow> False"
| "iv_holds (Some (c, d)) a b \<longleftrightarrow> c \<le> a \<and> b \<le> d"

definition holder :: "slot list \<Rightarrow> nat \<Rightarrow> nat \<Rightarrow> nat option" where
  "holder xs a b = find (\<lambda>i. iv_holds (xs ! i) a b) [0..<length xs]"

definition iv_del :: "slot list \<Rightarrow> nat \<Rightarrow> nat \<Rightarrow> slot list option" where
  "iv_del xs a b = (case holder xs a b of
       None \<Rightarrow> None
     | Some k \<Rightarrow> (case xs ! k of
           None \<Rightarrow> None
         | Some (c, d) \<Rightarrow>
             if a = c \<and> b = d then Some (xs[k := None])
             else if a = c then Some (xs[k := Some (b, d)])
             else if b = d then Some (xs[k := Some (c, a)])
             else (case free_slot xs of
                 None \<Rightarrow> None
               | Some f \<Rightarrow> Some (xs[k := Some (c, a), f := Some (b, d)]))))"

lemma free_slot_Some: "free_slot xs = Some k \<Longrightarrow> k < length xs \<and> xs ! k = None"
  by (auto simp: free_slot_def find_Some_iff)

lemma free_slot_exists:
  assumes "card (used_slots xs) < length xs"
  shows "\<exists>k. free_slot xs = Some k"
proof (rule ccontr)
  assume "\<not> ?thesis"
  then have "free_slot xs = None" by auto
  then have "used_slots xs = {0..<length xs}"
    by (fastforce simp: free_slot_def find_None_iff used_slots_def)
  with assms show False by simp
qed

text \<open>Tracks in a row that are all free lie in one interval.\<close>

lemma holder_exists:
  assumes ok: "table_ok xs" and ab: "a < b" "{a..<b} \<subseteq> trks xs"
  shows "\<exists>k c d. holder xs a b = Some k \<and> k < length xs \<and> xs ! k = Some (c, d) \<and> c \<le> a \<and> b \<le> d"
proof -
  from ab have "a \<in> trks xs" by auto
  then obtain i where i: "i < length xs" "a \<in> slot_trks (xs ! i)" by (auto simp: trks_nth)
  then obtain c d where cd: "xs ! i = Some (c, d)" "c \<le> a" "a < d" by (cases "xs ! i") auto
  have "b \<le> d"
  proof (rule ccontr)
    assume "\<not> b \<le> d"
    with cd ab have "d \<in> trks xs" by auto
    with slot_end_not_in_trks [OF ok i(1) cd(1)] show False by blast
  qed
  with cd i have "\<exists>k. holder xs a b = Some k"
    by (cases "holder xs a b") (auto simp: holder_def find_None_iff)
  then obtain k where k: "holder xs a b = Some k" by blast
  then have "k < length xs" "iv_holds (xs ! k) a b" by (auto simp: holder_def find_Some_iff)
  with k show ?thesis by (cases "xs ! k") auto
qed


text \<open>Replacing the contents of one slot.\<close>

lemma trks_update:
  assumes "i < length xs" and "\<forall>j < length xs. j \<noteq> i \<longrightarrow> slot_trks (xs ! j) \<inter> slot_trks (xs ! i) = {}"
  shows "trks (xs[i := s]) = (trks xs - slot_trks (xs ! i)) \<union> slot_trks s"
proof -
  have "k \<in> trks (xs[i := s]) \<longleftrightarrow> k \<in> (trks xs - slot_trks (xs ! i)) \<union> slot_trks s" for k
  proof
    assume "k \<in> trks (xs[i := s])"
    then obtain j where "j < length xs" "k \<in> slot_trks (xs[i := s] ! j)" by (auto simp: trks_nth)
    with assms show "k \<in> (trks xs - slot_trks (xs ! i)) \<union> slot_trks s"
      by (cases "j = i") (auto simp: trks_nth)
  next
    assume "k \<in> (trks xs - slot_trks (xs ! i)) \<union> slot_trks s"
    then consider "k \<in> slot_trks s" | j where "j < length xs" "j \<noteq> i" "k \<in> slot_trks (xs ! j)"
      by (auto simp: trks_nth)
    then show "k \<in> trks (xs[i := s])"
      using assms(1) by cases (auto simp: trks_nth intro: exI [of _ i])
  qed
  then show ?thesis by blast
qed

lemma slots_disjoint:
  assumes "table_ok xs" "i < length xs" "j < length xs" "j \<noteq> i"
  shows "slot_trks (xs ! j) \<inter> slot_trks (xs ! i) = {}"
  using apart_disjoint separate_apart table_ok_sep table_ok_slot assms by metis

lemma table_ok_update:
  assumes ok: "table_ok xs" and i: "i < length xs" and s: "slot_ok s"
    and sep: "\<And>j. j < length xs \<Longrightarrow> j \<noteq> i \<Longrightarrow> separate s (xs ! j)"
  shows "table_ok (xs[i := s])"
  using assms unfolding table_ok_def by (auto simp: nth_list_update separate_sym)

text \<open>A part of an interval is separate from everything the interval is separate from.\<close>

lemma separate_part:
  "separate (Some (c, d)) s \<Longrightarrow> c \<le> a \<Longrightarrow> b \<le> d \<Longrightarrow> separate (Some (a, b)) s"
  by (cases s) auto

lemma iv_add_correct:
  assumes ok: "table_ok xs" and ab: "0 < a" "a < b" and dis: "{a..<b} \<inter> trks xs = {}"
    and room: "card (runs (trks xs)) < length xs"
  shows "\<exists>ys. iv_add xs a b = Some ys \<and> table_ok ys \<and> trks ys = trks xs \<union> {a..<b} \<and>
    length ys = length xs"
proof -
  obtain k where k: "free_slot xs = Some k" "k < length xs" "xs ! k = None"
    using free_slot_exists [of xs] free_slot_Some room card_used_slots [OF ok] by metis
  let ?ys = "xs[k := Some (a, b)]"
  have t: "trks ?ys = trks xs \<union> {a..<b}"
    using trks_update [OF k(2), of "Some (a, b)"] k(3) by simp
  have ap: "apart (Some (a, b)) (xs ! j)" if "j < length xs" for j
  proof -
    have "{a..<b} \<inter> slot_trks (xs ! j) = {}" using dis that unfolding trks_def by fastforce
    with ab table_ok_slot [OF ok that] show ?thesis by (subst apart_disjoint) auto
  qed
  then have ap2: "apart (xs ! j) (Some (a, b))" if "j < length xs" for j
    using that apart_sym by metis
  have "merging ?ys k 0"
    unfolding merging_def using k ab ap ap2 ok
    by (auto simp: nth_list_update table_ok_def intro: separate_apart)
  from iv_merge_correct [OF this] k t show ?thesis by (simp add: iv_add_def)
qed

lemma iv_del_correct:
  assumes ok: "table_ok xs" and ab: "a < b" and sub: "{a..<b} \<subseteq> trks xs"
    and room: "card (runs (trks xs)) < length xs"
  shows "\<exists>ys. iv_del xs a b = Some ys \<and> table_ok ys \<and> trks ys = trks xs - {a..<b} \<and>
    length ys = length xs"
proof -
  obtain k c d where k: "holder xs a b = Some k" "k < length xs" "xs ! k = Some (c, d)"
    and cd: "c \<le> a" "b \<le> d" using holder_exists [OF ok ab sub] by blast
  obtain f where f: "free_slot xs = Some f" "f < length xs" "xs ! f = None"
    using free_slot_exists [of xs] free_slot_Some room card_used_slots [OF ok] by metis
  from k f have kf: "k \<noteq> f" by auto
  have c: "0 < c" using table_ok_slot [OF ok k(2)] k(3) by simp
  have sep: "separate (Some (c, d)) (xs ! j)" if "j < length xs" "j \<noteq> k" for j
    using table_ok_sep [OF ok k(2) that(1)] that(2) k(3) by simp
  have upd: "trks (xs[k := s]) = (trks xs - {c..<d}) \<union> slot_trks s" for s
    using trks_update [OF k(2), of s] slots_disjoint [OF ok k(2)] k(3) by simp
  have part: "table_ok (xs[k := Some (u, v)])" if "c \<le> u" "u < v" "v \<le> d" for u v
    using table_ok_update [OF ok k(2), of "Some (u, v)"] separate_part [OF sep] that c by simp
  have ivs: "{c..<d} = {c..<a} \<union> {a..<b} \<union> {b..<d}" using cd ab by auto
  have inT: "{c..<d} \<subseteq> trks xs" using slot_in_trks [OF k(2,3)] by blast
  have res: "iv_del xs a b = Some (if a = c \<and> b = d then xs[k := None]
      else if a = c then xs[k := Some (b, d)] else if b = d then xs[k := Some (c, a)]
      else xs[k := Some (c, a), f := Some (b, d)])"
    by (simp add: iv_del_def k(1,3) f(1))
  consider "a = c \<and> b = d" | "a = c" "b < d" | "c < a" "b = d" | "c < a" "b < d"
    using cd by fastforce
  then show ?thesis
  proof cases
    case 1
    then have "iv_del xs a b = Some (xs[k := None])" using res by simp
    with 1 upd [of None] table_ok_update [OF ok k(2), of None] show ?thesis by simp
  next
    case 2
    then have "trks (xs[k := Some (b, d)]) = trks xs - {a..<b}"
      using upd inT ab by auto
    with 2 part [of b d] ab res show ?thesis by simp
  next
    case 3
    then have "trks (xs[k := Some (c, a)]) = trks xs - {a..<b}"
      using upd inT ab by auto
    with 3 part [of c a] ab res show ?thesis by simp
  next
    case 4
    let ?ys = "xs[k := Some (c, a)]"
    have ok1: "table_ok ?ys" using part 4 ab by simp
    have "separate (Some (b, d)) (?ys ! j)" if "j < length ?ys" "j \<noteq> f" for j
      using that 4 ab separate_part [OF sep [of j]] by (cases "j = k") (auto simp: k(2))
    with table_ok_update [OF ok1, of f "Some (b, d)"] 4 f(2) ab c
    have "table_ok (?ys[f := Some (b, d)])" by simp
    moreover have "trks (?ys[f := Some (b, d)]) = trks xs - {a..<b}"
      using trks_update [of f ?ys "Some (b, d)"] f kf upd inT 4 ab by auto
    ultimately show ?thesis using 4 kf res by simp
  qed
qed


section \<open>Termination of the joining scan\<close>

text \<open>For slots of any type with a test \<open>used\<close>: a join empties the new slot and makes the other one
  the new slot, so the number of used slots falls, or stays and the new slot is used afterwards.\<close>

definition actives :: "('a \<Rightarrow> bool) \<Rightarrow> 'a list \<Rightarrow> nat set" where
  "actives used xs = {i. i < length xs \<and> used (xs ! i)}"

definition join_measure :: "('a \<Rightarrow> bool) \<Rightarrow> 'a list \<Rightarrow> nat \<Rightarrow> nat" where
  "join_measure used xs tmp = 2 * card (actives used xs) + (if used (xs ! tmp) then 0 else 1)"

lemma actives_update:
  "k < length xs \<Longrightarrow> actives used (xs[k := v]) =
     (if used v then insert k (actives used xs) else actives used xs - {k})"
  by (auto simp: actives_def nth_list_update split: if_splits)

lemma join_measure_less:
  assumes "i < length xs" "tmp < length xs" "used (xs ! i)" "\<not> used z"
  shows "join_measure used (xs[i := e, tmp := z]) i < join_measure used xs tmp"
proof -
  have fin: "finite (actives used xs)" by (simp add: actives_def)
  have i: "i \<in> actives used xs" and tmp: "tmp \<in> actives used xs \<longleftrightarrow> used (xs ! tmp)"
    using assms by (auto simp: actives_def)
  have pos: "0 < card (actives used xs)" using i fin by (auto simp: card_gt_0_iff)
  have two: "0 < card (actives used xs - {i})" if "i \<noteq> tmp" "used (xs ! tmp)"
    using that tmp fin by (auto simp: card_gt_0_iff)
  show ?thesis
    using assms fin i tmp pos two
    by (auto simp: join_measure_def actives_update insert_absorb card_Diff_singleton_if
        nth_list_update)
qed


lemma list_all_update [simp]: "list_all P xs \<Longrightarrow> P v \<Longrightarrow> list_all P (xs[k := v])"
  using set_update_subset_insert [of xs k v] by (auto simp: list_all_iff)

lemma free_slot_map:
  "free_slot (map iv xs) = find (\<lambda>i. iv (xs ! i) = None) [0..<length xs]"
  unfolding free_slot_def by (rule find_cong) auto

lemma holder_map:
  "holder (map iv xs) a b = find (\<lambda>i. iv_holds (iv (xs ! i)) a b) [0..<length xs]"
  unfolding holder_def by (rule find_cong) auto


section \<open>Putting the slots in order\<close>

text \<open>Both reorganisation routines exchange slots \<open>i\<close> and \<open>j\<close>, for \<open>i = 0..\<close> and \<open>j = i..\<close>,
  whenever slot \<open>j\<close> belongs before slot \<open>i\<close>.\<close>

definition exchange :: "('a \<Rightarrow> 'a \<Rightarrow> bool) \<Rightarrow> nat \<Rightarrow> nat \<Rightarrow> 'a list \<Rightarrow> 'a list" where
  "exchange before i j xs =
     (if before (xs ! j) (xs ! i) then xs[i := xs ! j, j := xs ! i] else xs)"

definition exchange_sort :: "('a \<Rightarrow> 'a \<Rightarrow> bool) \<Rightarrow> nat \<Rightarrow> 'a list \<Rightarrow> 'a list" where
  "exchange_sort before n xs =
     fold (\<lambda>i. fold (exchange before i) [i..<n]) [0..<n] xs"

lemma length_exchange [simp]: "length (exchange before i j xs) = length xs"
  by (simp add: exchange_def)

lemma length_inner [simp]: "length (fold (exchange before i) js xs) = length xs"
  by (induction js arbitrary: xs) auto

lemma length_outer [simp]:
  "length (fold (\<lambda>i. fold (exchange before i) (f i)) is xs) = length xs"
  by (induction "is" arbitrary: xs) auto

lemma length_exchange_sort [simp]: "length (exchange_sort before n xs) = length xs"
  by (simp add: exchange_sort_def)

lemma exchange_keeps:
  assumes "\<And>i j xs. i < length xs \<Longrightarrow> j < length xs \<Longrightarrow> P xs \<Longrightarrow> P (xs[i := xs ! j, j := xs ! i])"
    and "P xs" and "length xs = n"
  shows "P (exchange_sort before n xs)"
proof -
  have inner: "P (fold (exchange before i) js xs)"
    if "i < length xs" "set js \<subseteq> {0..<length xs}" "P xs" for i js xs
    using that
  proof (induction js arbitrary: xs)
    case (Cons j js)
    have "P (exchange before i j xs)" using Cons assms(1) by (simp add: exchange_def)
    with Cons show ?case by simp
  qed simp
  have "P (fold (\<lambda>i. fold (exchange before i) [i..<n]) is xs)"
    if "set is \<subseteq> {0..<n}" "P xs" "length xs = n" for "is" xs
    using that
  proof (induction "is" arbitrary: xs)
    case (Cons i "is")
    have "P (fold (exchange before i) [i..<n] xs)"
      by (rule inner) (use Cons in auto)
    with Cons show ?case by simp
  qed simp
  from this [of "[0..<n]"] assms show ?thesis by (simp add: exchange_sort_def)
qed

lemma mset_exchange_sort:
  "length xs = n \<Longrightarrow> mset (exchange_sort before n xs) = mset xs"
  by (rule exchange_keeps [where P = "\<lambda>ys. mset ys = mset xs"]) (auto simp: mset_swap)

text \<open>An order in which zero comes last is the order of the decremented words.\<close>

lemma decremented_order:
  "(0 < x \<and> y = 0) \<or> (0 < x \<and> x < y) \<longleftrightarrow> x - 1 < y - (1 :: 'a :: len word)"
proof (cases "x = 0 \<or> y = 0")
  case True
  have "\<not> - 1 < y - 1" by (simp add: word_order.extremum_strict not_less)
  moreover have "x \<noteq> 0 \<longleftrightarrow> x - 1 < - 1"
    by (metis diff_0 diff_add_cancel eq_iff_diff_eq_0 word_order.not_eq_extremum add_diff_cancel_right' diff_minus_eq_add)
  ultimately show ?thesis using True by (auto simp: word_gt_0)
next
  case False
  then have "unat (x - 1) = unat x - 1" "unat (y - 1) = unat y - 1" "unat x \<noteq> 0" "unat y \<noteq> 0"
    by (simp_all add: unat_minus_one unat_eq_0)
  with False show ?thesis by (auto simp: word_less_nat_alt)
qed

locale keyed_order =
  fixes before :: "'a \<Rightarrow> 'a \<Rightarrow> bool" and key :: "'a \<Rightarrow> 'k :: linorder"
  assumes before_key: "before x y \<longleftrightarrow> key x < key y"
begin

lemma inner_min:
  assumes "i \<le> m" "m \<le> length xs"
  shows "(\<forall>q. i \<le> q \<and> q < m \<longrightarrow>
      key (fold (exchange before i) [i..<m] xs ! i) \<le> key (fold (exchange before i) [i..<m] xs ! q))"
  using assms
proof (induction m)
  case (Suc m)
  show ?case
  proof (cases "i \<le> m")
    case True
    let ?ys = "fold (exchange before i) [i..<m] xs"
    from Suc True have IH: "\<And>q. i \<le> q \<Longrightarrow> q < m \<Longrightarrow> key (?ys ! i) \<le> key (?ys ! q)" by simp
    have "key (exchange before i m ?ys ! i) \<le> key (exchange before i m ?ys ! q)"
      if "i \<le> q" "q < Suc m" for q
      using IH [of q] that Suc(3)
      by (cases "q = m") (auto simp: exchange_def before_key nth_list_update not_less)
    with True show ?thesis by (simp add: upt_Suc_append)
  qed (use Suc in auto)
qed simp

lemma inner_low:
  assumes "i < length xs" "set js \<subseteq> {i..<length xs}" "p < i"
    and "\<forall>q. p \<le> q \<and> q < length xs \<longrightarrow> key (xs ! p) \<le> key (xs ! q)"
  shows "\<forall>q. p \<le> q \<and> q < length xs \<longrightarrow>
    key (fold (exchange before i) js xs ! p) \<le> key (fold (exchange before i) js xs ! q)"
  using assms
proof (induction js arbitrary: xs)
  case (Cons j js)
  have "\<forall>q. p \<le> q \<and> q < length xs \<longrightarrow> key (exchange before i j xs ! p) \<le> key (exchange before i j xs ! q)"
    using Cons(2-) by (auto simp: exchange_def nth_list_update)
  with Cons show ?case by simp
qed simp

lemma exchange_sort_sorted:
  assumes "length xs = n"
  shows "sorted (map key (exchange_sort before n xs))"
proof -
  let ?run = "\<lambda>m. fold (\<lambda>i. fold (exchange before i) [i..<n]) [0..<m] xs"
  have "\<forall>p < m. \<forall>q. p \<le> q \<and> q < n \<longrightarrow> key (?run m ! p) \<le> key (?run m ! q)" if "m \<le> n" for m
    using that
  proof (induction m)
    case (Suc m)
    let ?ys = "?run m"
    have len: "length ?ys = n" using assms by simp
    have "\<forall>q. p \<le> q \<and> q < n \<longrightarrow> key (fold (exchange before m) [m..<n] ?ys ! p) \<le>
        key (fold (exchange before m) [m..<n] ?ys ! q)" if "p < Suc m" for p
    proof (cases "p = m")
      case True
      with inner_min [of m n ?ys] Suc len show ?thesis by simp
    next
      case False
      with inner_low [of m ?ys "[m..<n]" p] Suc len that show ?thesis by simp
    qed
    then show ?case by simp
  qed simp
  from this [of n] show ?thesis
    using assms by (auto simp: exchange_sort_def sorted_iff_nth_mono)
qed

end


section \<open>The interface of a free-space label\<close>

text \<open>\<open>free l\<close> is the set of free tracks a label \<open>l\<close> describes; \<open>add\<close> and \<open>del\<close> take an interval
  \<open>a..<b\<close> of tracks.  \<open>lim\<close> bounds the track numbers, \<open>cap\<close> the number of intervals a label holds.\<close>

locale free_space =
  fixes valid :: "'l \<Rightarrow> bool" and free :: "'l \<Rightarrow> nat set"
    and add del :: "'l \<Rightarrow> nat \<Rightarrow> nat \<Rightarrow> 'e + 'l" and lim cap :: nat
  assumes free_bound: "valid l \<Longrightarrow> free l \<subseteq> {0<..<lim}"
    and add_law: "valid l \<Longrightarrow> 0 < a \<Longrightarrow> a < b \<Longrightarrow> b \<le> lim \<Longrightarrow> {a..<b} \<inter> free l = {} \<Longrightarrow>
      card (runs (free l)) < cap \<Longrightarrow>
      \<exists>l'. add l a b = Inr l' \<and> valid l' \<and> free l' = free l \<union> {a..<b}"
    and del_law: "valid l \<Longrightarrow> a < b \<Longrightarrow> {a..<b} \<subseteq> free l \<Longrightarrow> card (runs (free l)) < cap \<Longrightarrow>
      \<exists>l'. del l a b = Inr l' \<and> valid l' \<and> free l' = free l - {a..<b}"

text \<open>Removing the tracks of one partition after the other, as the callers do.\<close>

fun del_all :: "('l \<Rightarrow> nat \<Rightarrow> nat \<Rightarrow> 'e + 'l) \<Rightarrow> 'l \<Rightarrow> (nat \<times> nat) list \<Rightarrow> 'e + 'l" where
  "del_all del l [] = Inr l"
| "del_all del l ((a, b) # ps) = bind_err (del l a b) (\<lambda>l'. del_all del l' ps)"

fun disjoint_within :: "nat set \<Rightarrow> (nat \<times> nat) list \<Rightarrow> bool" where
  "disjoint_within T [] \<longleftrightarrow> True"
| "disjoint_within T ((a, b) # ps) \<longleftrightarrow> a < b \<and> {a..<b} \<subseteq> T \<and> disjoint_within (T - {a..<b}) ps"

definition covered :: "(nat \<times> nat) list \<Rightarrow> nat set" where
  "covered ps = (\<Union>(a, b) \<in> set ps. {a..<b})"

lemma covered_simps [simp]: "covered [] = {}" "covered ((a, b) # ps) = {a..<b} \<union> covered ps"
  by (auto simp: covered_def)

context free_space
begin

lemma finite_free: "valid l \<Longrightarrow> finite (free l)"
  using free_bound finite_subset by blast

lemma add_then_del:
  assumes "valid l" "0 < a" "a < b" "b \<le> lim" "{a..<b} \<inter> free l = {}"
    and room: "Suc (card (runs (free l))) < cap"
  shows "\<exists>l' l''. add l a b = Inr l' \<and> del l' a b = Inr l'' \<and> valid l'' \<and> free l'' = free l"
proof -
  obtain l' where l': "add l a b = Inr l'" "valid l'" "free l' = free l \<union> {a..<b}"
    using add_law [OF assms(1-5)] room by auto
  have "card (runs (free l')) < cap"
    using card_runs_step(2) [OF finite_free [OF assms(1)], of a b] room l'(3) by simp
  with l' assms del_law [of l' a b] show ?thesis by auto
qed

lemma del_then_add:
  assumes "valid l" "a < b" "{a..<b} \<subseteq> free l"
    and room: "Suc (card (runs (free l))) < cap"
  shows "\<exists>l' l''. del l a b = Inr l' \<and> add l' a b = Inr l'' \<and> valid l'' \<and> free l'' = free l"
proof -
  obtain l' where l': "del l a b = Inr l'" "valid l'" "free l' = free l - {a..<b}"
    using del_law [OF assms(1-3)] room by auto
  have "a \<in> free l" "b - 1 \<in> free l" using assms(2,3) by auto
  then have ab: "0 < a" "b \<le> lim" using free_bound [OF assms(1)] by force+
  have "card (runs (free l')) < cap"
    using card_runs_step(1) [OF finite_free [OF assms(1)], of a b] room l'(3) by simp
  with l' ab assms(2,3) add_law [of l' a b] show ?thesis by auto
qed

lemma del_all_law:
  assumes "valid l" "disjoint_within (free l) ps" "card (runs (free l)) + length ps \<le> cap"
  shows "\<exists>l'. del_all del l ps = Inr l' \<and> valid l' \<and> free l' = free l - covered ps"
  using assms
proof (induction ps arbitrary: l)
  case (Cons p ps)
  obtain a b where p: "p = (a, b)" by (cases p)
  obtain l' where l': "del l a b = Inr l'" "valid l'" "free l' = free l - {a..<b}"
    using del_law [of l a b] Cons.prems p by auto
  have "card (runs (free l')) + length ps \<le> cap"
    using card_runs_step(1) [OF finite_free [OF Cons.prems(1)], of a b] Cons.prems(3) l'(3) by simp
  with Cons.IH [OF l'(2)] Cons.prems(2) l' p
  obtain l'' where "del_all del l' ps = Inr l''" "valid l''" "free l'' = free l' - covered ps" by auto
  with l' p show ?case by auto
qed simp

end

end
