(* ===== verification/Vtoc_Fmt5.thy ===== *)
theory Vtoc_Fmt5
  imports Vtoc_Label Freespace_Spec
begin

text \<open>
  The format 5 label of small volumes (\<open>libvtoc/vtoc.c\<close>): 26 slots, each a first track \<open>t\<close> with a
  length of \<open>fc\<close> cylinders and \<open>ft\<close> tracks.  The C functions address the slots through \<open>DS5AVEXT\<close>,
  \<open>DS5EXTAV[0..6]\<close> and \<open>DS5MAVET[0..17]\<close>; here they are one list.  \<open>trk\<close>, the number of tracks per
  cylinder, is a C \<open>int\<close>; the 16-bit and 8-bit fields are promoted to \<open>int\<close> in every expression and
  the result is cut back to the width of the field it is stored in.  Dividing by \<open>trk = 0\<close> raises
  the floating point exception signal.

  As for format 7, the routines are shown to compute the interval tables of \<open>Freespace_Spec\<close>.
\<close>

definition f5_exts :: "format5_label_t \<Rightarrow> ds5ext_t list" where
  "f5_exts f5 = DS5AVEXT f5 # DS5EXTAV f5 @ DS5MAVET f5"

definition set_f5_exts :: "format5_label_t \<Rightarrow> ds5ext_t list \<Rightarrow> format5_label_t" where
  "set_f5_exts f5 xs = f5\<lparr>DS5AVEXT := xs ! 0, DS5EXTAV := take 7 (drop 1 xs), DS5MAVET := drop 8 xs\<rparr>"

definition before5 :: "ds5ext_t \<Rightarrow> ds5ext_t \<Rightarrow> bool" where
  "before5 ext lst \<longleftrightarrow> (e_t ext > 0 \<and> e_t lst = 0) \<or> (e_t ext > 0 \<and> e_t ext < e_t lst)"

definition vtoc_reorganize_FMT5_extents :: "format5_label_t \<Rightarrow> format5_label_t" where
  "vtoc_reorganize_FMT5_extents f5 = set_f5_exts f5 (exchange_sort before5 26 (f5_exts f5))"

definition SIGFPE :: string where "SIGFPE = ''Floating point exception''"


section \<open>Adding an extent\<close>

text \<open>The track after the extent, \<open>t + fc*trk + ft\<close>, and the test for an unused slot.\<close>

definition end5 :: "int \<Rightarrow> u16 \<Rightarrow> u16 \<Rightarrow> u8 \<Rightarrow> int" where
  "end5 trk t fc ft = uint t + uint fc * trk + uint ft"

definition ext_end :: "int \<Rightarrow> ds5ext_t \<Rightarrow> int" where
  "ext_end trk ext = end5 trk (e_t ext) (e_fc ext) (e_ft ext)"

definition used5 :: "ds5ext_t \<Rightarrow> bool" where
  "used5 ext \<longleftrightarrow> uint (e_t ext) + uint (e_fc ext) + uint (e_ft ext) \<noteq> 0"

definition overlap5 :: "int \<Rightarrow> u16 \<Rightarrow> u16 \<Rightarrow> u8 \<Rightarrow> ds5ext_t \<Rightarrow> bool" where
  "overlap5 trk a b c ext \<longleftrightarrow> (a < e_t ext \<and> end5 trk a b c > uint (e_t ext)) \<or>
     (a > e_t ext \<and> ext_end trk ext > uint a)"

fun f5_slot :: "int \<Rightarrow> ds5ext_t list \<Rightarrow> u16 \<Rightarrow> u16 \<Rightarrow> u8 \<Rightarrow> nat list \<Rightarrow> string + nat" where
  "f5_slot trk xs a b c [] = Inl ''BUG: no free FMT5 DSCB extent found!\<newline>exiting...\<newline>''"
| "f5_slot trk xs a b c (i # is) =
     (if overlap5 trk a b c (xs ! i) then
        Inl ''BUG: overlapping free space extents in FMT5 DSCB!\<newline>exiting...\<newline>''
      else if \<not> used5 (xs ! i) then Inr i
      else f5_slot trk xs a b c is)"

text \<open>\<open>ext\<close> takes over the length of \<open>tmp\<close>.\<close>

definition f5_join :: "int \<Rightarrow> ds5ext_t \<Rightarrow> ds5ext_t \<Rightarrow> ds5ext_t" where
  "f5_join trk tmp ext = ext\<lparr>
     e_fc := word_of_int (uint (e_fc ext) +
       (uint (e_fc tmp) + c_quot (uint (e_ft tmp) + uint (e_ft ext)) trk)),
     e_ft := word_of_int (c_rem (uint (e_ft tmp) + uint (e_ft ext)) trk)\<rparr>"

function f5_merge :: "int \<Rightarrow> ds5ext_t list \<Rightarrow> nat \<Rightarrow> nat \<Rightarrow> string + ds5ext_t list" where
  "f5_merge trk xs tmp i =
     (if i < length xs \<and> tmp < length xs then
        if \<not> used5 (xs ! i) then f5_merge trk xs tmp (Suc i)
        else if ext_end trk (xs ! i) = uint (e_t (xs ! tmp)) then
          if trk = 0 then Inl SIGFPE
          else f5_merge trk (xs[i := f5_join trk (xs ! tmp) (xs ! i), tmp := zero_ds5ext]) i 0
        else if ext_end trk (xs ! tmp) = uint (e_t (xs ! i)) then
          if trk = 0 then Inl SIGFPE
          else f5_merge trk (xs[i := f5_join trk (xs ! tmp) ((xs ! i)\<lparr>e_t := e_t (xs ! tmp)\<rparr>),
                 tmp := zero_ds5ext]) i 0
        else f5_merge trk xs tmp (Suc i)
      else Inr xs)"
  by pat_completeness auto

lemma not_used_zero5 [simp]: "\<not> used5 zero_ds5ext"
  by (simp add: used5_def zero_ds5ext_def)

termination f5_merge
proof (relation "measures [\<lambda>(trk, xs, tmp, i). join_measure used5 xs tmp,
      \<lambda>(trk, xs, tmp, i). length xs - i]", goal_cases)
  case (3 trk xs tmp i)
  then show ?case using join_measure_less [where used = used5, OF _ _ _ not_used_zero5, of i xs tmp]
    by simp
next
  case (4 trk xs tmp i)
  then show ?case using join_measure_less [where used = used5, OF _ _ _ not_used_zero5, of i xs tmp]
    by simp
qed auto

declare f5_merge.simps [simp del]

definition f5_add :: "int \<Rightarrow> ds5ext_t list \<Rightarrow> u16 \<Rightarrow> u16 \<Rightarrow> u8 \<Rightarrow> string + ds5ext_t list" where
  "f5_add trk xs a b c = bind_err (f5_slot trk xs a b c [0..<length xs])
     (\<lambda>k. f5_merge trk (xs[k := \<lparr>e_t = a, e_fc = b, e_ft = c\<rparr>]) k 0)"

definition vtoc_update_format5_label_add ::
  "format5_label_t \<Rightarrow> int \<Rightarrow> u16 \<Rightarrow> u16 \<Rightarrow> u8 \<Rightarrow> string + format5_label_t" where
  "vtoc_update_format5_label_add f5 trk a b c =
     bind_err (f5_add trk (f5_exts f5) a b c) (\<lambda>xs. Inr (set_f5_exts f5 xs))"


section \<open>Removing an extent\<close>

text \<open>The length \<open>(b, c)\<close> is taken off the extent, with a borrow from the cylinders.\<close>

definition f5_shorten :: "int \<Rightarrow> u16 \<Rightarrow> u8 \<Rightarrow> ds5ext_t \<Rightarrow> ds5ext_t" where
  "f5_shorten trk b c ext =
     (if c > e_ft ext then ext\<lparr>
        e_fc := word_of_int (uint (e_fc ext) - (uint b + 1)),
        e_ft := word_of_int (uint (e_ft ext) - (uint c - trk))\<rparr>
      else ext\<lparr>e_fc := e_fc ext - b, e_ft := e_ft ext - c\<rparr>)"

definition f5_del_step ::
  "int \<Rightarrow> ds5ext_t list \<Rightarrow> u16 \<Rightarrow> u16 \<Rightarrow> u8 \<Rightarrow> nat \<Rightarrow> (string + ds5ext_t list) option" where
  "f5_del_step trk xs a b c i =
     (let ext = xs ! i in
      if a = e_t ext \<and> b = e_fc ext \<and> c = e_ft ext then Some (Inr (xs[i := zero_ds5ext]))
      else if a = e_t ext \<and> (b < e_fc ext \<or> c < e_ft ext) then
        Some (Inr (xs[i := f5_shorten trk b c
          (ext\<lparr>e_t := word_of_int (end5 trk (e_t ext) b c)\<rparr>)]))
      else if e_t ext < a \<and> ext_end trk ext = end5 trk a b c then
        Some (Inr (xs[i := f5_shorten trk b c ext]))
      else if a > e_t ext \<and> ext_end trk ext > end5 trk a b c then
        (if trk = 0 then Some (Inl SIGFPE)
         else let x = word_of_int (end5 trk a b c);
                  w = (word_of_int (ext_end trk ext - end5 trk a b c) :: u16);
                  y = word_of_int (c_quot (uint w) trk);
                  z = word_of_int (c_rem (uint w) trk)
              in Some (f5_add trk (xs[i := ext\<lparr>
                   e_fc := word_of_int (c_quot (uint a - uint (e_t ext)) trk),
                   e_ft := word_of_int (c_rem (uint a - uint (e_t ext)) trk)\<rparr>]) x y z))
      else if a < e_t ext \<and> end5 trk a b c > uint (e_t ext) \<and> end5 trk a b c < ext_end trk ext then
        Some (Inl (''BUG: corresponding free space extent doesn'' @ [CHR 0x27] @
          ''t match free space currently shown in FMT5 DSCB!\<newline>exiting...\<newline>''))
      else if a > e_t ext \<and> uint a < ext_end trk ext \<and> end5 trk a b c > ext_end trk ext then
        Some (Inl (''BUG: specified free space extent for deleting doesn'' @ [CHR 0x27] @
          ''t match free space currently shown in FMT5 DSCB!\<newline>exiting...\<newline>''))
      else None)"

fun f5_del :: "int \<Rightarrow> ds5ext_t list \<Rightarrow> u16 \<Rightarrow> u16 \<Rightarrow> u8 \<Rightarrow> nat list \<Rightarrow> string + ds5ext_t list" where
  "f5_del trk xs a b c [] =
     Inl ''BUG: specified free space extent for deleting not found in FMT5 DSCB!\<newline>exiting...\<newline>''"
| "f5_del trk xs a b c (i # is) =
     (case f5_del_step trk xs a b c i of Some r \<Rightarrow> r | None \<Rightarrow> f5_del trk xs a b c is)"

definition vtoc_update_format5_label_del ::
  "format5_label_t \<Rightarrow> int \<Rightarrow> u16 \<Rightarrow> u16 \<Rightarrow> u8 \<Rightarrow> string + format5_label_t" where
  "vtoc_update_format5_label_del f5 trk a b c =
     bind_err (f5_del trk (f5_exts f5) a b c [0..<length (f5_exts f5)])
       (\<lambda>xs. Inr (set_f5_exts f5 xs))"


section \<open>The intervals of a label\<close>

definition len5 :: "nat \<Rightarrow> u16 \<Rightarrow> u8 \<Rightarrow> nat" where
  "len5 k fc ft = unat fc * k + unat ft"

definition iv5 :: "nat \<Rightarrow> ds5ext_t \<Rightarrow> slot" where
  "iv5 k ext = (if used5 ext
     then Some (unat (e_t ext), unat (e_t ext) + len5 k (e_fc ext) (e_ft ext)) else None)"

text \<open>A triple in canonical form: less than a cylinder of single tracks, not empty, and within the
  65536 tracks a 16-bit track number can address.\<close>

definition triple_ok :: "nat \<Rightarrow> u16 \<Rightarrow> u16 \<Rightarrow> u8 \<Rightarrow> bool" where
  "triple_ok k t fc ft \<longleftrightarrow> 0 < k \<and> k < 256 \<and> 0 < t \<and> unat ft < k \<and> 0 < len5 k fc ft \<and>
     unat t + len5 k fc ft \<le> 65536"

definition ext_ok5 :: "nat \<Rightarrow> ds5ext_t \<Rightarrow> bool" where
  "ext_ok5 k ext \<longleftrightarrow> ext = zero_ds5ext \<or> triple_ok k (e_t ext) (e_fc ext) (e_ft ext)"

lemma end5_nat: "end5 (int k) t fc ft = int (unat t + len5 k fc ft)"
  by (simp add: end5_def len5_def)

lemma ext_end_nat: "ext_end (int k) e = int (unat (e_t e) + len5 k (e_fc e) (e_ft e))"
  by (simp add: ext_end_def end5_nat)

lemma used_pos5: "0 < e_t e \<Longrightarrow> used5 e"
proof -
  assume "0 < e_t e"
  then have "0 < uint (e_t e)" by (simp add: word_less_def)
  then show "used5 e" unfolding used5_def
    by (metis add_pos_nonneg less_irrefl uint_ge_0)
qed

lemma iv5_zero [simp]: "iv5 k zero_ds5ext = None" "ext_ok5 k zero_ds5ext"
  by (simp_all add: iv5_def ext_ok5_def)

lemma iv5_cases:
  assumes "ext_ok5 k e"
  obtains "e = zero_ds5ext" "iv5 k e = None" "\<not> used5 e"
  | "iv5 k e = Some (unat (e_t e), unat (e_t e) + len5 k (e_fc e) (e_ft e))" "used5 e"
    "triple_ok k (e_t e) (e_fc e) (e_ft e)"
  using assms used_pos5 [of e] by (auto simp: ext_ok5_def iv5_def triple_ok_def)

lemma iv5_mk:
  assumes "triple_ok k (e_t e) (e_fc e) (e_ft e)"
  shows "iv5 k e = Some (unat (e_t e), unat (e_t e) + len5 k (e_fc e) (e_ft e))" "ext_ok5 k e"
  using assms used_pos5 [of e] by (auto simp: ext_ok5_def iv5_def triple_ok_def)

lemma used5_iv: "used5 e \<longleftrightarrow> iv5 k e \<noteq> None"
  by (simp add: iv5_def)

lemma triple_okD:
  assumes "triple_ok k t fc ft"
  shows "0 < k" "k < 256" "0 < unat t" "unat ft < k" "0 < len5 k fc ft"
    "unat t + len5 k fc ft \<le> 65536"
  using assms by (auto simp: triple_ok_def word_less_nat_alt)

lemma slot_ok_iv5: "ext_ok5 k e \<Longrightarrow> slot_ok (iv5 k e)"
  by (erule iv5_cases) (auto dest: triple_okD)

text \<open>A length determines its cylinders and tracks.\<close>

lemma len5_inj:
  assumes "len5 k b c = len5 k b' c'" "unat c < k" "unat c' < k"
  shows "b = b' \<and> c = c'"
proof -
  have "(unat b * k + unat c) div k = (unat b' * k + unat c') div k"
    "(unat b * k + unat c) mod k = (unat b' * k + unat c') mod k"
    using assms(1) by (simp_all add: len5_def)
  with assms(2,3) show ?thesis by (simp add: word_unat_eq_iff)
qed

lemma iv5_inj: "ext_ok5 k x \<Longrightarrow> ext_ok5 k y \<Longrightarrow> iv5 k x = iv5 k y \<Longrightarrow> x = y"
proof (elim iv5_cases)
  assume "iv5 k x = iv5 k y"
    "iv5 k x = Some (unat (e_t x), unat (e_t x) + len5 k (e_fc x) (e_ft x))"
    "iv5 k y = Some (unat (e_t y), unat (e_t y) + len5 k (e_fc y) (e_ft y))"
    and t: "triple_ok k (e_t x) (e_fc x) (e_ft x)" "triple_ok k (e_t y) (e_fc y) (e_ft y)"
  then have "e_t x = e_t y" "len5 k (e_fc x) (e_ft x) = len5 k (e_fc y) (e_ft y)"
    by (auto simp: word_unat_eq_iff)
  with len5_inj [OF this(2)] triple_okD(4) [OF t(1)] triple_okD(4) [OF t(2)] show "x = y" by simp
qed auto

lemma map_iv5_inj:
  "list_all (ext_ok5 k) xs \<Longrightarrow> list_all (ext_ok5 k) ys \<Longrightarrow> map (iv5 k) xs = map (iv5 k) ys \<Longrightarrow> xs = ys"
  by (erule map_inj_on) (auto simp: list_all_iff intro!: inj_onI iv5_inj)

text \<open>Words that hold the cylinders and tracks of a length.\<close>

lemma len5_split:
  assumes "0 < k" "k < 256" "n < 65536"
  shows "len5 k (of_nat (n div k)) (of_nat (n mod k)) = n"
    and "unat (of_nat (n mod k) :: u8) < k"
proof -
  have "n div k < 65536" using assms(3) by (meson div_le_dividend le_less_trans)
  then have d: "unat (of_nat (n div k) :: u16) = n div k" by (simp add: unat_of_nat_small)
  have "n mod k < 256" using assms(1,2) by (meson less_trans mod_less_divisor)
  then have m: "unat (of_nat (n mod k) :: u8) = n mod k" by (simp add: unat_of_nat_small)
  show "len5 k (of_nat (n div k)) (of_nat (n mod k)) = n" by (simp add: len5_def d m)
  show "unat (of_nat (n mod k) :: u8) < k" using m assms(1) by simp
qed

lemma f5_join_len:
  assumes "0 < k" "k < 256"
    and "unat (e_ft tmp) < k" "unat (e_ft ext) < k"
    and n: "n = len5 k (e_fc tmp) (e_ft tmp) + len5 k (e_fc ext) (e_ft ext)" "n < 65536"
  shows "f5_join (int k) tmp ext = ext\<lparr>e_fc := of_nat (n div k), e_ft := of_nat (n mod k)\<rparr>"
proof -
  let ?s = "unat (e_ft tmp) + unat (e_ft ext)"
  have n': "n = (unat (e_fc tmp) + unat (e_fc ext)) * k + ?s"
    using n by (simp add: len5_def algebra_simps)
  have d: "n div k = unat (e_fc ext) + (unat (e_fc tmp) + ?s div k)"
    unfolding n' using assms(1) by simp
  have m: "n mod k = ?s mod k" unfolding n' by simp
  have "c_quot (uint (e_ft tmp) + uint (e_ft ext)) (int k) = int (?s div k)"
    "c_rem (uint (e_ft tmp) + uint (e_ft ext)) (int k) = int (?s mod k)"
    using assms(1) by (simp_all add: zdiv_int zmod_int)
  then have "word_of_int (c_quot (uint (e_ft tmp) + uint (e_ft ext)) (int k)) = (of_nat (?s div k) :: u16)"
    "word_of_int (c_rem (uint (e_ft tmp) + uint (e_ft ext)) (int k)) = (of_nat (?s mod k) :: u8)"
    by (metis of_int_of_nat_eq)+
  then show ?thesis unfolding f5_join_def d m by simp
qed

lemma triple_split:
  assumes "0 < k" "k < 256" "0 < t" "0 < n" "unat t + n \<le> 65536"
  shows "triple_ok k t (of_nat (n div k)) (of_nat (n mod k))"
    and "len5 k (of_nat (n div k)) (of_nat (n mod k)) = n"
proof -
  have "0 < unat t" using assms(3) by (simp add: word_less_nat_alt)
  then have "n < 65536" using assms(5) by simp
  note l = len5_split [OF assms(1,2) this]
  show "len5 k (of_nat (n div k)) (of_nat (n mod k)) = n" by (rule l)
  show "triple_ok k t (of_nat (n div k)) (of_nat (n mod k))"
    using assms l by (simp add: triple_ok_def)
qed

lemma f5_join_iv:
  assumes k: "0 < k" "k < 256" and t: "0 < e_t ext"
    and ft: "unat (e_ft tmp) < k" "unat (e_ft ext) < k"
    and n: "n = len5 k (e_fc tmp) (e_ft tmp) + len5 k (e_fc ext) (e_ft ext)" "0 < n"
      "unat (e_t ext) + n \<le> 65536"
  shows "iv5 k (f5_join (int k) tmp ext) = Some (unat (e_t ext), unat (e_t ext) + n)"
    and "ext_ok5 k (f5_join (int k) tmp ext)"
proof -
  have "n < 65536" using t n(3) by (simp add: word_less_nat_alt)
  note j = f5_join_len [OF k ft n(1) this]
  note sp = triple_split [OF k t n(2,3)]
  show "iv5 k (f5_join (int k) tmp ext) = Some (unat (e_t ext), unat (e_t ext) + n)"
    "ext_ok5 k (f5_join (int k) tmp ext)"
    using iv5_mk [of k "f5_join (int k) tmp ext"] sp by (simp_all add: j)
qed

lemma f5_merge_iv:
  "list_all (ext_ok5 k) xs \<Longrightarrow> tmp < length xs \<Longrightarrow> iv5 k (xs ! tmp) \<noteq> None \<Longrightarrow>
     \<exists>ys. f5_merge (int k) xs tmp i = Inr ys \<and>
       map (iv5 k) ys = iv_merge (map (iv5 k) xs) tmp i \<and> list_all (ext_ok5 k) ys"
proof (induction "int k" xs tmp i rule: f5_merge.induct)
  case (1 xs tmp i)
  note ok = 1(5) and tmp = 1(6,7)
  let ?t = "xs ! tmp" and ?e = "xs ! i"
  have "ext_ok5 k ?t" using ok tmp(1) by (simp add: list_all_length)
  then obtain t: "iv5 k ?t = Some (unat (e_t ?t), unat (e_t ?t) + len5 k (e_fc ?t) (e_ft ?t))"
    "triple_ok k (e_t ?t) (e_fc ?t) (e_ft ?t)" "used5 ?t"
    using tmp(2) by (elim iv5_cases) auto
  note td = triple_okD [OF t(2)]
  show ?case
  proof (cases "i < length xs")
    case False
    with ok show ?thesis by (simp add: f5_merge.simps [of _ xs tmp i] iv_merge.simps [of _ tmp i])
  next
    case i: True
    have "ext_ok5 k ?e" using ok i by (simp add: list_all_length)
    then show ?thesis
    proof (cases rule: iv5_cases)
      case empty: 1
      with 1(1) i ok tmp t show ?thesis
        by (simp add: f5_merge.simps [of _ xs tmp i] iv_merge.simps [of _ tmp i])
    next
      case e: 2
      note ed = triple_okD [OF e(3)]
      consider (pre) "ext_end (int k) ?e = uint (e_t ?t)"
        | (suc) "ext_end (int k) ?e \<noteq> uint (e_t ?t)" "ext_end (int k) ?t = uint (e_t ?e)"
        | (no) "ext_end (int k) ?e \<noteq> uint (e_t ?t)" "ext_end (int k) ?t \<noteq> uint (e_t ?e)" by blast
      then show ?thesis
      proof cases
        case pre
        then have p: "unat (e_t ?e) + len5 k (e_fc ?e) (e_ft ?e) = unat (e_t ?t)"
          by (simp only: ext_end_nat uint_nat of_nat_eq_iff)
        with ed have ne: "i \<noteq> tmp" by auto
        have j: "iv5 k (f5_join (int k) ?t ?e) =
            Some (unat (e_t ?e), unat (e_t ?t) + len5 k (e_fc ?t) (e_ft ?t))"
          "ext_ok5 k (f5_join (int k) ?t ?e)"
          using f5_join_iv [of k ?e ?t, OF td(1,2) _ td(4) ed(4) refl] ed td p
          by (simp_all add: word_less_nat_alt)
        let ?ys = "xs[i := f5_join (int k) ?t ?e, tmp := zero_ds5ext]"
        have "list_all (ext_ok5 k) ?ys" using ok j by simp
        with 1(2) [OF _ _ pre] pre p i tmp(1) td(1) e(1,2) t(1) j ne show ?thesis
          by (simp add: f5_merge.simps [of _ xs tmp i] iv_merge.simps [of _ tmp i] map_update)
      next
        case suc
        from suc(2) have p: "unat (e_t ?t) + len5 k (e_fc ?t) (e_ft ?t) = unat (e_t ?e)"
          by (simp only: ext_end_nat uint_nat of_nat_eq_iff)
        from suc(1) have q: "unat (e_t ?e) + len5 k (e_fc ?e) (e_ft ?e) \<noteq> unat (e_t ?t)"
          by (simp only: ext_end_nat uint_nat of_nat_eq_iff not_False_eq_True)
        from p td have ne: "i \<noteq> tmp" by auto
        let ?e' = "?e\<lparr>e_t := e_t ?t\<rparr>"
        have j: "iv5 k (f5_join (int k) ?t ?e') =
            Some (unat (e_t ?t), unat (e_t ?e) + len5 k (e_fc ?e) (e_ft ?e))"
          "ext_ok5 k (f5_join (int k) ?t ?e')"
          using f5_join_iv [of k ?e' ?t, OF td(1,2) _ td(4) _ refl] ed td p
          by (simp_all add: word_less_nat_alt)
        let ?ys = "xs[i := f5_join (int k) ?t ?e', tmp := zero_ds5ext]"
        have "list_all (ext_ok5 k) ?ys" using ok j by simp
        with 1(3) [OF _ _ suc] suc p q i tmp(1) td(1) e(1,2) t(1) j ne show ?thesis
          by (simp add: f5_merge.simps [of _ xs tmp i] iv_merge.simps [of _ tmp i] map_update)
      next
        case no
        then have "unat (e_t ?t) + len5 k (e_fc ?t) (e_ft ?t) \<noteq> unat (e_t ?e)"
          "unat (e_t ?e) + len5 k (e_fc ?e) (e_ft ?e) \<noteq> unat (e_t ?t)"
          by (simp_all only: ext_end_nat uint_nat of_nat_eq_iff not_False_eq_True)
        with 1(4) no i tmp t e ok show ?thesis
          by (simp add: f5_merge.simps [of _ xs tmp i] iv_merge.simps [of _ tmp i])
      qed
    qed
  qed
qed


section \<open>Adding and removing refine the interval tables\<close>

lemma f5_slot_find:
  "\<forall>i \<in> set is. \<not> overlap5 trk a b c (xs ! i) \<Longrightarrow> \<exists>e. f5_slot trk xs a b c is =
     (case find (\<lambda>i. iv5 k (xs ! i) = None) is of None \<Rightarrow> Inl e | Some k \<Rightarrow> Inr k)"
  by (induction "is") (auto simp: used5_iv [of _ k])

lemma overlap5_nat:
  "overlap5 (int k) a b c e \<longleftrightarrow>
     (unat a < unat (e_t e) \<and> unat (e_t e) < unat a + len5 k b c) \<or>
     (unat (e_t e) < unat a \<and> unat a < unat (e_t e) + len5 k (e_fc e) (e_ft e))"
  unfolding overlap5_def end5_nat ext_end_nat word_less_nat_alt uint_nat of_nat_less_iff by (rule refl)

lemma overlap5_apart:
  assumes "ext_ok5 k ext" "apart (Some (unat a, unat a + len5 k b c)) (iv5 k ext)"
  shows "\<not> overlap5 (int k) a b c ext"
  using assms(1)
proof (cases rule: iv5_cases)
  case 1
  then show ?thesis by (simp add: overlap5_nat zero_ds5ext_def len5_def)
next
  case 2
  with assms(2) show ?thesis by (auto simp: overlap5_nat)
qed

lemma f5_add_iv:
  assumes ok: "list_all (ext_ok5 k) xs" and abc: "triple_ok k a b c"
    and no: "\<forall>i < length xs. \<not> overlap5 (int k) a b c (xs ! i)"
    and add: "iv_add (map (iv5 k) xs) (unat a) (unat a + len5 k b c) = Some ys"
  shows "\<exists>zs. f5_add (int k) xs a b c = Inr zs \<and> map (iv5 k) zs = ys \<and> list_all (ext_ok5 k) zs"
proof -
  obtain m where m: "free_slot (map (iv5 k) xs) = Some m" "m < length xs"
    using add free_slot_Some by (fastforce simp: iv_add_def split: option.splits)
  have slot: "f5_slot (int k) xs a b c [0..<length xs] = Inr m"
    using f5_slot_find [of "[0..<length xs]" "int k" a b c xs k] no m(1) by (auto simp: free_slot_map)
  let ?new = "\<lparr>e_t = a, e_fc = b, e_ft = c\<rparr>"
  let ?xs = "xs[m := ?new]"
  have new: "iv5 k ?new = Some (unat a, unat a + len5 k b c)" "ext_ok5 k ?new"
    using iv5_mk [of k ?new] abc by simp_all
  have "list_all (ext_ok5 k) ?xs" "iv5 k (?xs ! m) \<noteq> None" using ok m(2) new by simp_all
  from f5_merge_iv [OF this(1) _ this(2), of 0] m new add slot show ?thesis
    by (auto simp: iv_add_def f5_add_def map_update)
qed

lemma f5_shorten_len:
  assumes "unat c < k" "unat (e_ft ext) < k" "k < 256"
    and le: "len5 k b c \<le> len5 k (e_fc ext) (e_ft ext)"
  shows "\<exists>fc ft. f5_shorten (int k) b c ext = ext\<lparr>e_fc := fc, e_ft := ft\<rparr> \<and> unat ft < k \<and>
    len5 k fc ft = len5 k (e_fc ext) (e_ft ext) - len5 k b c"
proof -
  let ?fc = "unat (e_fc ext)" and ?ft = "unat (e_ft ext)"
  have le': "unat b * k + unat c \<le> ?fc * k + ?ft" using le by (simp add: len5_def)
  show ?thesis
  proof (cases "c > e_ft ext")
    case True
    then have gt: "?ft < unat c" by (simp add: word_less_nat_alt)
    have "unat b * k < ?fc * k" using le' gt by linarith
    then have lt: "unat b < ?fc" by simp
    have u1: "unat (word_of_int (uint (e_fc ext) - (uint b + 1)) :: u16) = ?fc - Suc (unat b)"
    proof -
      have "uint (e_fc ext) - (uint b + 1) = int (?fc - Suc (unat b))"
        using lt by (simp add: of_nat_diff)
      then have "(word_of_int (uint (e_fc ext) - (uint b + 1)) :: u16) = of_nat (?fc - Suc (unat b))"
        by (metis of_int_of_nat_eq)
      moreover have "?fc < 65536" using unsigned_less [of "e_fc ext", where ?'a = nat] by simp
      ultimately show ?thesis by (simp add: unat_of_nat_small)
    qed
    have u2: "unat (word_of_int (uint (e_ft ext) - (uint c - int k)) :: u8) = ?ft + k - unat c"
    proof -
      have "uint (e_ft ext) - (uint c - int k) = int (?ft + k - unat c)"
        using assms(1) by (simp add: of_nat_diff)
      then have "(word_of_int (uint (e_ft ext) - (uint c - int k)) :: u8) = of_nat (?ft + k - unat c)"
        by (metis of_int_of_nat_eq)
      with gt assms(3) show ?thesis by (simp add: unat_of_nat_small)
    qed
    obtain j where j: "?fc = Suc (unat b + j)" using lt less_imp_Suc_add by blast
    have "len5 k (word_of_int (uint (e_fc ext) - (uint b + 1)))
        (word_of_int (uint (e_ft ext) - (uint c - int k))) =
        len5 k (e_fc ext) (e_ft ext) - len5 k b c"
      unfolding len5_def u1 u2 using j gt assms(1,2) by (simp add: algebra_simps)
    moreover have "unat (word_of_int (uint (e_ft ext) - (uint c - int k)) :: u8) < k"
      using u2 gt assms(1) by simp
    ultimately show ?thesis unfolding f5_shorten_def using True by (simp only: if_True) blast
  next
    case False
    then have ge: "unat c \<le> ?ft" by (simp add: word_less_nat_alt)
    have "unat b * k < Suc ?fc * k" using le' assms(2) by simp
    then have "unat b < Suc ?fc" by (rule mult_less_cancel2 [THEN iffD1, THEN conjunct2])
    then have "unat b \<le> ?fc" by simp
    then have u: "unat (e_fc ext - b) = ?fc - unat b" "unat (e_ft ext - c) = ?ft - unat c"
      using ge by (simp_all add: unat_sub word_le_nat_alt)
    obtain j where j: "?fc = unat b + j" using \<open>unat b \<le> ?fc\<close> le_Suc_ex by blast
    have "len5 k (e_fc ext - b) (e_ft ext - c) = len5 k (e_fc ext) (e_ft ext) - len5 k b c"
      unfolding len5_def u using j ge by (simp add: algebra_simps)
    moreover have "unat (e_ft ext - c) < k" using u(2) assms(2) by simp
    ultimately show ?thesis unfolding f5_shorten_def using False by (simp only: if_False) blast
  qed
qed

lemma f5_shorten_iv:
  assumes e: "triple_ok k t (e_fc ext) (e_ft ext)" and s: "0 < unat (e_t ext)" "unat c < k"
    and n: "len5 k b c < len5 k (e_fc ext) (e_ft ext)"
      "unat (e_t ext) + (len5 k (e_fc ext) (e_ft ext) - len5 k b c) \<le> 65536"
  shows "iv5 k (f5_shorten (int k) b c ext) =
      Some (unat (e_t ext), unat (e_t ext) + (len5 k (e_fc ext) (e_ft ext) - len5 k b c))"
    and "ext_ok5 k (f5_shorten (int k) b c ext)"
proof -
  note ed = triple_okD [OF e]
  obtain fc ft where r: "f5_shorten (int k) b c ext = ext\<lparr>e_fc := fc, e_ft := ft\<rparr>" "unat ft < k"
    "len5 k fc ft = len5 k (e_fc ext) (e_ft ext) - len5 k b c"
    using f5_shorten_len [OF s(2) ed(4,2), of b] n(1) by fastforce
  have "triple_ok k (e_t ext) fc ft"
    using ed r(2,3) s n by (simp add: triple_ok_def word_less_nat_alt)
  then show "iv5 k (f5_shorten (int k) b c ext) =
      Some (unat (e_t ext), unat (e_t ext) + (len5 k (e_fc ext) (e_ft ext) - len5 k b c))"
    "ext_ok5 k (f5_shorten (int k) b c ext)"
    using iv5_mk [of k "ext\<lparr>e_fc := fc, e_ft := ft\<rparr>"] r by simp_all
qed

lemma f5_cut_iv:
  assumes e: "triple_ok k (e_t ext) (e_fc ext) (e_ft ext)"
    and a: "e_t ext < a" "unat a < unat (e_t ext) + len5 k (e_fc ext) (e_ft ext)"
  defines "lft \<equiv> ext\<lparr>e_fc := word_of_int (c_quot (uint a - uint (e_t ext)) (int k)),
    e_ft := word_of_int (c_rem (uint a - uint (e_t ext)) (int k))\<rparr>"
  shows "iv5 k lft = Some (unat (e_t ext), unat a)" "ext_ok5 k lft"
proof -
  note ed = triple_okD [OF e]
  have lt: "unat (e_t ext) < unat a" using a(1) by (simp add: word_less_nat_alt)
  let ?n = "unat a - unat (e_t ext)"
  have "uint a - uint (e_t ext) = int ?n" using lt by (simp add: of_nat_diff)
  then have lft: "lft = ext\<lparr>e_fc := of_nat (?n div k), e_ft := of_nat (?n mod k)\<rparr>"
    unfolding lft_def using ed(1)
    by (simp add: of_int_of_nat_eq flip: zdiv_int zmod_int)
  have "0 < e_t ext" "0 < ?n" "unat (e_t ext) + ?n \<le> 65536"
    using lt a(2) ed by (auto simp: word_less_nat_alt)
  from triple_split [OF ed(1,2) this] iv5_mk [of k lft] lt
  show "iv5 k lft = Some (unat (e_t ext), unat a)" "ext_ok5 k lft" by (simp_all add: lft)
qed

lemma free_slot_update:
  assumes "xs ! p \<noteq> None" "v \<noteq> None"
  shows "free_slot (xs[p := v]) = free_slot xs"
proof -
  have "(xs[p := v] ! i = None) = (xs ! i = None)" if "i < length xs" for i
    using assms that by (cases "i = p") auto
  then show ?thesis unfolding free_slot_def by (intro find_cong) auto
qed

lemma f5_del_holder:
  assumes ok: "list_all (ext_ok5 k) xs" and t: "table_ok (map (iv5 k) xs)"
    and p: "p < length xs" "iv5 k (xs ! p) = Some (s, d)"
    and f: "free_slot (map (iv5 k) xs) = Some f" and abc: "triple_ok k a b c"
    and sub: "s \<le> unat a" "unat a + len5 k b c \<le> d"
  defines "B \<equiv> unat a + len5 k b c"
  shows "\<exists>zs. f5_del_step (int k) xs a b c p = Some (Inr zs) \<and> list_all (ext_ok5 k) zs \<and>
    map (iv5 k) zs = (if unat a = s \<and> B = d then (map (iv5 k) xs)[p := None]
      else if unat a = s then (map (iv5 k) xs)[p := Some (B, d)]
      else if B = d then (map (iv5 k) xs)[p := Some (s, unat a)]
      else (map (iv5 k) xs)[p := Some (s, unat a), f := Some (B, d)])"
proof -
  let ?e = "xs ! p"
  have "ext_ok5 k ?e" using ok p(1) by (simp add: list_all_length)
  then have e: "s = unat (e_t ?e)" "d = unat (e_t ?e) + len5 k (e_fc ?e) (e_ft ?e)"
    "triple_ok k (e_t ?e) (e_fc ?e) (e_ft ?e)"
    using p(2) by (elim iv5_cases; simp)+
  note ed = triple_okD [OF e(3)] and ad = triple_okD [OF abc]
  have E: "ext_end (int k) ?e = int d" "end5 (int k) a b c = int B"
    using e by (simp_all add: ext_end_nat end5_nat B_def)
  have len: "len5 k (e_fc ?e) (e_ft ?e) = d - s" "len5 k b c = B - unat a" "s < d" "unat a < B"
    using e ed ad by (auto simp: B_def)
  have upd: "list_all (ext_ok5 k) (xs[p := v])" if "ext_ok5 k v" for v using ok that by simp
  consider (all) "unat a = s" "B = d" | (left) "unat a = s" "B < d"
    | (right) "s < unat a" "B = d" | (two) "s < unat a" "B < d" using sub by (fastforce simp: B_def)
  then show ?thesis
  proof cases
    case all
    then have "a = e_t ?e" using e(1) by (simp add: word_unat_eq_iff)
    moreover have "b = e_fc ?e \<and> c = e_ft ?e" using len5_inj [OF _ ad(4) ed(4), of b "e_fc ?e"] len all by simp
    ultimately have "a = e_t ?e" "b = e_fc ?e" "c = e_ft ?e" by simp_all
    then show ?thesis using all p(1) upd
      by (auto simp: f5_del_step_def Let_def map_update)
  next
    case left
    then have a: "a = e_t ?e" using e(1) by (simp add: word_unat_eq_iff)
    have lt: "len5 k b c < len5 k (e_fc ?e) (e_ft ?e)" using len left by simp
    then have ne: "\<not> (b = e_fc ?e \<and> c = e_ft ?e)" by auto
    have or: "b < e_fc ?e \<or> c < e_ft ?e"
    proof (rule ccontr)
      assume "\<not> ?thesis"
      then have "unat (e_fc ?e) * k + unat (e_ft ?e) \<le> unat b * k + unat c"
        by (intro add_mono mult_le_mono1) (auto simp: word_less_nat_alt)
      with lt show False by (simp add: len5_def)
    qed
    define e' where "e' = ?e\<lparr>e_t := word_of_int (end5 (int k) (e_t ?e) b c)\<rparr>"
    have B: "unat (e_t e') = B" "e_fc e' = e_fc ?e" "e_ft e' = e_ft ?e"
      using left ed e(2) E(2) a by (simp_all add: unat_of_nat_small e'_def)
    have d: "B + (len5 k (e_fc ?e) (e_ft ?e) - len5 k b c) = d" using left len by simp
    have "d \<le> 65536" "0 < B" using e(2) ed(6) len(4) by auto
    then have "iv5 k (f5_shorten (int k) b c e') = Some (B, d)" "ext_ok5 k (f5_shorten (int k) b c e')"
      using f5_shorten_iv [of k "e_t ?e" e' c b, unfolded B d, OF e(3) _ ad(4) lt] by simp_all
    moreover have "f5_del_step (int k) xs a b c p = Some (Inr (xs[p := f5_shorten (int k) b c e']))"
      using a ne or by (auto simp: f5_del_step_def Let_def e'_def)
    ultimately show ?thesis using left p(1) upd by (auto simp: map_update)
  next
    case right
    have "\<not> a = e_t ?e" "e_t ?e < a" using right e(1) by (auto simp: word_less_nat_alt)
    then have "f5_del_step (int k) xs a b c p = Some (Inr (xs[p := f5_shorten (int k) b c ?e]))"
      using right E by (simp add: f5_del_step_def Let_def)
    moreover have d: "s + (len5 k (e_fc ?e) (e_ft ?e) - len5 k b c) = unat a"
      and lt: "len5 k b c < len5 k (e_fc ?e) (e_ft ?e)" and "0 < s" "unat a \<le> 65536"
      using right len ed(3,6) ad(6) e(1) by auto
    then have "iv5 k (f5_shorten (int k) b c ?e) = Some (s, unat a)"
      "ext_ok5 k (f5_shorten (int k) b c ?e)"
      using f5_shorten_iv [of k "e_t ?e" ?e c b, folded e(1), unfolded d, OF e(3) _ ad(4) lt]
      by simp_all
    ultimately show ?thesis using right p(1) upd by (auto simp: map_update)
  next
    case two
    have aw: "\<not> a = e_t ?e" "e_t ?e < a" using two e(1) by (auto simp: word_less_nat_alt)
    define lft where "lft = ?e\<lparr>e_fc := word_of_int (c_quot (uint a - uint (e_t ?e)) (int k)),
      e_ft := word_of_int (c_rem (uint a - uint (e_t ?e)) (int k))\<rparr>"
    have lft: "iv5 k lft = Some (s, unat a)" "ext_ok5 k lft"
    proof -
      have "unat a < unat (e_t ?e) + len5 k (e_fc ?e) (e_ft ?e)"
        using two(2) len(4) e(2) by linarith
      from f5_cut_iv [OF e(3) aw(2) this] show "iv5 k lft = Some (s, unat a)" "ext_ok5 k lft"
        by (simp_all add: lft_def e(1))
    qed
    have d: "d \<le> 65536" "0 < B" using e(2) ed(6) len(4) by linarith+
    define x :: u16 where "x = word_of_int (int B)"
    define w :: u16 where "w = word_of_int (int d - int B)"
    define y :: u16 where "y = word_of_int (c_quot (uint w) (int k))"
    define z :: u8 where "z = word_of_int (c_rem (uint w) (int k))"
    have x: "unat x = B" using two d by (simp add: x_def unat_of_nat_small)
    have "int d - int B = int (d - B)" using two by (simp add: of_nat_diff)
    then have "w = of_nat (d - B)" unfolding w_def by (metis of_int_of_nat_eq)
    moreover have "d - B < 2 ^ LENGTH(16)" using two d by simp
    ultimately have w: "unat w = d - B" by (simp only: unat_of_nat_small)
    have yz: "y = of_nat ((d - B) div k)" "z = of_nat ((d - B) mod k)"
      using ed(1) by (simp_all add: y_def z_def uint_nat w flip: zdiv_int zmod_int)
    have "0 < x" "0 < d - B" "unat x + (d - B) \<le> 65536"
      using x two d by (auto simp: word_less_nat_alt)
    from triple_split [OF ed(1,2) this] have
      new: "triple_ok k x y z" "len5 k y z = d - B" by (simp_all add: yz)
    have f': "f < length xs" "iv5 k (xs ! f) = None" using free_slot_Some [OF f] by auto
    with p have pf: "p \<noteq> f" by auto
    let ?xs = "xs[p := lft]" and ?iv = "(map (iv5 k) xs)[p := Some (s, unat a)]"
    have ivs: "map (iv5 k) ?xs = ?iv" using lft by (simp add: map_update)
    have free: "free_slot ?iv = Some f" using free_slot_update [of "map (iv5 k) xs" p] f p by simp
    have sep: "separate (Some (s, d)) (iv5 k (xs ! j))" if "j < length xs" "j \<noteq> p" for j
      using table_ok_sep [OF t, of p j] that p by simp
    have sep': "separate (Some (B, d)) (?iv ! j)" if "j < length xs" for j
      using that separate_part [OF sep, of j B d] two len p(1) by (cases "j = p") auto
    have okiv: "slot_ok (?iv ! j)" if "j < length xs" for j
      using that table_ok_slot [OF t, of j] two ed(3) e(1) p(1) by (cases "j = p") auto
    have no: "\<not> overlap5 (int k) x y z (?xs ! j)" if "j < length ?xs" for j
    proof (rule overlap5_apart)
      show "ext_ok5 k (?xs ! j)" using upd [OF lft(2)] that by (simp add: list_all_length)
      show "apart (Some (unat x, unat x + len5 k y z)) (iv5 k (?xs ! j))"
        using separate_apart [OF sep' [of j]] that x new(2) two ivs
        by (metis le_add_diff_inverse length_list_update less_imp_le nth_map)
    qed
    have "iv_merge (?iv[f := Some (B, d)]) f 0 = ?iv[f := Some (B, d)]"
    proof (rule iv_merge_noop)
      show "?iv[f := Some (B, d)] ! f = Some (B, d)" using f' by simp
      fix j c' d' assume "j < length (?iv[f := Some (B, d)])" "?iv[f := Some (B, d)] ! j = Some (c', d')"
      with sep' [of j] okiv [of j] two show "d' \<noteq> B \<and> c' \<noteq> d" by (cases "j = f") (auto simp: f')
    qed (use f' in simp)
    then have "iv_add (map (iv5 k) ?xs) (unat x) (unat x + len5 k y z) = Some (?iv[f := Some (B, d)])"
      using free x new(2) two by (simp add: iv_add_def ivs)
    from f5_add_iv [OF upd [OF lft(2)] new(1) _ this] no obtain zs where
      zs: "f5_add (int k) ?xs x y z = Inr zs" "map (iv5 k) zs = ?iv[f := Some (B, d)]"
        "list_all (ext_ok5 k) zs" by auto
    have "f5_del_step (int k) xs a b c p = Some (f5_add (int k) ?xs x y z)"
      using aw two E ed(1) by (simp add: f5_del_step_def Let_def lft_def x_def y_def z_def w_def)
    with zs two show ?thesis by auto
  qed
qed

lemma del5_step_None:
  assumes ok: "ext_ok5 k (xs ! i)" and abc: "triple_ok k a b c"
    and ap: "apart (Some (unat a, unat a + len5 k b c)) (iv5 k (xs ! i))"
  shows "f5_del_step (int k) xs a b c i = None"
proof -
  let ?e = "xs ! i"
  note ad = triple_okD [OF abc]
  have E: "ext_end (int k) ?e = int (unat (e_t ?e) + len5 k (e_fc ?e) (e_ft ?e))"
    "end5 (int k) a b c = int (unat a + len5 k b c)" by (simp_all only: ext_end_nat end5_nat)
  have far: "e_t ?e \<noteq> a" "e_t ?e < a \<Longrightarrow> unat (e_t ?e) + len5 k (e_fc ?e) (e_ft ?e) \<le> unat a"
    "a < e_t ?e \<Longrightarrow> unat a + len5 k b c \<le> unat (e_t ?e)"
    using ok
  proof (atomize (full), cases rule: iv5_cases)
    case 1
    with ad show "e_t ?e \<noteq> a \<and>
      (e_t ?e < a \<longrightarrow> unat (e_t ?e) + len5 k (e_fc ?e) (e_ft ?e) \<le> unat a) \<and>
      (a < e_t ?e \<longrightarrow> unat a + len5 k b c \<le> unat (e_t ?e))"
      by (auto simp: zero_ds5ext_def len5_def word_less_nat_alt)
  next
    case 2
    with ad ap triple_okD [OF 2(3)] show "e_t ?e \<noteq> a \<and>
      (e_t ?e < a \<longrightarrow> unat (e_t ?e) + len5 k (e_fc ?e) (e_ft ?e) \<le> unat a) \<and>
      (a < e_t ?e \<longrightarrow> unat a + len5 k b c \<le> unat (e_t ?e))"
      by (auto simp: word_less_nat_alt)
  qed
  show ?thesis
  proof (cases "e_t ?e < a")
    case True
    from far(2) [OF True] ad(5)
    have 1: "ext_end (int k) ?e \<noteq> end5 (int k) a b c" "\<not> end5 (int k) a b c < ext_end (int k) ?e"
      "\<not> uint a < ext_end (int k) ?e"
      unfolding E uint_nat by linarith+
    from True have 2: "a \<noteq> e_t ?e" "\<not> a < e_t ?e" by auto
    show ?thesis unfolding f5_del_step_def Let_def using 1 2 by (simp only: simp_thms if_False)
  next
    case False
    with far(1) have lt: "a < e_t ?e" by auto
    from far(3) [OF this] have 1: "\<not> uint (e_t ?e) < end5 (int k) a b c"
      unfolding E uint_nat by linarith
    show ?thesis unfolding f5_del_step_def Let_def using 1 False far(1) [symmetric]
      by (simp only: simp_thms if_False)
  qed
qed

lemma f5_del_first:
  assumes "find P is = Some m" "\<forall>i \<in> set is. \<not> P i \<longrightarrow> f5_del_step trk xs a b c i = None"
    and "f5_del_step trk xs a b c m = Some r"
  shows "f5_del trk xs a b c is = r"
  using assms by (induction "is") (auto split: if_splits)

lemma f5_del_iv:
  assumes ok: "list_all (ext_ok5 k) xs" and t: "table_ok (map (iv5 k) xs)" and abc: "triple_ok k a b c"
    and sub: "{unat a..<unat a + len5 k b c} \<subseteq> trks (map (iv5 k) xs)"
    and room: "card (runs (trks (map (iv5 k) xs))) < length xs"
  shows "\<exists>zs. f5_del (int k) xs a b c [0..<length xs] = Inr zs \<and> list_all (ext_ok5 k) zs \<and>
    iv_del (map (iv5 k) xs) (unat a) (unat a + len5 k b c) = Some (map (iv5 k) zs)"
proof -
  let ?B = "unat a + len5 k b c" and ?iv = "map (iv5 k) xs"
  have lt: "unat a < ?B" using triple_okD [OF abc] by simp
  obtain p s d where p: "holder ?iv (unat a) ?B = Some p" "p < length xs"
    "iv5 k (xs ! p) = Some (s, d)" and sd: "s \<le> unat a" "?B \<le> d"
    using holder_exists [OF t lt sub] by auto
  obtain f where f: "free_slot ?iv = Some f"
    using free_slot_exists [of ?iv] card_used_slots [OF t] room by auto
  from f5_del_holder [OF ok t p(2,3) f abc sd] obtain zs where
    zs: "f5_del_step (int k) xs a b c p = Some (Inr zs)" "list_all (ext_ok5 k) zs" and
    iv: "iv_del ?iv (unat a) ?B = Some (map (iv5 k) zs)"
    using p f by (auto simp: iv_del_def)
  have "f5_del_step (int k) xs a b c i = None"
    if i: "i < length xs" "\<not> iv_holds (iv5 k (xs ! i)) (unat a) ?B" for i
  proof (rule del5_step_None [OF _ abc])
    show "ext_ok5 k (xs ! i)" using ok i(1) by (simp add: list_all_length)
    have "i \<noteq> p" using i p sd by auto
    with table_ok_sep [OF t, of p i] p i(1) have "separate (Some (s, d)) (iv5 k (xs ! i))" by simp
    from separate_part [OF this sd] show "apart (Some (unat a, ?B)) (iv5 k (xs ! i))"
      by (rule separate_apart)
  qed
  moreover have "find (\<lambda>i. iv_holds (iv5 k (xs ! i)) (unat a) ?B) [0..<length xs] = Some p"
    using p(1) by (simp add: holder_map)
  ultimately show ?thesis
    using f5_del_first [OF _ _ zs(1), of "\<lambda>i. iv_holds (iv5 k (xs ! i)) (unat a) ?B"] zs(2) iv
    by auto
qed


section \<open>The label as a free-space label\<close>

definition f5_free :: "nat \<Rightarrow> format5_label_t \<Rightarrow> nat set" where
  "f5_free k f5 = trks (map (iv5 k) (f5_exts f5))"

definition f5_valid :: "nat \<Rightarrow> format5_label_t \<Rightarrow> bool" where
  "f5_valid k f5 \<longleftrightarrow> 0 < k \<and> k < 256 \<and> wf_f5 f5 \<and> list_all (ext_ok5 k) (f5_exts f5) \<and>
     table_ok (map (iv5 k) (f5_exts f5))"

text \<open>The triple a caller passes for the tracks \<open>a..<b\<close>.\<close>

definition fc5 :: "nat \<Rightarrow> nat \<Rightarrow> nat \<Rightarrow> u16" where "fc5 k a b = of_nat ((b - a) div k)"
definition ft5 :: "nat \<Rightarrow> nat \<Rightarrow> nat \<Rightarrow> u8" where "ft5 k a b = of_nat ((b - a) mod k)"

lemma length_f5_exts: "wf_f5 f5 \<Longrightarrow> length (f5_exts f5) = 26"
  by (simp add: wf_f5_def f5_exts_def)

lemma f5_exts_set: "length xs = 26 \<Longrightarrow> f5_exts (set_f5_exts f5 xs) = xs"
proof -
  assume l: "length xs = 26"
  then obtain x ys where "xs = x # ys" by (cases xs) auto
  then show ?thesis by (simp add: f5_exts_def set_f5_exts_def)
qed

lemma wf_set_f5_exts: "wf_f5 f5 \<Longrightarrow> length xs = 26 \<Longrightarrow> wf_f5 (set_f5_exts f5 xs)"
  by (simp add: wf_f5_def set_f5_exts_def)

lemma f5_bound: "f5_valid k f5 \<Longrightarrow> f5_free k f5 \<subseteq> {0<..<65536}"
proof
  fix m assume v: "f5_valid k f5" and "m \<in> f5_free k f5"
  then obtain e where e: "e \<in> set (f5_exts f5)" "m \<in> slot_trks (iv5 k e)"
    by (auto simp: f5_free_def trks_def)
  with v have "ext_ok5 k e" by (simp add: f5_valid_def list_all_iff)
  then show "m \<in> {0<..<65536}" using e(2) by (elim iv5_cases) (auto dest: triple_okD)
qed

lemma range_triple:
  assumes "0 < k" "k < 256" "0 < a" "a < b" "b \<le> 65536"
  shows "triple_ok k (of_nat a) (fc5 k a b) (ft5 k a b)" "unat (of_nat a :: u16) = a"
    "a + len5 k (fc5 k a b) (ft5 k a b) = b"
proof -
  show u: "unat (of_nat a :: u16) = a" using assms by (simp add: unat_of_nat_small)
  have "0 < (of_nat a :: u16)" using u assms(3) by (simp add: word_less_nat_alt)
  from triple_split [OF assms(1,2) this, of "b - a"] u assms
  show "triple_ok k (of_nat a) (fc5 k a b) (ft5 k a b)" "a + len5 k (fc5 k a b) (ft5 k a b) = b"
    by (simp_all add: fc5_def ft5_def)
qed

lemma f5_add_law:
  assumes v: "f5_valid k l" and ab: "0 < a" "a < b" "b \<le> 65536" and dis: "{a..<b} \<inter> f5_free k l = {}"
    and room: "card (runs (f5_free k l)) < 26"
  shows "\<exists>l'. vtoc_update_format5_label_add l (int k) (of_nat a) (fc5 k a b) (ft5 k a b) = Inr l' \<and>
    f5_valid k l' \<and> f5_free k l' = f5_free k l \<union> {a..<b}"
proof -
  let ?xs = "f5_exts l" and ?a = "of_nat a :: u16" and ?y = "fc5 k a b" and ?z = "ft5 k a b"
  have ok: "list_all (ext_ok5 k) ?xs" "table_ok (map (iv5 k) ?xs)" "wf_f5 l" "length ?xs = 26"
    "0 < k" "k < 256" using v length_f5_exts by (auto simp: f5_valid_def)
  note tr = range_triple [OF ok(5,6) ab]
  obtain ys where ys: "iv_add (map (iv5 k) ?xs) a b = Some ys" "table_ok ys"
    "trks ys = f5_free k l \<union> {a..<b}" "length ys = 26"
    using iv_add_correct [OF ok(2) ab(1,2)] dis room ok(4) by (auto simp: f5_free_def)
  have "\<not> overlap5 (int k) ?a ?y ?z (?xs ! i)" if i: "i < length ?xs" for i
  proof (rule overlap5_apart)
    show e: "ext_ok5 k (?xs ! i)" using ok(1) i by (simp add: list_all_length)
    have "{a..<b} \<inter> slot_trks (iv5 k (?xs ! i)) = {}"
      using dis i by (fastforce simp: f5_free_def trks_def)
    then show "apart (Some (unat ?a, unat ?a + len5 k ?y ?z)) (iv5 k (?xs ! i))"
      using ab e by (simp add: apart_disjoint slot_ok_iv5 tr(2,3))
  qed
  then obtain zs where zs: "f5_add (int k) ?xs ?a ?y ?z = Inr zs" "map (iv5 k) zs = ys"
    "list_all (ext_ok5 k) zs"
    using f5_add_iv [OF ok(1) tr(1), of ys] ys(1) tr(2,3) by auto
  from zs(2) ys(4) have "length zs = 26" by (metis length_map)
  with zs ys ok show ?thesis
    by (auto simp: vtoc_update_format5_label_add_def f5_valid_def f5_free_def wf_set_f5_exts f5_exts_set)
qed

lemma f5_del_law:
  assumes v: "f5_valid k l" and ab: "a < b" and sub: "{a..<b} \<subseteq> f5_free k l"
    and room: "card (runs (f5_free k l)) < 26"
  shows "\<exists>l'. vtoc_update_format5_label_del l (int k) (of_nat a) (fc5 k a b) (ft5 k a b) = Inr l' \<and>
    f5_valid k l' \<and> f5_free k l' = f5_free k l - {a..<b}"
proof -
  let ?xs = "f5_exts l"
  have ok: "list_all (ext_ok5 k) ?xs" "table_ok (map (iv5 k) ?xs)" "wf_f5 l" "length ?xs = 26"
    "0 < k" "k < 256" using v length_f5_exts by (auto simp: f5_valid_def)
  have "a \<in> f5_free k l" "b - 1 \<in> f5_free k l" using ab sub by auto
  with f5_bound [OF v] have "0 < a" "b \<le> 65536" by force+
  note tr = range_triple [OF ok(5,6) this(1) ab this(2)]
  obtain zs where zs: "f5_del (int k) ?xs (of_nat a) (fc5 k a b) (ft5 k a b) [0..<26] = Inr zs"
    "list_all (ext_ok5 k) zs" "iv_del (map (iv5 k) ?xs) a b = Some (map (iv5 k) zs)"
    using f5_del_iv [OF ok(1,2) tr(1)] sub room ok(4) tr(2,3) by (auto simp: f5_free_def)
  with iv_del_correct [OF ok(2) ab] sub room ok(4)
  have "table_ok (map (iv5 k) zs)" "trks (map (iv5 k) zs) = f5_free k l - {a..<b}" "length zs = 26"
    by (auto simp: f5_free_def)
  with zs ok show ?thesis
    by (auto simp: vtoc_update_format5_label_del_def f5_valid_def f5_free_def wf_set_f5_exts f5_exts_set)
qed

interpretation fmt5: free_space "f5_valid k" "f5_free k"
  "\<lambda>l a b. vtoc_update_format5_label_add l (int k) (of_nat a) (fc5 k a b) (ft5 k a b)"
  "\<lambda>l a b. vtoc_update_format5_label_del l (int k) (of_nat a) (fc5 k a b) (ft5 k a b)" 65536 26 for k
  by unfold_locales (rule f5_bound f5_add_law f5_del_law; assumption)+

lemma before5_key: "before5 x y \<longleftrightarrow> e_t x - 1 < e_t y - 1"
  by (simp add: before5_def decremented_order)

interpretation order5: keyed_order before5 "\<lambda>e. e_t e - 1"
  by unfold_locales (rule before5_key)

lemma reorganize5_valid:
  assumes "f5_valid k f5"
  shows "f5_valid k (vtoc_reorganize_FMT5_extents f5) \<and>
    f5_free k (vtoc_reorganize_FMT5_extents f5) = f5_free k f5"
proof -
  have len: "length (f5_exts f5) = 26" using assms by (simp add: f5_valid_def length_f5_exts)
  let ?P = "\<lambda>xs. length xs = 26 \<and> list_all (ext_ok5 k) xs \<and> table_ok (map (iv5 k) xs) \<and>
    trks (map (iv5 k) xs) = trks (map (iv5 k) (f5_exts f5))"
  have "?P (exchange_sort before5 26 (f5_exts f5))"
  proof (rule exchange_keeps)
    fix i j xs assume ij: "i < length xs" "j < length xs" and P: "?P xs"
    have "list_all (ext_ok5 k) (xs[i := xs ! j, j := xs ! i])"
      using ij P by (intro list_all_update) (auto simp: list_all_length)
    with table_ok_swap [of "map (iv5 k) xs" i j] trks_swap [of i "map (iv5 k) xs" j] ij P
    show "?P (xs[i := xs ! j, j := xs ! i])" by (simp add: map_update)
  qed (use assms len in \<open>auto simp: f5_valid_def\<close>)
  with assms show ?thesis
    by (simp add: vtoc_reorganize_FMT5_extents_def f5_valid_def f5_free_def wf_set_f5_exts f5_exts_set)
qed

end
