(* ===== verification/Vtoc_Fmt7.thy ===== *)
theory Vtoc_Fmt7
  imports Vtoc_Label Freespace_Spec
begin

text \<open>
  The format 7 label of large volumes (\<open>libvtoc/vtoc.c\<close>): sixteen slots, each a pair of 32-bit track
  numbers \<open>a\<close> (first free track) and \<open>b\<close> (track after the last one).  The C functions address the
  slots through \<open>DS7EXTNT[0..4]\<close> and \<open>DS7ADEXT[0..10]\<close>; here they are one list, and a pointer to a
  slot is its index.  A call that prints a message and exits returns the message.

  The word-level routines are shown to compute the interval tables of \<open>Freespace_Spec\<close>, which makes
  the label an instance of \<open>free_space\<close>.
\<close>

definition f7_exts :: "format7_label_t \<Rightarrow> ds7ext_t list" where
  "f7_exts f7 = DS7EXTNT f7 @ DS7ADEXT f7"

definition set_f7_exts :: "format7_label_t \<Rightarrow> ds7ext_t list \<Rightarrow> format7_label_t" where
  "set_f7_exts f7 xs = f7\<lparr>DS7EXTNT := take 5 xs, DS7ADEXT := drop 5 xs\<rparr>"

definition before7 :: "ds7ext_t \<Rightarrow> ds7ext_t \<Rightarrow> bool" where
  "before7 ext lst \<longleftrightarrow> (ea ext > 0 \<and> ea lst = 0) \<or> (ea ext > 0 \<and> ea ext < ea lst)"

definition vtoc_reorganize_FMT7_extents :: "format7_label_t \<Rightarrow> format7_label_t" where
  "vtoc_reorganize_FMT7_extents f7 = set_f7_exts f7 (exchange_sort before7 16 (f7_exts f7))"


section \<open>Adding an extent\<close>

text \<open>The first loop: look for an unused slot, complain about an overlap on the way.\<close>

definition overlap7 :: "u32 \<Rightarrow> u32 \<Rightarrow> ds7ext_t \<Rightarrow> bool" where
  "overlap7 a b ext \<longleftrightarrow> (a < ea ext \<and> b > ea ext \<and> b < eb ext) \<or>
     (a > ea ext \<and> a < eb ext \<and> b > eb ext)"

fun f7_slot :: "ds7ext_t list \<Rightarrow> u32 \<Rightarrow> u32 \<Rightarrow> nat list \<Rightarrow> string + nat" where
  "f7_slot xs a b [] = Inl ''BUG: no free FMT7 DSCB extent found!\<newline>exiting...\<newline>''"
| "f7_slot xs a b (i # is) =
     (if overlap7 a b (xs ! i) then
        Inl ''BUG: overlapping free space extents in FMT7 DSCB!\<newline>exiting...\<newline>''
      else if ea (xs ! i) + eb (xs ! i) = 0 then Inr i
      else f7_slot xs a b is)"

text \<open>The second loop; it starts over after every join.\<close>

function f7_merge :: "ds7ext_t list \<Rightarrow> nat \<Rightarrow> nat \<Rightarrow> ds7ext_t list" where
  "f7_merge xs tmp i =
     (if i < length xs \<and> tmp < length xs then
        if ea (xs ! i) + eb (xs ! i) = 0 then f7_merge xs tmp (Suc i)
        else if eb (xs ! i) = ea (xs ! tmp) then
          f7_merge (xs[i := (xs ! i)\<lparr>eb := eb (xs ! tmp)\<rparr>, tmp := zero_ds7ext]) i 0
        else if ea (xs ! i) = eb (xs ! tmp) then
          f7_merge (xs[i := (xs ! i)\<lparr>ea := ea (xs ! tmp)\<rparr>, tmp := zero_ds7ext]) i 0
        else f7_merge xs tmp (Suc i)
      else xs)"
  by pat_completeness auto

definition used7 :: "ds7ext_t \<Rightarrow> bool" where
  "used7 ext \<longleftrightarrow> ea ext + eb ext \<noteq> 0"

lemma not_used_zero7 [simp]: "\<not> used7 zero_ds7ext"
  by (simp add: used7_def zero_ds7ext_def)

termination f7_merge
proof (relation "measures [\<lambda>(xs, tmp, i). join_measure used7 xs tmp, \<lambda>(xs, tmp, i). length xs - i]",
    goal_cases)
  case (3 xs tmp i)
  then show ?case using join_measure_less [where used = used7, OF _ _ _ not_used_zero7, of i xs tmp]
    by (simp add: used7_def)
next
  case (4 xs tmp i)
  then show ?case using join_measure_less [where used = used7, OF _ _ _ not_used_zero7, of i xs tmp]
    by (simp add: used7_def)
qed auto

declare f7_merge.simps [simp del]

definition f7_add :: "ds7ext_t list \<Rightarrow> u32 \<Rightarrow> u32 \<Rightarrow> string + ds7ext_t list" where
  "f7_add xs a b = bind_err (f7_slot xs a b [0..<length xs])
     (\<lambda>k. Inr (f7_merge (xs[k := \<lparr>ea = a, eb = b\<rparr>]) k 0))"

definition vtoc_update_format7_label_add ::
  "format7_label_t \<Rightarrow> u32 \<Rightarrow> u32 \<Rightarrow> string + format7_label_t" where
  "vtoc_update_format7_label_add f7 a b =
     bind_err (f7_add (f7_exts f7) a b) (\<lambda>xs. Inr (set_f7_exts f7 xs))"


section \<open>Removing an extent\<close>

text \<open>One round of the loop; \<open>None\<close> goes on to the next slot.\<close>

definition f7_del_step :: "ds7ext_t list \<Rightarrow> u32 \<Rightarrow> u32 \<Rightarrow> nat \<Rightarrow> (string + ds7ext_t list) option" where
  "f7_del_step xs a b i =
     (let ext = xs ! i in
      if a = ea ext \<and> b = eb ext then Some (Inr (xs[i := zero_ds7ext]))
      else if a = ea ext \<and> b < eb ext then Some (Inr (xs[i := ext\<lparr>ea := b\<rparr>]))
      else if a > ea ext \<and> b = eb ext then Some (Inr (xs[i := ext\<lparr>eb := a\<rparr>]))
      else if a > ea ext \<and> b < eb ext then
        Some (bind_err (f7_add xs b (eb ext)) (\<lambda>ys. Inr (ys[i := (ys ! i)\<lparr>eb := a\<rparr>])))
      else if (a < ea ext \<and> b > ea ext) \<or> (a < eb ext \<and> b > eb ext) then
        Some (Inl (''BUG: specified free space extent for deleting '' @
          ''doesn'' @ [CHR 0x27] @ ''t match free space currently shown in FMT7 DSCB!\<newline>exiting...\<newline>''))
      else None)"

fun f7_del :: "ds7ext_t list \<Rightarrow> u32 \<Rightarrow> u32 \<Rightarrow> nat list \<Rightarrow> string + ds7ext_t list" where
  "f7_del xs a b [] =
     Inl ''BUG: specified free space extent for deleting not found in FMT7 DSCB!\<newline>exiting...\<newline>''"
| "f7_del xs a b (i # is) =
     (case f7_del_step xs a b i of Some r \<Rightarrow> r | None \<Rightarrow> f7_del xs a b is)"

definition vtoc_update_format7_label_del ::
  "format7_label_t \<Rightarrow> u32 \<Rightarrow> u32 \<Rightarrow> string + format7_label_t" where
  "vtoc_update_format7_label_del f7 a b =
     bind_err (f7_del (f7_exts f7) a b [0..<length (f7_exts f7)]) (\<lambda>xs. Inr (set_f7_exts f7 xs))"


section \<open>The intervals of a label\<close>

definition iv7 :: "ds7ext_t \<Rightarrow> slot" where
  "iv7 ext = (if used7 ext then Some (unat (ea ext), unat (eb ext)) else None)"

definition ext_ok7 :: "ds7ext_t \<Rightarrow> bool" where
  "ext_ok7 ext \<longleftrightarrow> ext = zero_ds7ext \<or> 0 < ea ext \<and> ea ext < eb ext \<and> unat (eb ext) \<le> 2 ^ 31"

lemma iv7_zero [simp]: "iv7 zero_ds7ext = None" "ext_ok7 zero_ds7ext"
  by (simp_all add: iv7_def ext_ok7_def)

lemma used_pos: "0 < a \<Longrightarrow> a < b \<Longrightarrow> unat b \<le> 2 ^ 31 \<Longrightarrow> a + b \<noteq> (0 :: u32)"
  by (auto simp: word_less_nat_alt word_unat_eq_iff unat_word_ariths)

lemma iv7_cases:
  assumes "ext_ok7 ext"
  obtains "ext = zero_ds7ext" "iv7 ext = None"
  | "iv7 ext = Some (unat (ea ext), unat (eb ext))" "0 < unat (ea ext)" "unat (ea ext) < unat (eb ext)"
    "unat (eb ext) \<le> 2 ^ 31" "ea ext + eb ext \<noteq> 0"
  using assms used_pos [of "ea ext" "eb ext"]
  by (auto simp: ext_ok7_def iv7_def used7_def word_less_nat_alt zero_ds7ext_def)

lemma iv7_mk:
  "0 < a \<Longrightarrow> a < b \<Longrightarrow> unat b \<le> 2 ^ 31 \<Longrightarrow>
     iv7 \<lparr>ea = a, eb = b\<rparr> = Some (unat a, unat b) \<and> ext_ok7 \<lparr>ea = a, eb = b\<rparr>"
  using used_pos [of a b] by (simp add: iv7_def used7_def ext_ok7_def)

lemma iv7_None: "ea ext + eb ext = 0 \<longleftrightarrow> iv7 ext = None"
  by (simp add: iv7_def used7_def)

lemma slot_ok_iv7: "ext_ok7 ext \<Longrightarrow> slot_ok (iv7 ext)"
  by (erule iv7_cases) auto

lemma f7_merge_iv:
  "list_all ext_ok7 xs \<Longrightarrow> tmp < length xs \<Longrightarrow> iv7 (xs ! tmp) \<noteq> None \<Longrightarrow>
     map iv7 (f7_merge xs tmp i) = iv_merge (map iv7 xs) tmp i \<and> list_all ext_ok7 (f7_merge xs tmp i)"
proof (induction xs tmp i rule: f7_merge.induct)
  case (1 xs tmp i)
  note ok = 1(5) and tmp = 1(6,7)
  have "ext_ok7 (xs ! tmp)" using ok tmp(1) by (simp add: list_all_length)
  then obtain t: "iv7 (xs ! tmp) = Some (unat (ea (xs ! tmp)), unat (eb (xs ! tmp)))"
    "0 < unat (ea (xs ! tmp))" "unat (ea (xs ! tmp)) < unat (eb (xs ! tmp))"
    "unat (eb (xs ! tmp)) \<le> 2 ^ 31"
    using tmp(2) by (elim iv7_cases) auto
  show ?case
  proof (cases "i < length xs")
    case False
    with ok show ?thesis by (simp add: f7_merge.simps [of xs tmp i] iv_merge.simps [of _ tmp i])
  next
    case i: True
    have "ext_ok7 (xs ! i)" using ok i by (simp add: list_all_length)
    then show ?thesis
    proof (cases rule: iv7_cases)
      case empty: 1
      with 1(1) i ok tmp t show ?thesis
        by (simp add: f7_merge.simps [of xs tmp i] iv_merge.simps [of _ tmp i] iv7_None)
    next
      case e: 2
      have j: "iv7 ((xs ! i)\<lparr>eb := eb (xs ! tmp)\<rparr>) = Some (unat (ea (xs ! i)), unat (eb (xs ! tmp)))"
        "ext_ok7 ((xs ! i)\<lparr>eb := eb (xs ! tmp)\<rparr>)" if "eb (xs ! i) = ea (xs ! tmp)"
        using iv7_mk [of "ea (xs ! i)" "eb (xs ! tmp)"] that e t
        by (cases "xs ! i"; simp add: word_less_nat_alt)+
      have j': "iv7 ((xs ! i)\<lparr>ea := ea (xs ! tmp)\<rparr>) = Some (unat (ea (xs ! tmp)), unat (eb (xs ! i)))"
        "ext_ok7 ((xs ! i)\<lparr>ea := ea (xs ! tmp)\<rparr>)" if "ea (xs ! i) = eb (xs ! tmp)"
        using iv7_mk [of "ea (xs ! tmp)" "eb (xs ! i)"] that e t
        by (cases "xs ! i"; simp add: word_less_nat_alt)+
      consider (pre) "eb (xs ! i) = ea (xs ! tmp)"
        | (suc) "eb (xs ! i) \<noteq> ea (xs ! tmp)" "ea (xs ! i) = eb (xs ! tmp)"
        | (no) "eb (xs ! i) \<noteq> ea (xs ! tmp)" "ea (xs ! i) \<noteq> eb (xs ! tmp)" by blast
      then show ?thesis
      proof cases
        case pre
        with e t have ne: "i \<noteq> tmp" by auto
        let ?ys = "xs[i := (xs ! i)\<lparr>eb := eb (xs ! tmp)\<rparr>, tmp := zero_ds7ext]"
        have ok': "list_all ext_ok7 ?ys" using ok i tmp j(2) [OF pre]
          by (simp add: list_all_length nth_list_update)
        show ?thesis using 1(2) pre i tmp(1) e(5) j [OF pre] ne ok' e(1) t(1)
          by (simp add: f7_merge.simps [of xs tmp i] iv_merge.simps [of _ tmp i] map_update)
      next
        case suc
        with e t have ne: "i \<noteq> tmp" by auto
        have neq: "unat (eb (xs ! i)) \<noteq> unat (ea (xs ! tmp))"
          using suc(1) by (simp add: word_unat_eq_iff)
        let ?ys = "xs[i := (xs ! i)\<lparr>ea := ea (xs ! tmp)\<rparr>, tmp := zero_ds7ext]"
        have ok': "list_all ext_ok7 ?ys" using ok i tmp j'(2) [OF suc(2)]
          by (simp add: list_all_length nth_list_update)
        show ?thesis using 1(3) suc i tmp(1) e(5) j' [OF suc(2)] ne ok' e(1) t(1) neq
          by (simp add: f7_merge.simps [of xs tmp i] iv_merge.simps [of _ tmp i] map_update)
      next
        case no
        with 1(4) i tmp t e ok show ?thesis
          by (simp add: f7_merge.simps [of xs tmp i] iv_merge.simps [of _ tmp i] word_unat_eq_iff)
      qed
    qed
  qed
qed

lemma iv7_inj: "ext_ok7 x \<Longrightarrow> ext_ok7 y \<Longrightarrow> iv7 x = iv7 y \<Longrightarrow> x = y"
  by (elim iv7_cases) (auto simp: word_unat_eq_iff)

lemma map_iv7_inj:
  "list_all ext_ok7 xs \<Longrightarrow> list_all ext_ok7 ys \<Longrightarrow> map iv7 xs = map iv7 ys \<Longrightarrow> xs = ys"
  by (erule map_inj_on) (auto simp: list_all_iff intro!: inj_onI iv7_inj)

lemma f7_slot_find:
  "\<forall>i \<in> set is. \<not> overlap7 a b (xs ! i) \<Longrightarrow> \<exists>e. f7_slot xs a b is =
     (case find (\<lambda>i. iv7 (xs ! i) = None) is of None \<Rightarrow> Inl e | Some k \<Rightarrow> Inr k)"
  by (induction "is") (auto simp: iv7_None)

lemma overlap7_apart:
  assumes "ext_ok7 ext" "apart (Some (unat a, unat b)) (iv7 ext)"
  shows "\<not> overlap7 a b ext"
  using assms(1) assms(2)
  by (elim iv7_cases) (auto simp: overlap7_def word_less_nat_alt zero_ds7ext_def)

lemma f7_add_iv:
  assumes ok: "list_all ext_ok7 xs" and ab: "0 < a" "a < b" "unat b \<le> 2 ^ 31"
    and no: "\<forall>i < length xs. \<not> overlap7 a b (xs ! i)"
    and add: "iv_add (map iv7 xs) (unat a) (unat b) = Some ys"
  shows "\<exists>zs. f7_add xs a b = Inr zs \<and> map iv7 zs = ys \<and> list_all ext_ok7 zs"
proof -
  obtain k where k: "free_slot (map iv7 xs) = Some k" "k < length xs"
    using add free_slot_Some by (fastforce simp: iv_add_def split: option.splits)
  have slot: "f7_slot xs a b [0..<length xs] = Inr k"
    using f7_slot_find [of "[0..<length xs]" a b xs] no k(1) by (auto simp: free_slot_map)
  let ?xs = "xs[k := \<lparr>ea = a, eb = b\<rparr>]"
  have "list_all ext_ok7 ?xs" "iv7 (?xs ! k) \<noteq> None"
    using ok k(2) iv7_mk [OF ab] by (auto simp: list_all_length nth_list_update)
  from f7_merge_iv [OF this(1) _ this(2)] k iv7_mk [OF ab] add slot show ?thesis
    by (auto simp: iv_add_def f7_add_def map_update)
qed

lemma del_step_None:
  assumes "ext_ok7 (xs ! i)" "apart (Some (unat a, unat b)) (iv7 (xs ! i))" "0 < a" "a < b"
  shows "f7_del_step xs a b i = None"
  using assms(1)
proof (cases rule: iv7_cases)
  case 1
  with assms show ?thesis by (auto simp: f7_del_step_def zero_ds7ext_def word_less_nat_alt Let_def)
next
  case 2
  with assms show ?thesis by (auto simp: f7_del_step_def word_less_nat_alt word_unat_eq_iff Let_def)
qed

lemma f7_del_first:
  assumes "find P is = Some k" "\<forall>i \<in> set is. \<not> P i \<longrightarrow> f7_del_step xs a b i = None"
    and "f7_del_step xs a b k = Some r"
  shows "f7_del xs a b is = r"
  using assms by (induction "is") (auto split: if_splits)

text \<open>The step at the slot that holds the tracks.  When a piece is left on both sides, the right one
  is added while the slot still covers it; no slot touches it, so nothing is joined.\<close>

lemma f7_del_holder:
  assumes ok: "list_all ext_ok7 xs" and t: "table_ok (map iv7 xs)"
    and k: "k < length xs" "iv7 (xs ! k) = Some (c, d)" and f: "free_slot (map iv7 xs) = Some f"
    and ab: "c \<le> unat a" "a < b" "unat b \<le> d"
  shows "\<exists>zs. f7_del_step xs a b k = Some (Inr zs) \<and> list_all ext_ok7 zs \<and>
    map iv7 zs = (if unat a = c \<and> unat b = d then (map iv7 xs)[k := None]
      else if unat a = c then (map iv7 xs)[k := Some (unat b, d)]
      else if unat b = d then (map iv7 xs)[k := Some (c, unat a)]
      else (map iv7 xs)[k := Some (c, unat a), f := Some (unat b, d)])"
proof -
  let ?e = "xs ! k"
  have "ext_ok7 ?e" using ok k(1) by (simp add: list_all_length)
  then have e: "c = unat (ea ?e)" "d = unat (eb ?e)" "0 < c" "c < d" "d \<le> 2 ^ 31"
    using k(2) by (elim iv7_cases; simp)+
  have upd: "list_all ext_ok7 (xs[k := v])" if "ext_ok7 v" for v
    using ok that by simp
  have l: "iv7 (?e\<lparr>ea := b\<rparr>) = Some (unat b, d)" "ext_ok7 (?e\<lparr>ea := b\<rparr>)" if "unat b < d"
    using iv7_mk [of b "eb ?e"] that e ab by (cases ?e; simp add: word_less_nat_alt)+
  have r: "iv7 (?e\<lparr>eb := a\<rparr>) = Some (c, unat a)" "ext_ok7 (?e\<lparr>eb := a\<rparr>)" if "c < unat a"
    using iv7_mk [of "ea ?e" a] that e ab by (cases ?e; simp add: word_less_nat_alt)+
  consider (all) "unat a = c" "unat b = d" | (left) "unat a = c" "unat b < d"
    | (right) "c < unat a" "unat b = d" | (two) "c < unat a" "unat b < d" using ab by fastforce
  then show ?thesis
  proof cases
    case all
    then show ?thesis using e upd k(1)
      by (auto simp: f7_del_step_def Let_def word_unat_eq_iff map_update)
  next
    case left
    then show ?thesis using e upd l k(1) ab
      by (auto simp: f7_del_step_def Let_def word_unat_eq_iff word_less_nat_alt map_update)
  next
    case right
    then show ?thesis using e upd r k(1) ab
      by (auto simp: f7_del_step_def Let_def word_unat_eq_iff word_less_nat_alt map_update)
  next
    case two
    let ?xs = "xs[f := \<lparr>ea = b, eb = eb ?e\<rparr>]"
    have f': "f < length xs" "iv7 (xs ! f) = None" using free_slot_Some [OF f] by auto
    with k have kf: "k \<noteq> f" by auto
    have bd: "0 < b" "b < eb ?e" "unat (eb ?e) \<le> 2 ^ 31"
      using ab e two by (auto simp: word_less_nat_alt)
    note new = iv7_mk [OF bd]
    have abn: "unat a < unat b" using ab by (simp add: word_less_nat_alt)
    have sep: "separate (Some (c, d)) (iv7 (xs ! j))" if "j < length xs" "j \<noteq> k" for j
      using table_ok_sep [OF t, of k j] that k by simp
    have no: "\<not> overlap7 b (eb ?e) (xs ! j)" if "j < length xs" for j
    proof (cases "j = k")
      case False
      from separate_part [OF sep [OF that False], of "unat b" d] two ab
      have "apart (Some (unat b, unat (eb ?e))) (iv7 (xs ! j))"
        using e(2) by (simp add: word_less_nat_alt separate_apart)
      with ok that show ?thesis by (intro overlap7_apart) (simp_all add: list_all_length)
    qed (simp add: overlap7_def)
    have ok': "list_all ext_ok7 ?xs" using ok new by simp
    have "iv_merge (map iv7 ?xs) f 0 = map iv7 ?xs"
    proof (rule iv_merge_noop)
      show "map iv7 ?xs ! f = Some (unat b, d)" using f' new e by simp
      fix j c' d' assume "j < length (map iv7 ?xs)" "map iv7 ?xs ! j = Some (c', d')"
      with sep [of j] k e new f' kf two abn table_ok_slot [OF t, of j]
      show "d' \<noteq> unat b \<and> c' \<noteq> d"
        by (cases "j = f"; cases "j = k") auto
    qed (use f' in simp)
    with f7_merge_iv [OF ok', of f 0] f' new have "f7_merge ?xs f 0 = ?xs"
      by (intro map_iv7_inj [OF _ ok']) auto
    moreover have "f7_slot xs b (eb ?e) [0..<length xs] = Inr f"
      using f7_slot_find [of "[0..<length xs]" b "eb ?e" xs] no f by (auto simp: free_slot_map)
    ultimately have "f7_del_step xs a b k = Some (Inr (?xs[k := ?e\<lparr>eb := a\<rparr>]))"
      using two e kf by (auto simp: f7_del_step_def Let_def f7_add_def word_unat_eq_iff word_less_nat_alt)
    moreover have "list_all ext_ok7 (?xs[k := ?e\<lparr>eb := a\<rparr>])"
      using ok' r(2) [OF two(1)] by simp
    ultimately show ?thesis
      using two r(1) [OF two(1)] new e kf by (auto simp: map_update list_update_swap)
  qed
qed

lemma f7_del_iv:
  assumes ok: "list_all ext_ok7 xs" and t: "table_ok (map iv7 xs)"
    and ab: "a < b" "{unat a..<unat b} \<subseteq> trks (map iv7 xs)"
    and room: "card (runs (trks (map iv7 xs))) < length xs"
  shows "\<exists>zs. f7_del xs a b [0..<length xs] = Inr zs \<and> list_all ext_ok7 zs \<and>
    iv_del (map iv7 xs) (unat a) (unat b) = Some (map iv7 zs)"
proof -
  obtain k c d where k: "holder (map iv7 xs) (unat a) (unat b) = Some k" "k < length xs"
    "iv7 (xs ! k) = Some (c, d)" and cd: "c \<le> unat a" "unat b \<le> d"
    using holder_exists [OF t _ ab(2)] ab(1) by (auto simp: word_less_nat_alt)
  obtain f where f: "free_slot (map iv7 xs) = Some f"
    using free_slot_exists [of "map iv7 xs"] card_used_slots [OF t] room by auto
  from f7_del_holder [OF ok t k(2,3) f cd(1) ab(1) cd(2)] obtain zs where
    zs: "f7_del_step xs a b k = Some (Inr zs)" "list_all ext_ok7 zs" and
    iv: "iv_del (map iv7 xs) (unat a) (unat b) = Some (map iv7 zs)"
    using k f by (auto simp: iv_del_def)
  have ok_k: "0 < c" using table_ok_slot [OF t, of k] k by simp
  have "f7_del_step xs a b i = None" if i: "i < length xs" "\<not> iv_holds (iv7 (xs ! i)) (unat a) (unat b)" for i
  proof (rule del_step_None)
    show "ext_ok7 (xs ! i)" using ok i(1) by (simp add: list_all_length)
    have "i \<noteq> k" using i k cd by auto
    with table_ok_sep [OF t, of k i] k i(1) have "separate (Some (c, d)) (iv7 (xs ! i))" by simp
    from separate_part [OF this cd] show "apart (Some (unat a, unat b)) (iv7 (xs ! i))"
      by (rule separate_apart)
    show "0 < a" using ok_k cd by (auto simp: word_less_nat_alt)
  qed (rule ab)
  moreover have "find (\<lambda>i. iv_holds (iv7 (xs ! i)) (unat a) (unat b)) [0..<length xs] = Some k"
    using k(1) by (simp add: holder_map)
  ultimately show ?thesis
    using f7_del_first [OF _ _ zs(1), of "\<lambda>i. iv_holds (iv7 (xs ! i)) (unat a) (unat b)"] zs(2) iv
    by auto
qed



section \<open>The label as a free-space label\<close>

definition f7_free :: "format7_label_t \<Rightarrow> nat set" where
  "f7_free f7 = trks (map iv7 (f7_exts f7))"

definition f7_valid :: "format7_label_t \<Rightarrow> bool" where
  "f7_valid f7 \<longleftrightarrow> wf_f7 f7 \<and> list_all ext_ok7 (f7_exts f7) \<and> table_ok (map iv7 (f7_exts f7))"

lemma length_f7_exts: "wf_f7 f7 \<Longrightarrow> length (f7_exts f7) = 16"
  by (simp add: wf_f7_def f7_exts_def)

lemma f7_exts_set [simp]: "f7_exts (set_f7_exts f7 xs) = xs"
  by (simp add: f7_exts_def set_f7_exts_def)

lemma wf_set_f7_exts: "wf_f7 f7 \<Longrightarrow> length xs = 16 \<Longrightarrow> wf_f7 (set_f7_exts f7 xs)"
  by (simp add: wf_f7_def set_f7_exts_def)

lemma f7_bound: "f7_valid f7 \<Longrightarrow> f7_free f7 \<subseteq> {0<..<2 ^ 31}"
proof
  fix k assume v: "f7_valid f7" and "k \<in> f7_free f7"
  then obtain e where e: "e \<in> set (f7_exts f7)" "k \<in> slot_trks (iv7 e)"
    by (auto simp: f7_free_def trks_def)
  with v have "ext_ok7 e" by (simp add: f7_valid_def list_all_iff)
  then show "k \<in> {0<..<2 ^ 31}" using e(2) by (elim iv7_cases) auto
qed

lemma f7_add_law:
  assumes v: "f7_valid l" and ab: "0 < a" "a < b" "b \<le> 2 ^ 31" and dis: "{a..<b} \<inter> f7_free l = {}"
    and room: "card (runs (f7_free l)) < 16"
  shows "\<exists>l'. vtoc_update_format7_label_add l (of_nat a) (of_nat b) = Inr l' \<and> f7_valid l' \<and>
    f7_free l' = f7_free l \<union> {a..<b}"
proof -
  let ?xs = "f7_exts l" and ?a = "of_nat a :: u32" and ?b = "of_nat b :: u32"
  have ok: "list_all ext_ok7 ?xs" "table_ok (map iv7 ?xs)" "wf_f7 l" "length ?xs = 16"
    using v length_f7_exts by (auto simp: f7_valid_def)
  have u: "unat ?a = a" "unat ?b = b" using ab by (simp_all add: unat_of_nat_small)
  obtain ys where ys: "iv_add (map iv7 ?xs) a b = Some ys" "table_ok ys"
    "trks ys = f7_free l \<union> {a..<b}" "length ys = 16"
    using iv_add_correct [OF ok(2) ab(1,2)] dis room ok(4) by (auto simp: f7_free_def)
  have "\<not> overlap7 ?a ?b (?xs ! i)" if i: "i < length ?xs" for i
  proof (rule overlap7_apart)
    show e: "ext_ok7 (?xs ! i)" using ok(1) i by (simp add: list_all_length)
    have "{a..<b} \<inter> slot_trks (iv7 (?xs ! i)) = {}"
      using dis i by (fastforce simp: f7_free_def trks_def)
    then show "apart (Some (unat ?a, unat ?b)) (iv7 (?xs ! i))"
      using ab e by (simp add: apart_disjoint slot_ok_iv7 u)
  qed
  then obtain zs where zs: "f7_add ?xs ?a ?b = Inr zs" "map iv7 zs = ys" "list_all ext_ok7 zs"
    using f7_add_iv [OF ok(1), of ?a ?b ys] ab ys(1) u by (auto simp: word_less_nat_alt)
  from zs(2) ys(4) have "length zs = 16" by (metis length_map)
  with zs ys ok show ?thesis
    by (auto simp: vtoc_update_format7_label_add_def f7_valid_def f7_free_def wf_set_f7_exts)
qed

lemma f7_del_law:
  assumes v: "f7_valid l" and ab: "a < b" and sub: "{a..<b} \<subseteq> f7_free l"
    and room: "card (runs (f7_free l)) < 16"
  shows "\<exists>l'. vtoc_update_format7_label_del l (of_nat a) (of_nat b) = Inr l' \<and> f7_valid l' \<and>
    f7_free l' = f7_free l - {a..<b}"
proof -
  let ?xs = "f7_exts l" and ?a = "of_nat a :: u32" and ?b = "of_nat b :: u32"
  have ok: "list_all ext_ok7 ?xs" "table_ok (map iv7 ?xs)" "wf_f7 l" "length ?xs = 16"
    using v length_f7_exts by (auto simp: f7_valid_def)
  have "b - 1 \<in> f7_free l" using ab sub by auto
  with f7_bound [OF v] have "b \<le> 2 ^ 31" by force
  with ab have u: "unat ?a = a" "unat ?b = b" by (simp_all add: unat_of_nat_small)
  obtain zs where zs: "f7_del ?xs ?a ?b [0..<16] = Inr zs" "list_all ext_ok7 zs"
    "iv_del (map iv7 ?xs) a b = Some (map iv7 zs)"
    using f7_del_iv [OF ok(1,2), of ?a ?b] ab sub room ok(4) u
    by (auto simp: word_less_nat_alt f7_free_def)
  with iv_del_correct [OF ok(2) ab] sub room ok(4)
  have "table_ok (map iv7 zs)" "trks (map iv7 zs) = f7_free l - {a..<b}" "length zs = 16"
    by (auto simp: f7_free_def)
  with zs ok show ?thesis
    by (auto simp: vtoc_update_format7_label_del_def f7_valid_def f7_free_def wf_set_f7_exts)
qed

interpretation fmt7: free_space f7_valid f7_free
  "\<lambda>l a b. vtoc_update_format7_label_add l (of_nat a) (of_nat b)"
  "\<lambda>l a b. vtoc_update_format7_label_del l (of_nat a) (of_nat b)" "2 ^ 31" 16
  by unfold_locales (rule f7_bound f7_add_law f7_del_law; assumption)+

text \<open>Reorganising compares first tracks; a zero counts as the largest one.  Decrementing in 32-bit
  arithmetic gives that order.\<close>

lemma before7_key: "before7 x y \<longleftrightarrow> ea x - 1 < ea y - 1"
  by (simp add: before7_def decremented_order)

interpretation order7: keyed_order before7 "\<lambda>e. ea e - 1"
  by unfold_locales (rule before7_key)

lemma reorganize7_valid:
  assumes "f7_valid f7"
  shows "f7_valid (vtoc_reorganize_FMT7_extents f7) \<and>
    f7_free (vtoc_reorganize_FMT7_extents f7) = f7_free f7"
proof -
  have len: "length (f7_exts f7) = 16" using assms by (simp add: f7_valid_def length_f7_exts)
  let ?P = "\<lambda>xs. length xs = 16 \<and> list_all ext_ok7 xs \<and> table_ok (map iv7 xs) \<and>
    trks (map iv7 xs) = trks (map iv7 (f7_exts f7))"
  have "?P (exchange_sort before7 16 (f7_exts f7))"
  proof (rule exchange_keeps)
    fix i j xs assume ij: "i < length xs" "j < length xs" and P: "?P xs"
    have "list_all ext_ok7 (xs[i := xs ! j, j := xs ! i])"
      using ij P by (intro list_all_update) (auto simp: list_all_length)
    with table_ok_swap [of "map iv7 xs" i j] trks_swap [of i "map iv7 xs" j] ij P
    show "?P (xs[i := xs ! j, j := xs ! i])" by (simp add: map_update)
  qed (use assms len in \<open>auto simp: f7_valid_def\<close>)
  with assms show ?thesis
    by (simp add: vtoc_reorganize_FMT7_extents_def f7_valid_def f7_free_def wf_set_f7_exts)
qed

end
