(* ===== verification/Vtoc_Freespace.thy ===== *)
theory Vtoc_Freespace
  imports Vtoc_Fmt5 Vtoc_Fmt7
begin

text \<open>
  \<open>vtoc_set_freespace\<close> of \<open>libvtoc/vtoc.c\<close>, the only entry the partitioning tool uses to keep the
  free-space labels: it picks the format 5 or the format 7 label by the size of the volume, adds or
  removes the tracks \<open>start..stop\<close> and puts the slots in order.  It is shown to be an instance of
  \<open>free_space\<close> for either size.
\<close>

type_synonym fs_labels = "format4_label_t \<times> format5_label_t \<times> format7_label_t"

definition vtoc_set_freespace ::
  "fs_labels \<Rightarrow> char \<Rightarrow> u32 \<Rightarrow> u32 \<Rightarrow> u32 \<Rightarrow> u32 \<Rightarrow> string + fs_labels" where
  "vtoc_set_freespace l ch start stop cyl trk =
     (let (f4, f5, f7) = l in
      if cyl * trk > BIG_DISK_SIZE then
        bind_err (if ch = CHR ''+'' then vtoc_update_format7_label_add f7 start (stop + 1)
                  else if ch = CHR ''-'' then vtoc_update_format7_label_del f7 start (stop + 1)
                  else Inr f7)
          (\<lambda>f7. Inr (f4\<lparr>DS4VTOCI := 0xa0, DS4EFLVL := 0x07, DS4EFPTR := vtoc_set_cchhb 0 1 3\<rparr>, f5,
             vtoc_reorganize_FMT7_extents f7))
      else if trk = 0 then Inl SIGFPE
      else let x = ucast start; y = ucast ((stop - start + 1) div trk);
               z = ucast ((stop - start + 1) mod trk) in
        bind_err (if ch = CHR ''+'' then vtoc_update_format5_label_add f5 (sint trk) x y z
                  else if ch = CHR ''-'' then vtoc_update_format5_label_del f5 (sint trk) x y z
                  else Inr f5)
          (\<lambda>f5. Inr (f4, vtoc_reorganize_FMT5_extents f5, f7)))"

definition big_disk :: "u32 \<Rightarrow> u32 \<Rightarrow> bool" where
  "big_disk cyl trk \<longleftrightarrow> cyl * trk > BIG_DISK_SIZE"

definition fs_valid :: "u32 \<Rightarrow> u32 \<Rightarrow> fs_labels \<Rightarrow> bool" where
  "fs_valid cyl trk l \<longleftrightarrow>
     (if big_disk cyl trk then f7_valid (snd (snd l)) else f5_valid (unat trk) (fst (snd l)))"

text \<open>The tracks the labels of a volume declare free.\<close>

definition fs_free :: "u32 \<Rightarrow> u32 \<Rightarrow> fs_labels \<Rightarrow> nat set" where
  "fs_free cyl trk l =
     (if big_disk cyl trk then f7_free (snd (snd l)) else f5_free (unat trk) (fst (snd l)))"

definition fs_lim :: "u32 \<Rightarrow> u32 \<Rightarrow> nat" where
  "fs_lim cyl trk = (if big_disk cyl trk then 2 ^ 31 else 65536)"

definition fs_cap :: "u32 \<Rightarrow> u32 \<Rightarrow> nat" where
  "fs_cap cyl trk = (if big_disk cyl trk then 16 else 26)"

definition fs_add :: "u32 \<Rightarrow> u32 \<Rightarrow> fs_labels \<Rightarrow> nat \<Rightarrow> nat \<Rightarrow> string + fs_labels" where
  "fs_add cyl trk l a b = vtoc_set_freespace l CHR ''+'' (of_nat a) (of_nat (b - 1)) cyl trk"

definition fs_del :: "u32 \<Rightarrow> u32 \<Rightarrow> fs_labels \<Rightarrow> nat \<Rightarrow> nat \<Rightarrow> string + fs_labels" where
  "fs_del cyl trk l a b = vtoc_set_freespace l CHR ''-'' (of_nat a) (of_nat (b - 1)) cyl trk"

lemma fs_bound: "fs_valid cyl trk l \<Longrightarrow> fs_free cyl trk l \<subseteq> {0<..<fs_lim cyl trk}"
  using f7_bound [of "snd (snd l)"] f5_bound [of "unat trk" "fst (snd l)"]
  by (simp add: fs_valid_def fs_free_def fs_lim_def)

text \<open>The words \<open>vtoc_set_freespace\<close> computes for the tracks \<open>a..<b\<close>.\<close>

lemma stop_word: "0 < b \<Longrightarrow> (of_nat (b - 1) + 1 :: u32) = of_nat b"
  by (cases b) simp_all

lemma triple_words:
  assumes k: "0 < unat trk" "unat trk < 256" and ab: "a < b" "b \<le> 65536"
  shows "sint (trk :: u32) = int (unat trk)" "ucast (of_nat a :: u32) = (of_nat a :: u16)"
    "ucast ((of_nat (b - 1) - of_nat a + 1 :: u32) div trk) = fc5 (unat trk) a b"
    "ucast ((of_nat (b - 1) - of_nat a + 1 :: u32) mod trk) = ft5 (unat trk) a b"
proof -
  have "uint trk = int (unat trk)" by simp
  then have lt: "uint trk < 256" using k(2) by linarith
  have "sint trk = uint trk" unfolding sint_uint
  proof (rule signed_take_bit_int_eq_self)
    show "- (2 ^ (LENGTH(32) - Suc 0)) \<le> uint trk" by (rule order_trans [OF _ uint_ge_0]) simp
    show "uint trk < 2 ^ (LENGTH(32) - Suc 0)" using lt by simp
  qed
  then show "sint trk = int (unat trk)" by simp
  show "ucast (of_nat a :: u32) = (of_nat a :: u16)"
    by (simp add: word_unat_eq_iff unsigned_ucast_eq unat_of_nat take_bit_eq_mod mod_mod_cancel)
  have "(of_nat (b - 1) + 1 :: u32) = of_nat b" using stop_word ab by simp
  then have "(of_nat (b - 1) - of_nat a + 1 :: u32) = of_nat (b - a)"
    using ab by (simp add: of_nat_diff)
  then have n: "unat (of_nat (b - 1) - of_nat a + 1 :: u32) = b - a"
    by (rule unat_eqI) (use ab in simp)
  show "ucast ((of_nat (b - 1) - of_nat a + 1 :: u32) div trk) = fc5 (unat trk) a b"
    unfolding fc5_def by (simp add: word_unat_eq_iff unsigned_ucast_eq unat_div_distrib n [simplified] unat_of_nat take_bit_eq_mod)
  show "ucast ((of_nat (b - 1) - of_nat a + 1 :: u32) mod trk) = ft5 (unat trk) a b"
    unfolding ft5_def by (simp add: word_unat_eq_iff unsigned_ucast_eq unat_mod_distrib n [simplified] unat_of_nat take_bit_eq_mod)
qed

lemma fs_add_law:
  assumes v: "fs_valid cyl trk l" and ab: "0 < a" "a < b" "b \<le> fs_lim cyl trk"
    and dis: "{a..<b} \<inter> fs_free cyl trk l = {}" and room: "card (runs (fs_free cyl trk l)) < fs_cap cyl trk"
  shows "\<exists>l'. fs_add cyl trk l a b = Inr l' \<and> fs_valid cyl trk l' \<and>
    fs_free cyl trk l' = fs_free cyl trk l \<union> {a..<b}"
proof -
  obtain f4 f5 f7 where l: "l = (f4, f5, f7)" by (cases l)
  show ?thesis
  proof (cases "big_disk cyl trk")
    case True
    obtain f7' where "vtoc_update_format7_label_add f7 (of_nat a) (of_nat b) = Inr f7'" "f7_valid f7'"
      "f7_free f7' = f7_free f7 \<union> {a..<b}"
      using fmt7.add_law [of f7 a b] v ab dis room True
      by (auto simp: l fs_valid_def fs_free_def fs_lim_def fs_cap_def)
    with reorganize7_valid [of f7'] True ab show ?thesis
      by (simp add: fs_add_def vtoc_set_freespace_def l stop_word fs_valid_def fs_free_def
          flip: big_disk_def)
  next
    case False
    with v have k: "0 < unat trk" "unat trk < 256" by (simp_all add: fs_valid_def f5_valid_def)
    then have tz: "trk \<noteq> 0" by auto
    from False ab have b: "b \<le> 65536" by (simp add: fs_lim_def)
    obtain f5' where "vtoc_update_format5_label_add f5 (int (unat trk)) (of_nat a)
        (fc5 (unat trk) a b) (ft5 (unat trk) a b) = Inr f5'" "f5_valid (unat trk) f5'"
      "f5_free (unat trk) f5' = f5_free (unat trk) f5 \<union> {a..<b}"
      using fmt5.add_law [of "unat trk" f5 a b] v ab dis room False
      by (auto simp: l fs_valid_def fs_free_def fs_lim_def fs_cap_def)
    moreover from this(1) False tz
    have "fs_add cyl trk l a b = Inr (f4, vtoc_reorganize_FMT5_extents f5', f7)"
      unfolding fs_add_def vtoc_set_freespace_def l Let_def prod.case big_disk_def [symmetric]
        triple_words [OF k ab(2) b] by simp
    ultimately show ?thesis using reorganize5_valid [of "unat trk" f5'] False
      by (simp add: fs_valid_def fs_free_def l)
  qed
qed

lemma fs_del_law:
  assumes v: "fs_valid cyl trk l" and ab: "a < b" and sub: "{a..<b} \<subseteq> fs_free cyl trk l"
    and room: "card (runs (fs_free cyl trk l)) < fs_cap cyl trk"
  shows "\<exists>l'. fs_del cyl trk l a b = Inr l' \<and> fs_valid cyl trk l' \<and>
    fs_free cyl trk l' = fs_free cyl trk l - {a..<b}"
proof -
  obtain f4 f5 f7 where l: "l = (f4, f5, f7)" by (cases l)
  show ?thesis
  proof (cases "big_disk cyl trk")
    case True
    obtain f7' where "vtoc_update_format7_label_del f7 (of_nat a) (of_nat b) = Inr f7'" "f7_valid f7'"
      "f7_free f7' = f7_free f7 - {a..<b}"
      using fmt7.del_law [of f7 a b] v ab sub room True
      by (auto simp: l fs_valid_def fs_free_def fs_cap_def)
    with reorganize7_valid [of f7'] True ab show ?thesis
      by (simp add: fs_del_def vtoc_set_freespace_def l stop_word fs_valid_def fs_free_def
          flip: big_disk_def)
  next
    case False
    with v have k: "0 < unat trk" "unat trk < 256" by (simp_all add: fs_valid_def f5_valid_def)
    then have tz: "trk \<noteq> 0" by auto
    have "b - 1 \<in> fs_free cyl trk l" using ab sub by auto
    with fs_bound [OF v] False have b: "b \<le> 65536" by (force simp: fs_lim_def)
    obtain f5' where "vtoc_update_format5_label_del f5 (int (unat trk)) (of_nat a)
        (fc5 (unat trk) a b) (ft5 (unat trk) a b) = Inr f5'" "f5_valid (unat trk) f5'"
      "f5_free (unat trk) f5' = f5_free (unat trk) f5 - {a..<b}"
      using fmt5.del_law [of "unat trk" f5 a b] v ab sub room False
      by (auto simp: l fs_valid_def fs_free_def fs_cap_def)
    moreover from this(1) False tz
    have "fs_del cyl trk l a b = Inr (f4, vtoc_reorganize_FMT5_extents f5', f7)"
      unfolding fs_del_def vtoc_set_freespace_def l Let_def prod.case big_disk_def [symmetric]
        triple_words [OF k ab b] by simp
    ultimately show ?thesis using reorganize5_valid [of "unat trk" f5'] False
      by (simp add: fs_valid_def fs_free_def l)
  qed
qed

interpretation vfs: free_space "fs_valid cyl trk" "fs_free cyl trk" "fs_add cyl trk" "fs_del cyl trk"
  "fs_lim cyl trk" "fs_cap cyl trk" for cyl trk
  by unfold_locales (rule fs_bound fs_add_law fs_del_law; assumption)+


section \<open>From the empty labels on\<close>

lemma init_exts:
  "f5_exts vtoc_init_format5_label = replicate 26 zero_ds5ext"
  "f7_exts vtoc_init_format7_label = replicate 16 zero_ds7ext"
  by (simp_all add: f5_exts_def f7_exts_def vtoc_init_format5_label_def vtoc_init_format7_label_def
      numeral_eq_Suc)

lemma empty_table: "table_ok (replicate n None)" "trks (replicate n None) = {}"
  by (auto simp: table_ok_def trks_def)

lemma fs_init:
  assumes "0 < unat trk" "unat trk < 256"
  shows "fs_valid cyl trk (f4, vtoc_init_format5_label, vtoc_init_format7_label)"
    and "fs_free cyl trk (f4, vtoc_init_format5_label, vtoc_init_format7_label) = {}"
  using assms
  by (simp_all add: fs_valid_def fs_free_def f5_valid_def f7_valid_def f5_free_def f7_free_def
      init_exts empty_table list_all_iff)

lemma runs_interval: "a < b \<Longrightarrow> runs {a..<b} = {b - 1}"
  by (auto simp: runs_def)

text \<open>C5: \<open>vtoc_set_freespace\<close> keeps an exact account of the free tracks.  Starting from the initial
  labels, declaring the tracks \<open>a..<b\<close> of a volume free and then removing the tracks of any list of
  partitions that lie in that range and do not overlap, in any order, succeeds, and the labels then
  describe precisely the tracks outside the partitions.  It holds for the format 5 label of small
  volumes and the format 7 label of large ones alike, as long as the number of partitions stays
  below the number of slots.\<close>

theorem freespace_is_complement:
  assumes "0 < unat trk" "unat trk < 256" "0 < a" "a < b" "b \<le> fs_lim cyl trk"
    and "disjoint_within {a..<b} ps" "length ps < fs_cap cyl trk"
  shows "\<exists>l l'. vtoc_set_freespace (f4, vtoc_init_format5_label, vtoc_init_format7_label) CHR ''+''
      (of_nat a) (of_nat (b - 1)) cyl trk = Inr l \<and>
    del_all (\<lambda>l c d. vtoc_set_freespace l CHR ''-'' (of_nat c) (of_nat (d - 1)) cyl trk) l ps = Inr l' \<and>
    fs_valid cyl trk l' \<and> fs_free cyl trk l' = {a..<b} - covered ps"
proof -
  note init = fs_init [OF assms(1,2), of cyl f4]
  obtain l where l: "fs_add cyl trk (f4, vtoc_init_format5_label, vtoc_init_format7_label) a b = Inr l"
    "fs_valid cyl trk l" "fs_free cyl trk l = {a..<b}"
    using vfs.add_law [OF init(1) assms(3-5)] init(2) assms(7) by (auto simp: runs_def)
  with vfs.del_all_law [OF l(2), of ps] assms(4,6,7) show ?thesis
    by (auto simp: runs_interval fs_add_def fs_del_def [abs_def])
qed

theorem freespace_is_complement_witness:
  "\<exists>l l'. vtoc_set_freespace (vtoc_init_format4_label 3339 3339 15 12 4096 DASD_3390_TYPE,
      vtoc_init_format5_label, vtoc_init_format7_label) CHR ''+'' 2 50084 3339 15 = Inr l \<and>
    del_all (\<lambda>l c d. vtoc_set_freespace l CHR ''-'' (of_nat c) (of_nat (d - 1)) 3339 15) l
      [(1000, 2000), (2, 30)] = Inr l' \<and>
    fs_free 3339 15 l' = {30..<1000} \<union> {2000..<50085}"
proof -
  have lim: "fs_lim 3339 15 = 65536" "fs_cap 3339 15 = 26"
    by (simp_all add: fs_lim_def fs_cap_def big_disk_def BIG_DISK_SIZE_def)
  have "{2..<50085} - covered [(1000, 2000), (2, 30)] = {30..<1000} \<union> {2000..<50085 :: nat}"
    "{2..<30} \<subseteq> {2..<50085} - {1000..<2000 :: nat}" by auto
  with freespace_is_complement [of 15 2 50085 3339 "[(1000, 2000), (2, 30)]"
      "vtoc_init_format4_label 3339 3339 15 12 4096 DASD_3390_TYPE"] lim
  show ?thesis by auto
qed

text \<open>C16: removing tracks from the free space and adding them again restores the set of free
  tracks, through all joins and splits of extents.\<close>

theorem freespace_roundtrip:
  assumes "fs_valid cyl trk l" "a < b" "{a..<b} \<subseteq> fs_free cyl trk l"
    and "Suc (card (runs (fs_free cyl trk l))) < fs_cap cyl trk"
  shows "\<exists>l' l''. vtoc_set_freespace l CHR ''-'' (of_nat a) (of_nat (b - 1)) cyl trk = Inr l' \<and>
    vtoc_set_freespace l' CHR ''+'' (of_nat a) (of_nat (b - 1)) cyl trk = Inr l'' \<and>
    fs_valid cyl trk l'' \<and> fs_free cyl trk l'' = fs_free cyl trk l"
  using vfs.del_then_add [OF assms] by (simp add: fs_add_def fs_del_def)

text \<open>The labels of a volume of 65537 cylinders of 15 tracks, all free but the first two tracks.\<close>

definition sample_f7 :: format7_label_t where
  "sample_f7 = vtoc_init_format7_label\<lparr>DS7EXTNT := \<lparr>ea = 2, eb = 983055\<rparr> # replicate 4 zero_ds7ext\<rparr>"

lemma sample_f7_ok: "f7_valid sample_f7" "f7_free sample_f7 = {2..<983055}"
proof -
  let ?e = "\<lparr>ea = 2, eb = 983055\<rparr>"
  have x: "f7_exts sample_f7 = ?e # replicate 15 zero_ds7ext"
    by (simp add: f7_exts_def sample_f7_def vtoc_init_format7_label_def numeral_eq_Suc)
  have e: "iv7 ?e = Some (2, 983055)" "ext_ok7 ?e" by (simp_all add: iv7_def used7_def ext_ok7_def)
  have w: "wf_f7 sample_f7" by (simp add: sample_f7_def wf_f7_def vtoc_init_format7_label_def)
  have s: "separate p None" "separate None p" for p by (cases p; simp)+
  have "table_ok (Some (2, 983055) # replicate 15 None)"
    by (auto simp: table_ok_def nth_Cons s split: nat.splits)
  with e w show "f7_valid sample_f7" by (simp add: f7_valid_def x list_all_iff)
  from e show "f7_free sample_f7 = {2..<983055}" by (simp add: f7_free_def x trks_def)
qed

theorem freespace_roundtrip_witness:
  "\<exists>l' l''. vtoc_set_freespace (vtoc_init_format4_label 65534 65537 15 12 4096 DASD_3390_TYPE,
      vtoc_init_format5_label, sample_f7) CHR ''-'' 700000 800000 65537 15 = Inr l' \<and>
    vtoc_set_freespace l' CHR ''+'' 700000 800000 65537 15 = Inr l'' \<and>
    fs_valid 65537 15 l'' \<and> fs_free 65537 15 l'' = {2..<983055}"
proof -
  have big: "big_disk 65537 15" by (simp add: big_disk_def BIG_DISK_SIZE_def)
  have "{700000..<800001} \<subseteq> {2..<983055 :: nat}" by auto
  then show ?thesis
    using freespace_roundtrip [of 65537 15 "(vtoc_init_format4_label 65534 65537 15 12 4096 DASD_3390_TYPE,
      vtoc_init_format5_label, sample_f7)" 700000 800001] sample_f7_ok runs_interval [of 2 983055] big
    by (simp add: fs_valid_def fs_free_def fs_cap_def)
qed

section \<open>Refusing what is not free\<close>

lemma f7_del_step_free:
  assumes "ext_ok7 (xs ! i)" "f7_del_step xs a b i = Some (Inr ys)" "0 < a" "a < b"
  shows "unat a \<in> slot_trks (iv7 (xs ! i))"
  using assms(1)
proof (cases rule: iv7_cases)
  case 1
  with assms(2-4) show ?thesis
    by (auto simp: f7_del_step_def Let_def zero_ds7ext_def split: if_splits)
next
  case 2
  with assms(2-4) show ?thesis
    by (auto simp: f7_del_step_def Let_def word_less_nat_alt split: if_splits)
qed

lemma f7_del_free:
  assumes "list_all ext_ok7 xs" "f7_del xs a b is = Inr ys" "0 < a" "a < b" "set is \<subseteq> {..<length xs}"
  shows "unat a \<in> trks (map iv7 xs)"
  using assms
proof (induction "is")
  case (Cons i "is")
  show ?case
  proof (cases "f7_del_step xs a b i")
    case (Some r)
    with Cons.prems have "f7_del_step xs a b i = Some (Inr ys)" "ext_ok7 (xs ! i)" "i < length xs"
      by (auto simp: list_all_length)
    from f7_del_step_free [OF this(2,1) Cons.prems(3,4)] this(3) show ?thesis by (auto simp: trks_nth)
  qed (use Cons in auto)
qed simp

lemma f5_del_step_free:
  assumes "ext_ok5 k (xs ! i)" "f5_del_step (int k) xs a b c i = Some (Inr ys)" "triple_ok k a b c"
  shows "unat a \<in> slot_trks (iv5 k (xs ! i))"
proof -
  let ?e = "xs ! i"
  have E: "ext_end (int k) ?e = int (unat (e_t ?e) + len5 k (e_fc ?e) (e_ft ?e))"
    "end5 (int k) a b c = int (unat a + len5 k b c)" by (simp_all only: ext_end_nat end5_nat)
  note ad = triple_okD [OF assms(3)]
  have "a = e_t ?e \<or> e_t ?e < a \<and> end5 (int k) a b c \<le> ext_end (int k) ?e"
    using assms(2) unfolding f5_del_step_def Let_def by (auto split: if_splits)
  then have "unat a = unat (e_t ?e) \<or> unat (e_t ?e) < unat a \<and>
      unat a + len5 k b c \<le> unat (e_t ?e) + len5 k (e_fc ?e) (e_ft ?e)"
    unfolding E word_less_nat_alt of_nat_le_iff by auto
  moreover have "len5 k (e_fc zero_ds5ext) (e_ft zero_ds5ext) = 0" "e_t zero_ds5ext = 0"
    by (simp_all add: zero_ds5ext_def len5_def)
  ultimately show ?thesis using assms(1) ad(3,5)
    by (elim iv5_cases) (auto dest: triple_okD)
qed

lemma f5_del_free:
  assumes "list_all (ext_ok5 k) xs" "f5_del (int k) xs a b c is = Inr ys" "triple_ok k a b c"
    "set is \<subseteq> {..<length xs}"
  shows "unat a \<in> trks (map (iv5 k) xs)"
  using assms
proof (induction "is")
  case (Cons i "is")
  show ?case
  proof (cases "f5_del_step (int k) xs a b c i")
    case (Some r)
    with Cons.prems have "f5_del_step (int k) xs a b c i = Some (Inr ys)" "ext_ok5 k (xs ! i)" "i < length xs"
      by (auto simp: list_all_length)
    from f5_del_step_free [OF this(2,1) Cons.prems(3)] this(3) show ?thesis by (auto simp: trks_nth)
  qed (use Cons in auto)
qed simp

lemma fs_del_needs_free:
  assumes v: "fs_valid cyl trk l" and ab: "0 < a" "a < b" "b \<le> fs_lim cyl trk"
    and del: "fs_del cyl trk l a b = Inr l'"
  shows "a \<in> fs_free cyl trk l"
proof -
  obtain f4 f5 f7 where l: "l = (f4, f5, f7)" by (cases l)
  show ?thesis
  proof (cases "big_disk cyl trk")
    case True
    with ab have u: "unat (of_nat a :: u32) = a" "unat (of_nat b :: u32) = b"
      by (simp_all add: fs_lim_def unat_of_nat_small)
    from del True ab obtain zs where
      "f7_del (f7_exts f7) (of_nat a) (of_nat b) [0..<length (f7_exts f7)] = Inr zs"
      by (auto simp: fs_del_def vtoc_set_freespace_def l stop_word vtoc_update_format7_label_del_def
          bind_err_Inr simp flip: big_disk_def)
    from f7_del_free [OF _ this] v True ab u show ?thesis
      by (simp add: fs_valid_def fs_free_def f7_valid_def f7_free_def l word_less_nat_alt subset_eq)
  next
    case False
    with v have k: "0 < unat trk" "unat trk < 256" by (simp_all add: fs_valid_def f5_valid_def)
    then have tz: "trk \<noteq> 0" by auto
    from False ab have b: "b \<le> 65536" by (simp add: fs_lim_def)
    note tr = range_triple [OF k ab(1,2) b]
    from del have "\<exists>g. vtoc_update_format5_label_del f5 (int (unat trk)) (of_nat a)
        (fc5 (unat trk) a b) (ft5 (unat trk) a b) = Inr g"
      using False tz unfolding fs_del_def vtoc_set_freespace_def l Let_def prod.case big_disk_def [symmetric]
        triple_words [OF k ab(2) b] by (auto simp: bind_err_Inr)
    then obtain zs where "f5_del (int (unat trk)) (f5_exts f5) (of_nat a)
        (fc5 (unat trk) a b) (ft5 (unat trk) a b) [0..<length (f5_exts f5)] = Inr zs"
      by (auto simp: vtoc_update_format5_label_del_def bind_err_Inr)
    from f5_del_free [OF _ this tr(1)] v False tr(2) show ?thesis
      by (simp add: fs_valid_def fs_free_def f5_valid_def f5_free_def l subset_eq)
  qed
qed



text \<open>No operation changes the number of slots.\<close>

lemma length_f7_merge: "length (f7_merge xs tmp i) = length xs"
proof (induction xs tmp i rule: f7_merge.induct)
  case (1 xs tmp i)
  then show ?case by (subst f7_merge.simps) simp
qed

lemma length_f5_merge: "f5_merge trk xs tmp i = Inr ys \<Longrightarrow> length ys = length xs"
proof (induction trk xs tmp i rule: f5_merge.induct)
  case (1 trk xs tmp i)
  from 1(5) show ?case
    by (subst (asm) f5_merge.simps) (use 1(1-4) in \<open>simp split: if_split_asm\<close>)
qed

lemma length_exts_add: "f7_add xs a b = Inr ys \<Longrightarrow> length ys = length xs"
  "f5_add trk xs' a' b' c = Inr ys' \<Longrightarrow> length ys' = length xs'"
  by (auto simp: f7_add_def f5_add_def bind_err_Inr length_f7_merge dest: length_f5_merge)

lemma length_exts_del: "f7_del xs a b is = Inr ys \<Longrightarrow> length ys = length xs"
  "f5_del trk xs' a' b' c is' = Inr ys' \<Longrightarrow> length ys' = length xs'"
proof -
  have 7: "f7_del_step xs a b i = Some (Inr ys) \<Longrightarrow> length ys = length xs" for i
    by (auto simp: f7_del_step_def Let_def bind_err_Inr dest!: length_exts_add split: if_splits)
  have 5: "f5_del_step trk xs' a' b' c i = Some (Inr ys') \<Longrightarrow> length ys' = length xs'" for i
    by (auto simp: f5_del_step_def Let_def dest!: length_exts_add split: if_splits)
  show "f7_del xs a b is = Inr ys \<Longrightarrow> length ys = length xs"
    by (induction "is") (auto dest: 7 split: option.splits)
  show "f5_del trk xs' a' b' c is' = Inr ys' \<Longrightarrow> length ys' = length xs'"
    by (induction is') (auto dest: 5 split: option.splits)
qed

lemma length_f7_add: "vtoc_update_format7_label_add f7 a b = Inr g \<Longrightarrow> length (f7_exts g) = length (f7_exts f7)"
  and length_f7_del: "vtoc_update_format7_label_del f7 a b = Inr g \<Longrightarrow> length (f7_exts g) = length (f7_exts f7)"
  by (auto simp: vtoc_update_format7_label_add_def vtoc_update_format7_label_del_def bind_err_Inr
      dest: length_exts_add length_exts_del)

lemma length_f5_add: "vtoc_update_format5_label_add f5 trk a b c = Inr g \<Longrightarrow> length (f5_exts f5) = 26 \<Longrightarrow>
    length (f5_exts g) = 26"
  and length_f5_del: "vtoc_update_format5_label_del f5 trk a b c = Inr g \<Longrightarrow> length (f5_exts f5) = 26 \<Longrightarrow>
    length (f5_exts g) = 26"
  by (auto simp: vtoc_update_format5_label_add_def vtoc_update_format5_label_del_def bind_err_Inr f5_exts_set
      dest!: length_exts_add length_exts_del)

text \<open>C22: after every successful call the slots of the label in use are ordered by their first track,
  and unused slots (first track 0, decremented the largest word) come last.\<close>

theorem freespace_sorted:
  assumes "vtoc_set_freespace (f4, f5, f7) ch start stop cyl trk = Inr (f4', f5', f7')"
    and "if big_disk cyl trk then length (f7_exts f7) = 16 else length (f5_exts f5) = 26"
  shows "if big_disk cyl trk then sorted (map (\<lambda>e. ea e - 1) (f7_exts f7'))
    else sorted (map (\<lambda>e. e_t e - 1) (f5_exts f5'))"
proof (cases "big_disk cyl trk")
  case True
  then obtain g where "f7' = vtoc_reorganize_FMT7_extents g" "length (f7_exts g) = 16"
    using assms length_f7_add length_f7_del
    by (auto simp: vtoc_set_freespace_def bind_err_Inr simp flip: big_disk_def split: if_splits)
  with order7.exchange_sort_sorted [of "f7_exts g" 16] True show ?thesis
    by (simp add: vtoc_reorganize_FMT7_extents_def)
next
  case False
  then obtain g where "f5' = vtoc_reorganize_FMT5_extents g" "length (f5_exts g) = 26"
    using assms length_f5_add length_f5_del
    by (auto simp: vtoc_set_freespace_def bind_err_Inr Let_def simp flip: big_disk_def split: if_splits)
  with order5.exchange_sort_sorted [of "f5_exts g" 26] False show ?thesis
    by (simp add: vtoc_reorganize_FMT5_extents_def f5_exts_set)
qed

theorem freespace_sorted_witness:
  "\<exists>f4' f5' f7'. vtoc_set_freespace (vtoc_init_format4_label 65534 65537 15 12 4096 DASD_3390_TYPE,
      vtoc_init_format5_label, sample_f7) CHR ''-'' 700000 800000 65537 15 = Inr (f4', f5', f7') \<and>
    sorted (map (\<lambda>e. ea e - 1) (f7_exts f7'))"
proof -
  let ?f4 = "vtoc_init_format4_label 65534 65537 15 12 4096 DASD_3390_TYPE"
  have big: "big_disk 65537 15" by (simp add: big_disk_def BIG_DISK_SIZE_def)
  have "{700000..<800001} \<subseteq> {2..<983055 :: nat}" by auto
  with vfs.del_law [of 65537 15 "(?f4, vtoc_init_format5_label, sample_f7)" 700000 800001]
    sample_f7_ok runs_interval [of 2 983055] big
  obtain l where l: "vtoc_set_freespace (?f4, vtoc_init_format5_label, sample_f7) CHR ''-''
      700000 800000 65537 15 = Inr l"
    by (auto simp: fs_valid_def fs_free_def fs_cap_def fs_del_def)
  moreover have "length (f7_exts sample_f7) = 16"
    using sample_f7_ok length_f7_exts by (simp add: f7_valid_def)
  ultimately show ?thesis
    using freespace_sorted [of ?f4 vtoc_init_format5_label sample_f7 "CHR ''-''" 700000 800000 65537 15] big
    by (cases l) simp
qed

end
