(* ===== verification/Fdasd_Input.thy ===== *)
theory Fdasd_Input
  imports Vtoc_Label
begin

text \<open>
  Terminal input of \<open>fdasd/fdasd.c\<close>: standard input is the list of bytes not yet read.  \<open>read_line\<close>
  fills the line buffer and skips leading blanks, \<open>yes_no\<close> insists on an answer and
  \<open>fdasd_read_int\<close> asks for a track number until it lies between two limits.  What is printed to the
  terminal is not modelled.  A value of type \<open>stop\<close> is a reason for which the program does not
  return from a call.
\<close>

section \<open>Ways to stop\<close>

datatype fdasd_failure =
    parser_failed | unable_to_open_disk | unable_to_seek_disk | unable_to_read_disk | read_only_disk
  | unable_to_ioctl | wrong_disk_type | wrong_disk_format | disk_in_use | config_syntax_error
  | vlabel_corrupted | dsname_corrupted | malloc_failed | device_verification_failed
  | volser_not_found

text \<open>The text \<open>fdasd_error\<close> prints before it exits with status -1.\<close>

fun fdasd_error :: "fdasd_failure \<Rightarrow> string \<Rightarrow> string" where
  "fdasd_error parser_failed s = ''fdasd error:  parser error\<newline>'' @ s @ ''\<newline>''"
| "fdasd_error unable_to_open_disk s = ''fdasd error:  open error\<newline>'' @ s @ ''\<newline>''"
| "fdasd_error unable_to_seek_disk s = ''fdasd error:  seek error\<newline>'' @ s @ ''\<newline>''"
| "fdasd_error unable_to_read_disk s = ''fdasd error:  read error\<newline>'' @ s @ ''\<newline>''"
| "fdasd_error read_only_disk s = ''fdasd error:  write error\<newline>'' @ s @ ''\<newline>''"
| "fdasd_error unable_to_ioctl s = ''fdasd error:  IOCTL error\<newline>'' @ s @ ''\<newline>''"
| "fdasd_error wrong_disk_type s = ''fdasd error:  Unsupported disk type\<newline>'' @ s @ ''\<newline>''"
| "fdasd_error wrong_disk_format s = ''fdasd error:  Unsupported disk format\<newline>'' @ s @ ''\<newline>''"
| "fdasd_error disk_in_use s = ''fdasd error:  Disk in use\<newline>'' @ s @ ''\<newline>''"
| "fdasd_error config_syntax_error s = ''fdasd error:  Config file syntax error\<newline>'' @ s @ ''\<newline>''"
| "fdasd_error vlabel_corrupted s = ''fdasd error:  Volume label is corrupted.\<newline>'' @ s @ ''\<newline>''"
| "fdasd_error dsname_corrupted s = ''fdasd error:  a data set name is corrupted.\<newline>'' @ s @ ''\<newline>''"
| "fdasd_error malloc_failed s = ''fdasd error:  space allocation\<newline>'' @ s @ ''\<newline>''"
| "fdasd_error device_verification_failed s =
     ''fdasd error:  device verification failed\<newline>'' @ s @ ''\<newline>''"
| "fdasd_error volser_not_found s = ''fdasd error:  VOLSER not found on device '' @ s @ ''\<newline>''"

text \<open>\<open>Fail\<close>: \<open>fdasd_error\<close>; \<open>Vtoc_exit\<close>: the VTOC library printed a message and exited; \<open>Exit\<close>: a
  call of \<open>fdasd_exit\<close>; \<open>Crash\<close>: a signal; \<open>Hang\<close>: a loop that does not end.\<close>

datatype stop = Fail fdasd_failure string | Vtoc_exit string | Exit int | Crash | Hang

definition lift_vtoc :: "string + 'a \<Rightarrow> stop + 'a" where
  "lift_vtoc r = (case r of Inl m \<Rightarrow> Inl (Vtoc_exit m) | Inr x \<Rightarrow> Inr x)"

lemma lift_vtoc_simps [simp]: "lift_vtoc (Inl m) = Inl (Vtoc_exit m)" "lift_vtoc (Inr x) = Inr x"
  by (simp_all add: lift_vtoc_def)

lemma lift_vtoc_Inr [simp]: "lift_vtoc r = Inr x \<longleftrightarrow> r = Inr x"
  by (cases r) (simp_all add: lift_vtoc_def)


section \<open>Characters and numbers\<close>

definition c_isgraph :: "u8 \<Rightarrow> bool" where "c_isgraph c \<longleftrightarrow> 0x21 \<le> c \<and> c \<le> 0x7e"
definition c_isspace :: "u8 \<Rightarrow> bool" where "c_isspace c \<longleftrightarrow> c = 0x20 \<or> (9 \<le> c \<and> c \<le> 13)"

text \<open>The value of a string of digits, and \<open>strtol\<close> to base 10 with the test for \<open>ERANGE\<close>.\<close>

definition digits_val :: "bytes \<Rightarrow> int" where
  "digits_val ds = fold (\<lambda>d v. 10 * v + (uint d - 48)) ds 0"

definition LONG_MAX :: int where "LONG_MAX = 9223372036854775807"

definition strtol10 :: "bytes \<Rightarrow> int \<times> bool" where
  "strtol10 s =
     (let s = dropWhile c_isspace s;
          neg = (s \<noteq> [] \<and> hd s = 0x2d);
          s = (if s \<noteq> [] \<and> (hd s = 0x2d \<or> hd s = 0x2b) then tl s else s);
          v = digits_val (takeWhile c_isdigit s);
          v = (if neg then - v else v)
      in if v > LONG_MAX then (LONG_MAX, True)
         else if v < - LONG_MAX - 1 then (- LONG_MAX - 1, True)
         else (v, False))"

text \<open>\<open>atoi\<close> is \<open>strtol\<close> cut to a 32-bit \<open>int\<close>.\<close>

definition c_atoi :: "bytes \<Rightarrow> int" where
  "c_atoi s = sint (word_of_int (fst (strtol10 s)) :: u32)"

text \<open>The character a pointer into a string points to.\<close>

definition cur :: "bytes \<Rightarrow> u8" where
  "cur s = (case s of [] \<Rightarrow> 0 | c # _ \<Rightarrow> c)"


section \<open>Reading lines\<close>

fun fgets :: "nat \<Rightarrow> bytes \<Rightarrow> bytes \<times> bytes" where
  "fgets 0 inp = ([], inp)"
| "fgets (Suc n) [] = ([], [])"
| "fgets (Suc n) (c # inp) =
     (if c = 0x0a then ([c], inp) else let (l, r) = fgets n inp in (c # l, r))"

definition LINE_LENGTH :: nat where "LINE_LENGTH = 80"

definition read_line :: "bytes \<Rightarrow> bytes \<times> bytes" where
  "read_line inp = (let (l, r) = fgets (LINE_LENGTH - 1) inp in
     (dropWhile (\<lambda>c. c \<noteq> 0 \<and> \<not> c_isgraph c) l, r))"

lemma fgets_length: "length (snd (fgets n inp)) \<le> length inp"
  by (induction n inp rule: fgets.induct) (auto simp: split_beta Let_def)

lemma read_line_shorter: "inp \<noteq> [] \<Longrightarrow> length (snd (read_line inp)) < length inp"
proof -
  assume "inp \<noteq> []"
  then obtain c r where inp: "inp = c # r" by (cases inp) auto
  have "length (snd (fgets 79 (c # r))) < Suc (length r)"
    using fgets_length [of 78 r] by (simp add: numeral_eq_Suc split_beta Let_def)
  with inp show ?thesis by (simp add: read_line_def LINE_LENGTH_def split_beta Let_def)
qed

lemma read_line_eof [simp]: "read_line [] = ([], [])"
  by (simp add: read_line_def LINE_LENGTH_def numeral_eq_Suc)

text \<open>\<open>yes_no\<close> reads whole lines and returns 0 for yes, 1 for no and -1 at the end of the input.\<close>

function yes_no :: "bytes \<Rightarrow> int \<times> bytes" where
  "yes_no inp =
     (if inp = [] then (-1, [])
      else let rest = drop 1 (dropWhile (\<lambda>c. c \<noteq> 0x0a) inp) in
        if cur inp = 0x79 then (0, rest)
        else if cur inp = 0x6e then (1, rest)
        else yes_no rest)"
  by pat_completeness auto

termination
proof (relation "measure length", goal_cases)
  case (2 inp rest)
  have "length (dropWhile (\<lambda>c. c \<noteq> 0x0a) inp) \<le> length inp" by (rule length_dropWhile_le)
  with 2 show ?case by (cases "dropWhile (\<lambda>c. c \<noteq> 0x0a) inp") auto
qed simp

declare yes_no.simps [simp del]

lemma yes_no_result: "fst (yes_no inp) \<in> {-1, 0, 1}"
proof (induction inp rule: yes_no.induct)
  case (1 inp)
  then show ?case by (subst yes_no.simps) (simp add: Let_def)
qed


section \<open>Asking for a track number\<close>

datatype offset = lower | upper

text \<open>The inner loop: skip lines until one starts with a digit or a sign, or is empty.\<close>

function skip_lines :: "bytes \<Rightarrow> bytes \<times> bytes" where
  "skip_lines inp =
     (let (l, r) = read_line inp in
      if inp = [] \<or> c_isdigit (cur l) \<or> cur l = 0x2d \<or> cur l = 0x2b \<or> cur l = 0 then (l, r)
      else skip_lines r)"
  by pat_completeness auto

termination
proof (relation "measure length", goal_cases)
  case (2 inp x l r)
  then show ?case using read_line_shorter [of inp] by (metis in_measure snd_conv)
qed simp

declare skip_lines.simps [simp del]

lemma skip_lines_length: "inp \<noteq> [] \<Longrightarrow> length (snd (skip_lines inp)) < length inp"
proof (induction inp rule: skip_lines.induct)
  case (1 inp)
  obtain l r where lr: "read_line inp = (l, r)" by (cases "read_line inp")
  have "length r < length inp" using read_line_shorter [OF 1(2)] lr by simp
  moreover have "length (snd (skip_lines r)) < length inp"
    if "\<not> (c_isdigit (cur l) \<or> cur l = 0x2d \<or> cur l = 0x2b \<or> cur l = 0)"
    using 1(1) [OF lr [symmetric] refl] that 1(2) calculation
    by (cases "r = []") (auto simp: skip_lines.simps [of "[]"])
  ultimately show ?case using lr by (subst skip_lines.simps) auto
qed

lemma skip_lines_eof [simp]: "skip_lines [] = ([], [])"
  by (simp add: skip_lines.simps)

text \<open>A size with an appendix, in tracks.\<close>

definition appendix :: "hd_geometry \<Rightarrow> u32 \<Rightarrow> u64 \<Rightarrow> u8 \<Rightarrow> stop + u64" where
  "appendix geo blksize trk c =
     (let by_bytes = (\<lambda>unit. if blksize = 0 \<or> sectors geo = 0 then Inl Crash
        else Inr (trk * unit div ucast blksize div ucast (sectors geo)))
      in if c = 0x63 \<or> c = 0x43 then Inr (trk * ucast (heads geo))
         else if c = 0x6b \<or> c = 0x4b then by_bytes 1024
         else if c = 0x6d \<or> c = 0x4d then by_bytes (1024 * 1024)
         else if c = 0x67 \<or> c = 0x47 then by_bytes (1024 * 1024 * 1024)
         else Inr trk)"

text \<open>One round of the outer loop on the line \<open>l\<close>: the value of \<open>trk\<close> and of \<open>use_default\<close>, which
  stays 0 once a digit was read.\<close>

definition read_value ::
  "hd_geometry \<Rightarrow> u32 \<Rightarrow> u64 \<Rightarrow> u64 \<Rightarrow> u64 \<Rightarrow> offset \<Rightarrow> bool \<Rightarrow> bytes \<Rightarrow> stop + u64 \<times> bool" where
  "read_value geo blksize low dflt high base use_default l =
     bind_err
       (if (cur l = 0x2b \<or> cur l = 0x2d) \<and> base \<noteq> lower then
          let l = (if cur l = 0x2b then tl l else l);
              trk = word_of_int (c_atoi l);
              use_default = (use_default \<and> \<not> c_isdigit (cur l));
              l = dropWhile c_isdigit l
          in bind_err (appendix geo blksize trk (cur l)) (\<lambda>trk. Inr (trk + (low - 1), use_default))
        else if cur l = 0 then
          Inr (case base of lower \<Rightarrow> low | upper \<Rightarrow> high, use_default)
        else
          let l = (if cur l = 0x2b \<or> cur l = 0x2d then tl l else l);
              trk = word_of_int (c_atoi l)
          in Inr (trk, use_default \<and> \<not> c_isdigit (cur l)))
       (\<lambda>(trk, use_default). Inr (if use_default then dflt else trk, use_default))"

function read_int ::
  "hd_geometry \<Rightarrow> u32 \<Rightarrow> u64 \<Rightarrow> u64 \<Rightarrow> u64 \<Rightarrow> offset \<Rightarrow> bool \<Rightarrow> bytes \<Rightarrow> stop + u64 \<times> bytes" where
  "read_int geo blksize low dflt high base use_default inp =
     (let (l, r) = skip_lines inp in
      case read_value geo blksize low dflt high base use_default l of
        Inl e \<Rightarrow> Inl e
      | Inr (trk, use_default) \<Rightarrow>
          if low \<le> trk \<and> trk \<le> high then Inr (trk, r)
          else if inp = [] then Inl Hang
          else read_int geo blksize low dflt high base use_default r)"
  by pat_completeness auto

termination
proof (relation "measure (\<lambda>(_, _, _, _, _, _, _, inp). length inp)", goal_cases)
  case (2 geo blksize low dflt high base use_default inp)
  then show ?case using skip_lines_length [of inp] by (auto dest: arg_cong [where f = snd])
qed simp

declare read_int.simps [simp del]

definition fdasd_read_int ::
  "hd_geometry \<Rightarrow> u32 \<Rightarrow> u64 \<Rightarrow> u64 \<Rightarrow> u64 \<Rightarrow> offset \<Rightarrow> bytes \<Rightarrow> stop + u64 \<times> bytes" where
  "fdasd_read_int geo blksize low dflt high base inp = read_int geo blksize low dflt high base True inp"

lemma read_int_range:
  "read_int geo blksize low dflt high base ud inp = Inr (v, inp') \<Longrightarrow> low \<le> v \<and> v \<le> high"
proof (induction geo blksize low dflt high base ud inp rule: read_int.induct)
  case (1 geo blksize low dflt high base ud inp)
  from 1(2) show ?case
    by (subst (asm) read_int.simps) (auto simp: Let_def dest: 1(1) [rotated -1] split: prod.splits sum.splits if_splits)
qed

text \<open>At the end of the input the default, or the limit named in brackets, is taken.\<close>

lemma read_value_eof:
  "read_value geo blksize low dflt high base ud [] =
     Inr (if ud then dflt else case base of lower \<Rightarrow> low | upper \<Rightarrow> high, ud)"
  by (simp add: read_value_def cur_def)

lemma read_value_total:
  "blksize \<noteq> 0 \<Longrightarrow> sectors geo \<noteq> 0 \<Longrightarrow> \<exists>r. read_value geo blksize low dflt high base ud l = Inr r"
  by (auto simp: read_value_def appendix_def Let_def split: prod.splits)

lemma read_int_total:
  assumes "low \<le> dflt" "dflt \<le> high" "blksize \<noteq> 0" "sectors geo \<noteq> 0"
  shows "\<exists>v inp'. read_int geo blksize low dflt high base ud inp = Inr (v, inp')"
  using assms
proof (induction geo blksize low dflt high base ud inp rule: read_int.induct)
  case (1 geo blksize low dflt high base ud inp)
  obtain l r where lr: "skip_lines inp = (l, r)" by (cases "skip_lines inp")
  obtain trk ud' where v: "read_value geo blksize low dflt high base ud l = Inr (trk, ud')"
    using read_value_total [OF 1(4,5)] by (metis surj_pair)
  show ?case
  proof (cases "low \<le> trk \<and> trk \<le> high")
    case False
    have "inp \<noteq> []"
    proof
      assume "inp = []"
      with lr have "l = []" by simp
      with v False 1(2,3) show False
        by (auto simp: read_value_eof split: if_splits offset.splits)
    qed
    with 1 lr v False show ?thesis by (subst read_int.simps) simp
  qed (use lr v in \<open>subst read_int.simps; simp\<close>)
qed

text \<open>C24: \<open>fdasd_read_int\<close> always comes back, whatever is typed and even at the end of the input, and
  only with a track between the two limits, provided the default lies between them and the
  geometry is not degenerate (the size appendices divide by the block size and the sectors per
  track).\<close>

theorem read_int_in_range:
  assumes "low \<le> dflt" "dflt \<le> high" "blksize \<noteq> 0" "sectors geo \<noteq> 0"
  shows "\<exists>v inp'. fdasd_read_int geo blksize low dflt high base inp = Inr (v, inp') \<and>
    low \<le> v \<and> v \<le> high"
  using read_int_total [OF assms, of base True inp] read_int_range
  unfolding fdasd_read_int_def by blast

theorem read_int_in_range_witness:
  "\<exists>v inp'. fdasd_read_int \<lparr>heads = 15, sectors = 12, cylinders = 3339, geo_start = 0\<rparr> 4096
      100 100 50084 upper (bytes_of ''+10c'' @ [10]) = Inr (v, inp') \<and> 100 \<le> v \<and> v \<le> 50084"
  by (rule read_int_in_range) simp_all

end
