(* ===== verification/Fdasd_Types.thy ===== *)
theory Fdasd_Types
  imports Fdasd_Input Vtoc_Freespace
begin

text \<open>
  The data of \<open>fdasd/fdasd.c\<close> and \<open>fdasd/fdasd.h\<close>: the table of partition types, the options, the
  anchor with its labels and partitions, and the small functions on them.  The doubly linked list of
  partition descriptions is the list \<open>parts\<close> in the order of the \<open>next\<close> pointers (\<open>first\<close> is its head,
  \<open>last\<close> its last element), each element carrying the values of its struct.  \<open>unsigned long\<close> is 64 bits wide.  Memory allocation is assumed to succeed.
\<close>

definition USABLE_PARTITIONS :: nat where "USABLE_PARTITIONS = 3"
definition PARTITION_NATIVE :: int where "PARTITION_NATIVE = 1"
definition ALTERNATE_CYLINDERS_USED :: u8 where "ALTERNATE_CYLINDERS_USED = 0x10"


section \<open>Partition types\<close>

record partition_type =
  pt_name :: string
  pt_dsname :: string
  pt_type :: int

definition partition_types :: "partition_type list" where
  "partition_types =
     [\<lparr>pt_name = ''Linux native'', pt_dsname = ''NEW'', pt_type = 1\<rparr>,
      \<lparr>pt_name = ''Linux native'', pt_dsname = ''NATIVE'', pt_type = 1\<rparr>,
      \<lparr>pt_name = ''Linux swap'', pt_dsname = ''SWAP'', pt_type = 2\<rparr>,
      \<lparr>pt_name = ''Linux raid'', pt_dsname = ''RAID'', pt_type = 3\<rparr>,
      \<lparr>pt_name = ''Linux lvm'', pt_dsname = ''LVM'', pt_type = 4\<rparr>,
      \<lparr>pt_name = ''GPFS NSD'', pt_dsname = ''GPFS'', pt_type = 5\<rparr>]"

text \<open>The first entry whose data set name occurs in \<open>dsname\<close>; a missing name counts as native.\<close>

definition match_type :: "bytes \<Rightarrow> partition_type option" where
  "match_type dsname = find (\<lambda>t. c_strstr dsname (bytes_of (pt_dsname t)) \<noteq> None) partition_types"

definition get_part_name_by_dsname :: "bytes option \<Rightarrow> string option" where
  "get_part_name_by_dsname dsname = (case dsname of
       None \<Rightarrow> Some (pt_name (partition_types ! 1))
     | Some s \<Rightarrow> map_option pt_name (match_type s))"

definition get_part_type_by_dsname :: "bytes option \<Rightarrow> int option" where
  "get_part_type_by_dsname dsname = (case dsname of
       None \<Rightarrow> Some PARTITION_NATIVE
     | Some s \<Rightarrow> map_option pt_type (match_type s))"

text \<open>The bound is \<open>type > 6\<close>: for 6 the table is read past its end.\<close>

definition get_part_dsname_by_type :: "u32 \<Rightarrow> stop + bytes option" where
  "get_part_dsname_by_type type =
     (if unat type > length partition_types then Inr None
      else if type = 0 then Inr (Some (bytes_of (pt_dsname (partition_types ! 1))))
      else if unat type < length partition_types
      then Inr (Some (bytes_of (pt_dsname (partition_types ! unat type))))
      else Inl Crash)"

definition fdasd_partition_type :: "bytes \<Rightarrow> string" where
  "fdasd_partition_type dsname = (case get_part_name_by_dsname (Some dsname) of
       Some name \<Rightarrow> name | None \<Rightarrow> ''unknown'')"


section \<open>The anchor\<close>

record fdasd_options =
  device_opt :: "string option"
  volser_opt :: "bytes option"
  conffile_opt :: "string option"

record partition_info =
  used :: u8
  start_trk :: u64
  end_trk :: u64
  len_trk :: u64
  p_fspace_trk :: u64
  p_f1 :: format1_label_t
  p_type :: int

record config_data =
  c_start :: u64
  c_stop :: u64
  c_type :: int

record fdasd_anchor =
  vlabel_changed :: int
  vtoc_changed :: int
  auto_partition :: int
  print_table :: int
  print_volser :: int
  keep_volser :: int
  force_virtual :: int
  force_host :: int
  big_disk_flag :: int
  silent :: int
  verbose :: int
  devno :: int
  option_reuse :: int
  option_recreate :: int
  partno :: "int list"
  dev_type :: u16
  used_partitions :: u32
  label_pos :: u64
  blksize :: u32
  fspace_trk :: u64
  a_f4 :: format4_label_t
  a_f5 :: format5_label_t
  a_f7 :: format7_label_t
  a_f9 :: format9_label_t
  parts :: "partition_info list"
  vlabel :: volume_label_t
  confdata :: "config_data list"
  hw_cylinders :: u32
  formatted_cylinders :: u32

text \<open>\<open>bzero\<close> of a label.\<close>

definition zero_f1 :: format1_label_t where "zero_f1 = fst (dec_f1 (replicate 140 0))"
definition zero_f4 :: format4_label_t where "zero_f4 = fst (dec_f4 (replicate 140 0))"
definition zero_f5 :: format5_label_t where "zero_f5 = fst (dec_f5 (replicate 140 0))"
definition zero_f7 :: format7_label_t where "zero_f7 = fst (dec_f7 (replicate 140 0))"
definition zero_f9 :: format9_label_t where "zero_f9 = fst (dec_f9 (replicate 140 0))"
definition zero_vlabel :: volume_label_t where "zero_vlabel = fst (dec_vlabel (replicate 92 0))"

definition empty_part :: partition_info where
  "empty_part = \<lparr>used = 0, start_trk = 0, end_trk = 0, len_trk = 0, p_fspace_trk = 0,
     p_f1 = zero_f1, p_type = 0\<rparr>"

definition fdasd_initialize_anchor :: fdasd_anchor where
  "fdasd_initialize_anchor =
     \<lparr>vlabel_changed = 0, vtoc_changed = 0, auto_partition = 0, print_table = 0, print_volser = 0,
      keep_volser = 0, force_virtual = 0, force_host = 0, big_disk_flag = 0, silent = 0, verbose = 0,
      devno = 0, option_reuse = 0, option_recreate = 0, partno = replicate USABLE_PARTITIONS (-1),
      dev_type = 0, used_partitions = 0, label_pos = 0, blksize = 0, fspace_trk = 0,
      a_f4 = zero_f4, a_f5 = zero_f5, a_f7 = zero_f7, a_f9 = vtoc_init_format9_label zero_f9,
      parts = replicate USABLE_PARTITIONS empty_part, vlabel = zero_vlabel,
      confdata = replicate USABLE_PARTITIONS \<lparr>c_start = 0, c_stop = 0, c_type = 0\<rparr>,
      hw_cylinders = 0, formatted_cylinders = 0\<rparr>"

text \<open>\<open>partno\<close> maps data set numbers to positions in the list of partitions, -1 for none.\<close>

definition getpos :: "fdasd_anchor \<Rightarrow> nat \<Rightarrow> int" where
  "getpos anc dsn = partno anc ! dsn"

definition getdsn :: "fdasd_anchor \<Rightarrow> int \<Rightarrow> int" where
  "getdsn anc pos = (case find (\<lambda>i. partno anc ! i = pos) [0..<USABLE_PARTITIONS] of
     Some i \<Rightarrow> int i | None \<Rightarrow> -1)"

definition setpos :: "fdasd_anchor \<Rightarrow> nat \<Rightarrow> int \<Rightarrow> fdasd_anchor" where
  "setpos anc dsn pos = anc\<lparr>partno := (partno anc)[dsn := pos]\<rparr>"

definition get_usable_cylinders :: "fdasd_anchor \<Rightarrow> u32" where
  "get_usable_cylinders anc =
     (let f4 = a_f4 anc; dc = DS4DEVCT f4 in
      if ucast (DS4DSCYL dc) = LV_COMPAT_CYL \<and> DS4DCYL f4 > ucast (DS4DSCYL dc) then DS4DCYL f4
      else if DS4DEVFG dc AND ALTERNATE_CYLINDERS_USED \<noteq> 0
      then ucast (DS4DSCYL dc) - ucast (DS4DEVAC f4)
      else ucast (DS4DSCYL dc))"

definition get_addr_of_highest_f1_f8_label :: "fdasd_anchor \<Rightarrow> cchhb_t" where
  "get_addr_of_highest_f1_f8_label anc =
     (let record = (ucast (used_partitions anc + 2) :: u8);
          record = (if big_disk_flag anc \<noteq> 0 then record + 1 else record);
          record = (if formatted_cylinders anc > LV_COMPAT_CYL
                    then record + ucast (used_partitions anc - 1) else record)
      in vtoc_set_cchhb VTOC_START_CC VTOC_START_HH record)"


section \<open>The volume serial\<close>

definition volser_char :: "u8 \<Rightarrow> bool" where
  "volser_char c \<longleftrightarrow> (0x23 \<le> c \<and> c \<le> 0x25) \<or> (0x30 \<le> c \<and> c \<le> 0x39) \<or>
     (0x40 \<le> c \<and> c \<le> 0x5a) \<or> (0x61 \<le> c \<and> c \<le> 0x7a)"

text \<open>The conversion \<open>%04x\<close>.\<close>

definition hex_digit :: "nat \<Rightarrow> u8" where
  "hex_digit n = (if n < 10 then of_nat (48 + n) else of_nat (87 + n))"

fun hex_rev :: "nat \<Rightarrow> bytes" where
  "hex_rev n = (if n < 16 then [hex_digit n] else hex_digit (n mod 16) # hex_rev (n div 16))"

definition hex04 :: "u32 \<Rightarrow> bytes" where
  "hex04 w = (let h = rev (hex_rev (unat w)) in replicate (4 - length h) 0x30 @ h)"

definition default_volser :: "int \<Rightarrow> bytes" where
  "default_volser dno = bytes_of ''0X'' @ hex04 (word_of_int dno)"

definition fdasd_check_volser :: "bytes \<Rightarrow> int \<Rightarrow> bytes" where
  "fdasd_check_volser volser dno =
     (let v = map c_toupper (filter volser_char (take VOLSER_LENGTH (cstr volser)))
      in if v = [] then default_volser dno else v)"

declare hex_rev.simps [simp del]

lemma hex_rev_length: "n < 16 ^ Suc k \<Longrightarrow> length (hex_rev n) \<le> Suc k"
proof (induction k arbitrary: n)
  case 0
  then show ?case by (subst hex_rev.simps) simp
next
  case (Suc k)
  have "n div 16 < 16 ^ Suc k" using Suc.prems by (simp add: less_mult_imp_div_less)
  with Suc.IH [of "n div 16"] show ?case by (subst hex_rev.simps) simp
qed

lemma volser_char_hex: "n < 16 \<Longrightarrow> volser_char (hex_digit n)"
proof -
  have "\<forall>n \<in> set [0..<16]. volser_char (hex_digit n)" by code_simp
  then show "n < 16 \<Longrightarrow> volser_char (hex_digit n)" by simp
qed

lemma volser_char_hex_rev: "c \<in> set (hex_rev n) \<Longrightarrow> volser_char c"
proof (induction n rule: hex_rev.induct)
  case (1 n)
  then show ?case
    by (subst (asm) (2) hex_rev.simps) (auto simp: volser_char_hex split: if_splits)
qed

lemma volser_char_upper: "volser_char c \<Longrightarrow> volser_char (c_toupper c)"
proof -
  have "list_all (\<lambda>n. volser_char (word_of_nat n) \<longrightarrow> volser_char (c_toupper (word_of_nat n))) [0..<256]"
    by code_simp
  then have "volser_char c \<longrightarrow> volser_char (c_toupper c)" by (rule all_bytesI)
  then show "volser_char c \<Longrightarrow> volser_char (c_toupper c)" by simp
qed

lemma volser_char_invertible: "volser_char c \<Longrightarrow> invertible c \<and> c \<noteq> 0"
proof -
  have "list_all (\<lambda>n. volser_char (word_of_nat n) \<longrightarrow> invertible (word_of_nat n) \<and> word_of_nat n \<noteq> (0 :: u8))
    [0..<256]" by code_simp
  then have "volser_char c \<longrightarrow> invertible c \<and> c \<noteq> 0" by (rule all_bytesI)
  then show "volser_char c \<Longrightarrow> invertible c \<and> c \<noteq> 0" by simp
qed

lemma default_volser_ok:
  assumes "0 \<le> dno" "dno < 65536"
  shows "default_volser dno \<noteq> []" "length (default_volser dno) \<le> 6"
    "c \<in> set (default_volser dno) \<Longrightarrow> volser_char c"
proof -
  have "unat (word_of_int dno :: u32) < 16 ^ Suc 3"
  proof -
    have "word_of_int dno = (of_nat (nat dno) :: u32)" using assms(1) by simp
    then have "unat (word_of_int dno :: u32) = nat dno" by (rule unat_eqI) (use assms in simp)
    with assms show ?thesis by simp
  qed
  from hex_rev_length [OF this] show "length (default_volser dno) \<le> 6"
    by (simp add: default_volser_def hex04_def Let_def)
  show "default_volser dno \<noteq> []" by (simp add: default_volser_def bytes_of_def)
  have "list_all volser_char (bytes_of ''0X'')" "volser_char 0x30" by code_simp+
  then show "c \<in> set (default_volser dno) \<Longrightarrow> volser_char c"
    by (auto simp: default_volser_def hex04_def Let_def list_all_iff intro: volser_char_hex_rev)
qed

lemma check_volser_ok:
  assumes "0 \<le> dno" "dno < 65536"
  shows "fdasd_check_volser s dno \<noteq> []" "length (fdasd_check_volser s dno) \<le> 6"
    "c \<in> set (fdasd_check_volser s dno) \<Longrightarrow> volser_char c"
proof -
  let ?v = "map c_toupper (filter volser_char (take VOLSER_LENGTH (cstr s)))"
  have "length ?v \<le> 6" using length_filter_le [of volser_char "take VOLSER_LENGTH (cstr s)"]
    by (simp add: VOLSER_LENGTH_def)
  then show "length (fdasd_check_volser s dno) \<le> 6"
    using default_volser_ok(2) [OF assms] by (simp add: fdasd_check_volser_def Let_def)
  show "fdasd_check_volser s dno \<noteq> []"
    using default_volser_ok(1) [OF assms] by (simp add: fdasd_check_volser_def Let_def)
  show "c \<in> set (fdasd_check_volser s dno) \<Longrightarrow> volser_char c"
    using default_volser_ok(3) [OF assms]
    by (auto simp: fdasd_check_volser_def Let_def volser_char_upper split: if_splits)
qed

text \<open>C28: whatever is typed or passed as volume serial, the checked serial is not empty, has at most
  six characters, and comes back from the label unchanged but for upper case and trailing blanks:
  every accepted character survives the conversion to EBCDIC and back.\<close>

theorem checked_volser_survives:
  assumes "0 \<le> dno" "dno < 65536" "length (volid v) = 6"
  shows "fdasd_check_volser s dno \<noteq> [] \<and> length (fdasd_check_volser s dno) \<le> 6 \<and>
    vtoc_volume_label_get_volser (vtoc_volume_label_set_volser v (fdasd_check_volser s dno)) =
      map c_toupper (fdasd_check_volser s dno) @
      replicate (6 - length (fdasd_check_volser s dno)) 0x20 @ [0]"
proof -
  let ?c = "fdasd_check_volser s dno"
  note ok = check_volser_ok [OF assms(1,2), where s = s]
  have "0 \<notin> set ?c" using ok(3) volser_char_invertible by blast
  then have c: "cstr ?c = ?c" by (rule cstr_no_zero)
  have "list_all invertible (take 6 (cstr ?c))"
    using ok(2,3) volser_char_invertible by (auto simp: c list_all_iff)
  from volser_set_get [OF assms(3) this] ok show ?thesis by (simp add: c strlen_def)
qed

theorem checked_volser_survives_witness:
  "vtoc_volume_label_get_volser
     (vtoc_volume_label_set_volser zero_vlabel (fdasd_check_volser (bytes_of ''a b-1'') 0x4711)) =
   bytes_of ''AB1   '' @ [0]"
proof -
  have "length (volid zero_vlabel) = 6" by code_simp
  with checked_volser_survives [where dno = "0x4711" and v = zero_vlabel and s = "bytes_of ''a b-1''"]
  have "vtoc_volume_label_get_volser
     (vtoc_volume_label_set_volser zero_vlabel (fdasd_check_volser (bytes_of ''a b-1'') 0x4711)) =
     map c_toupper (fdasd_check_volser (bytes_of ''a b-1'') 0x4711) @
      replicate (6 - length (fdasd_check_volser (bytes_of ''a b-1'') 0x4711)) 0x20 @ [0]" by simp
  also have "\<dots> = bytes_of ''AB1   '' @ [0]" by code_simp
  finally show ?thesis .
qed

end
