(* ===== verification/Fdasd_Part.thy ===== *)
theory Fdasd_Part
  imports Fdasd_Types
begin

text \<open>
  The partition table operations of \<open>fdasd/fdasd.c\<close>: asking for the limits of a new partition,
  inserting it into and removing it from the list of partitions with its free-space counters, and
  adding and removing partitions with all label updates.  \<open>tm_year\<close> and \<open>tm_yday\<close> are today's date
  and \<open>inp\<close> is standard input; \<open>geo\<close> is the global geometry.
\<close>

definition first_trk :: u64 where "first_trk = of_nat FIRST_USABLE_TRK"

lemma first_trk_2 [simp]: "first_trk = 2"
  by (simp add: first_trk_def FIRST_USABLE_TRK_def)


section \<open>Limits of a new partition\<close>

definition within :: "u64 \<Rightarrow> partition_info \<Rightarrow> bool" where
  "within trk p \<longleftrightarrow> start_trk p \<le> trk \<and> trk \<le> end_trk p"

text \<open>The default start; the loops of this function stop at the last list element.\<close>

definition default_start :: "partition_info list \<Rightarrow> u64" where
  "default_start ps =
     fold (\<lambda>p start. if within start p then end_trk p + 1 else start) (butlast ps) first_trk"

text \<open>The loop that checks the start the user chose; \<open>i\<close> is the index of \<open>part_tmp\<close>.  A start inside a
  partition moves behind it, or wraps around to the first usable track, with \<open>part_tmp\<close> set back to
  the first partition.  The result is the start and the limit for the end.\<close>

definition moved :: "partition_info list \<Rightarrow> nat \<Rightarrow> u64 \<Rightarrow> u64 \<Rightarrow> u64 \<times> nat" where
  "moved ps i start limit =
     (if within start (ps ! i) then
        let start = end_trk (ps ! i) + 1 in if start > limit then (first_trk, 0) else (start, i)
      else (start, i))"

partial_function (option) check_start ::
  "partition_info list \<Rightarrow> nat \<Rightarrow> u64 \<Rightarrow> u64 \<Rightarrow> (u64 \<times> u64) option" where
  "check_start ps i start limit =
     (if Suc i < length ps then
        let start' = fst (moved ps i start limit); i' = snd (moved ps i start limit) in
        if start' < start_trk (ps ! i') then Some (start', start_trk (ps ! i') - 1)
        else check_start ps (Suc i') start' limit
      else Some (start, limit))"

text \<open>Cylinder and head of a track, as in both halves of the function: \<open>hh\<close> is computed from the
  32-bit product \<open>cc * heads\<close>.\<close>

definition trk_cchh :: "hd_geometry \<Rightarrow> u64 \<Rightarrow> cchh_t" where
  "trk_cchh geo trk =
     (let cc = (ucast (trk div ucast (heads geo)) :: u32);
          hh = (ucast (trk - ucast (cc * ucast (heads geo))) :: u16)
      in vtoc_set_cchh cc hh)"

definition trk_hh :: "hd_geometry \<Rightarrow> u64 \<Rightarrow> u16" where
  "trk_hh geo trk = ucast (trk - ucast (ucast (trk div ucast (heads geo)) * ucast (heads geo) :: u32))"

definition fdasd_get_partition_data ::
  "hd_geometry \<Rightarrow> fdasd_anchor \<Rightarrow> bytes \<Rightarrow> stop + (u64 \<times> u64 \<times> extent_t) option \<times> bytes" where
  "fdasd_get_partition_data geo anc inp =
     (let cyl = get_usable_cylinders anc;
          head = DS4DSTRK (DS4DEVCT (a_f4 anc));
          limit = (ucast (ucast head * cyl - 1 :: u32) :: u64);
          start = default_start (parts anc)
      in if start > limit then Inr (None, inp)
         else bind_err (fdasd_read_int geo (blksize anc) start start limit lower inp) (\<lambda>(start, inp).
           case check_start (parts anc) 0 start limit of
             None \<Rightarrow> Inl Hang
           | Some (start, limit) \<Rightarrow>
               bind_err (if start = limit then Inr (start, inp)
                         else fdasd_read_int geo (blksize anc) start limit limit upper inp) (\<lambda>(stop, inp).
                 if heads geo = 0 then Inl Crash
                 else let llim = trk_cchh geo start; ulim = trk_cchh geo stop;
                          b1 = (if trk_hh geo start = 0 then 0x81 else 0x01)
                      in Inr (Some (start, stop, vtoc_set_extent b1 0x00 llim ulim), inp))))"


section \<open>The list of partitions\<close>

text \<open>The number of elements the new partition is moved behind.\<close>

definition enqueue_pos :: "partition_info \<Rightarrow> partition_info list \<Rightarrow> nat" where
  "enqueue_pos new ps =
     length (takeWhile (\<lambda>p. \<not> (end_trk p = 0 \<or> start_trk new < start_trk p)) (butlast ps))"

definition fdasd_enqueue_new_partition :: "fdasd_anchor \<Rightarrow> fdasd_anchor" where
  "fdasd_enqueue_new_partition anc =
     (let ps = parts anc; new = last ps; k = enqueue_pos new ps;
          new = new\<lparr>used := 0x01\<rparr>;
          anc = anc\<lparr>partno := map (\<lambda>j. if j \<ge> int k then j + 1 else j) (partno anc)\<rparr>
      in if k = 0 then
           (if start_trk new = first_trk then
              anc\<lparr>parts := new\<lparr>p_fspace_trk := fspace_trk anc - len_trk new\<rparr> # butlast ps,
                  fspace_trk := 0\<rparr>
            else
              anc\<lparr>parts := new\<lparr>p_fspace_trk := fspace_trk anc - len_trk new - start_trk new + first_trk\<rparr>
                    # butlast ps,
                  fspace_trk := start_trk new - first_trk\<rparr>)
         else
           (let prev = ps ! (k - 1) in
            if start_trk new = end_trk prev + 1 then
              anc\<lparr>parts := take (k - 1) ps @ prev\<lparr>p_fspace_trk := 0\<rparr> #
                    new\<lparr>p_fspace_trk := p_fspace_trk prev - len_trk new\<rparr> # drop k (butlast ps)\<rparr>
            else
              anc\<lparr>parts := take (k - 1) ps @
                    prev\<lparr>p_fspace_trk := start_trk new - end_trk prev - 1\<rparr> #
                    new\<lparr>p_fspace_trk := p_fspace_trk prev - len_trk new - start_trk new + end_trk prev + 1\<rparr>
                    # drop k (butlast ps)\<rparr>))"

text \<open>Element \<open>k\<close> is taken out, cleared and put at the end.\<close>

definition cleared :: "partition_info \<Rightarrow> partition_info" where
  "cleared p = p\<lparr>used := 0, len_trk := 0, start_trk := 0, end_trk := 0, p_fspace_trk := 0,
     p_f1 := zero_f1\<rparr>"

definition fdasd_dequeue_old_partition :: "fdasd_anchor \<Rightarrow> nat \<Rightarrow> fdasd_anchor" where
  "fdasd_dequeue_old_partition anc k =
     (let ps = parts anc; p = ps ! k;
          anc = anc\<lparr>partno := map (\<lambda>j. if j \<ge> int k then j - 1 else j) (partno anc)\<rparr>
      in if k = 0 then
           anc\<lparr>parts := tl ps @ [cleared p],
               fspace_trk := fspace_trk anc + (len_trk p + p_fspace_trk p)\<rparr>
         else
           (let prev = ps ! (k - 1) in
            anc\<lparr>parts := take (k - 1) ps @
                  prev\<lparr>p_fspace_trk := p_fspace_trk prev + (len_trk p + p_fspace_trk p)\<rparr> #
                  drop (Suc k) ps @ [cleared p]\<rparr>))"


section \<open>Adding and removing\<close>

text \<open>The free-space labels of the anchor.\<close>

definition set_freespace ::
  "fdasd_anchor \<Rightarrow> char \<Rightarrow> u32 \<Rightarrow> u32 \<Rightarrow> u32 \<Rightarrow> u32 \<Rightarrow> stop + fdasd_anchor" where
  "set_freespace anc ch start stop cyl trk =
     bind_err (lift_vtoc (vtoc_set_freespace (a_f4 anc, a_f5 anc, a_f7 anc) ch start stop cyl trk))
       (\<lambda>(f4, f5, f7). Inr (anc\<lparr>a_f4 := f4, a_f5 := f5, a_f7 := f7\<rparr>))"

definition init_f1_label ::
  "int \<Rightarrow> int \<Rightarrow> fdasd_anchor \<Rightarrow> extent_t \<Rightarrow> format1_label_t \<Rightarrow> format1_label_t" where
  "init_f1_label tm_year tm_yday anc ext f1 =
     (if formatted_cylinders anc > LV_COMPAT_CYL
      then vtoc_init_format8_label tm_year tm_yday (blksize anc) ext f1
      else vtoc_init_format1_label tm_year tm_yday (blksize anc) ext f1)"

definition fdasd_add_partition ::
  "int \<Rightarrow> int \<Rightarrow> hd_geometry \<Rightarrow> fdasd_anchor \<Rightarrow> bytes \<Rightarrow> stop + fdasd_anchor \<times> bytes" where
  "fdasd_add_partition tm_year tm_yday geo anc inp =
     (if used_partitions anc < of_nat USABLE_PARTITIONS then
        bind_err (fdasd_get_partition_data geo anc inp) (\<lambda>(data, inp).
          case data of
            None \<Rightarrow> Inr (anc, inp)
          | Some (start, stop, ext) \<Rightarrow>
              let p = last (parts anc);
                  p = p\<lparr>len_trk := stop - start + 1, start_trk := start, end_trk := stop,
                    p_f1 := init_f1_label tm_year tm_yday anc ext (p_f1 p)\<rparr>;
                  anc = anc\<lparr>parts := butlast (parts anc) @ [p]\<rparr>;
                  anc = fdasd_enqueue_new_partition anc;
                  anc = anc\<lparr>used_partitions := used_partitions anc + 1\<rparr>;
                  hf1 = get_addr_of_highest_f1_f8_label anc;
                  anc = anc\<lparr>a_f4 := vtoc_update_format4_label (a_f4 anc) hf1 (DS4DSREC (a_f4 anc) - 1)\<rparr>
              in bind_err (set_freespace anc CHR ''-'' (cchh2trk (llimit ext) geo)
                     (cchh2trk (ulimit ext) geo) (formatted_cylinders anc) (ucast (heads geo)))
                   (\<lambda>anc. Inr (anc\<lparr>vtoc_changed := vtoc_changed anc + 1\<rparr>, inp)))
      else Inr (anc, inp))"

text \<open>A digit at the start of a line; at the end of the input the question is asked forever.\<close>

function read_digit :: "bytes \<Rightarrow> stop + u8 \<times> bytes" where
  "read_digit inp =
     (let l = fst (read_line inp); r = snd (read_line inp) in
      if c_isdigit (cur l) then Inr (cur l, r)
      else if inp = [] then Inl Hang
      else read_digit r)"
  by pat_completeness auto

termination
  by (relation "measure length") (auto simp: read_line_shorter)

declare read_digit.simps [simp del]

text \<open>Listing the table converts the names to ASCII and back, which changes the characters the
  tables do not invert.  \<open>table_rows\<close> are the start, end and length of the lines it prints, with the
  partition number, or 0 for free space.\<close>

definition recoded :: "format1_label_t \<Rightarrow> format1_label_t" where
  "recoded f1 = (let s = vtoc_ebcdic_dec (DS1DSNAM f1) (DS1DSNAM f1) 44
                 in f1\<lparr>DS1DSNAM := vtoc_ebcdic_enc s s 44\<rparr>)"

definition fdasd_list_partition_table :: "fdasd_anchor \<Rightarrow> fdasd_anchor" where
  "fdasd_list_partition_table anc =
     anc\<lparr>parts := map (\<lambda>p. if used p = 0x01 then p\<lparr>p_f1 := recoded (p_f1 p)\<rparr> else p) (parts anc)\<rparr>"

fun part_rows :: "nat \<Rightarrow> partition_info list \<Rightarrow> (nat \<times> u64 \<times> u64 \<times> u64) list" where
  "part_rows i [] = []"
| "part_rows i (p # ps) =
     (if used p \<noteq> 0x01 then []
      else (i, start_trk p, end_trk p, len_trk p) #
        (if p_fspace_trk p > 0
         then [(0, end_trk p + 1, end_trk p + p_fspace_trk p, p_fspace_trk p)] else [])) @
     part_rows (i + 1) ps"

definition table_rows :: "fdasd_anchor \<Rightarrow> (nat \<times> u64 \<times> u64 \<times> u64) list" where
  "table_rows anc =
     (if parts anc \<noteq> [] \<and> fspace_trk anc > 0
      then [(0, first_trk, first_trk + fspace_trk anc - 1, fspace_trk anc)] else []) @
     part_rows 1 (parts anc)"

definition remove_listed ::
  "hd_geometry \<Rightarrow> fdasd_anchor \<Rightarrow> bytes \<Rightarrow> stop + fdasd_anchor \<times> bytes" where
  "remove_listed geo anc inp =
     bind_err (read_digit inp) (\<lambda>(c, inp).
       let part_id = (ucast c - 48 :: u32) in
       if part_id = 0 then Inr (anc, inp)
       else if part_id > used_partitions anc then Inr (anc, inp)
       else if unat part_id > length (parts anc) then Inl Crash
       else
         let k = unat part_id - 1;
             anc = setpos anc k (-1);
             f1 = p_f1 (parts anc ! k);
             start = cchh2trk (llimit (DS1EXT1 f1)) geo;
             stop = cchh2trk (ulimit (DS1EXT1 f1)) geo;
             anc = fdasd_dequeue_old_partition anc k;
             anc = anc\<lparr>used_partitions := used_partitions anc - 1\<rparr>;
             hf1 = (if used_partitions anc \<noteq> 0 then get_addr_of_highest_f1_f8_label anc
                    else zero_cchhb);
             anc = anc\<lparr>a_f4 := vtoc_update_format4_label (a_f4 anc) hf1 (DS4DSREC (a_f4 anc) + 1)\<rparr>
         in bind_err (set_freespace anc CHR ''+'' start stop (formatted_cylinders anc) (ucast (heads geo)))
              (\<lambda>anc. Inr (anc\<lparr>vtoc_changed := vtoc_changed anc + 1\<rparr>, inp)))"

definition fdasd_remove_partition ::
  "hd_geometry \<Rightarrow> fdasd_anchor \<Rightarrow> bytes \<Rightarrow> stop + fdasd_anchor \<times> bytes" where
  "fdasd_remove_partition geo anc inp = remove_listed geo (fdasd_list_partition_table anc) inp"

end
