(* ===== verification/Fdasd_Inv.thy ===== *)
theory Fdasd_Inv
  imports Fdasd_Part
begin

text \<open>
  The invariant of the partition table and its preservation.  \<open>chain\<close> says of a list of partitions
  that they are in use, ordered, disjoint and within the volume, that their lengths are right, that
  their format 1 labels hold the same limits, and that every free-space counter is the exact number
  of tracks up to the next partition or the end of the volume.  \<open>anchor_ok\<close> adds that the other list
  elements are unused and that the free-space labels describe exactly the tracks outside all
  partitions.
\<close>

definition pstart :: "partition_info \<Rightarrow> nat" where "pstart p = unat (start_trk p)"
definition pend :: "partition_info \<Rightarrow> nat" where "pend p = unat (end_trk p)"

definition interval :: "partition_info \<Rightarrow> nat \<times> nat" where
  "interval p = (pstart p, Suc (pend p))"

lemma covered_interval [simp]: "covered (interval p # xs) = {pstart p..<Suc (pend p)} \<union> covered xs"
  by (simp add: interval_def)

text \<open>The extent in the label of a partition.\<close>

definition label_ok :: "hd_geometry \<Rightarrow> partition_info \<Rightarrow> bool" where
  "label_ok geo p \<longleftrightarrow> unat (cchh2trk (llimit (DS1EXT1 (p_f1 p))) geo) = pstart p \<and>
     unat (cchh2trk (ulimit (DS1EXT1 (p_f1 p))) geo) = pend p"

fun chain :: "hd_geometry \<Rightarrow> nat \<Rightarrow> nat \<Rightarrow> u64 \<Rightarrow> partition_info list \<Rightarrow> bool" where
  "chain geo lo n g [] \<longleftrightarrow> lo \<le> n \<and> unat g = n - lo"
| "chain geo lo n g (p # ps) \<longleftrightarrow> used p = 1 \<and> label_ok geo p \<and> lo \<le> pstart p \<and>
     unat g = pstart p - lo \<and> pstart p \<le> pend p \<and> unat (len_trk p) = Suc (pend p) - pstart p \<and>
     chain geo (Suc (pend p)) n (p_fspace_trk p) ps"

lemma label_ok_fspace [simp]: "label_ok geo (p\<lparr>p_fspace_trk := x\<rparr>) = label_ok geo p"
  by (simp add: label_ok_def pstart_def pend_def)

lemma interval_fspace [simp]: "interval (p\<lparr>p_fspace_trk := x\<rparr>) = interval p"
  "pstart (p\<lparr>p_fspace_trk := x\<rparr>) = pstart p" "pend (p\<lparr>p_fspace_trk := x\<rparr>) = pend p"
  by (simp_all add: interval_def pstart_def pend_def)

lemma chain_le: "chain geo lo n g ps \<Longrightarrow> lo \<le> n"
  by (induction ps arbitrary: lo g) fastforce+

lemma chain_mem:
  "chain geo lo n g ps \<Longrightarrow> p \<in> set ps \<Longrightarrow>
     used p = 1 \<and> label_ok geo p \<and> lo \<le> pstart p \<and> pstart p \<le> pend p \<and> pend p < n"
proof (induction ps arbitrary: lo g)
  case (Cons q ps)
  then show ?case using chain_le [of geo "Suc (pend q)" n _ ps] by (fastforce dest: Suc_leD)
qed simp

lemma chain_disjoint_within:
  "chain geo lo n g ps \<Longrightarrow> {lo..<n} \<subseteq> T \<Longrightarrow> disjoint_within T (map interval ps)"
proof (induction ps arbitrary: lo g T)
  case (Cons p ps)
  then have c: "chain geo (Suc (pend p)) n (p_fspace_trk p) ps" by simp
  from Cons.prems chain_le [OF c] have "{pstart p..<Suc (pend p)} \<subseteq> T" by fastforce
  moreover have "{Suc (pend p)..<n} \<subseteq> T - {pstart p..<Suc (pend p)}" using Cons.prems by fastforce
  ultimately show ?case using Cons.IH [OF c] Cons.prems(1) by (simp add: interval_def)
qed simp

text \<open>A chain may start earlier, with a larger counter.\<close>

lemma chain_extend:
  "chain geo a n g ps \<Longrightarrow> lo \<le> a \<Longrightarrow> unat g' = unat g + (a - lo) \<Longrightarrow> chain geo lo n g' ps"
  by (cases ps) auto


section \<open>Insertion\<close>

text \<open>The insertion on a chain that starts at \<open>lo\<close> with the counter \<open>g\<close> in front of it.\<close>

fun ins :: "u64 \<Rightarrow> u64 \<Rightarrow> partition_info \<Rightarrow> partition_info list \<Rightarrow> u64 \<times> partition_info list" where
  "ins lo g new [] = (start_trk new - lo, [new\<lparr>p_fspace_trk := g - len_trk new - start_trk new + lo\<rparr>])"
| "ins lo g new (p # ps) =
     (if start_trk new < start_trk p
      then (start_trk new - lo, new\<lparr>p_fspace_trk := g - len_trk new - start_trk new + lo\<rparr> # p # ps)
      else let (g', ps') = ins (end_trk p + 1) (p_fspace_trk p) new ps
           in (g, p\<lparr>p_fspace_trk := g'\<rparr> # ps'))"

lemma gap_words:
  fixes g :: u64
  assumes "unat g = b - unat lo" "unat lo \<le> unat start" "unat start \<le> e" "Suc e \<le> b"
    "unat len = Suc e - unat start"
  shows "unat (start - lo) = unat start - unat lo"
    and "unat (g - len - start + lo) = b - Suc e"
proof -
  show s: "unat (start - lo) = unat start - unat lo"
    using assms(2) by (simp add: unat_sub word_le_nat_alt)
  have "len \<le> g" using assms by (simp add: word_le_nat_alt)
  then have 1: "unat (g - len) = unat g - unat len" by (simp add: unat_sub)
  have "start - lo \<le> g - len" using assms s 1 by (simp add: word_le_nat_alt)
  then have "unat (g - len - (start - lo)) = unat g - unat len - (unat start - unat lo)"
    by (simp add: unat_sub 1 s)
  moreover have "g - len - (start - lo) = g - len - start + lo" by simp
  ultimately show "unat (g - len - start + lo) = b - Suc e" using assms by simp
qed

lemma ins_chain:
  assumes "chain geo (unat lo) n g ps" and n: "n < 2 ^ 64"
    and new: "used new = 1" "label_ok geo new" "unat lo \<le> pstart new" "pstart new \<le> pend new"
      "pend new < n" "unat (len_trk new) = Suc (pend new) - pstart new"
    and apart: "\<forall>p \<in> set ps. pend new < pstart p \<or> pend p < pstart new"
  shows "chain geo (unat lo) n (fst (ins lo g new ps)) (snd (ins lo g new ps)) \<and>
    covered (map interval (snd (ins lo g new ps))) =
      covered (map interval ps) \<union> {pstart new..<Suc (pend new)} \<and>
    length (snd (ins lo g new ps)) = Suc (length ps)"
  using assms
proof (induction ps arbitrary: lo g)
  case Nil
  from gap_words [of g n lo "start_trk new" "pend new" "len_trk new"] Nil
  show ?case by (auto simp: pstart_def)
next
  case (Cons p ps)
  show ?case
  proof (cases "start_trk new < start_trk p")
    case True
    with Cons.prems have lt: "pend new < pstart p" by (auto simp: pstart_def pend_def word_less_nat_alt)
    from gap_words [of g "pstart p" lo "start_trk new" "pend new" "len_trk new"] Cons.prems lt True
    show ?thesis by (auto simp: pstart_def)
  next
    case False
    with Cons.prems have lt: "pend p < pstart new" by (auto simp: pstart_def pend_def word_less_nat_alt)
    have "unat (end_trk p + 1) = Suc (pend p)"
      using lt Cons.prems by (intro unat_eqI) (simp_all add: pend_def)
    then have "chain geo (Suc (pend p)) n (fst (ins (end_trk p + 1) (p_fspace_trk p) new ps))
        (snd (ins (end_trk p + 1) (p_fspace_trk p) new ps)) \<and>
      covered (map interval (snd (ins (end_trk p + 1) (p_fspace_trk p) new ps))) =
        covered (map interval ps) \<union> {pstart new..<Suc (pend new)} \<and>
      length (snd (ins (end_trk p + 1) (p_fspace_trk p) new ps)) = Suc (length ps)"
      using Cons.IH [of "end_trk p + 1" "p_fspace_trk p"] Cons.prems lt by simp
    with False Cons.prems show ?thesis
      by (auto simp: split_beta Let_def)
  qed
qed

text \<open>What \<open>fdasd_enqueue_new_partition\<close> does to the elements before the last one.\<close>

definition enq ::
  "u64 \<Rightarrow> u64 \<Rightarrow> partition_info \<Rightarrow> partition_info list \<Rightarrow> u64 \<times> partition_info list" where
  "enq lo g new bs =
     (let k = length (takeWhile (\<lambda>p. \<not> (end_trk p = 0 \<or> start_trk new < start_trk p)) bs) in
      if k = 0 then (start_trk new - lo, new\<lparr>p_fspace_trk := g - len_trk new - start_trk new + lo\<rparr> # bs)
      else let prev = bs ! (k - 1) in
        (g, take (k - 1) bs @ prev\<lparr>p_fspace_trk := start_trk new - end_trk prev - 1\<rparr> #
          new\<lparr>p_fspace_trk := p_fspace_trk prev - len_trk new - start_trk new + end_trk prev + 1\<rparr> #
          drop k bs))"

lemma enq_ins:
  assumes "\<forall>p \<in> set us. end_trk p \<noteq> 0" "\<forall>z \<in> set zs. end_trk z = 0"
  shows "enq lo g new (us @ zs) = (fst (ins lo g new us), snd (ins lo g new us) @ zs)"
  using assms
proof (induction us arbitrary: lo g)
  case Nil
  then show ?case by (cases zs) (auto simp: enq_def)
next
  case (Cons u us)
  let ?k = "length (takeWhile (\<lambda>p. \<not> (end_trk p = 0 \<or> start_trk new < start_trk p)) (us @ zs))"
  have IH: "enq (end_trk u + 1) (p_fspace_trk u) new (us @ zs) =
      (fst (ins (end_trk u + 1) (p_fspace_trk u) new us), snd (ins (end_trk u + 1) (p_fspace_trk u) new us) @ zs)"
    using Cons by simp
  show ?case
  proof (cases "start_trk new < start_trk u")
    case True
    then show ?thesis by (simp add: enq_def)
  next
    case False
    show ?thesis
    proof (cases "?k = 0")
      case k0: True
      with IH have "fst (ins (end_trk u + 1) (p_fspace_trk u) new us) = start_trk new - (end_trk u + 1)"
        "snd (ins (end_trk u + 1) (p_fspace_trk u) new us) @ zs =
          new\<lparr>p_fspace_trk := p_fspace_trk u - len_trk new - start_trk new + (end_trk u + 1)\<rparr> # us @ zs"
        by (simp_all add: enq_def)
      with False k0 Cons.prems show ?thesis
        by (simp add: enq_def split_beta Let_def algebra_simps)
    next
      case k: False
      then obtain m where m: "?k = Suc m" by (cases ?k) auto
      have g: "fst (ins (end_trk u + 1) (p_fspace_trk u) new us) = p_fspace_trk u"
        using arg_cong [OF IH, of fst] k by (simp add: enq_def Let_def)
      have "snd (ins (end_trk u + 1) (p_fspace_trk u) new us) @ zs =
          snd (enq (end_trk u + 1) (p_fspace_trk u) new (us @ zs))" using IH by simp
      with False Cons.prems g m show ?thesis
        by (simp add: enq_def split_beta Let_def)
    qed
  qed
qed

lemma enqueue_enq:
  assumes ps: "parts anc = bs @ [new]"
  shows "\<exists>pn. fdasd_enqueue_new_partition anc =
    anc\<lparr>partno := pn, fspace_trk := fst (enq 2 (fspace_trk anc) (new\<lparr>used := 1\<rparr>) bs),
      parts := snd (enq 2 (fspace_trk anc) (new\<lparr>used := 1\<rparr>) bs)\<rparr>"
proof -
  let ?P = "\<lambda>p. \<not> (end_trk p = 0 \<or> start_trk new < start_trk p)"
  let ?k = "length (takeWhile ?P bs)"
  have k: "enqueue_pos new (bs @ [new]) = ?k" by (simp add: enqueue_pos_def)
  have le: "?k \<le> length bs" by (rule length_takeWhile_le)
  show ?thesis
  proof (cases "?k = 0")
    case True
    then have e: "enq 2 (fspace_trk anc) (new\<lparr>used := 1\<rparr>) bs = (start_trk new - 2,
        new\<lparr>used := 1, p_fspace_trk := fspace_trk anc - len_trk new - start_trk new + 2\<rparr> # bs)"
      by (simp add: enq_def)
    show ?thesis
      unfolding fdasd_enqueue_new_partition_def ps Let_def last_snoc butlast_snoc k True e
      by (intro exI [of _ "map (\<lambda>j. if j \<ge> int 0 then j + 1 else j) (partno anc)"]) simp
  next
    case False
    then obtain m where m: "?k = Suc m" by (cases ?k) auto
    with le have nth: "(bs @ [new]) ! m = bs ! m" "m - length bs = 0"
      by (simp_all add: nth_append)
    have e: "enq 2 (fspace_trk anc) (new\<lparr>used := 1\<rparr>) bs = (fspace_trk anc,
        take m bs @ (bs ! m)\<lparr>p_fspace_trk := start_trk new - end_trk (bs ! m) - 1\<rparr> #
          new\<lparr>used := 1, p_fspace_trk := p_fspace_trk (bs ! m) - len_trk new - start_trk new +
            end_trk (bs ! m) + 1\<rparr> # drop (Suc m) bs)"
      using m by (simp add: enq_def Let_def)
    show ?thesis
      unfolding fdasd_enqueue_new_partition_def ps Let_def last_snoc butlast_snoc k m e
      by (intro exI [of _ "map (\<lambda>j. if j \<ge> int (Suc m) then j + 1 else j) (partno anc)"])
        (simp add: nth)
  qed
qed


section \<open>Removal\<close>

fun rm :: "nat \<Rightarrow> u64 \<Rightarrow> partition_info list \<Rightarrow> u64 \<times> partition_info list" where
  "rm k g [] = (g, [])"
| "rm 0 g (p # ps) = (g + (len_trk p + p_fspace_trk p), ps)"
| "rm (Suc k) g (p # ps) = (let (g', ps') = rm k (p_fspace_trk p) ps in (g, p\<lparr>p_fspace_trk := g'\<rparr> # ps'))"

lemma rm_chain:
  assumes "chain geo lo n g ps" "k < length ps" "n < 2 ^ 64"
  shows "chain geo lo n (fst (rm k g ps)) (snd (rm k g ps)) \<and>
    covered (map interval (snd (rm k g ps))) =
      covered (map interval ps) - {pstart (ps ! k)..<Suc (pend (ps ! k))} \<and>
    length (snd (rm k g ps)) = length ps - 1"
  using assms
proof (induction k g ps arbitrary: lo rule: rm.induct)
  case (2 g p ps)
  let ?g = "g + (len_trk p + p_fspace_trk p)"
  have c: "chain geo (Suc (pend p)) n (p_fspace_trk p) ps" using 2 by simp
  have fs: "unat (p_fspace_trk p) + Suc (pend p) \<le> n"
  proof (cases ps)
    case (Cons q qs)
    with c chain_mem [OF c, of q] show ?thesis by auto
  qed (use c in simp)
  have "unat ?g = unat g + (unat (len_trk p) + unat (p_fspace_trk p))"
  proof (rule unat_eqI)
    show "unat g + (unat (len_trk p) + unat (p_fspace_trk p)) < 2 ^ LENGTH(64)" using 2 fs by auto
  qed simp
  with 2 have "unat ?g = unat (p_fspace_trk p) + (Suc (pend p) - lo)" by auto
  with c 2 have "chain geo lo n ?g ps" by (intro chain_extend [OF c]) auto
  moreover have "covered (map interval ps) \<inter> {pstart p..<Suc (pend p)} = {}"
    using chain_mem [OF c] by (fastforce simp: covered_def interval_def)
  ultimately show ?case using 2 by auto
next
  case (3 k g p ps)
  have c: "chain geo (Suc (pend p)) n (p_fspace_trk p) ps" and k: "k < length ps" using 3 by auto
  have "Suc (pend p) \<le> pstart (ps ! k)" using chain_mem [OF c, of "ps ! k"] k by simp
  then have "{pstart p..<Suc (pend p)} \<inter> {pstart (ps ! k)..<Suc (pend (ps ! k))} = {}" by auto
  then have "{pstart p..<Suc (pend p)} \<union> (C - {pstart (ps ! k)..<Suc (pend (ps ! k))}) =
      {pstart p..<Suc (pend p)} \<union> C - {pstart (ps ! k)..<Suc (pend (ps ! k))}" for C by blast
  with 3(1) [OF c k 3(4)] 3(2) k show ?case by (simp add: split_beta Let_def Suc_diff_Suc)
qed simp

lemma dequeue_rm:
  assumes ps: "parts anc = us @ zs" and k: "k < length us"
  shows "\<exists>pn. fdasd_dequeue_old_partition anc k =
    anc\<lparr>partno := pn, fspace_trk := fst (rm k (fspace_trk anc) us),
      parts := snd (rm k (fspace_trk anc) us) @ zs @ [cleared (us ! k)]\<rparr>"
proof -
  have rm: "rm k g us = (if k = 0 then (g + (len_trk (us ! 0) + p_fspace_trk (us ! 0)), tl us)
      else (g, take (k - 1) us @ (us ! (k - 1))\<lparr>p_fspace_trk := p_fspace_trk (us ! (k - 1)) +
        (len_trk (us ! k) + p_fspace_trk (us ! k))\<rparr> # drop (Suc k) us))" if "k < length us" for g k us
    using that
  proof (induction k g us rule: rm.induct)
    case (3 k g p ps)
    then show ?case by (cases k) (auto simp: split_beta Let_def neq_Nil_conv)
  qed auto
  show ?thesis
  proof (cases "k = 0")
    case True
    with k obtain p us' where "us = p # us'" by (cases us) auto
    with True show ?thesis
      unfolding fdasd_dequeue_old_partition_def ps Let_def
      by (intro exI [of _ "map (\<lambda>j. if j \<ge> int 0 then j - 1 else j) (partno anc)"]) simp
  next
    case False
    with k have "(us @ zs) ! (k - 1) = us ! (k - 1)" "(us @ zs) ! k = us ! k"
      "take (k - 1) (us @ zs) = take (k - 1) us" "drop (Suc k) (us @ zs) = drop (Suc k) us @ zs"
      by (simp_all add: nth_append)
    with False rm [OF k] show ?thesis
      unfolding fdasd_dequeue_old_partition_def ps Let_def
      by (intro exI [of _ "map (\<lambda>j. if j \<ge> int k then j - 1 else j) (partno anc)"]) simp
  qed
qed



section \<open>The limits of a new partition\<close>

lemma within_nat: "within trk p \<longleftrightarrow> pstart p \<le> unat trk \<and> unat trk \<le> pend p"
  by (simp add: within_def pstart_def pend_def word_le_nat_alt)

text \<open>An element of the list is unused or lies between the first usable track and \<open>lim\<close>.\<close>

definition elem_ok :: "nat \<Rightarrow> partition_info \<Rightarrow> bool" where
  "elem_ok lim p \<longleftrightarrow> start_trk p = 0 \<and> end_trk p = 0 \<or> 2 \<le> pstart p \<and> pstart p \<le> pend p \<and> pend p \<le> lim"

lemma elem_unused: "start_trk p = 0 \<Longrightarrow> end_trk p = 0 \<Longrightarrow> pstart p = 0 \<and> pend p = 0"
  by (simp add: pstart_def pend_def)

lemma check_start_2: "check_start [a, b, c] 2 s l = Some (s, l)"
  by (subst check_start.simps) simp

lemma check_start_1:
  "check_start [a, b, c] 1 s l =
     (if within s b then
        if end_trk b + 1 > l then
          if 2 < start_trk a then Some (2, start_trk a - 1) else check_start [a, b, c] 1 2 l
        else if end_trk b + 1 < start_trk b then Some (end_trk b + 1, start_trk b - 1)
        else Some (end_trk b + 1, l)
      else if s < start_trk b then Some (s, start_trk b - 1) else Some (s, l))"
  by (subst check_start.simps)
    (simp add: moved_def Let_def check_start_2 [unfolded numeral_2_eq_2] numeral_2_eq_2)

lemma check_start_0:
  "check_start [a, b, c] 0 s l =
     (if within s a then
        if end_trk a + 1 > l then
          if 2 < start_trk a then Some (2, start_trk a - 1) else check_start [a, b, c] 1 2 l
        else if end_trk a + 1 < start_trk a then Some (end_trk a + 1, start_trk a - 1)
        else check_start [a, b, c] 1 (end_trk a + 1) l
      else if s < start_trk a then Some (s, start_trk a - 1) else check_start [a, b, c] 1 s l)"
  by (subst check_start.simps) (simp add: moved_def Let_def)

text \<open>The start lies in no partition and the limit ends before the next one, unless the start wrapped
  around into the first partition.\<close>

definition start_result :: "partition_info list \<Rightarrow> nat \<Rightarrow> u64 \<Rightarrow> u64 \<Rightarrow> bool" where
  "start_result ps lim s l \<longleftrightarrow> 2 \<le> unat s \<and> unat s \<le> unat l \<and> unat l \<le> lim \<and>
     ((\<forall>p \<in> set ps. pend p = 0 \<or> unat l < pstart p \<or> pend p < unat s) \<or>
      (\<exists>p \<in> set ps. pend p \<noteq> 0 \<and> pstart p \<le> unat s \<and> unat s \<le> pend p))"

lemma pred_start: "pstart p \<noteq> 0 \<Longrightarrow> unat (start_trk p - 1) = pstart p - 1"
  by (simp add: pstart_def unat_minus_one unat_eq_0)

lemma succ_end: "pend p < lim \<Longrightarrow> lim < 2 ^ 64 \<Longrightarrow> unat (end_trk p + 1) = Suc (pend p)"
  by (rule unat_eqI) (simp_all add: pend_def)

lemma check_start_ok:
  assumes e: "elem_ok (unat l) a" "elem_ok (unat l) b" and l: "Suc (unat l) < 2 ^ 64"
    and ord: "pend b \<noteq> 0 \<Longrightarrow> pend a \<noteq> 0 \<and> pend a < pstart b" and s: "2 \<le> unat s" "unat s \<le> unat l"
  shows "\<exists>s' l'. check_start [a, b, c] 0 s l = Some (s', l') \<and> start_result [a, b] (unat l) s' l'"
proof -
  have ea: "unat (end_trk a + 1) = Suc (pend a)" and eb: "unat (end_trk b + 1) = Suc (pend b)"
    using e l by (auto simp: elem_ok_def elem_unused intro!: succ_end [of _ "Suc (unat l)"])
  have z: "pend p = 0 \<Longrightarrow> pstart p = 0" if "elem_ok (unat l) p" for p
    using that by (auto simp: elem_ok_def elem_unused)
  have late: "\<exists>s' l'. check_start [a, b, c] 1 t l = Some (s', l') \<and> start_result [a, b] (unat l) s' l'"
    if t: "2 \<le> unat t" "unat t \<le> unat l" "pend a \<noteq> 0 \<Longrightarrow> pend a < unat t \<or> unat t = 2 \<and> pstart a \<le> 2" for t
  proof (cases "within t b \<and> end_trk b + 1 > l")
    case False
    have pa: "pstart a \<le> pend a" "pstart b \<le> pend b" using e by (auto simp: elem_ok_def elem_unused)
    consider (hit) "within t b" "\<not> end_trk b + 1 > l" | (low) "\<not> within t b" "t < start_trk b"
      | (high) "\<not> within t b" "\<not> t < start_trk b" using False by blast
    then show ?thesis
    proof cases
      case hit
      then have "pend b \<noteq> 0" "\<not> end_trk b + 1 < start_trk b"
        using t pa by (auto simp: within_nat word_less_nat_alt eb simp flip: pstart_def)
      with hit have "check_start [a, b, c] 1 t l = Some (end_trk b + 1, l)" by (subst check_start_1) simp
      moreover have "start_result [a, b] (unat l) (end_trk b + 1) l"
        using hit ord [OF \<open>pend b \<noteq> 0\<close>] pa t
        by (auto simp: start_result_def eb within_nat word_less_nat_alt)
      ultimately show ?thesis by blast
    next
      case low
      then have "check_start [a, b, c] 1 t l = Some (t, start_trk b - 1)" by (subst check_start_1) simp
      moreover have lt: "unat t < pstart b" using low by (simp add: word_less_nat_alt pstart_def)
      then have "pend b \<noteq> 0" "unat (start_trk b - 1) = pstart b - 1" "pend b \<le> unat l"
        using pa z [OF e(2)] e(2) pred_start [of b] by (auto simp: elem_ok_def elem_unused)
      then have "start_result [a, b] (unat l) t (start_trk b - 1)"
        using lt ord pa t by (auto simp: start_result_def)
      ultimately show ?thesis by blast
    next
      case high
      then have "check_start [a, b, c] 1 t l = Some (t, l)" by (subst check_start_1) simp
      moreover have "pend b < unat t" using high t
        by (auto simp: within_nat word_less_nat_alt simp flip: pstart_def)
      then have "start_result [a, b] (unat l) t l" using pa t by (auto simp: start_result_def)
      ultimately show ?thesis by blast
    qed
  next
    case wrap: True
    then have b: "pend b \<noteq> 0" using t by (auto simp: within_nat)
    show ?thesis
    proof (cases "2 < start_trk a")
      case True
      with wrap have "check_start [a, b, c] 1 t l = Some (2, start_trk a - 1)"
        by (subst check_start_1) simp
      moreover have "2 < pstart a" using True by (simp add: word_less_nat_alt pstart_def)
      then have "start_result [a, b] (unat l) 2 (start_trk a - 1)"
        using e(1) ord [OF b] pred_start [of a] by (auto simp: start_result_def elem_ok_def elem_unused)
      ultimately show ?thesis by blast
    next
      case False
      have a2: "2 \<le> pstart a" "pstart a \<le> pend a" "pstart a \<le> 2" "pend a < pstart b"
        using e(1) ord [OF b] False by (auto simp: elem_ok_def elem_unused pstart_def word_less_nat_alt)
      then have "\<not> within 2 b" "2 < start_trk b"
        by (auto simp: within_nat word_less_nat_alt simp flip: pstart_def)
      with wrap False have "check_start [a, b, c] 1 t l = Some (2, start_trk b - 1)"
        by (subst check_start_1, subst check_start_1) simp
      moreover have "start_result [a, b] (unat l) 2 (start_trk b - 1)"
        using a2 e(2) b pred_start [of b] by (auto simp: start_result_def elem_ok_def elem_unused)
      ultimately show ?thesis by blast
    qed
  qed
  have pa: "pstart a \<le> pend a" "pstart b \<le> pend b" using e by (auto simp: elem_ok_def elem_unused)
  consider (wrap_low) "within s a" "end_trk a + 1 > l" "2 < start_trk a"
    | (wrap) "within s a" "end_trk a + 1 > l" "\<not> 2 < start_trk a"
    | (hit) "within s a" "\<not> end_trk a + 1 > l" | (low) "\<not> within s a" "s < start_trk a"
    | (high) "\<not> within s a" "\<not> s < start_trk a" by blast
  then show ?thesis
  proof cases
    case wrap_low
    then have "check_start [a, b, c] 0 s l = Some (2, start_trk a - 1)" by (subst check_start_0) simp
    moreover have "2 < pstart a" using wrap_low by (simp add: word_less_nat_alt pstart_def)
    then have "start_result [a, b] (unat l) 2 (start_trk a - 1)"
      using e(1) ord pa pred_start [of a] by (auto simp: start_result_def elem_ok_def elem_unused)
    ultimately show ?thesis by blast
  next
    case wrap
    then have "check_start [a, b, c] 0 s l = check_start [a, b, c] 1 2 l" by (subst check_start_0) simp
    moreover have "pstart a \<le> 2" using wrap(3) by (simp add: word_less_nat_alt pstart_def)
    ultimately show ?thesis using late [of 2] s by simp
  next
    case hit
    then have "pend a \<noteq> 0" "\<not> end_trk a + 1 < start_trk a"
      using s pa by (auto simp: within_nat word_less_nat_alt ea simp flip: pstart_def)
    with hit have "check_start [a, b, c] 0 s l = check_start [a, b, c] 1 (end_trk a + 1) l"
      by (subst check_start_0) simp
    then show ?thesis using late [of "end_trk a + 1"] hit s by (simp add: ea within_nat word_less_nat_alt)
  next
    case low
    then have "check_start [a, b, c] 0 s l = Some (s, start_trk a - 1)" by (subst check_start_0) simp
    moreover have lt: "unat s < pstart a" using low by (simp add: word_less_nat_alt pstart_def)
    then have "unat (start_trk a - 1) = pstart a - 1" "pend a \<le> unat l"
      using e(1) pred_start [of a] by (auto simp: elem_ok_def elem_unused)
    then have "start_result [a, b] (unat l) s (start_trk a - 1)"
      using lt ord pa s by (auto simp: start_result_def)
    ultimately show ?thesis by blast
  next
    case high
    then have "check_start [a, b, c] 0 s l = check_start [a, b, c] 1 s l" by (subst check_start_0) simp
    moreover have "pend a < unat s" using high
      by (auto simp: within_nat word_less_nat_alt simp flip: pstart_def)
    ultimately show ?thesis using late [of s] s by simp
  qed
qed


section \<open>The volume\<close>

definition tracks :: "hd_geometry \<Rightarrow> fdasd_anchor \<Rightarrow> nat" where
  "tracks geo anc = unat (formatted_cylinders anc) * unat (heads geo)"

text \<open>What the geometry of a volume satisfies, and that the format 4 label agrees with it.\<close>

definition vol_ok :: "hd_geometry \<Rightarrow> fdasd_anchor \<Rightarrow> bool" where
  "vol_ok geo anc \<longleftrightarrow> geo_ok geo \<and> sectors geo \<noteq> 0 \<and> blksize anc \<noteq> 0 \<and>
     unat (formatted_cylinders anc) < 2 ^ 28 - 1 \<and> 2 < tracks geo anc \<and>
     tracks geo anc \<le> fs_lim (formatted_cylinders anc) (ucast (heads geo)) \<and>
     ucast (DS4DSTRK (DS4DEVCT (a_f4 anc))) * get_usable_cylinders anc = (of_nat (tracks geo anc) :: u32)"

definition anchor_ok :: "hd_geometry \<Rightarrow> fdasd_anchor \<Rightarrow> bool" where
  "anchor_ok geo anc \<longleftrightarrow> vol_ok geo anc \<and>
     (\<exists>us zs. parts anc = us @ zs \<and> length us + length zs = 3 \<and> length us = unat (used_partitions anc) \<and>
        chain geo 2 (tracks geo anc) (fspace_trk anc) us \<and>
        (\<forall>z \<in> set zs. used z = 0 \<and> start_trk z = 0 \<and> end_trk z = 0) \<and>
        fs_valid (formatted_cylinders anc) (ucast (heads geo)) (a_f4 anc, a_f5 anc, a_f7 anc) \<and>
        fs_free (formatted_cylinders anc) (ucast (heads geo)) (a_f4 anc, a_f5 anc, a_f7 anc) =
          {2..<tracks geo anc} - covered (map interval us))"

lemma tracks_bound: "vol_ok geo anc \<Longrightarrow> tracks geo anc \<le> 2 ^ 31"
  by (auto simp: vol_ok_def fs_lim_def split: if_splits)

lemma limit_word:
  assumes "vol_ok geo anc"
  shows "unat (ucast (ucast (DS4DSTRK (DS4DEVCT (a_f4 anc))) * get_usable_cylinders anc - 1 :: u32) :: u64) =
    tracks geo anc - 1"
proof -
  have b: "tracks geo anc \<le> 2 ^ 31" "2 < tracks geo anc" using assms tracks_bound by (auto simp: vol_ok_def)
  have "(ucast (DS4DSTRK (DS4DEVCT (a_f4 anc))) * get_usable_cylinders anc - 1 :: u32) =
      of_nat (tracks geo anc - 1)"
    using assms b by (simp add: vol_ok_def of_nat_diff)
  then have "unat (ucast (DS4DSTRK (DS4DEVCT (a_f4 anc))) * get_usable_cylinders anc - 1 :: u32) =
      tracks geo anc - 1" by (rule unat_eqI) (use b in simp)
  with b show ?thesis by (simp add: unsigned_ucast_eq take_bit_nat_eq_self)
qed

lemma trk_cchh_addr:
  assumes H: "geo_ok geo" and t: "unat t < 2 ^ 32"
  shows "trk_cchh geo t = trk_addr geo (unat t)"
proof -
  let ?H = "unat (heads geo)" and ?q = "unat t div unat (heads geo)"
  have H0: "0 < ?H" "?H \<le> 16" using H by (auto simp: geo_ok_def)
  have q: "?q < 2 ^ 32" using t by (meson div_le_dividend le_less_trans)
  have hw: "unat (ucast (heads geo) :: u64) = ?H" "unat (ucast (heads geo) :: u32) = ?H"
    using unat_u8_bound [of "heads geo"] by (simp_all add: unsigned_ucast_eq take_bit_nat_eq_self)
  have "unat (t div ucast (heads geo)) = ?q" by (simp only: unat_div_distrib hw)
  then have cc: "(ucast (t div ucast (heads geo)) :: u32) = of_nat ?q"
    by (simp add: word_unat_eq_iff unsigned_ucast_eq unat_of_nat take_bit_eq_mod)
  have le: "?q * ?H \<le> unat t" by simp
  have prod: "unat ((of_nat ?q :: u32) * ucast (heads geo)) = ?q * ?H"
  proof (rule unat_eqI)
    show "?q * ?H < 2 ^ LENGTH(32)" by (rule le_less_trans [OF le]) (use t in simp)
    show "(of_nat ?q :: u32) * ucast (heads geo) = of_nat (?q * ?H)" by simp
  qed
  have up: "unat (ucast ((of_nat ?q :: u32) * ucast (heads geo)) :: u64) = ?q * ?H"
    using le_less_trans [OF le t] by (simp add: unsigned_ucast_eq prod take_bit_nat_eq_self)
  have "unat (t - ucast ((of_nat ?q :: u32) * ucast (heads geo))) = unat t - ?q * ?H"
    using le up by (simp add: unat_sub word_le_nat_alt)
  also have "\<dots> = unat t mod ?H" by (simp add: minus_div_mult_eq_mod)
  finally have "(ucast (t - ucast ((of_nat ?q :: u32) * ucast (heads geo))) :: u16) = of_nat (unat t mod ?H)"
    by (simp add: word_unat_eq_iff unsigned_ucast_eq unat_of_nat take_bit_eq_mod)
  with cc show ?thesis by (simp add: trk_cchh_def trk_addr_def Let_def)
qed

lemma trk_cchh_back:
  assumes v: "vol_ok geo anc" and t: "unat t < tracks geo anc"
  shows "unat (cchh2trk (trk_cchh geo t) geo) = unat t"
proof -
  have g: "geo_ok geo" using v by (simp add: vol_ok_def)
  have "unat t < 2 ^ 32" using t tracks_bound [OF v] by simp
  moreover have "unat t < (2 ^ 28 - 1) * unat (heads geo)"
  proof -
    have "tracks geo anc \<le> (2 ^ 28 - 1) * unat (heads geo)"
      unfolding tracks_def using v by (intro mult_le_mono1) (simp add: vol_ok_def)
    with t show ?thesis by simp
  qed
  ultimately show ?thesis using trk_addr_inverse [OF g] by (simp add: trk_cchh_addr [OF g])
qed

lemma init_f1_ext [simp]: "DS1EXT1 (init_f1_label y d anc ext f) = ext"
  by (simp add: init_f1_label_def vtoc_init_format8_label_def vtoc_init_format1_label_def
      vtoc_init_format_1_8_label_def Let_def)

lemma runs_complement: "card (runs ({a..<b} - covered ps)) \<le> Suc (length ps)"
proof (induction ps)
  case Nil
  have "runs {a..<b} \<subseteq> {b - 1}" by (auto simp: runs_def)
  then have "card (runs {a..<b}) \<le> card {b - 1}" by (intro card_mono) auto
  then show ?case by simp
next
  case (Cons p ps)
  obtain c d where p: "p = (c, d)" by (cases p)
  have "{a..<b} - covered (p # ps) = ({a..<b} - covered ps) - {c..<d}" by (auto simp: p)
  with card_runs_step(1) [of "{a..<b} - covered ps" c d] Cons show ?case by simp
qed

lemma room: "length us \<le> 3 \<Longrightarrow> card (runs ({a..<b} - covered (map interval us))) < fs_cap cyl trk"
  using runs_complement [of a b "map interval us"] by (auto simp: fs_cap_def)



section \<open>Adding a partition\<close>

text \<open>With a free element left, the two elements before the last one.\<close>

lemma free_element:
  assumes len: "length us + length zs = 3" "length us < 3" and c: "chain geo 2 n g us"
    and z: "\<forall>z \<in> set zs. used z = 0 \<and> start_trk z = 0 \<and> end_trk z = 0"
  obtains a b c zs' where "us @ zs = [a, b, c]" "zs = zs' @ [c]" "start_trk c = 0" "end_trk c = 0"
    "elem_ok (n - 1) a" "elem_ok (n - 1) b" "pend b \<noteq> 0 \<Longrightarrow> pend a \<noteq> 0 \<and> pend a < pstart b"
    "\<And>p. p \<in> set us \<longleftrightarrow> p \<in> {a, b} \<and> pend p \<noteq> 0"
proof -
  note len3 = length_Suc_conv numeral_3_eq_3
  have us: "elem_ok (n - 1) p" "pend p \<noteq> 0" if "p \<in> set us" for p
    using chain_mem [OF c that] by (auto simp: elem_ok_def)
  consider "length us = 0" | "length us = 1" | "length us = 2" using len by linarith
  then show thesis
  proof cases
    case 1
    with len obtain a b c where zs: "zs = [a, b, c]" by (auto simp: len3)
    from z have z': "start_trk a = 0" "end_trk a = 0" "start_trk b = 0" "end_trk b = 0"
      "start_trk c = 0" "end_trk c = 0" by (simp_all add: zs)
    then have "pend a = 0" "pend b = 0" by (simp_all add: pend_def)
    with 1 zs z' show thesis by (intro that [of a b c "[a, b]"]) (auto simp: elem_ok_def)
  next
    case 2
    with len obtain a b c where u: "us = [a]" and zs: "zs = [b, c]" by (auto simp: len3)
    from z have z': "start_trk b = 0" "end_trk b = 0" "start_trk c = 0" "end_trk c = 0"
      by (simp_all add: zs)
    then have "pend b = 0" by (simp add: pend_def)
    with us [of a] u zs z' show thesis by (intro that [of a b c "[b]"]) (auto simp: elem_ok_def)
  next
    case 3
    with len obtain a b c where u: "us = [a, b]" and zs: "zs = [c]" by (auto simp: len3 numeral_2_eq_2)
    from z have z': "start_trk c = 0" "end_trk c = 0" by (simp_all add: zs)
    with us [of a] us [of b] u zs c show thesis by (intro that [of a b c "[]"]) auto
  qed
qed

lemma default_start_ge:
  assumes "elem_ok lim a" "elem_ok lim b" "Suc lim < 2 ^ 64"
  shows "2 \<le> unat (default_start [a, b, c])"
proof -
  have step: "2 \<le> unat (if within s p then end_trk p + 1 else s)" if "elem_ok lim p" "2 \<le> unat s" for p s
    using that assms(3) succ_end [of p "Suc lim"] by (auto simp: within_nat elem_ok_def elem_unused)
  show ?thesis using step [OF assms(2) step [OF assms(1)], of 2] by (simp add: default_start_def)
qed

lemma get_partition_data_ok:
  assumes v: "vol_ok geo anc" and len: "length us + length zs = 3" "length us < 3"
    and c: "chain geo 2 (tracks geo anc) g us" and parts: "parts anc = us @ zs"
    and z: "\<forall>z \<in> set zs. used z = 0 \<and> start_trk z = 0 \<and> end_trk z = 0"
    and data: "fdasd_get_partition_data geo anc inp = Inr (Some (start, stop, ext), inp')"
  shows "2 \<le> unat start" "unat start \<le> unat stop" "unat stop < tracks geo anc"
    "unat (cchh2trk (llimit ext) geo) = unat start" "unat (cchh2trk (ulimit ext) geo) = unat stop"
    "(\<forall>p \<in> set us. unat stop < pstart p \<or> pend p < unat start) \<or>
     (\<exists>p \<in> set us. pstart p \<le> unat start \<and> unat start \<le> pend p)"
proof -
  obtain a b d zs' where e: "us @ zs = [a, b, d]"
    "elem_ok (tracks geo anc - 1) a" "elem_ok (tracks geo anc - 1) b"
    "pend b \<noteq> 0 \<Longrightarrow> pend a \<noteq> 0 \<and> pend a < pstart b"
    "\<And>p. p \<in> set us \<longleftrightarrow> p \<in> {a, b} \<and> pend p \<noteq> 0"
    using free_element [OF len c z] by metis
  let ?lim = "ucast (ucast (DS4DSTRK (DS4DEVCT (a_f4 anc))) * get_usable_cylinders anc - 1 :: u32) :: u64"
  have lim: "unat ?lim = tracks geo anc - 1" by (rule limit_word [OF v])
  have N: "2 < tracks geo anc" "tracks geo anc \<le> 2 ^ 31" using v tracks_bound by (auto simp: vol_ok_def)
  define s0 where "s0 = default_start [a, b, d]"
  have s0: "2 \<le> unat s0" unfolding s0_def by (rule default_start_ge [OF e(2,3)]) (use N in simp)
  from data obtain s1 i1 s l where
    r1: "fdasd_read_int geo (blksize anc) s0 s0 ?lim lower inp = Inr (s1, i1)" and
    cs: "check_start [a, b, d] 0 s1 ?lim = Some (s, l)" and
    r2: "(if s = l then Inr (s, i1) else fdasd_read_int geo (blksize anc) s l l upper i1) = Inr (stop, inp')"
    and res: "start = s" "ext = vtoc_set_extent (if trk_hh geo s = 0 then 0x81 else 0x01) 0x00
      (trk_cchh geo s) (trk_cchh geo stop)"
    unfolding fdasd_get_partition_data_def Let_def parts e(1) s0_def [symmetric]
    by (auto simp: bind_err_Inr split: if_split_asm option.split_asm prod.split_asm)
  have "s0 \<le> s1" "s1 \<le> ?lim"
    using read_int_range r1 unfolding fdasd_read_int_def by blast+
  with s0 lim have "2 \<le> unat s1" "unat s1 \<le> unat ?lim" by (auto simp: word_le_nat_alt)
  from check_start_ok [OF e(2,3) [folded lim] _ e(4) this, of d] lim N cs
  have sr: "start_result [a, b] (tracks geo anc - 1) s l" by simp
  have sl: "s \<le> stop \<and> stop \<le> l"
  proof (cases "s = l")
    case False
    with r2 read_int_range show ?thesis unfolding fdasd_read_int_def by (metis (full_types))
  qed (use r2 in simp)
  with sr N show s: "2 \<le> unat start" "unat start \<le> unat stop" "unat stop < tracks geo anc"
    by (auto simp: res start_result_def word_le_nat_alt)
  from s trk_cchh_back [OF v] show "unat (cchh2trk (llimit ext) geo) = unat start"
    "unat (cchh2trk (ulimit ext) geo) = unat stop" by (simp_all add: res)
  from sr sl e(5) show "(\<forall>p \<in> set us. unat stop < pstart p \<or> pend p < unat start) \<or>
     (\<exists>p \<in> set us. pstart p \<le> unat start \<and> unat start \<le> pend p)"
    unfolding start_result_def res word_le_nat_alt by fastforce
qed

end
