(* ===== verification/Fdasd_Table.thy ===== *)
theory Fdasd_Table
  imports Fdasd_Inv
begin

text \<open>
  Adding and removing partitions keep the invariant \<open>anchor_ok\<close> of the partition table: the
  partitions in use stay ordered, disjoint and within the volume, the free-space counters exact, and
  the free-space labels describe exactly the tracks outside all partitions.
\<close>

section \<open>What the label updates leave alone\<close>

lemma freespace_f4:
  assumes "vtoc_set_freespace (f4, f5, f7) ch a b cyl trk = Inr (g4, g5, g7)"
  shows "DS4DEVCT g4 = DS4DEVCT f4" "DS4DCYL g4 = DS4DCYL f4" "DS4DEVAC g4 = DS4DEVAC f4"
  using assms
  by (auto simp: vtoc_set_freespace_def Let_def bind_err_Inr split: if_split_asm)

lemma vol_ok_cong:
  assumes "DS4DEVCT (a_f4 anc') = DS4DEVCT (a_f4 anc)" "DS4DCYL (a_f4 anc') = DS4DCYL (a_f4 anc)"
    "DS4DEVAC (a_f4 anc') = DS4DEVAC (a_f4 anc)" "blksize anc' = blksize anc"
    "formatted_cylinders anc' = formatted_cylinders anc"
  shows "vol_ok geo anc' = vol_ok geo anc" "tracks geo anc' = tracks geo anc"
proof -
  have "get_usable_cylinders anc' = get_usable_cylinders anc"
    unfolding get_usable_cylinders_def Let_def assms ..
  with assms show "vol_ok geo anc' = vol_ok geo anc" "tracks geo anc' = tracks geo anc"
    by (simp_all add: vol_ok_def tracks_def)
qed

lemma fs_any_f4:
  "fs_valid cyl trk (f4, f5, f7) = fs_valid cyl trk (g4, f5, f7)"
  "fs_free cyl trk (f4, f5, f7) = fs_free cyl trk (g4, f5, f7)"
  by (simp_all add: fs_valid_def fs_free_def)

lemma trk_word: "unat (w :: u32) = n \<Longrightarrow> w = of_nat n"
  by auto

text \<open>The invariant after an update of the list, the counters and the free-space labels.\<close>

lemma anchor_okI:
  assumes v: "vol_ok geo anc"
    and anc': "anc' = anc\<lparr>partno := pn, fspace_trk := g, parts := us @ zs, used_partitions := n,
      a_f4 := f4, a_f5 := f5, a_f7 := f7, vtoc_changed := k\<rparr>"
    and f4: "DS4DEVCT f4 = DS4DEVCT (a_f4 anc)" "DS4DCYL f4 = DS4DCYL (a_f4 anc)"
      "DS4DEVAC f4 = DS4DEVAC (a_f4 anc)"
    and "length us + length zs = 3" "length us = unat n" "chain geo 2 (tracks geo anc) g us"
    and "\<forall>z \<in> set zs. used z = 0 \<and> start_trk z = 0 \<and> end_trk z = 0"
    and "fs_valid (formatted_cylinders anc) (ucast (heads geo)) (f4, f5, f7)"
    and "fs_free (formatted_cylinders anc) (ucast (heads geo)) (f4, f5, f7) =
      {2..<tracks geo anc} - covered (map interval us)"
  shows "anchor_ok geo anc'"
proof -
  have vt: "vol_ok geo anc'" "tracks geo anc' = tracks geo anc"
    using vol_ok_cong [of anc' anc geo] v f4 by (simp_all add: anc')
  have sel: "parts anc' = us @ zs" "used_partitions anc' = n" "fspace_trk anc' = g"
    "formatted_cylinders anc' = formatted_cylinders anc" "a_f4 anc' = f4" "a_f5 anc' = f5" "a_f7 anc' = f7"
    by (simp_all add: anc')
  show ?thesis unfolding anchor_ok_def vt(2) sel using vt(1) assms(6-) by blast
qed

lemma anchor_okE:
  assumes "anchor_ok geo anc"
  obtains us zs where "vol_ok geo anc" "parts anc = us @ zs" "length us + length zs = 3"
    "length us = unat (used_partitions anc)" "chain geo 2 (tracks geo anc) (fspace_trk anc) us"
    "\<forall>z \<in> set zs. used z = 0 \<and> start_trk z = 0 \<and> end_trk z = 0"
    "fs_valid (formatted_cylinders anc) (ucast (heads geo)) (a_f4 anc, a_f5 anc, a_f7 anc)"
    "fs_free (formatted_cylinders anc) (ucast (heads geo)) (a_f4 anc, a_f5 anc, a_f7 anc) =
      {2..<tracks geo anc} - covered (map interval us)"
  using assms unfolding anchor_ok_def by blast


section \<open>Adding\<close>

text \<open>The list and the counters after the new partition is enqueued.\<close>

lemma enqueue_chain:
  assumes parts: "parts anc = us @ zs @ [new]"
    and c: "chain geo 2 n (fspace_trk anc) us" and n: "n < 2 ^ 64"
    and z: "\<forall>z \<in> set zs. end_trk z = 0"
    and new: "label_ok geo new" "2 \<le> pstart new" "pstart new \<le> pend new" "pend new < n"
      "unat (len_trk new) = Suc (pend new) - pstart new"
    and apart: "\<forall>p \<in> set us. pend new < pstart p \<or> pend p < pstart new"
  obtains pn g us' where
    "fdasd_enqueue_new_partition anc = anc\<lparr>partno := pn, fspace_trk := g, parts := us' @ zs\<rparr>"
    "chain geo 2 n g us'" "length us' = Suc (length us)"
    "covered (map interval us') = covered (map interval us) \<union> {pstart new..<Suc (pend new)}"
proof -
  let ?new = "new\<lparr>used := 1\<rparr>"
  have u: "label_ok geo ?new" "pstart ?new = pstart new" "pend ?new = pend new"
    using new by (simp_all add: label_ok_def pstart_def pend_def)
  have us: "\<forall>p \<in> set us. end_trk p \<noteq> 0"
    using chain_mem [OF c] by (force simp: pend_def)
  obtain pn where e: "fdasd_enqueue_new_partition anc =
    anc\<lparr>partno := pn, fspace_trk := fst (enq 2 (fspace_trk anc) ?new (us @ zs)),
      parts := snd (enq 2 (fspace_trk anc) ?new (us @ zs))\<rparr>"
    using enqueue_enq [of anc "us @ zs" new] parts by auto
  obtain g us' where r: "ins 2 (fspace_trk anc) ?new us = (g, us')" by fastforce
  have "chain geo 2 n g us'" "length us' = Suc (length us)"
    "covered (map interval us') = covered (map interval us) \<union> {pstart new..<Suc (pend new)}"
    using ins_chain [of geo 2 n "fspace_trk anc" us ?new] c n u new apart by (simp_all add: r)
  with e show thesis by (intro that [where pn = pn and g = g and us' = us']) (simp_all add: enq_ins [OF us z] r)
qed

text \<open>A deletion from the free-space labels succeeds only for tracks outside all partitions.\<close>

lemma del_labels:
  fixes s e N :: nat
  assumes len: "length us \<le> 3" and N: "N \<le> fs_lim cyl trk"
    and fv: "fs_valid cyl trk (f4, f5, f7)"
    and ff: "fs_free cyl trk (f4, f5, f7) = {2..<N} - covered (map interval us)"
    and b: "2 \<le> s" "s \<le> e" "e < N"
    and alt: "(\<forall>p \<in> set us. e < pstart p \<or> pend p < s) \<or> (\<exists>p \<in> set us. pstart p \<le> s \<and> s \<le> pend p)"
    and del: "fs_del cyl trk (g4, f5, f7) s (Suc e) = Inr (g4', f5', f7')"
  shows "\<forall>p \<in> set us. e < pstart p \<or> pend p < s" "fs_valid cyl trk (g4', f5', f7')"
    "fs_free cyl trk (g4', f5', f7') = {2..<N} - (covered (map interval us) \<union> {s..<Suc e})"
proof -
  have fv': "fs_valid cyl trk (g4, f5, f7)"
    and ff': "fs_free cyl trk (g4, f5, f7) = {2..<N} - covered (map interval us)"
    using fv ff by (simp_all add: fs_any_f4 [of _ _ g4 _ _ f4])
  have "s \<in> fs_free cyl trk (g4, f5, f7)"
    using fs_del_needs_free [OF fv' _ _ _ del] b N by simp
  then have "\<not> (pstart p \<le> s \<and> s \<le> pend p)" if "p \<in> set us" for p
    using that by (force simp: ff' covered_def interval_def)
  with alt show apart: "\<forall>p \<in> set us. e < pstart p \<or> pend p < s" by blast
  then have sub: "{s..<Suc e} \<subseteq> fs_free cyl trk (g4, f5, f7)"
    using b unfolding ff' by (force simp: covered_def interval_def)
  have "card (runs (fs_free cyl trk (g4, f5, f7))) < fs_cap cyl trk"
    unfolding ff' by (rule room [OF len])
  from vfs.del_law [OF fv' _ sub this] del b show "fs_valid cyl trk (g4', f5', f7')"
    "fs_free cyl trk (g4', f5', f7') = {2..<N} - (covered (map interval us) \<union> {s..<Suc e})"
    by (auto simp: ff')
qed

text \<open>The element that is filled in for the new partition.\<close>

definition filled ::
  "int \<Rightarrow> int \<Rightarrow> fdasd_anchor \<Rightarrow> u64 \<Rightarrow> u64 \<Rightarrow> extent_t \<Rightarrow> partition_info \<Rightarrow> partition_info" where
  "filled y d anc start stop ext p = p\<lparr>len_trk := stop - start + 1, start_trk := start, end_trk := stop,
     p_f1 := init_f1_label y d anc ext (p_f1 p)\<rparr>"

lemma filled_ok:
  assumes "unat start \<le> unat stop" "unat stop < 2 ^ 31"
    and "unat (cchh2trk (llimit ext) geo) = unat start" "unat (cchh2trk (ulimit ext) geo) = unat stop"
  shows "pstart (filled y d anc start stop ext p) = unat start"
    "pend (filled y d anc start stop ext p) = unat stop"
    "unat (len_trk (filled y d anc start stop ext p)) = Suc (unat stop) - unat start"
    "label_ok geo (filled y d anc start stop ext p)"
proof -
  show "unat (len_trk (filled y d anc start stop ext p)) = Suc (unat stop) - unat start"
  proof (rule unat_eqI)
    show "len_trk (filled y d anc start stop ext p) = of_nat (Suc (unat stop) - unat start)"
      using assms(1) by (simp add: filled_def of_nat_diff)
  qed (use assms(2) in simp)
qed (use assms in \<open>simp_all add: filled_def pstart_def pend_def label_ok_def\<close>)

text \<open>A call that changes the table went through all steps.\<close>

lemma add_partition_steps:
  assumes add: "fdasd_add_partition y d geo anc inp = Inr (anc', inp')" and ch: "anc' \<noteq> anc"
    and parts: "parts anc = bs @ [p]"
  obtains start stop ext i f4 g4 g5 g7 where
    "used_partitions anc < 3" "fdasd_get_partition_data geo anc inp = Inr (Some (start, stop, ext), i)"
    "f4 = vtoc_update_format4_label (a_f4 anc) (get_addr_of_highest_f1_f8_label
      ((fdasd_enqueue_new_partition (anc\<lparr>parts := bs @ [filled y d anc start stop ext p]\<rparr>))
        \<lparr>used_partitions := used_partitions anc + 1\<rparr>)) (DS4DSREC (a_f4 anc) - 1)"
    "vtoc_set_freespace (f4, a_f5 anc, a_f7 anc) CHR ''-'' (cchh2trk (llimit ext) geo)
       (cchh2trk (ulimit ext) geo) (formatted_cylinders anc) (ucast (heads geo)) = Inr (g4, g5, g7)"
    "anc' = (fdasd_enqueue_new_partition (anc\<lparr>parts := bs @ [filled y d anc start stop ext p]\<rparr>))
        \<lparr>used_partitions := used_partitions anc + 1, a_f4 := g4, a_f5 := g5, a_f7 := g7,
         vtoc_changed := vtoc_changed anc + 1\<rparr>"
proof -
  have keep: "a_f4 (fdasd_enqueue_new_partition a) = a_f4 a" "a_f5 (fdasd_enqueue_new_partition a) = a_f5 a"
    "a_f7 (fdasd_enqueue_new_partition a) = a_f7 a"
    "formatted_cylinders (fdasd_enqueue_new_partition a) = formatted_cylinders a"
    "used_partitions (fdasd_enqueue_new_partition a) = used_partitions a"
    "vtoc_changed (fdasd_enqueue_new_partition a) = vtoc_changed a" for a
    by (simp_all add: fdasd_enqueue_new_partition_def Let_def)
  have lt: "used_partitions anc < 3"
    using add ch by (auto simp: fdasd_add_partition_def USABLE_PARTITIONS_def split: if_split_asm)
  obtain start stop ext i where
    data: "fdasd_get_partition_data geo anc inp = Inr (Some (start, stop, ext), i)"
    using add lt ch unfolding fdasd_add_partition_def
    by (auto simp: bind_err_Inr USABLE_PARTITIONS_def split: option.split_asm)
  from add lt data parts show thesis
    unfolding fdasd_add_partition_def
    by (auto simp: bind_err_Inr set_freespace_def Let_def USABLE_PARTITIONS_def keep lift_vtoc_Inr
        filled_def [symmetric] intro!: that [OF lt data] split: if_split_asm)
qed

lemma add_partition_keeps:
  assumes ok: "anchor_ok geo anc" and add: "fdasd_add_partition y d geo anc inp = Inr (anc', inp')"
  shows "anchor_ok geo anc'"
proof (cases "anc' = anc")
  case False
  obtain us zs where v: "vol_ok geo anc" and us: "parts anc = us @ zs" "length us + length zs = 3"
      "length us = unat (used_partitions anc)" "chain geo 2 (tracks geo anc) (fspace_trk anc) us"
    and z: "\<forall>z \<in> set zs. used z = 0 \<and> start_trk z = 0 \<and> end_trk z = 0"
    and fs: "fs_valid (formatted_cylinders anc) (ucast (heads geo)) (a_f4 anc, a_f5 anc, a_f7 anc)"
      "fs_free (formatted_cylinders anc) (ucast (heads geo)) (a_f4 anc, a_f5 anc, a_f7 anc) =
        {2..<tracks geo anc} - covered (map interval us)"
    using ok by (rule anchor_okE)
  have N: "tracks geo anc \<le> 2 ^ 31" "tracks geo anc \<le> fs_lim (formatted_cylinders anc) (ucast (heads geo))"
    using v tracks_bound by (auto simp: vol_ok_def)
  have pne: "parts anc = butlast (parts anc) @ [last (parts anc)]" using us by (cases "parts anc = []") auto
  obtain start stop ext i f4 g4 g5 g7 where lt: "used_partitions anc < 3"
    and data: "fdasd_get_partition_data geo anc inp = Inr (Some (start, stop, ext), i)"
    and f4: "f4 = vtoc_update_format4_label (a_f4 anc) (get_addr_of_highest_f1_f8_label
      ((fdasd_enqueue_new_partition (anc\<lparr>parts := butlast (parts anc) @
          [filled y d anc start stop ext (last (parts anc))]\<rparr>))
        \<lparr>used_partitions := used_partitions anc + 1\<rparr>)) (DS4DSREC (a_f4 anc) - 1)"
    and set: "vtoc_set_freespace (f4, a_f5 anc, a_f7 anc) CHR ''-'' (cchh2trk (llimit ext) geo)
       (cchh2trk (ulimit ext) geo) (formatted_cylinders anc) (ucast (heads geo)) = Inr (g4, g5, g7)"
    and anc': "anc' = (fdasd_enqueue_new_partition (anc\<lparr>parts := butlast (parts anc) @
          [filled y d anc start stop ext (last (parts anc))]\<rparr>))
        \<lparr>used_partitions := used_partitions anc + 1, a_f4 := g4, a_f5 := g5, a_f7 := g7,
         vtoc_changed := vtoc_changed anc + 1\<rparr>"
    by (rule add_partition_steps [OF add False pne])
  define new where "new = filled y d anc start stop ext (last (parts anc))"
  have us3: "length us < 3" using lt us(3) by (simp add: word_less_nat_alt)
  then obtain zs' w where zs: "zs = zs' @ [w]" using us(2) by (cases zs rule: rev_cases) auto
  then have bl: "butlast (parts anc) = us @ zs'" by (simp add: us(1) butlast_append)
  note lim = get_partition_data_ok [OF v us(2) us3 us(4,1) z data]
  have new: "pstart new = unat start" "pend new = unat stop"
    "unat (len_trk new) = Suc (unat stop) - unat start" "label_ok geo new"
    using filled_ok [OF lim(2) _ lim(4,5), of y d anc "last (parts anc)"] lim(3) N by (simp_all add: new_def)
  have del: "fs_del (formatted_cylinders anc) (ucast (heads geo)) (f4, a_f5 anc, a_f7 anc)
      (unat start) (Suc (unat stop)) = Inr (g4, g5, g7)"
    using set trk_word [OF lim(4)] trk_word [OF lim(5)] by (simp add: fs_del_def)
  note lab = del_labels [OF less_imp_le [OF us3] N(2) fs lim(1-3) lim(6) del]
  obtain pn g us' where q:
    "fdasd_enqueue_new_partition (anc\<lparr>parts := us @ zs' @ [new]\<rparr>) =
       anc\<lparr>parts := us @ zs' @ [new], partno := pn, fspace_trk := g, parts := us' @ zs'\<rparr>"
    "chain geo 2 (tracks geo anc) g us'" "length us' = Suc (length us)"
    "covered (map interval us') = covered (map interval us) \<union> {unat start..<Suc (unat stop)}"
  proof (rule enqueue_chain [of "anc\<lparr>parts := us @ zs' @ [new]\<rparr>" us zs' new geo "tracks geo anc"],
      goal_cases)
    case (11 pn g us')
    then show thesis by (intro that) (simp_all add: new)
  qed (use us N z new lim(1-3) lab(1) in \<open>simp_all add: zs\<close>)
  have n: "Suc (length us) = unat (used_partitions anc + 1)"
    by (rule unat_eqI [symmetric]) (use us3 us(3) in simp_all)
  show ?thesis
    using q us(2) z v n lab(2,3) freespace_f4 [OF set] zs
    by (intro anchor_okI [where anc = anc and us = us' and zs = zs' and anc' = anc'])
      (simp_all add: anc' f4 vtoc_update_format4_label_def bl new_def [symmetric])
qed (use ok in simp)


section \<open>Removing\<close>

lemma dequeue_frame [simp]:
  "a_f4 (fdasd_dequeue_old_partition a k) = a_f4 a" "a_f5 (fdasd_dequeue_old_partition a k) = a_f5 a"
  "a_f7 (fdasd_dequeue_old_partition a k) = a_f7 a" "blksize (fdasd_dequeue_old_partition a k) = blksize a"
  "formatted_cylinders (fdasd_dequeue_old_partition a k) = formatted_cylinders a"
  "used_partitions (fdasd_dequeue_old_partition a k) = used_partitions a"
  "vtoc_changed (fdasd_dequeue_old_partition a k) = vtoc_changed a"
  by (simp_all add: fdasd_dequeue_old_partition_def Let_def)

lemma setpos_frame [simp]:
  "a_f4 (setpos a k j) = a_f4 a" "a_f5 (setpos a k j) = a_f5 a" "a_f7 (setpos a k j) = a_f7 a"
  "blksize (setpos a k j) = blksize a" "formatted_cylinders (setpos a k j) = formatted_cylinders a"
  "parts (setpos a k j) = parts a" "used_partitions (setpos a k j) = used_partitions a"
  "vtoc_changed (setpos a k j) = vtoc_changed a" "fspace_trk (setpos a k j) = fspace_trk a"
  by (simp_all add: setpos_def)

lemma remove_listed_steps:
  assumes rm: "remove_listed geo anc inp = Inr (anc', inp')" and ch: "anc' \<noteq> anc"
  obtains k f4 g4 g5 g7 h where
    "k < unat (used_partitions anc)" "f4 = vtoc_update_format4_label (a_f4 anc) h (DS4DSREC (a_f4 anc) + 1)"
    "vtoc_set_freespace (f4, a_f5 anc, a_f7 anc) CHR ''+''
       (cchh2trk (llimit (DS1EXT1 (p_f1 (parts anc ! k)))) geo)
       (cchh2trk (ulimit (DS1EXT1 (p_f1 (parts anc ! k)))) geo)
       (formatted_cylinders anc) (ucast (heads geo)) = Inr (g4, g5, g7)"
    "anc' = (fdasd_dequeue_old_partition (setpos anc k (-1)) k)
        \<lparr>used_partitions := used_partitions anc - 1, a_f4 := g4, a_f5 := g5, a_f7 := g7,
         vtoc_changed := vtoc_changed anc + 1\<rparr>"
proof -
  obtain c i where "read_digit inp = Inr (c, i)" and id: "(ucast c - 48 :: u32) \<noteq> 0"
    "(ucast c - 48 :: u32) \<le> used_partitions anc"
    using rm ch by (auto simp: remove_listed_def bind_err_Inr Let_def split: if_split_asm)
  moreover define k where "k = unat (ucast c - 48 :: u32) - 1"
  moreover have "0 < unat (ucast c - 48 :: u32)" using id(1) by (simp add: unat_gt_0)
  then have "k < unat (used_partitions anc)" using id(2) by (simp add: k_def word_le_nat_alt)
  ultimately show thesis using rm
    by (auto simp: remove_listed_def bind_err_Inr set_freespace_def Let_def lift_vtoc_Inr
        k_def [symmetric] intro: that split: if_split_asm)
qed

lemma label_words:
  "label_ok geo p \<Longrightarrow> cchh2trk (llimit (DS1EXT1 (p_f1 p))) geo = of_nat (pstart p)"
  "label_ok geo p \<Longrightarrow> cchh2trk (ulimit (DS1EXT1 (p_f1 p))) geo = of_nat (pend p)"
  by (auto simp: label_ok_def intro: trk_word)

text \<open>Giving back the tracks of a partition always succeeds.\<close>

lemma add_labels:
  assumes us: "p \<in> set us" "length us \<le> 3" and N: "N \<le> fs_lim cyl trk"
    and fv: "fs_valid cyl trk (f4, f5, f7)"
    and ff: "fs_free cyl trk (f4, f5, f7) = {2..<N} - covered (map interval us)"
    and p: "2 \<le> pstart p" "pstart p \<le> pend p" "pend p < N"
  obtains h4 h5 h7 where "fs_add cyl trk (g4, f5, f7) (pstart p) (Suc (pend p)) = Inr (h4, h5, h7)"
    "fs_valid cyl trk (h4, h5, h7)"
    "fs_free cyl trk (h4, h5, h7) = {2..<N} - (covered (map interval us) - {pstart p..<Suc (pend p)})"
proof -
  let ?T = "{pstart p..<Suc (pend p)}"
  have fv': "fs_valid cyl trk (g4, f5, f7)"
    and ff': "fs_free cyl trk (g4, f5, f7) = {2..<N} - covered (map interval us)"
    using fv ff by (simp_all add: fs_any_f4 [of _ _ g4 _ _ f4])
  have out: "?T \<inter> fs_free cyl trk (g4, f5, f7) = {}"
    using us(1) unfolding ff' by (force simp: covered_def interval_def)
  have "card (runs (fs_free cyl trk (g4, f5, f7))) < fs_cap cyl trk" unfolding ff' by (rule room [OF us(2)])
  with vfs.add_law [OF fv' _ _ _ out] p N obtain l where
    l: "fs_add cyl trk (g4, f5, f7) (pstart p) (Suc (pend p)) = Inr l" "fs_valid cyl trk l"
    "fs_free cyl trk l = {2..<N} - covered (map interval us) \<union> ?T" by (auto simp: ff')
  have T: "?T \<subseteq> {2..<N}" using p by auto
  have "{2..<N} - C \<union> ?T = {2..<N} - (C - ?T)" for C using T by blast
  with l show thesis by (cases l) (auto intro: that)
qed

lemma remove_listed_keeps:
  assumes ok: "anchor_ok geo anc" and rm: "remove_listed geo anc inp = Inr (anc', inp')"
  shows "anchor_ok geo anc'"
proof (cases "anc' = anc")
  case False
  let ?cyl = "formatted_cylinders anc" and ?trk = "ucast (heads geo) :: u32"
  obtain us zs where v: "vol_ok geo anc" and us: "parts anc = us @ zs" "length us + length zs = 3"
      "length us = unat (used_partitions anc)" "chain geo 2 (tracks geo anc) (fspace_trk anc) us"
    and z: "\<forall>z \<in> set zs. used z = 0 \<and> start_trk z = 0 \<and> end_trk z = 0"
    and fs: "fs_valid ?cyl ?trk (a_f4 anc, a_f5 anc, a_f7 anc)"
      "fs_free ?cyl ?trk (a_f4 anc, a_f5 anc, a_f7 anc) = {2..<tracks geo anc} - covered (map interval us)"
    using ok by (rule anchor_okE)
  have N: "tracks geo anc \<le> 2 ^ 31" "tracks geo anc \<le> fs_lim ?cyl ?trk"
    using v tracks_bound by (auto simp: vol_ok_def)
  obtain k f4 g4 g5 g7 h where k: "k < unat (used_partitions anc)"
    and f4: "f4 = vtoc_update_format4_label (a_f4 anc) h (DS4DSREC (a_f4 anc) + 1)"
    and set: "vtoc_set_freespace (f4, a_f5 anc, a_f7 anc) CHR ''+''
       (cchh2trk (llimit (DS1EXT1 (p_f1 (parts anc ! k)))) geo)
       (cchh2trk (ulimit (DS1EXT1 (p_f1 (parts anc ! k)))) geo) ?cyl ?trk = Inr (g4, g5, g7)"
    and anc': "anc' = (fdasd_dequeue_old_partition (setpos anc k (-1)) k)
        \<lparr>used_partitions := used_partitions anc - 1, a_f4 := g4, a_f5 := g5, a_f7 := g7,
         vtoc_changed := vtoc_changed anc + 1\<rparr>"
    by (rule remove_listed_steps [OF rm False])
  have ku: "k < length us" using k us(3) by simp
  then have pk: "parts anc ! k = us ! k" by (simp add: us(1) nth_append)
  let ?p = "us ! k"
  have p: "2 \<le> pstart ?p" "pstart ?p \<le> pend ?p" "pend ?p < tracks geo anc" "label_ok geo ?p"
    using chain_mem [OF us(4) nth_mem [OF ku]] by auto
  have fa: "fs_add ?cyl ?trk (f4, a_f5 anc, a_f7 anc) (pstart ?p) (Suc (pend ?p)) = Inr (g4, g5, g7)"
    using set by (simp add: fs_add_def pk label_words [OF p(4)])
  have lab: "fs_valid ?cyl ?trk (g4, g5, g7)" "fs_free ?cyl ?trk (g4, g5, g7) =
      {2..<tracks geo anc} - (covered (map interval us) - {pstart ?p..<Suc (pend ?p)})"
    using fa us(2) by (auto intro: add_labels [OF nth_mem [OF ku] _ N(2) fs p(1-3), of f4])
  obtain pn where q: "fdasd_dequeue_old_partition (setpos anc k (-1)) k =
    (setpos anc k (-1))\<lparr>partno := pn, fspace_trk := fst (rm k (fspace_trk anc) us),
      parts := snd (rm k (fspace_trk anc) us) @ zs @ [cleared ?p]\<rparr>"
    using dequeue_rm [of "setpos anc k (-1)" us zs k] us(1) ku by (auto simp: setpos_def)
  have r: "chain geo 2 (tracks geo anc) (fst (rm k (fspace_trk anc) us)) (snd (rm k (fspace_trk anc) us))"
    "covered (map interval (snd (rm k (fspace_trk anc) us))) =
      covered (map interval us) - {pstart ?p..<Suc (pend ?p)}"
    "length (snd (rm k (fspace_trk anc) us)) = length us - 1"
    using rm_chain [OF us(4) ku] N by simp_all
  have "length us - 1 = unat (used_partitions anc - 1)" using us(3) ku
    by (cases "used_partitions anc = 0") (simp_all add: unat_minus_one)
  then show ?thesis
    using q us(2) z v r N lab freespace_f4 [OF set] ku
    by (intro anchor_okI [where anc = anc and anc' = anc' and us = "snd (rm k (fspace_trk anc) us)"
          and zs = "zs @ [cleared ?p]"])
      (simp_all add: anc' f4 vtoc_update_format4_label_def setpos_def cleared_def)
qed (use ok in simp)

section \<open>Listing\<close>

text \<open>The invariant looks at a label only through its extent.\<close>

definition relabelled :: "partition_info \<Rightarrow> partition_info \<Rightarrow> bool" where
  "relabelled p q \<longleftrightarrow> q = p\<lparr>p_f1 := p_f1 q\<rparr> \<and> DS1EXT1 (p_f1 q) = DS1EXT1 (p_f1 p)"

lemma relabelled_sel:
  assumes "relabelled p q"
  shows "used q = used p" "start_trk q = start_trk p" "end_trk q = end_trk p" "len_trk q = len_trk p"
    "p_fspace_trk q = p_fspace_trk p" "pstart q = pstart p" "pend q = pend p" "interval q = interval p"
    "label_ok geo q = label_ok geo p"
proof -
  obtain f where f: "q = p\<lparr>p_f1 := f\<rparr>" "DS1EXT1 f = DS1EXT1 (p_f1 p)"
    using assms unfolding relabelled_def by blast
  show "used q = used p" "start_trk q = start_trk p" "end_trk q = end_trk p" "len_trk q = len_trk p"
    "p_fspace_trk q = p_fspace_trk p" "pstart q = pstart p" "pend q = pend p" "interval q = interval p"
    "label_ok geo q = label_ok geo p"
    by (simp_all add: f pstart_def pend_def interval_def label_ok_def)
qed

lemma relabelled_refl: "relabelled p p"
  by (simp add: relabelled_def)

lemma chain_relabelled:
  "list_all2 relabelled us vs \<Longrightarrow> chain geo lo n g vs = chain geo lo n g us"
proof (induction us vs arbitrary: lo g rule: list_all2_induct)
  case (Cons p us q vs)
  then show ?case by (simp add: relabelled_sel [OF Cons.hyps(1)])
qed simp

lemma intervals_relabelled: "list_all2 relabelled us vs \<Longrightarrow> map interval vs = map interval us"
proof (induction rule: list_all2_induct)
  case (Cons p us q vs)
  then show ?case using relabelled_sel(8) [OF Cons.hyps(1)] by simp
qed simp

lemma relabel_keeps:
  assumes h: "list_all2 relabelled (parts anc) ps" and ok: "anchor_ok geo anc"
  shows "anchor_ok geo (anc\<lparr>parts := ps, vtoc_changed := k\<rparr>)"
proof -
  let ?anc = "anc\<lparr>parts := ps, vtoc_changed := k\<rparr>"
  obtain us zs where v: "vol_ok geo anc" and us: "parts anc = us @ zs" "length us + length zs = 3"
      "length us = unat (used_partitions anc)" "chain geo 2 (tracks geo anc) (fspace_trk anc) us"
    and z: "\<forall>z \<in> set zs. used z = 0 \<and> start_trk z = 0 \<and> end_trk z = 0"
    and fs: "fs_valid (formatted_cylinders anc) (ucast (heads geo)) (a_f4 anc, a_f5 anc, a_f7 anc)"
      "fs_free (formatted_cylinders anc) (ucast (heads geo)) (a_f4 anc, a_f5 anc, a_f7 anc) =
        {2..<tracks geo anc} - covered (map interval us)"
    using ok by (rule anchor_okE)
  obtain us' zs' where ps: "ps = us' @ zs'" and r: "list_all2 relabelled us us'" "list_all2 relabelled zs zs'"
    using h unfolding us(1) by (auto simp: list_all2_append1)
  have vt: "vol_ok geo ?anc = vol_ok geo anc" "tracks geo ?anc = tracks geo anc"
    by (rule vol_ok_cong; simp)+
  have zh: "\<forall>z \<in> set zs'. used z = 0 \<and> start_trk z = 0 \<and> end_trk z = 0"
  proof
    fix q assume "q \<in> set zs'"
    then obtain p where "p \<in> set zs" and pq: "relabelled p q"
      using r(2) by (metis in_set_conv_nth list_all2_conv_all_nth)
    with z have "used p = 0 \<and> start_trk p = 0 \<and> end_trk p = 0" by blast
    then show "used q = 0 \<and> start_trk q = 0 \<and> end_trk q = 0" unfolding relabelled_sel(1-3) [OF pq] .
  qed
  show ?thesis unfolding anchor_ok_def
  proof (intro conjI exI)
    show "parts ?anc = us' @ zs'" by (simp add: ps)
    show "\<forall>z \<in> set zs'. used z = 0 \<and> start_trk z = 0 \<and> end_trk z = 0" by (rule zh)
    show "chain geo 2 (tracks geo ?anc) (fspace_trk ?anc) us'"
      using us(4) vt(2) by (simp add: chain_relabelled [OF r(1)])
    show "fs_free (formatted_cylinders ?anc) (ucast (heads geo)) (a_f4 ?anc, a_f5 ?anc, a_f7 ?anc) =
        {2..<tracks geo ?anc} - covered (map interval us')"
      unfolding intervals_relabelled [OF r(1)] vt(2) using fs(2) by simp
  qed (use v vt us(2,3) fs(1) list_all2_lengthD [OF r(1)] list_all2_lengthD [OF r(2)] in simp_all)
qed

lemma list_partition_table_keeps:
  assumes "anchor_ok geo anc"
  shows "anchor_ok geo (fdasd_list_partition_table anc)"
proof -
  have "list_all2 relabelled (parts anc)
      (map (\<lambda>p. if used p = 0x01 then p\<lparr>p_f1 := recoded (p_f1 p)\<rparr> else p) (parts anc))"
    by (simp add: list_all2_conv_all_nth) (simp add: relabelled_def recoded_def Let_def)
  from relabel_keeps [OF this assms, of "vtoc_changed anc"]
  show ?thesis by (simp add: fdasd_list_partition_table_def)
qed

lemma remove_partition_keeps:
  assumes "anchor_ok geo anc" "fdasd_remove_partition geo anc inp = Inr (anc', inp')"
  shows "anchor_ok geo anc'"
  using remove_listed_keeps [OF list_partition_table_keeps] assms by (auto simp: fdasd_remove_partition_def)

end
