(* ===== verification/Fdasd_Vtoc.thy ===== *)
theory Fdasd_Vtoc
  imports Fdasd_Table
begin

text \<open>
  Creating a VTOC from scratch and from the partitions that exist (\<open>fdasd_recreate_vtoc\<close>,
  \<open>fdasd_reuse_vtoc\<close>), the volume label and the partition for the whole disk.  Recreating
  establishes the invariant of the partition table on any volume, reusing keeps it.
\<close>

section \<open>Operations\<close>

definition init_labels :: "hd_geometry \<Rightarrow> fdasd_anchor \<Rightarrow> format4_label_t" where
  "init_labels geo anc =
     vtoc_init_format4_label (ucast (cylinders geo)) (formatted_cylinders anc) (ucast (heads geo))
       (ucast (sectors geo)) (blksize anc) (dev_type anc)"

definition wiped :: "partition_info \<Rightarrow> partition_info" where
  "wiped p = (let p = p\<lparr>p_f1 := zero_f1\<rparr> in
     if used p = 0x01
     then p\<lparr>used := 0x00, start_trk := 0, end_trk := 0, len_trk := 0, p_fspace_trk := 0\<rparr> else p)"

definition fdasd_recreate_vtoc_unconditional :: "hd_geometry \<Rightarrow> fdasd_anchor \<Rightarrow> stop + fdasd_anchor" where
  "fdasd_recreate_vtoc_unconditional geo anc =
     (let n = formatted_cylinders anc * ucast (heads geo) in
      bind_err (set_freespace (anc\<lparr>a_f4 := init_labels geo anc, a_f5 := vtoc_init_format5_label,
            a_f7 := vtoc_init_format7_label\<rparr>) CHR ''+'' (of_nat FIRST_USABLE_TRK) (n - 1)
          (formatted_cylinders anc) (ucast (heads geo)))
        (\<lambda>anc. Inr (anc\<lparr>parts := map wiped (parts anc), used_partitions := 0,
           fspace_trk := ucast (n - of_nat FIRST_USABLE_TRK),
           partno := replicate USABLE_PARTITIONS (-1), vtoc_changed := vtoc_changed anc + 1\<rparr>)))"

text \<open>Anything but yes keeps the VTOC; in silent mode there is no question.\<close>

definition fdasd_recreate_vtoc :: "hd_geometry \<Rightarrow> fdasd_anchor \<Rightarrow> bytes \<Rightarrow> stop + fdasd_anchor \<times> bytes" where
  "fdasd_recreate_vtoc geo anc inp =
     (let (answer, inp') = (if silent anc = 0 then yes_no inp else (0, inp)) in
      if answer \<noteq> 0 then Inr (anc, inp')
      else bind_err (fdasd_recreate_vtoc_unconditional geo anc) (\<lambda>anc. Inr (anc, inp')))"

text \<open>The label of a partition is made anew; its name, serial and creation date are kept.\<close>

definition reused_f1 :: "int \<Rightarrow> int \<Rightarrow> fdasd_anchor \<Rightarrow> format1_label_t \<Rightarrow> format1_label_t" where
  "reused_f1 y d anc f1 = (init_f1_label y d anc (DS1EXT1 f1) f1)
     \<lparr>DS1DSNAM := strncpy_data (DS1DSNAM f1) 44, DS1DSSN := strncpy_data (DS1DSSN f1) 6,
      DS1CREDT := DS1CREDT f1\<rparr>"

fun reuse_parts ::
  "int \<Rightarrow> int \<Rightarrow> hd_geometry \<Rightarrow> fdasd_anchor \<Rightarrow> partition_info list \<Rightarrow> fs_labels \<Rightarrow>
   stop + partition_info list \<times> fs_labels" where
  "reuse_parts y d geo anc [] l = Inr ([], l)"
| "reuse_parts y d geo anc (p # ps) l =
     (if used p \<noteq> 0x01 then
        bind_err (reuse_parts y d geo anc ps l) (\<lambda>(ps, l). Inr (p # ps, l))
      else
        bind_err (if p_fspace_trk p > 0
            then lift_vtoc (vtoc_set_freespace l CHR ''+'' (ucast (end_trk p + 1))
              (ucast (end_trk p + p_fspace_trk p)) (formatted_cylinders anc) (ucast (heads geo)))
            else Inr l) (\<lambda>l.
        bind_err (reuse_parts y d geo anc ps l) (\<lambda>(ps, l).
          Inr (p\<lparr>p_f1 := reused_f1 y d anc (p_f1 p)\<rparr> # ps, l))))"

definition fdasd_reuse_vtoc ::
  "int \<Rightarrow> int \<Rightarrow> hd_geometry \<Rightarrow> fdasd_anchor \<Rightarrow> bytes \<Rightarrow> stop + fdasd_anchor \<times> bytes" where
  "fdasd_reuse_vtoc y d geo anc inp =
     (let (answer, inp') = (if silent anc = 0 then yes_no inp else (0, inp)) in
      if answer \<noteq> 0 then Inr (anc, inp')
      else
        let f4 = (init_labels geo anc)\<lparr>DS4HPCHR := DS4HPCHR (a_f4 anc), DS4DSREC := DS4DSREC (a_f4 anc)\<rparr>;
            l = (f4, vtoc_init_format5_label, vtoc_init_format7_label)
        in bind_err (if fspace_trk anc > 0
             then lift_vtoc (vtoc_set_freespace l CHR ''+'' (of_nat FIRST_USABLE_TRK)
               (ucast (first_trk + fspace_trk anc - 1)) (formatted_cylinders anc) (ucast (heads geo)))
             else Inr l) (\<lambda>l.
           bind_err (reuse_parts y d geo anc (parts anc) l) (\<lambda>(ps, f4, f5, f7).
             Inr (anc\<lparr>parts := ps, a_f4 := f4, a_f5 := f5, a_f7 := f7,
                vtoc_changed := vtoc_changed anc + 1\<rparr>, inp'))))"

definition fdasd_change_volser :: "fdasd_anchor \<Rightarrow> bytes \<Rightarrow> fdasd_anchor \<times> bytes" where
  "fdasd_change_volser anc inp =
     (let (l, inp') = read_line inp;
          v = vtoc_volume_label_set_volser (vlabel anc) (fdasd_check_volser l (devno anc))
      in (anc\<lparr>vlabel := v\<lparr>vtoc := vtoc_set_cchhb VTOC_START_CC VTOC_START_HH 0x01\<rparr>,
            vlabel_changed := vlabel_changed anc + 1, vtoc_changed := vtoc_changed anc + 1\<rparr>, inp'))"

text \<open>\<open>fdasd_get_volser\<close> returns 0 or does not return, so its error branch is never taken.\<close>

definition fdasd_get_volser :: "device \<Rightarrow> fdasd_anchor \<Rightarrow> stop + bytes" where
  "fdasd_get_volser dev anc =
     bind_err (lift_vtoc (vtoc_read_volume_label dev (unat (label_pos anc))))
       (\<lambda>v. Inr (vtoc_volume_label_get_volser v))"

definition fdasd_init_volume_label ::
  "fdasd_options \<Rightarrow> device \<Rightarrow> fdasd_anchor \<Rightarrow> bytes \<Rightarrow> stop + fdasd_anchor \<times> bytes" where
  "fdasd_init_volume_label opts dev anc inp =
     (let v = vtoc_volume_label_init (vlabel anc);
          v = vtoc_volume_label_set_key v (bytes_of ''VOL1'');
          v = vtoc_volume_label_set_label v (bytes_of ''VOL1'')
      in bind_err
           (if keep_volser anc \<noteq> 0 then
              bind_err (fdasd_get_volser dev anc) (\<lambda>volser. Inr (volser, inp))
            else case volser_opt opts of
              Some s \<Rightarrow> Inr (fdasd_check_volser s (devno anc), inp)
            | None \<Rightarrow>
                if auto_partition anc \<noteq> 0 \<or> conffile_opt opts \<noteq> None
                then Inr (default_volser (devno anc), inp)
                else let (l, inp') = read_line inp in Inr (fdasd_check_volser l (devno anc), inp'))
           (\<lambda>(volser, inp).
              Inr (anc\<lparr>vlabel := (vtoc_volume_label_set_volser v volser)
                   \<lparr>vtoc := vtoc_set_cchhb VTOC_START_CC VTOC_START_HH 0x01\<rparr>,
                 vlabel_changed := vlabel_changed anc + 1\<rparr>, inp)))"

text \<open>One partition for the whole disk: the labels and the first list element.\<close>

definition whole_disk :: "int \<Rightarrow> int \<Rightarrow> hd_geometry \<Rightarrow> fdasd_anchor \<Rightarrow> fdasd_anchor" where
  "whole_disk y d geo anc =
     (let anc = anc\<lparr>a_f4 := init_labels geo anc, a_f5 := vtoc_init_format5_label,
            a_f7 := vtoc_init_format7_label\<rparr>;
          cyl = get_usable_cylinders anc;
          head = (ucast (DS4DSTRK (DS4DEVCT (a_f4 anc))) :: u32);
          p = hd (parts anc);
          llim = vtoc_set_cchh 0 (of_nat FIRST_USABLE_TRK);
          ulim = vtoc_set_cchh (cyl - 1) (ucast (head - 1));
          ext = vtoc_set_extent 0x01 0x00 llim ulim;
          p = p\<lparr>used := 0x01, p_fspace_trk := 0, len_trk := ucast (head * cyl - of_nat FIRST_USABLE_TRK),
            start_trk := first_trk, end_trk := ucast (head * cyl - 1),
            p_f1 := init_f1_label y d anc ext (p_f1 p)\<rparr>;
          anc = anc\<lparr>parts := p # tl (parts anc), fspace_trk := 0, used_partitions := 1\<rparr>;
          hf1 = get_addr_of_highest_f1_f8_label anc
      in anc\<lparr>a_f4 := vtoc_update_format4_label (a_f4 anc) hf1 (DS4DSREC (a_f4 anc) - 1),
           vtoc_changed := vtoc_changed anc + 1\<rparr>)"

text \<open>The type question of \<open>fdasd_change_part_type\<close>: digits are read until one is a known type.\<close>

function read_type :: "bytes \<Rightarrow> stop + u32 \<times> bytes" where
  "read_type inp =
     (let l = fst (read_line inp); r = snd (read_line inp) in
      if c_isdigit (cur l) \<and> 49 \<le> cur l \<and> unat (cur l) - 48 \<le> length partition_types - 1
      then Inr (ucast (cur l) - 48, r)
      else if inp = [] then Inl Hang
      else read_type r)"
  by pat_completeness auto

termination
  by (relation "measure length") (auto simp: read_line_shorter)

declare read_type.simps [simp del]

text \<open>The name in a label with the six characters of the type, nine characters behind \<open>PART\<close>,
  replaced.  The name is an array without a terminating zero, so that the search and the copy may
  run into the fields behind it; a name without \<open>PART\<close> makes the program copy to address 9.\<close>

definition set_type_name :: "bytes \<Rightarrow> format1_label_t \<Rightarrow> stop + format1_label_t" where
  "set_type_name dsname f1 =
     (let f1 = f1\<lparr>DS1DSNAM := vtoc_ebcdic_dec (DS1DSNAM f1) (DS1DSNAM f1) 44\<rparr>;
          img = enc_f1 f1;
          str = dsname @ replicate (6 - length dsname) 0x20
      in case c_strstr img (bytes_of ''PART'') of
           None \<Rightarrow> Inl Crash
         | Some i \<Rightarrow>
             if i + 15 > length img then Inl Crash
             else let f1 = fst (dec_f1 (overwrite img (i + 9) (strncpy_data str 6)))
                  in Inr (f1\<lparr>DS1DSNAM := vtoc_ebcdic_enc (DS1DSNAM f1) (DS1DSNAM f1) 44\<rparr>))"

definition change_listed :: "fdasd_anchor \<Rightarrow> bytes \<Rightarrow> stop + fdasd_anchor \<times> bytes" where
  "change_listed anc inp =
     bind_err (read_digit inp) (\<lambda>(c, inp).
       let part_id = (ucast c - 48 :: u32) in
       if part_id = 0 then Inr (anc, inp)
       else if part_id > used_partitions anc then Inr (anc, inp)
       else if unat part_id > length (parts anc) then Inl Crash
       else
         let k = unat part_id - 1; p = parts anc ! k in
         bind_err (read_type inp) (\<lambda>(part_type, inp).
         bind_err (get_part_dsname_by_type part_type) (\<lambda>dsname.
         bind_err (set_type_name (case dsname of Some s \<Rightarrow> s | None \<Rightarrow> []) (p_f1 p)) (\<lambda>f1.
           Inr (anc\<lparr>parts := (parts anc)[k := p\<lparr>p_f1 := f1\<rparr>],
             vtoc_changed := vtoc_changed anc + 1\<rparr>, inp)))))"


definition fdasd_change_part_type :: "fdasd_anchor \<Rightarrow> bytes \<Rightarrow> stop + fdasd_anchor \<times> bytes" where
  "fdasd_change_part_type anc inp = change_listed (fdasd_list_partition_table anc) inp"


section \<open>Recreating establishes the invariant\<close>

text \<open>The geometry reports the number of cylinders, or \<open>LV_COMPAT_CYL\<close> on a large volume.\<close>

definition geo_matches :: "hd_geometry \<Rightarrow> fdasd_anchor \<Rightarrow> bool" where
  "geo_matches geo anc \<longleftrightarrow> ucast (cylinders geo) = formatted_cylinders anc \<or>
     ucast (cylinders geo) = LV_COMPAT_CYL \<and> LV_COMPAT_CYL < formatted_cylinders anc"

definition volume_ok :: "hd_geometry \<Rightarrow> fdasd_anchor \<Rightarrow> bool" where
  "volume_ok geo anc \<longleftrightarrow> geo_ok geo \<and> sectors geo \<noteq> 0 \<and> blksize anc \<noteq> 0 \<and>
     unat (formatted_cylinders anc) < 2 ^ 28 - 1 \<and> 2 < tracks geo anc \<and>
     tracks geo anc \<le> fs_lim (formatted_cylinders anc) (ucast (heads geo)) \<and> geo_matches geo anc"

lemma init_labels_usable:
  assumes "geo_matches geo anc" and "a_f4 anc' = (init_labels geo anc)\<lparr>DS4HPCHR := h, DS4DSREC := r\<rparr>"
  shows "get_usable_cylinders anc' = formatted_cylinders anc"
    "ucast (DS4DSTRK (DS4DEVCT (a_f4 anc'))) = (ucast (heads geo) :: u32)"
proof -
  have "ucast (ucast (cylinders geo) :: u32) = cylinders geo"
    by (rule ucast_up_ucast_id) (simp add: is_up)
  then have sel: "DS4DSCYL (DS4DEVCT (a_f4 anc')) = cylinders geo" "DS4DCYL (a_f4 anc') = formatted_cylinders anc"
    "DS4DEVAC (a_f4 anc') = 0"
    unfolding assms(2) init_labels_def by (simp_all add: vtoc_init_format4_label_def)
  show "get_usable_cylinders anc' = formatted_cylinders anc"
    using assms(1) unfolding get_usable_cylinders_def Let_def sel by (auto simp: geo_matches_def)
  show "ucast (DS4DSTRK (DS4DEVCT (a_f4 anc'))) = (ucast (heads geo) :: u32)"
    unfolding assms(2) init_labels_def
    by (rule bit_word_eqI) (auto simp: vtoc_init_format4_label_def bit_ucast_iff dest: bit_imp_le_length)
qed

text \<open>A list of unused elements and labels of an empty volume, or one with every gap declared free.\<close>

lemma set_freespace_add:
  assumes l: "fs_valid cyl trk (f4, f5, f7)" "fs_free cyl trk (f4, f5, f7) = {2..<a} - covered cs"
    and ab: "2 \<le> a" "a < b" "b \<le> fs_lim cyl trk" and len: "length cs < 4" and cs: "covered cs \<subseteq> {..<a}"
  shows "\<exists>g4 g5 g7. vtoc_set_freespace (f4, f5, f7) CHR ''+'' (of_nat a) (of_nat (b - 1)) cyl trk = Inr (g4, g5, g7) \<and>
    fs_valid cyl trk (g4, g5, g7) \<and> fs_free cyl trk (g4, g5, g7) = {2..<b} - covered cs"
proof -
  have out: "{a..<b} \<inter> fs_free cyl trk (f4, f5, f7) = {}" unfolding l by auto
  have "card (runs (fs_free cyl trk (f4, f5, f7))) < fs_cap cyl trk"
    unfolding l using runs_complement [of 2 a cs] len by (auto simp: fs_cap_def)
  from vfs.add_law [OF l(1) _ ab(2,3) out this] ab(1) obtain l' where
    "fs_add cyl trk (f4, f5, f7) a b = Inr l'" "fs_valid cyl trk l'"
    "fs_free cyl trk l' = {2..<a} - covered cs \<union> {a..<b}" unfolding l by auto
  moreover have "{2..<a} - covered cs \<union> {a..<b} = {2..<b} - covered cs" using ab cs by fastforce
  ultimately show ?thesis by (cases l') (simp add: fs_add_def)
qed

lemma trk_of_u64: "unat (w :: u64) = n \<Longrightarrow> (ucast w :: u32) = of_nat n"
  by (auto simp: word_unat_eq_iff unsigned_ucast_eq unat_of_nat take_bit_eq_mod)

lemma wiped_unused:
  assumes "used p = 1 \<or> (used p = 0 \<and> start_trk p = 0 \<and> end_trk p = 0)"
  shows "used (wiped p) = 0 \<and> start_trk (wiped p) = 0 \<and> end_trk (wiped p) = 0"
  using assms by (auto simp: wiped_def Let_def)

lemma volume_vol_ok:
  assumes v: "volume_ok geo anc" and f4: "a_f4 anc' = (init_labels geo anc)\<lparr>DS4HPCHR := h, DS4DSREC := r\<rparr>"
    and eq: "blksize anc' = blksize anc" "formatted_cylinders anc' = formatted_cylinders anc"
  shows "vol_ok geo anc'" "tracks geo anc' = tracks geo anc"
  using v init_labels_usable [OF _ f4] eq
  by (simp_all add: vol_ok_def volume_ok_def tracks_def)

lemma heads_word: "geo_ok geo \<Longrightarrow> unat (ucast (heads geo) :: u32) = unat (heads geo)"
  using unat_u8_bound [of "heads geo"] by (simp add: unsigned_ucast_eq take_bit_nat_eq_self)

lemma tracks_word:
  assumes "volume_ok geo anc"
  shows "formatted_cylinders anc * ucast (heads geo) = (of_nat (tracks geo anc) :: u32)"
    "0 < unat (ucast (heads geo) :: u32)" "unat (ucast (heads geo) :: u32) < 256"
  using assms heads_word [of geo] unat_u8_bound [of "heads geo"]
  by (simp_all add: tracks_def volume_ok_def geo_ok_def)

lemma widened_minus:
  assumes "k \<le> n" "n < 2 ^ 32"
  shows "unat (ucast (of_nat n - of_nat k :: u32) :: u64) = n - k"
proof -
  have "unat (of_nat n - of_nat k :: u32) = n - k"
    by (rule unat_eqI) (use assms in \<open>simp_all add: of_nat_diff\<close>)
  then show ?thesis using assms by (simp add: unsigned_ucast_eq take_bit_nat_eq_self)
qed

definition slots_ok :: "fdasd_anchor \<Rightarrow> bool" where
  "slots_ok anc \<longleftrightarrow> length (parts anc) = 3 \<and>
     (\<forall>p \<in> set (parts anc). used p = 1 \<or> (used p = 0 \<and> start_trk p = 0 \<and> end_trk p = 0))"

text \<open>All usable tracks declared free in new labels, and the table that goes with them.\<close>

lemma unused_table:
  assumes v: "volume_ok geo anc"
  obtains g4 g5 g7 where
    "vtoc_set_freespace (init_labels geo anc, vtoc_init_format5_label, vtoc_init_format7_label) CHR ''+''
       (of_nat FIRST_USABLE_TRK) (formatted_cylinders anc * ucast (heads geo) - 1) (formatted_cylinders anc)
       (ucast (heads geo)) = Inr (g4, g5, g7)"
    "\<And>anc'. a_f4 anc' = g4 \<Longrightarrow> a_f5 anc' = g5 \<Longrightarrow> a_f7 anc' = g7 \<Longrightarrow> blksize anc' = blksize anc \<Longrightarrow>
       formatted_cylinders anc' = formatted_cylinders anc \<Longrightarrow> length (parts anc') = 3 \<Longrightarrow>
       \<forall>p \<in> set (parts anc'). used p = 0 \<and> start_trk p = 0 \<and> end_trk p = 0 \<Longrightarrow> used_partitions anc' = 0 \<Longrightarrow>
       fspace_trk anc' = ucast (formatted_cylinders anc * ucast (heads geo) - of_nat FIRST_USABLE_TRK) \<Longrightarrow>
       anchor_ok geo anc' \<and> volume_ok geo anc'"
proof -
  let ?cyl = "formatted_cylinders anc" and ?trk = "ucast (heads geo) :: u32"
  have t: "2 < tracks geo anc" "tracks geo anc \<le> fs_lim ?cyl ?trk" "tracks geo anc \<le> 2 ^ 31"
    using v by (auto simp: volume_ok_def fs_lim_def split: if_splits)
  note init = fs_init [OF tracks_word(2,3) [OF v], of ?cyl "init_labels geo anc"]
  obtain g4 g5 g7 where g: "vtoc_set_freespace (init_labels geo anc, vtoc_init_format5_label,
      vtoc_init_format7_label) CHR ''+'' (of_nat 2) (of_nat (tracks geo anc - 1)) ?cyl ?trk = Inr (g4, g5, g7)"
    "fs_valid ?cyl ?trk (g4, g5, g7)" "fs_free ?cyl ?trk (g4, g5, g7) = {2..<tracks geo anc}"
    using set_freespace_add [where cs = "[]" and a = 2, OF init(1) _ _ t(1,2)] init(2) by auto
  have f4: "DS4DEVCT g4 = DS4DEVCT (init_labels geo anc)" "DS4DCYL g4 = DS4DCYL (init_labels geo anc)"
    "DS4DEVAC g4 = DS4DEVAC (init_labels geo anc)" using freespace_f4 [OF g(1)] by simp_all
  show thesis
  proof (rule that)
    show "vtoc_set_freespace (init_labels geo anc, vtoc_init_format5_label, vtoc_init_format7_label) CHR ''+''
       (of_nat FIRST_USABLE_TRK) (?cyl * ?trk - 1) ?cyl ?trk = Inr (g4, g5, g7)"
      using g(1) t(1) tracks_word(1) [OF v] by (simp add: FIRST_USABLE_TRK_def of_nat_diff)
    fix anc' :: fdasd_anchor
    assume a: "a_f4 anc' = g4" "a_f5 anc' = g5" "a_f7 anc' = g7" "blksize anc' = blksize anc"
      "formatted_cylinders anc' = ?cyl" "length (parts anc') = 3"
      "\<forall>p \<in> set (parts anc'). used p = 0 \<and> start_trk p = 0 \<and> end_trk p = 0" "used_partitions anc' = 0"
      "fspace_trk anc' = ucast (?cyl * ?trk - of_nat FIRST_USABLE_TRK)"
    have vo: "vol_ok geo anc'" "tracks geo anc' = tracks geo anc"
      using volume_vol_ok [OF v, of "anc\<lparr>a_f4 := init_labels geo anc\<rparr>" "DS4DSREC (init_labels geo anc)"
          "DS4HPCHR (init_labels geo anc)"] vol_ok_cong [of anc' "anc\<lparr>a_f4 := init_labels geo anc\<rparr>" geo] f4
      by (simp_all add: a)
    have fsp: "unat (fspace_trk anc') = tracks geo anc - 2"
      unfolding a(9) tracks_word(1) [OF v] using widened_minus [of 2 "tracks geo anc"] t
      by (simp add: FIRST_USABLE_TRK_def)
    have "anchor_ok geo anc'" unfolding anchor_ok_def
      using vo g fsp t a by (intro conjI exI [of _ "[]"] exI [of _ "parts anc'"]) simp_all
    then show "anchor_ok geo anc' \<and> volume_ok geo anc'"
      using v vo(2) a(4,5) by (simp add: volume_ok_def geo_matches_def)
  qed
qed

lemma recreate_ok:
  assumes v: "volume_ok geo anc" and s: "slots_ok anc"
  shows "\<exists>anc'. fdasd_recreate_vtoc_unconditional geo anc = Inr anc' \<and> anchor_ok geo anc' \<and>
    volume_ok geo anc' \<and> used_partitions anc' = 0"
proof (rule unused_table [OF v])
  fix g4 g5 g7
  let ?n = "formatted_cylinders anc * ucast (heads geo)"
  let ?anc = "anc\<lparr>a_f4 := g4, a_f5 := g5, a_f7 := g7, parts := map wiped (parts anc),
     used_partitions := 0, fspace_trk := ucast (?n - of_nat FIRST_USABLE_TRK),
     partno := replicate USABLE_PARTITIONS (-1), vtoc_changed := vtoc_changed anc + 1\<rparr>"
  assume g: "vtoc_set_freespace (init_labels geo anc, vtoc_init_format5_label, vtoc_init_format7_label) CHR ''+''
       (of_nat FIRST_USABLE_TRK) (?n - 1) (formatted_cylinders anc) (ucast (heads geo)) = Inr (g4, g5, g7)"
  assume table: "\<And>anc'. a_f4 anc' = g4 \<Longrightarrow> a_f5 anc' = g5 \<Longrightarrow> a_f7 anc' = g7 \<Longrightarrow> blksize anc' = blksize anc \<Longrightarrow>
       formatted_cylinders anc' = formatted_cylinders anc \<Longrightarrow> length (parts anc') = 3 \<Longrightarrow>
       \<forall>p \<in> set (parts anc'). used p = 0 \<and> start_trk p = 0 \<and> end_trk p = 0 \<Longrightarrow> used_partitions anc' = 0 \<Longrightarrow>
       fspace_trk anc' = ucast (?n - of_nat FIRST_USABLE_TRK) \<Longrightarrow> anchor_ok geo anc' \<and> volume_ok geo anc'"
  have "fdasd_recreate_vtoc_unconditional geo anc = Inr ?anc"
    using g by (simp add: fdasd_recreate_vtoc_unconditional_def set_freespace_def Let_def)
  moreover have "anchor_ok geo ?anc \<and> volume_ok geo ?anc"
    using s wiped_unused by (intro table) (auto simp: slots_ok_def)
  ultimately show ?thesis by simp
qed

section \<open>Reusing keeps it\<close>

lemma reused_f1_ext [simp]: "DS1EXT1 (reused_f1 y d anc f) = DS1EXT1 f"
  by (simp add: reused_f1_def)

lemma part_f1_sel [simp]:
  "pstart (p\<lparr>p_f1 := f\<rparr>) = pstart p" "pend (p\<lparr>p_f1 := f\<rparr>) = pend p" "interval (p\<lparr>p_f1 := f\<rparr>) = interval p"
  by (simp_all add: pstart_def pend_def interval_def)

text \<open>Declaring the gap behind a partition free.\<close>

lemma gap_labels:
  assumes v: "fs_valid cyl trk (f4, f5, f7)" "fs_free cyl trk (f4, f5, f7) = {2..<Suc (pend p)} - covered cs"
    and cs: "covered cs \<subseteq> {..<Suc (pend p)}" "length cs < 4"
    and n: "2 \<le> pend p" "Suc (pend p) + unat (p_fspace_trk p) \<le> n" "n \<le> fs_lim cyl trk" "n < 2 ^ 32"
  shows "\<exists>h4 h5 h7. (if p_fspace_trk p > 0
        then lift_vtoc (vtoc_set_freespace (f4, f5, f7) CHR ''+'' (ucast (end_trk p + 1))
          (ucast (end_trk p + p_fspace_trk p)) cyl trk) else Inr (f4, f5, f7)) = Inr (h4, h5, h7) \<and>
    fs_valid cyl trk (h4, h5, h7) \<and>
    fs_free cyl trk (h4, h5, h7) = {2..<Suc (pend p) + unat (p_fspace_trk p)} - covered cs \<and>
    DS4DEVCT h4 = DS4DEVCT f4 \<and> DS4DCYL h4 = DS4DCYL f4 \<and> DS4DEVAC h4 = DS4DEVAC f4"
proof (cases "p_fspace_trk p = 0")
  case False
  let ?e = "Suc (pend p)" and ?f = "unat (p_fspace_trk p)"
  have f0: "0 < ?f" "p_fspace_trk p > 0" using False by (auto simp: unat_gt_0 word_neq_0_conv)
  have "unat (end_trk p + 1) = ?e" "unat (end_trk p + p_fspace_trk p) = ?e + ?f - 1"
    by (rule unat_eqI; use n in \<open>simp add: pend_def\<close>)+
  then have w: "ucast (end_trk p + 1) = (of_nat ?e :: u32)"
    "ucast (end_trk p + p_fspace_trk p) = (of_nat (?e + ?f - 1) :: u32)" by (metis trk_of_u64)+
  obtain h4 h5 h7 where
    "vtoc_set_freespace (f4, f5, f7) CHR ''+'' (of_nat ?e) (of_nat (?e + ?f - 1)) cyl trk = Inr (h4, h5, h7)"
    "fs_valid cyl trk (h4, h5, h7)" "fs_free cyl trk (h4, h5, h7) = {2..<?e + ?f} - covered cs"
    using set_freespace_add [OF v _ _ _ cs(2,1), of "?e + ?f"] n f0 by auto
  with f0(2) freespace_f4 show ?thesis unfolding w by simp
qed (use v in simp)

text \<open>\<open>us\<close> are the partitions still to come, \<open>cs\<close> those that were handled; the gap in front of \<open>us\<close> has
  been declared free.\<close>

lemma reuse_chain:
  assumes "chain geo lo n g us" "2 \<le> lo" "n \<le> fs_lim (formatted_cylinders anc) (ucast (heads geo))" "n < 2 ^ 32"
    and "fs_valid (formatted_cylinders anc) (ucast (heads geo)) (f4, f5, f7)"
    and "fs_free (formatted_cylinders anc) (ucast (heads geo)) (f4, f5, f7) = {2..<lo + unat g} - covered cs"
    and "covered cs \<subseteq> {..<lo}" "length cs + length us \<le> 3"
  shows "\<exists>us' g4 g5 g7. reuse_parts y d geo anc us (f4, f5, f7) = Inr (us', g4, g5, g7) \<and>
    chain geo lo n g us' \<and> map interval us' = map interval us \<and> length us' = length us \<and>
    fs_valid (formatted_cylinders anc) (ucast (heads geo)) (g4, g5, g7) \<and>
    fs_free (formatted_cylinders anc) (ucast (heads geo)) (g4, g5, g7) =
      {2..<n} - (covered cs \<union> covered (map interval us)) \<and>
    DS4DEVCT g4 = DS4DEVCT f4 \<and> DS4DCYL g4 = DS4DCYL f4 \<and> DS4DEVAC g4 = DS4DEVAC f4"
  using assms
proof (induction us arbitrary: lo g f4 f5 f7 cs)
  case Nil
  then show ?case by simp
next
  case (Cons p ps)
  let ?cyl = "formatted_cylinders anc" and ?trk = "ucast (heads geo) :: u32"
  let ?e = "Suc (pend p)" and ?f = "unat (p_fspace_trk p)" and ?cs = "interval p # cs"
  have p: "used p = 1" "lo \<le> pstart p" "lo + unat g = pstart p" "pstart p \<le> pend p" "label_ok geo p"
    and c: "chain geo ?e n (p_fspace_trk p) ps" using Cons.prems(1) by auto
  have n: "?e + ?f \<le> n" using c
  proof (cases ps)
    case (Cons q qs)
    with c chain_mem [OF c, of q] show ?thesis by auto
  qed auto
  have free: "fs_free ?cyl ?trk (f4, f5, f7) = {2..<?e} - covered ?cs"
    using Cons.prems(6,7) p by (fastforce simp: interval_def)
  have cov: "covered ?cs \<subseteq> {..<?e}" using Cons.prems(7) p by fastforce
  obtain h4 h5 h7 where h:
    "(if p_fspace_trk p > 0 then lift_vtoc (vtoc_set_freespace (f4, f5, f7) CHR ''+'' (ucast (end_trk p + 1))
        (ucast (end_trk p + p_fspace_trk p)) ?cyl ?trk) else Inr (f4, f5, f7)) = Inr (h4, h5, h7)"
    "fs_valid ?cyl ?trk (h4, h5, h7)" "fs_free ?cyl ?trk (h4, h5, h7) = {2..<?e + ?f} - covered ?cs"
    "DS4DEVCT h4 = DS4DEVCT f4" "DS4DCYL h4 = DS4DCYL f4" "DS4DEVAC h4 = DS4DEVAC f4"
    using gap_labels [OF Cons.prems(5) free cov _ _ n Cons.prems(3,4)] Cons.prems(2,8) p by auto
  obtain ps' k4 k5 k7 where k: "reuse_parts y d geo anc ps (h4, h5, h7) = Inr (ps', k4, k5, k7)"
    "chain geo ?e n (p_fspace_trk p) ps'" "map interval ps' = map interval ps" "length ps' = length ps"
    "fs_valid ?cyl ?trk (k4, k5, k7)"
    "fs_free ?cyl ?trk (k4, k5, k7) = {2..<n} - (covered ?cs \<union> covered (map interval ps))"
    "DS4DEVCT k4 = DS4DEVCT h4" "DS4DCYL k4 = DS4DCYL h4" "DS4DEVAC k4 = DS4DEVAC h4"
    using Cons.IH [OF c _ Cons.prems(3,4) h(2,3) cov] Cons.prems(2,8) p by auto
  have "reuse_parts y d geo anc (p # ps) (f4, f5, f7) =
      Inr (p\<lparr>p_f1 := reused_f1 y d anc (p_f1 p)\<rparr> # ps', k4, k5, k7)"
    using p(1) h(1) k(1) by simp
  moreover have "label_ok geo (p\<lparr>p_f1 := reused_f1 y d anc (p_f1 p)\<rparr>)" using p(5) by (simp add: label_ok_def)
  moreover have "{2..<n} - (covered ?cs \<union> covered (map interval ps)) =
      {2..<n} - (covered cs \<union> covered (map interval (p # ps)))" by auto
  ultimately show ?case using k h p Cons.prems(1) by auto
qed

lemma reuse_unused:
  assumes "\<forall>z \<in> set zs. used z = 0"
  shows "reuse_parts y d geo anc (us @ zs) l =
    bind_err (reuse_parts y d geo anc us l) (\<lambda>(us, l). Inr (us @ zs, l))"
proof -
  have "reuse_parts y d geo anc zs l = Inr (zs, l)" for l using assms by (induction zs) simp_all
  then show ?thesis
    by (induction us arbitrary: l) (auto simp: bind_err_def split: sum.split)
qed

lemma first_gap:
  fixes g :: u64
  assumes g: "2 + unat g \<le> n" "n \<le> fs_lim cyl trk" "n < 2 ^ 32"
    and t: "0 < unat trk" "unat trk < 256"
  shows "\<exists>h4 h5 h7. (if g > 0
        then lift_vtoc (vtoc_set_freespace (f4, vtoc_init_format5_label, vtoc_init_format7_label) CHR ''+''
          (of_nat FIRST_USABLE_TRK) (ucast (first_trk + g - 1)) cyl trk)
        else Inr (f4, vtoc_init_format5_label, vtoc_init_format7_label)) = Inr (h4, h5, h7) \<and>
    fs_valid cyl trk (h4, h5, h7) \<and> fs_free cyl trk (h4, h5, h7) = {2..<2 + unat g} - covered [] \<and>
    DS4DEVCT h4 = DS4DEVCT f4 \<and> DS4DCYL h4 = DS4DCYL f4 \<and> DS4DEVAC h4 = DS4DEVAC f4"
proof (cases "g = 0")
  case False
  then have g0: "0 < unat g" "g > 0" by (auto simp: unat_gt_0 word_neq_0_conv)
  have "unat (2 + g - 1) = 2 + unat g - 1" by (rule unat_eqI) (use g in \<open>simp_all add: of_nat_diff\<close>)
  then have w: "ucast (2 + g - 1) = (of_nat (2 + unat g - 1) :: u32)" by (rule trk_of_u64)
  obtain h4 h5 h7 where
    "vtoc_set_freespace (f4, vtoc_init_format5_label, vtoc_init_format7_label) CHR ''+'' (of_nat 2)
       (of_nat (2 + unat g - 1)) cyl trk = Inr (h4, h5, h7)"
    "fs_valid cyl trk (h4, h5, h7)" "fs_free cyl trk (h4, h5, h7) = {2..<2 + unat g} - covered []"
    using set_freespace_add [OF fs_init(1) [OF t, of cyl f4], where a = 2 and b = "2 + unat g" and cs = "[]"]
      fs_init(2) [OF t, of cyl f4] g g0 by auto
  with g0(2) freespace_f4 show ?thesis unfolding first_trk_2 w by (simp add: FIRST_USABLE_TRK_def)
qed (use fs_init [OF t] in simp)

lemma reuse_keeps:
  assumes ok: "anchor_ok geo anc" and v: "volume_ok geo anc"
  shows "\<exists>anc' inp'. fdasd_reuse_vtoc y d geo anc inp = Inr (anc', inp') \<and> anchor_ok geo anc' \<and>
    volume_ok geo anc' \<and> map interval (parts anc') = map interval (parts anc)"
proof -
  let ?cyl = "formatted_cylinders anc" and ?trk = "ucast (heads geo) :: u32"
  obtain us zs where us: "parts anc = us @ zs" "length us + length zs = 3"
      "length us = unat (used_partitions anc)" "chain geo 2 (tracks geo anc) (fspace_trk anc) us"
    and z: "\<forall>z \<in> set zs. used z = 0 \<and> start_trk z = 0 \<and> end_trk z = 0"
    using ok by (rule anchor_okE)
  obtain answer inp' where a: "(if silent anc = 0 then yes_no inp else (0, inp)) = (answer, inp')"
    by fastforce
  show ?thesis
  proof (cases "answer = 0")
    case True
    define f4 where "f4 = (init_labels geo anc)\<lparr>DS4HPCHR := DS4HPCHR (a_f4 anc), DS4DSREC := DS4DSREC (a_f4 anc)\<rparr>"
    have t: "2 < tracks geo anc" "tracks geo anc \<le> fs_lim ?cyl ?trk" "tracks geo anc < 2 ^ 32"
      using v by (auto simp: volume_ok_def fs_lim_def split: if_splits)
    have g: "2 + unat (fspace_trk anc) \<le> tracks geo anc"
    proof (cases us)
      case (Cons q qs)
      with us(4) chain_mem [OF us(4), of q] show ?thesis by auto
    qed (use us(4) t in simp)
    obtain h4 h5 h7 where h: "(if fspace_trk anc > 0
        then lift_vtoc (vtoc_set_freespace (f4, vtoc_init_format5_label, vtoc_init_format7_label) CHR ''+''
          (of_nat FIRST_USABLE_TRK) (ucast (first_trk + fspace_trk anc - 1)) ?cyl ?trk)
        else Inr (f4, vtoc_init_format5_label, vtoc_init_format7_label)) = Inr (h4, h5, h7)"
      "fs_valid ?cyl ?trk (h4, h5, h7)"
      "fs_free ?cyl ?trk (h4, h5, h7) = {2..<2 + unat (fspace_trk anc)} - covered []"
      "DS4DEVCT h4 = DS4DEVCT f4" "DS4DCYL h4 = DS4DCYL f4" "DS4DEVAC h4 = DS4DEVAC f4"
      using first_gap [where n = "tracks geo anc" and g = "fspace_trk anc" and cyl = ?cyl and trk = ?trk and ?f4.0 = f4]
        g t tracks_word(2,3) [OF v] by auto
    obtain us' k4 k5 k7 where k: "reuse_parts y d geo anc us (h4, h5, h7) = Inr (us', k4, k5, k7)"
      "chain geo 2 (tracks geo anc) (fspace_trk anc) us'" "map interval us' = map interval us"
      "length us' = length us" "fs_valid ?cyl ?trk (k4, k5, k7)"
      "fs_free ?cyl ?trk (k4, k5, k7) = {2..<tracks geo anc} - (covered [] \<union> covered (map interval us))"
      "DS4DEVCT k4 = DS4DEVCT h4" "DS4DCYL k4 = DS4DCYL h4" "DS4DEVAC k4 = DS4DEVAC h4"
      using reuse_chain [OF us(4) _ t(2,3) h(2,3), of y d] us(2) by auto
    define anc' where "anc' = anc\<lparr>parts := us' @ zs, a_f4 := k4, a_f5 := k5, a_f7 := k7,
                vtoc_changed := vtoc_changed anc + 1\<rparr>"
    have "fdasd_reuse_vtoc y d geo anc inp = Inr (anc', inp')"
      using h(1) k(1) z True
      unfolding fdasd_reuse_vtoc_def a f4_def [symmetric] Let_def us(1)
      by (simp add: reuse_unused anc'_def)
    moreover have vo: "vol_ok geo anc'" "tracks geo anc' = tracks geo anc"
      using volume_vol_ok [OF v, of "anc\<lparr>a_f4 := f4\<rparr>" "DS4DSREC (a_f4 anc)" "DS4HPCHR (a_f4 anc)"]
        vol_ok_cong [of anc' "anc\<lparr>a_f4 := f4\<rparr>" geo] k h by (simp_all add: anc'_def f4_def)
    have "anchor_ok geo anc'" unfolding anchor_ok_def
    proof (intro conjI exI)
      show "parts anc' = us' @ zs" by (simp add: anc'_def)
    qed (use vo k us z in \<open>simp_all add: anc'_def\<close>)
    moreover have "volume_ok geo anc'" using v vo(2) by (simp add: volume_ok_def anc'_def geo_matches_def)
    ultimately show ?thesis using k(3) by (simp add: anc'_def us(1))
  qed (use a ok v in \<open>simp add: fdasd_reuse_vtoc_def\<close>)
qed

section \<open>One partition for the whole disk\<close>

lemma whole_disk_limits:
  assumes v: "volume_ok geo anc"
  shows "unat (cchh2trk (vtoc_set_cchh 0 2) geo) = 2"
    "unat (cchh2trk (vtoc_set_cchh (formatted_cylinders anc - 1) (ucast (ucast (heads geo) - 1 :: u32))) geo) =
       tracks geo anc - 1"
proof -
  let ?C = "unat (formatted_cylinders anc)" and ?H = "unat (heads geo)"
  have H: "0 < ?H" "?H \<le> 16" and C: "?C < 2 ^ 28 - 1" "2 < ?C * ?H" "?C * ?H \<le> 2 ^ 31"
    using v by (auto simp: volume_ok_def geo_ok_def tracks_def fs_lim_def split: if_splits)
  then have C0: "0 < ?C" by (cases ?C) auto
  have "cyl_ok 0" "head_ok 2" by (simp_all add: cyl_ok_def head_ok_def)
  then show "unat (cchh2trk (vtoc_set_cchh 0 2) geo) = 2" by (simp add: cchh2trk_exact)
  have c: "unat (formatted_cylinders anc - 1) = ?C - 1" using C0 by (simp add: unat_minus_one unat_gt_0)
  have "ucast (heads geo) \<noteq> (0 :: u32)" using H(1) by (metis heads_word geo_ok_def H unat_0 less_irrefl)
  then have "unat (ucast (heads geo) - 1 :: u32) = ?H - 1"
    using heads_word [of geo] H by (simp add: unat_minus_one geo_ok_def)
  then have h: "unat (ucast (ucast (heads geo) - 1 :: u32) :: u16) = ?H - 1"
    using H by (simp add: unsigned_ucast_eq take_bit_nat_eq_self)
  have ok: "cyl_ok (formatted_cylinders anc - 1)" "head_ok (ucast (ucast (heads geo) - 1 :: u32))"
    using C H by (simp_all add: cyl_ok_def head_ok_def c h)
  have "(?C - 1) * ?H + ?H = ?C * ?H" using C0 by (simp add: mult_eq_if)
  moreover from this have "(?C - 1) * ?H + 16 \<le> 2 ^ 32" using C by simp
  ultimately show "unat (cchh2trk (vtoc_set_cchh (formatted_cylinders anc - 1)
      (ucast (ucast (heads geo) - 1 :: u32))) geo) = tracks geo anc - 1"
    using ok H by (simp add: cchh2trk_exact c h tracks_def)
qed

lemma whole_disk_ok:
  assumes v: "volume_ok geo anc" and len: "length (parts anc) = 3"
    and z: "\<forall>p \<in> set (parts anc). used p = 0 \<and> start_trk p = 0 \<and> end_trk p = 0"
  shows "anchor_ok geo (whole_disk y d geo anc)" "used_partitions (whole_disk y d geo anc) = 1"
    "interval (hd (parts (whole_disk y d geo anc))) = (2, tracks geo anc)"
proof -
  let ?cyl = "formatted_cylinders anc" and ?trk = "ucast (heads geo) :: u32"
  let ?anc = "whole_disk y d geo anc" and ?base = "anc\<lparr>a_f4 := init_labels geo anc,
    a_f5 := vtoc_init_format5_label, a_f7 := vtoc_init_format7_label\<rparr>"
  have t: "2 < tracks geo anc" "tracks geo anc \<le> 2 ^ 31"
    using v by (auto simp: volume_ok_def fs_lim_def split: if_splits)
  obtain p ps where ps: "parts anc = p # ps" "length ps = 2" using len by (cases "parts anc") auto
  have f4: "a_f4 ?base = (init_labels geo anc)\<lparr>DS4HPCHR := DS4HPCHR (init_labels geo anc),
      DS4DSREC := DS4DSREC (init_labels geo anc)\<rparr>" by simp
  have u: "get_usable_cylinders ?base = ?cyl" "ucast (DS4DSTRK (DS4DEVCT (init_labels geo anc))) = ?trk"
    using init_labels_usable [OF _ f4] v by (simp_all add: volume_ok_def)
  define q where "q = hd (parts ?anc)"
  have sel: "parts ?anc = q # ps" "fspace_trk ?anc = 0" "used_partitions ?anc = 1" "formatted_cylinders ?anc = ?cyl"
    "a_f5 ?anc = vtoc_init_format5_label" "a_f7 ?anc = vtoc_init_format7_label"
    by (simp_all add: whole_disk_def Let_def ps q_def)
  have n: "?trk * ?cyl = of_nat (tracks geo anc)" using tracks_word(1) [OF v] by (simp add: mult.commute)
  have w: "unat (ucast (of_nat (tracks geo anc) - of_nat FIRST_USABLE_TRK :: u32) :: u64) = tracks geo anc - 2"
    "unat (ucast (of_nat (tracks geo anc) - 1 :: u32) :: u64) = tracks geo anc - 1"
    using widened_minus [of 2 "tracks geo anc"] widened_minus [of 1 "tracks geo anc"] t
    by (simp_all add: FIRST_USABLE_TRK_def)
  have form: "q = p\<lparr>used := 1, p_fspace_trk := 0,
      len_trk := ucast (of_nat (tracks geo anc) - of_nat FIRST_USABLE_TRK :: u32), start_trk := 2,
      end_trk := ucast (of_nat (tracks geo anc) - 1 :: u32), p_f1 := init_f1_label y d ?base (vtoc_set_extent 1 0
        (vtoc_set_cchh 0 2) (vtoc_set_cchh (?cyl - 1) (ucast (?trk - 1)))) (p_f1 p)\<rparr>"
    by (simp add: q_def whole_disk_def Let_def ps u n FIRST_USABLE_TRK_def)
  have q: "used q = 1" "p_fspace_trk q = 0" "unat (len_trk q) = tracks geo anc - 2" "pstart q = 2"
    "pend q = tracks geo anc - 1" "label_ok geo q"
    unfolding form pstart_def pend_def label_ok_def using whole_disk_limits [OF v] w by simp_all
  then show "interval (hd (parts ?anc)) = (2, tracks geo anc)" using t by (simp add: interval_def q_def)
  show "used_partitions ?anc = 1" by (simp add: sel)
  have vo: "vol_ok geo ?anc" "tracks geo ?anc = tracks geo anc"
    by (rule volume_vol_ok [OF v]; simp add: whole_disk_def Let_def vtoc_update_format4_label_def)+
  have "chain geo 2 (tracks geo anc) 0 [q]" using q t by simp
  moreover have "{2..<tracks geo anc} - covered (map interval [q]) = {}" using q by auto
  ultimately show "anchor_ok geo ?anc" unfolding anchor_ok_def
    using vo fs_init [OF tracks_word(2,3) [OF v], of ?cyl "a_f4 ?anc"] z ps
    by (intro conjI exI [of _ "[q]"] exI [of _ ps]) (simp_all add: sel)
qed

end
