(* ===== verification/Fdasd_Write.thy ===== *)
theory Fdasd_Write
  imports Fdasd_Vtoc
begin

text \<open>
  Writing the labels to the disk: \<open>fdasd_write_vtoc_labels\<close> with the data set names it makes up or
  brings up to date, \<open>fdasd_write_labels\<close>, and the two commands that end with it.  A name is the
  44-byte array \<open>DS1DSNAM\<close> at the start of a label, which has no terminating zero, so that the C
  string functions work on the 140 bytes of the label.
\<close>

section \<open>Data set names\<close>

text \<open>The conversion \<open>%04d\<close> of a small number.\<close>

definition dec04 :: "nat \<Rightarrow> bytes" where
  "dec04 n = map (\<lambda>k. 48 + of_nat (n div k mod 10)) [1000, 100, 10, 1]"

definition volser_ascii :: "volume_label_t \<Rightarrow> bytes" where
  "volser_ascii v = vtoc_ebcdic_dec (strncpy_data (volid v) VOLSER_LENGTH) (replicate VOLSER_LENGTH 0) VOLSER_LENGTH"

text \<open>An existing name gets the current volume serial between its first seven characters and its
  first period.\<close>

definition rename :: "volume_label_t \<Rightarrow> bytes \<Rightarrow> stop + bytes" where
  "rename v img =
     (case c_strchr (drop 7 img) 0x2e of
        None \<Rightarrow> Inl (Fail dsname_corrupted '''')
      | Some k \<Rightarrow>
          let s2 = strncpy_data (drop (7 + k) img) 31;
              img = overwrite img 7 (strncpy_data (volser_ascii v @ [0x20]) 7)
          in case c_strchr img 0x20 of
               None \<Rightarrow> Inl Crash
             | Some j \<Rightarrow> if j + 31 > length img then Inl Crash else Inr (overwrite img j s2))"

definition new_name :: "volume_label_t \<Rightarrow> nat \<Rightarrow> bytes \<Rightarrow> bytes \<Rightarrow> stop + bytes" where
  "new_name v k dsname img =
     (let img = overwrite img 0 (bytes_of ''LINUX.V                                     '');
          img = overwrite img 7 (strncpy_data (volser_ascii v) VOLSER_LENGTH)
      in case c_strchr img 0x20 of
           None \<Rightarrow> Inl Crash
         | Some j \<Rightarrow>
             let img = overwrite img j (bytes_of ''.PART'');
                 img = overwrite img (j + 5) (dec04 (k + 1) @ [0x2e])
             in Inr (overwrite img (j + 10) dsname))"

text \<open>The data set number for a new name: the first free one from \<open>k\<close> on.  With none left the
  code reads behind the end of \<open>partno\<close>.\<close>

definition free_dsn :: "fdasd_anchor \<Rightarrow> nat \<Rightarrow> stop + nat" where
  "free_dsn anc k = (case find (\<lambda>j. \<not> getpos anc j > -1) [k..<USABLE_PARTITIONS] of
     Some j \<Rightarrow> Inr j | None \<Rightarrow> Inl Crash)"

text \<open>The label of the \<open>i\<close>-th partition in use, with its name; \<open>k\<close> is the loop's data set number.\<close>

definition named :: "fdasd_anchor \<Rightarrow> nat \<Rightarrow> nat \<Rightarrow> partition_info \<Rightarrow> stop + fdasd_anchor \<times> nat \<times> partition_info" where
  "named anc i k p =
     (let f1 = (p_f1 p)\<lparr>DS1DSSN := strncpy_data (volid (vlabel anc)) VOLSER_LENGTH\<rparr>;
          f1 = f1\<lparr>DS1DSNAM := vtoc_ebcdic_dec (DS1DSNAM f1) (DS1DSNAM f1) 44\<rparr>;
          img = enc_f1 f1;
          finish = (\<lambda>img. let f1 = fst (dec_f1 img) in
            f1\<lparr>DS1DSNAM := vtoc_ebcdic_enc (DS1DSNAM f1) (DS1DSNAM f1) 44\<rparr>)
      in if getdsn anc (int i - 1) > -1 then
           bind_err (rename (vlabel anc) img) (\<lambda>img. Inr (anc, k, p\<lparr>p_f1 := finish img\<rparr>))
         else
           let type = (case get_part_type_by_dsname (Some img) of Some t \<Rightarrow> t | None \<Rightarrow> PARTITION_NATIVE) in
           bind_err (free_dsn anc k) (\<lambda>k.
           bind_err (get_part_dsname_by_type (word_of_int type)) (\<lambda>dsname.
           bind_err (new_name (vlabel anc) k (case dsname of Some s \<Rightarrow> s | None \<Rightarrow> []) img) (\<lambda>img.
             Inr (setpos anc k (int i - 1), k, p\<lparr>p_type := type, p_f1 := finish img\<rparr>)))))"


section \<open>Writing\<close>

text \<open>Operations on the device return it in every case; \<open>seq\<close> runs the second one on the device the
  first one left behind.\<close>

definition seq :: "('e + 'a) \<times> device \<Rightarrow> ('a \<Rightarrow> device \<Rightarrow> ('e + 'b) \<times> device) \<Rightarrow> ('e + 'b) \<times> device" where
  "seq m f = (case m of (Inl e, dev) \<Rightarrow> (Inl e, dev) | (Inr x, dev) \<Rightarrow> f x dev)"

definition lift_write :: "(string + 'a) \<times> device \<Rightarrow> (stop + 'a) \<times> device" where
  "lift_write m = (lift_vtoc (fst m), snd m)"

lemma seq_simps [simp]: "seq (Inl e, dev) f = (Inl e, dev)" "seq (Inr x, dev) f = f x dev"
  by (simp_all add: seq_def)

lemma seq_Inr: "seq m f = (Inr y, dev') \<longleftrightarrow> (\<exists>x dev. m = (Inr x, dev) \<and> f x dev = (Inr y, dev'))"
  by (auto simp: seq_def split: prod.splits sum.splits)

lemma lift_write_Inr: "lift_write m = (Inr x, dev) \<longleftrightarrow> m = (Inr x, dev)"
  by (cases m) (simp add: lift_write_def)

text \<open>The loop over the partitions: the list with the new labels, the anchor with the new data set
  numbers and the position behind the last label.\<close>

fun write_parts ::
  "hd_geometry \<Rightarrow> fdasd_anchor \<Rightarrow> nat \<Rightarrow> nat \<Rightarrow> u64 \<Rightarrow> partition_info list \<Rightarrow> device \<Rightarrow>
   (stop + fdasd_anchor \<times> u64 \<times> partition_info list) \<times> device" where
  "write_parts geo anc i k blk [] dev = (Inr (anc, blk, []), dev)"
| "write_parts geo anc i k blk (p # ps) dev =
     (if used p \<noteq> 0x01 then
        seq (write_parts geo anc i k blk ps dev) (\<lambda>(anc, blk, ps) dev. (Inr (anc, blk, p # ps), dev))
      else
        case named anc (i + 1) k p of
          Inl e \<Rightarrow> (Inl e, dev)
        | Inr (anc, k, p) \<Rightarrow>
            if DS1FMTID (p_f1 p) = 0xf8 then
              if sectors geo = 0 \<or> blksize anc = 0 then (Inl Crash, dev)
              else
                let f9addr = vtoc_set_cchhb VTOC_START_CC VTOC_START_HH
                      (ucast (blk div ucast (blksize anc) mod ucast (sectors geo)) + 2);
                    p = p\<lparr>p_f1 := vtoc_update_format8_label f9addr (p_f1 p)\<rparr>
                in seq (lift_write (vtoc_write_label dev (unat blk) (Some (p_f1 p)) None None None None)) (\<lambda>_ dev.
                   seq (lift_write (vtoc_write_label dev (unat (blk + ucast (blksize anc))) None None None None
                     (Some (a_f9 anc)))) (\<lambda>_ dev.
                   seq (write_parts geo anc (i + 1) k (blk + ucast (blksize anc) + ucast (blksize anc)) ps dev)
                     (\<lambda>(anc, blk, ps) dev. (Inr (anc, blk, p # ps), dev))))
            else
              seq (lift_write (vtoc_write_label dev (unat blk) (Some (p_f1 p)) None None None None)) (\<lambda>_ dev.
              seq (write_parts geo anc (i + 1) k (blk + ucast (blksize anc)) ps dev)
                (\<lambda>(anc, blk, ps) dev. (Inr (anc, blk, p # ps), dev))))"

text \<open>Empty labels up to \<open>maxblk\<close>.  A block size of zero or a position that wraps around would make the
  loop go on forever.\<close>

function write_empty :: "u32 \<Rightarrow> u64 \<Rightarrow> u64 \<Rightarrow> device \<Rightarrow> (stop + unit) \<times> device" where
  "write_empty bs maxblk blk dev =
     (if blk < maxblk then
        if blk + ucast bs \<le> blk then (Inl Hang, dev)
        else seq (lift_write (vtoc_write_label dev (unat blk) (Some zero_f1) None None None None)) (\<lambda>_ dev.
          write_empty bs maxblk (blk + ucast bs) dev)
      else (Inr (), dev))"
  by pat_completeness auto

termination
  by (relation "measure (\<lambda>(bs, maxblk, blk, dev). unat maxblk - unat blk)") (auto simp: word_less_nat_alt word_le_nat_alt)

declare write_empty.simps [simp del]

definition fdasd_write_vtoc_labels ::
  "hd_geometry \<Rightarrow> fdasd_anchor \<Rightarrow> device \<Rightarrow> (stop + fdasd_anchor) \<times> device" where
  "fdasd_write_vtoc_labels geo anc dev =
     (let bs = ucast (blksize anc);
          blk = (cchhb2blk (vtoc (vlabel anc)) geo - 1) * bs;
          maxblk = blk + ucast (blksize anc * 9)
      in if blk = 0 then (Inl (Fail vlabel_corrupted ''''), dev)
         else
           seq (lift_write (vtoc_write_label dev (unat blk) None (Some (a_f4 anc)) None None None)) (\<lambda>_ dev.
           seq (lift_write (vtoc_write_label dev (unat (blk + bs)) None None (Some (a_f5 anc)) None None)) (\<lambda>_ dev.
           seq (if big_disk_flag anc \<noteq> 0
                then lift_write (vtoc_write_label dev (unat (blk + bs + bs)) None None None (Some (a_f7 anc)) None)
                else (Inr (), dev)) (\<lambda>_ dev.
           seq (write_parts geo anc 0 0 (if big_disk_flag anc \<noteq> 0 then blk + bs + bs + bs else blk + bs + bs)
                  (parts anc) dev) (\<lambda>(anc, blk, ps) dev.
           seq (write_empty (blksize anc) maxblk blk dev) (\<lambda>_ dev.
             (Inr (anc\<lparr>parts := ps\<rparr>), dev)))))))"

text \<open>\<open>rrpart\<close> is the result of the \<open>BLKRRPART\<close> ioctl of the kernel.\<close>

definition fdasd_reread_partition_table :: "int \<Rightarrow> device \<Rightarrow> stop + unit" where
  "fdasd_reread_partition_table rrpart dev =
     (if \<not> open_rdonly dev then
        Inl (Fail unable_to_open_disk (''Could not open device '' @ [CHR 0x27] @ dev_name dev @ [CHR 0x27] @
          '' in read-only mode!\<newline>''))
      else if rrpart \<noteq> 0 then
        Inl (Fail unable_to_ioctl ''Error while rereading partition table.\<newline>Please reboot!'')
      else Inr ())"

definition fdasd_write_labels ::
  "int \<Rightarrow> hd_geometry \<Rightarrow> fdasd_anchor \<Rightarrow> device \<Rightarrow> (stop + fdasd_anchor) \<times> device" where
  "fdasd_write_labels rrpart geo anc dev =
     seq (if vlabel_changed anc \<noteq> 0
          then lift_write (vtoc_write_volume_label dev (unat (label_pos anc)) (vlabel anc))
          else (Inr (), dev)) (\<lambda>_ dev.
     seq (if vtoc_changed anc \<noteq> 0 then fdasd_write_vtoc_labels geo anc dev else (Inr anc, dev)) (\<lambda>anc dev.
     seq (if vtoc_changed anc \<noteq> 0 \<or> vlabel_changed anc \<noteq> 0
          then (fdasd_reread_partition_table rrpart dev, dev) else (Inr (), dev)) (\<lambda>_ dev.
       (Inr anc, dev))))"

text \<open>\<open>fdasd -a\<close>: the program ends with status 0 or with an error.\<close>

definition fdasd_auto_partition ::
  "int \<Rightarrow> int \<Rightarrow> int \<Rightarrow> hd_geometry \<Rightarrow> fdasd_options \<Rightarrow> fdasd_anchor \<Rightarrow> bytes \<Rightarrow> device \<Rightarrow> stop \<times> device" where
  "fdasd_auto_partition y d rrpart geo opts anc inp dev =
     (case fdasd_init_volume_label opts dev anc inp of
        Inl e \<Rightarrow> (e, dev)
      | Inr (anc, inp) \<Rightarrow>
          (case fdasd_write_labels rrpart geo (whole_disk y d geo anc) dev of
             (Inl e, dev) \<Rightarrow> (e, dev)
           | (Inr anc, dev) \<Rightarrow> (Exit 0, dev)))"

end
