(* ===== verification/Fdasd_Volume.thy ===== *)
theory Fdasd_Volume
  imports Fdasd_Write
begin

text \<open>
  Reading the volume label and the VTOC when the program starts (\<open>fdasd_check_volume\<close> and the
  functions it calls).  Standard input is threaded through the questions; the disk is only read.
\<close>

section \<open>Partition data from the labels\<close>

definition is_part_label :: "format1_label_t \<Rightarrow> bool" where
  "is_part_label f \<longleftrightarrow> DS1FMTID f = 0xf1 \<or> DS1FMTID f = 0xf8"

text \<open>The loop of \<open>fdasd_update_partition_info\<close> over the list; \<open>acc\<close> holds the elements it has passed,
  the latest one, \<open>prev_part_info\<close>, first.  \<open>fs\<close> is the anchor's free space.\<close>

definition set_gap :: "u64 \<Rightarrow> partition_info list \<Rightarrow> partition_info list" where
  "set_gap next acc = (case acc of [] \<Rightarrow> [] | q # qs \<Rightarrow> q\<lparr>p_fspace_trk := next - end_trk q - 1\<rparr> # qs)"

fun update_parts ::
  "hd_geometry \<Rightarrow> u64 \<Rightarrow> nat \<Rightarrow> partition_info list \<Rightarrow> partition_info list \<Rightarrow> u64 \<Rightarrow>
   u64 \<times> partition_info list" where
  "update_parts geo lim i acc [] fs = (fs, rev acc)"
| "update_parts geo lim i acc (p # ps) fs =
     (if \<not> is_part_label (p_f1 p) then
        if i = 1 then (lim - first_trk + 1, rev acc @ p # ps)
        else (fs, rev (case acc of [] \<Rightarrow> [] | q # qs \<Rightarrow> q\<lparr>p_fspace_trk := lim - end_trk q\<rparr> # qs) @ p # ps)
      else
        let start = ucast (cchh2trk (llimit (DS1EXT1 (p_f1 p))) geo);
            stop = ucast (cchh2trk (ulimit (DS1EXT1 (p_f1 p))) geo);
            p = p\<lparr>used := 0x01, start_trk := start, end_trk := stop, len_trk := stop - start + 1\<rparr>
        in if i = 1 then update_parts geo lim (i + 1) (p # acc) ps (start - first_trk)
           else
             let p = (if i = USABLE_PARTITIONS then p\<lparr>p_fspace_trk := lim - stop\<rparr> else p)
             in update_parts geo lim (i + 1) (p # set_gap start acc) ps fs)"

definition fdasd_update_partition_info :: "hd_geometry \<Rightarrow> fdasd_anchor \<Rightarrow> fdasd_anchor" where
  "fdasd_update_partition_info geo anc =
     (let lim = ucast (formatted_cylinders anc * ucast (heads geo) - 1);
          (fs, ps) = update_parts geo lim 1 [] (parts anc) (fspace_trk anc)
      in anc\<lparr>used_partitions := word_of_int (uint (sectors geo) - 2 - uint (DS4DSREC (a_f4 anc))),
           fspace_trk := fs, parts := ps\<rparr>)"

text \<open>A bubble sort of the labels by their format number; the list elements stay in place.\<close>

definition swap_f1 :: "nat \<Rightarrow> partition_info list \<Rightarrow> partition_info list" where
  "swap_f1 j ps =
     (if DS1FMTID (p_f1 (ps ! j)) < DS1FMTID (p_f1 (ps ! Suc j))
      then ps[j := (ps ! j)\<lparr>p_f1 := p_f1 (ps ! Suc j)\<rparr>, Suc j := (ps ! Suc j)\<lparr>p_f1 := p_f1 (ps ! j)\<rparr>]
      else ps)"

definition fdasd_reorganize_FMT1s :: "fdasd_anchor \<Rightarrow> fdasd_anchor" where
  "fdasd_reorganize_FMT1s anc =
     anc\<lparr>parts := fold (\<lambda>i. fold swap_f1 [0..<USABLE_PARTITIONS - i]) [1..<USABLE_PARTITIONS] (parts anc)\<rparr>"


section \<open>Reading the VTOC\<close>

text \<open>The partition number in a data set name, minus one, or -1.\<close>

definition part_no_of :: "format1_label_t \<Rightarrow> int" where
  "part_no_of f1 =
     (let img = enc_f1 (f1\<lparr>DS1DSNAM := vtoc_ebcdic_dec (DS1DSNAM f1) (DS1DSNAM f1) 44\<rparr>)
      in case c_strstr img (bytes_of ''PART'') of
           None \<Rightarrow> -1
         | Some i \<Rightarrow> c_atoi (strncpy_data (drop (i + 4) img) 4) - 1)"

record vtoc_scan =
  s_anc :: fdasd_anchor
  f1_counter :: nat
  f5_counter :: nat
  f7_counter :: nat

text \<open>One label; \<open>f1_counter\<close> is also the index of \<open>part_info\<close>.\<close>

definition scan_label :: "format1_label_t \<Rightarrow> vtoc_scan \<Rightarrow> vtoc_scan" where
  "scan_label f1 s =
     (let anc = s_anc s; k = f1_counter s in
      if is_part_label f1 then
        if k \<ge> length (parts anc) then s
        else
          let anc = anc\<lparr>parts := (parts anc)[k := (parts anc ! k)\<lparr>p_f1 := recoded f1\<rparr>]\<rparr>;
              part_no = part_no_of f1;
              anc = (if part_no < 0 \<or> part_no \<ge> int USABLE_PARTITIONS then anc
                     else setpos anc (nat part_no) (int k))
          in s\<lparr>s_anc := anc, f1_counter := k + 1\<rparr>
      else if DS1FMTID f1 = 0xf5 then
        s\<lparr>s_anc := anc\<lparr>a_f5 := fst (dec_f5 (enc_f1 f1))\<rparr>, f5_counter := f5_counter s + 1\<rparr>
      else if DS1FMTID f1 = 0xf7 then
        s\<lparr>s_anc := (if f7_counter s = 0 then anc\<lparr>a_f7 := fst (dec_f7 (enc_f1 f1))\<rparr> else anc),
          f7_counter := f7_counter s + 1\<rparr>
      else s)"

fun scan_vtoc :: "device \<Rightarrow> u64 \<Rightarrow> nat \<Rightarrow> u64 \<Rightarrow> vtoc_scan \<Rightarrow> stop + vtoc_scan" where
  "scan_vtoc dev bs 0 blk s = Inr s"
| "scan_vtoc dev bs (Suc n) blk s =
     bind_err (lift_vtoc (vtoc_read_label dev (unat blk) True False False False)) (\<lambda>(f1, _).
       scan_vtoc dev bs n (blk + bs) (scan_label (the f1) s))"

definition fdasd_process_valid_vtoc ::
  "hd_geometry \<Rightarrow> device \<Rightarrow> fdasd_anchor \<Rightarrow> u64 \<Rightarrow> stop + fdasd_anchor" where
  "fdasd_process_valid_vtoc geo dev anc blk =
     (let f4 = a_f4 anc;
          cyl = (if ucast (DS4DSCYL (DS4DEVCT f4)) = LV_COMPAT_CYL \<and> DS4DCYL f4 > ucast (DS4DSCYL (DS4DEVCT f4))
                 then DS4DCYL f4 else ucast (DS4DSCYL (DS4DEVCT f4)));
          anc = anc\<lparr>formatted_cylinders := cyl,
            fspace_trk := ucast (cyl * ucast (heads geo) - of_nat FIRST_USABLE_TRK)\<rparr>;
          bs = ucast (blksize anc)
      in bind_err (scan_vtoc dev bs (unat (sectors geo) - 1) (blk + bs)
             \<lparr>s_anc = anc, f1_counter = 0, f5_counter = 0, f7_counter = 0\<rparr>) (\<lambda>s.
           let anc = s_anc s;
               anc = (if f5_counter s = 0 \<or> big_disk_flag anc \<noteq> 0
                      then anc\<lparr>a_f5 := vtoc_init_format5_label\<rparr> else anc);
               anc = (if f7_counter s = 0 then anc\<lparr>a_f7 := vtoc_init_format7_label\<rparr> else anc)
           in Inr (fdasd_update_partition_info geo (fdasd_reorganize_FMT1s anc))))"


section \<open>Volumes without a VTOC\<close>

text \<open>On a large volume the user is asked whether all of it was formatted.\<close>

definition confirm_formatted :: "fdasd_anchor \<Rightarrow> bool \<Rightarrow> bytes \<Rightarrow> stop + bytes" where
  "confirm_formatted anc ask inp =
     (if hw_cylinders anc > LV_COMPAT_CYL \<and> ask then
        let (answer, inp) = yes_no inp in if answer = 1 then Inl (Exit 0) else Inr inp
      else Inr inp)"

definition all_formatted :: "hd_geometry \<Rightarrow> fdasd_anchor \<Rightarrow> fdasd_anchor" where
  "all_formatted geo anc =
     anc\<lparr>formatted_cylinders := hw_cylinders anc,
       fspace_trk := ucast (hw_cylinders anc * ucast (heads geo) - of_nat FIRST_USABLE_TRK)\<rparr>"

definition fresh_labels :: "hd_geometry \<Rightarrow> fdasd_anchor \<Rightarrow> stop + fdasd_anchor" where
  "fresh_labels geo anc =
     set_freespace (anc\<lparr>a_f4 := init_labels geo anc, a_f5 := vtoc_init_format5_label,
         a_f7 := vtoc_init_format7_label\<rparr>) CHR ''+'' (of_nat FIRST_USABLE_TRK)
       (formatted_cylinders anc * ucast (heads geo) - 1) (formatted_cylinders anc) (ucast (heads geo))"

definition fdasd_process_invalid_vtoc ::
  "hd_geometry \<Rightarrow> fdasd_anchor \<Rightarrow> bytes \<Rightarrow> stop + fdasd_anchor \<times> bytes" where
  "fdasd_process_invalid_vtoc geo anc inp =
     bind_err (confirm_formatted anc True inp) (\<lambda>inp.
     bind_err (fresh_labels geo (all_formatted geo anc)) (\<lambda>anc.
       Inr (anc\<lparr>vtoc_changed := vtoc_changed anc + 1\<rparr>, inp)))"

definition fdasd_invalid_vtoc_pointer ::
  "hd_geometry \<Rightarrow> fdasd_anchor \<Rightarrow> bytes \<Rightarrow> stop + fdasd_anchor \<times> bytes" where
  "fdasd_invalid_vtoc_pointer geo anc inp =
     (let (answer, inp) = yes_no inp in
      if answer = 1 then Inl (Exit 0)
      else
        bind_err (confirm_formatted anc True inp) (\<lambda>inp.
        bind_err (fresh_labels geo (all_formatted geo anc)) (\<lambda>anc.
          Inr (anc\<lparr>vlabel := (vlabel anc)\<lparr>vtoc := vtoc_set_cchhb VTOC_START_CC VTOC_START_HH 0x01\<rparr>,
              vtoc_changed := vtoc_changed anc + 1, vlabel_changed := vlabel_changed anc + 1\<rparr>, inp))))"

text \<open>The integer result is what the C function returns.\<close>

definition fdasd_valid_vtoc_pointer ::
  "hd_geometry \<Rightarrow> device \<Rightarrow> fdasd_anchor \<Rightarrow> u64 \<Rightarrow> bytes \<Rightarrow> stop + fdasd_anchor \<times> bytes \<times> int" where
  "fdasd_valid_vtoc_pointer geo dev anc blk inp =
     bind_err (lift_vtoc (vtoc_read_label dev (unat blk) False True False False)) (\<lambda>(_, f4, _).
       let anc = anc\<lparr>a_f4 := the f4\<rparr> in
       if DS4IDFMT (a_f4 anc) \<noteq> 0xf4 then
         if print_table anc \<noteq> 0 then Inr (anc, inp, -1)
         else bind_err (fdasd_process_invalid_vtoc geo anc inp) (\<lambda>(anc, inp). Inr (anc, inp, 0))
       else bind_err (fdasd_process_valid_vtoc geo dev anc blk) (\<lambda>anc. Inr (anc, inp, 0)))"

definition has_label :: "string \<Rightarrow> volume_label_t \<Rightarrow> bool" where
  "has_label s v \<longleftrightarrow> strncpy_data (vollbl v) 4 = vtoc_ebcdic_enc (bytes_of s) (replicate 4 0) 4"

definition fdasd_check_volume ::
  "hd_geometry \<Rightarrow> fdasd_options \<Rightarrow> device \<Rightarrow> fdasd_anchor \<Rightarrow> bytes \<Rightarrow> stop + fdasd_anchor \<times> bytes \<times> int" where
  "fdasd_check_volume geo opts dev anc inp =
     bind_err (lift_vtoc (vtoc_read_volume_label dev (unat (label_pos anc)))) (\<lambda>v.
       let anc = anc\<lparr>vlabel := v\<rparr>;
           interactive = (auto_partition anc = 0 \<and> conffile_opt opts = None) in
       if has_label ''VOL1'' v then
         let blk = (cchhb2blk (vtoc v) geo - 1) * ucast (blksize anc) in
         if sint blk > 0 then
           bind_err (fdasd_valid_vtoc_pointer geo dev anc blk inp) (\<lambda>(anc, inp, rc).
             if print_table anc \<noteq> 0 \<and> rc < 0 then Inr (anc, inp, -1) else Inr (anc, inp, 0))
         else if print_table anc \<noteq> 0 then Inr (anc, inp, -1)
         else bind_err (fdasd_invalid_vtoc_pointer geo anc inp) (\<lambda>(anc, inp). Inr (anc, inp, 0))
       else if print_table anc \<noteq> 0 \<or> print_volser anc \<noteq> 0 then Inr (anc, inp, -1)
       else
         let (rc, inp) = (if has_label ''LNX1'' v then (1, inp)
                          else if interactive then yes_no inp else (0, inp)) in
         if rc = 1 then Inl (Exit (-1))
         else
           bind_err (confirm_formatted anc interactive inp) (\<lambda>inp.
           bind_err (fdasd_init_volume_label opts dev (all_formatted geo anc) inp) (\<lambda>(anc, inp).
           bind_err (fresh_labels geo anc) (\<lambda>anc.
             Inr (anc\<lparr>vtoc_changed := vtoc_changed anc + 1\<rparr>, inp, 0)))))"

end
