(* ===== verification/Fdasd_Names.thy ===== *)
theory Fdasd_Names
  imports Fdasd_Write
begin

text \<open>
  Data set names inside the images of labels: a change within the first 44 bytes changes the name
  and nothing else.
\<close>

section \<open>Searching\<close>

lemma cstr_append: "0 \<notin> set s \<Longrightarrow> cstr (s @ t) = s @ cstr t"
  unfolding cstr_def by (subst takeWhile_append2) auto

lemma find_sub_append:
  "find_sub pat s = Some i \<Longrightarrow> find_sub pat (s @ t) = Some i"
proof (induction s arbitrary: i)
  case Nil
  then show ?case by (cases t) (auto split: if_splits)
next
  case (Cons c s)
  show ?case
  proof (cases "prefix pat (c # s)")
    case True
    then have "prefix pat ((c # s) @ t)" by (rule prefix_prefix) 
    with True Cons.prems show ?thesis by simp
  next
    case False
    with Cons.prems obtain j where j: "find_sub pat s = Some j" "i = Suc j" by auto
    then have "j + length pat \<le> length s" using find_sub_Some by blast
    with False have "\<not> prefix pat (c # s @ t)"
      by (metis append_Cons le_SucI le_add2 le_trans length_Cons prefix_length_prefix prefixI)
    with j Cons.IH show ?thesis by simp
  qed
qed

lemma strstr_append:
  "c_strstr s pat = Some i \<Longrightarrow> c_strstr (s @ t) pat = Some i"
proof -
  assume s: "c_strstr s pat = Some i"
  show "c_strstr (s @ t) pat = Some i"
  proof (cases "0 \<in> set s")
    case True
    then have "cstr (s @ t) = cstr s" by (auto simp: cstr_def takeWhile_append1)
    with s show ?thesis by (simp add: c_strstr_def)
  next
    case False
    with s show ?thesis by (simp add: c_strstr_def cstr_append cstr_no_zero find_sub_append)
  qed
qed


text \<open>The first occurrence does not depend on what comes behind it.\<close>

lemma find_sub_take:
  "find_sub pat s = Some i \<Longrightarrow> find_sub pat (take (i + length pat) s) = Some i"
proof (induction s arbitrary: i)
  case Nil
  then show ?case by (simp split: if_splits)
next
  case (Cons c s)
  show ?case
  proof (cases "prefix pat (c # s)")
    case True
    with Cons.prems have "i = 0" by simp
    moreover have "pat = take (length pat) (c # s)" using True by (metis append_eq_conv_conj prefix_def)
    ultimately show ?thesis by (cases "take (length pat) (c # s)") auto
  next
    case False
    with Cons.prems obtain j where j: "find_sub pat s = Some j" "i = Suc j" by auto
    have "\<not> prefix pat (c # take (j + length pat) s)"
      using False by (metis prefix_order.trans take_Suc_Cons take_is_prefix)
    with j Cons.IH show ?thesis by simp
  qed
qed

lemma strstr_stable:
  assumes "c_strstr s pat = Some i" "take (i + length pat) t = take (i + length pat) s" "i + length pat \<le> length s"
  shows "c_strstr t pat = Some i"
proof -
  let ?n = "i + length pat"
  have f: "find_sub pat (cstr s) = Some i" using assms(1) by (simp add: c_strstr_def)
  then have n: "?n \<le> strlen s" using find_sub_Some by (auto simp: strlen_def)
  then have c: "take ?n s = take ?n (cstr s)" by (rule cstr_take)
  then have "0 \<notin> set (take ?n t)" using assms(2) by (metis in_set_takeD zero_notin_cstr)
  moreover have "find_sub pat (take ?n t) = Some i" using find_sub_take [OF f] c assms(2) by simp
  ultimately have "c_strstr (take ?n t) pat = Some i" by (simp add: c_strstr_def cstr_no_zero)
  then show ?thesis using strstr_append [of "take ?n t" pat i "drop ?n t"] by simp
qed


section \<open>Names in label images\<close>

lemma enc_f1_name: "wf_f1 f \<Longrightarrow> enc_f1 (f\<lparr>DS1DSNAM := s\<rparr>) = s @ drop 44 (enc_f1 f)"
  by (simp add: enc_f1_def wf_f1_def)

lemma dec_f1_name:
  assumes "wf_f1 f" "length s = 44"
  shows "fst (dec_f1 (s @ drop 44 (enc_f1 f))) = f\<lparr>DS1DSNAM := s\<rparr>"
proof -
  have "wf_f1 (f\<lparr>DS1DSNAM := s\<rparr>)" using assms by (simp add: wf_f1_def)
  then show ?thesis using f1.fst_dec_image [of "f\<lparr>DS1DSNAM := s\<rparr>"] assms by (simp add: enc_f1_name)
qed

lemma overwrite_name:
  "length s = 44 \<Longrightarrow> i + length r \<le> 44 \<Longrightarrow> overwrite (s @ t) i r = overwrite s i r @ t"
  by (simp add: overwrite_def)

lemma ascii_name:
  "wf_f1 f \<Longrightarrow> vtoc_ebcdic_dec (DS1DSNAM f) (DS1DSNAM f) 44 = map ebc_to_asc (DS1DSNAM f)"
  "length s = 44 \<Longrightarrow> vtoc_ebcdic_enc s s 44 = map asc_to_ebc s"
  by (simp_all add: wf_f1_def)


section \<open>Changing the type\<close>

definition ascii :: "format1_label_t \<Rightarrow> bytes" where
  "ascii f = map ebc_to_asc (DS1DSNAM f)"

definition padded :: "bytes \<Rightarrow> bytes" where
  "padded dsname = dsname @ replicate (6 - length dsname) 0x20"

lemma set_type_exact:
  assumes wf: "wf_f1 f" and i: "c_strstr (ascii f) (bytes_of ''PART'') = Some i" "i + 15 \<le> 44"
    and d: "length dsname \<le> 6" "0 \<notin> set dsname"
  shows "set_type_name dsname f = Inr (f\<lparr>DS1DSNAM := map asc_to_ebc (overwrite (ascii f) (i + 9) (padded dsname))\<rparr>)"
proof -
  have len: "length (ascii f) = 44" "length (padded dsname) = 6" "length (drop 44 (enc_f1 f)) = 96"
    using wf d(1) by (auto simp: ascii_def padded_def length_enc_f1) (simp add: wf_f1_def)
  have z: "0 \<notin> set (padded dsname)" using d by (auto simp: padded_def)
  have pad: "strncpy_data (padded dsname) 6 = padded dsname"
    using z len(2) by (simp add: strncpy_data_no_zero)
  show ?thesis
    unfolding set_type_name_def Let_def ascii_name(1) [OF wf] ascii_def [symmetric] enc_f1_name [OF wf]
      strstr_append [OF i(1)] padded_def [symmetric] pad
    using i(2) len by (simp add: overwrite_name dec_f1_name [OF wf] ascii_name(2))
qed

text \<open>A name the program can work with: it survives the conversions, and \<open>PART\<close> is followed by a
  number and a type inside the name.\<close>

definition name_ok :: "format1_label_t \<Rightarrow> bool" where
  "name_ok f \<longleftrightarrow> wf_f1 f \<and> list_all invertible (ascii f) \<and>
     (case c_strstr (ascii f) (bytes_of ''PART'') of None \<Rightarrow> False | Some i \<Rightarrow> i + 15 \<le> 44)"

lemma name_okE:
  assumes "name_ok f"
  obtains i where "wf_f1 f" "list_all invertible (ascii f)" "c_strstr (ascii f) (bytes_of ''PART'') = Some i"
    "i + 15 \<le> 44"
  using assms by (auto simp: name_ok_def split: option.splits)

lemma ascii_encoded: "list_all invertible s \<Longrightarrow> map ebc_to_asc (map asc_to_ebc s) = s"
  by (simp add: o_def)

lemma recoded_name:
  assumes "name_ok f"
  shows "recoded f = f\<lparr>DS1DSNAM := map asc_to_ebc (ascii f)\<rparr>" "ascii (recoded f) = ascii f" "name_ok (recoded f)"
proof -
  have wf: "wf_f1 f" and inv: "list_all invertible (ascii f)" using assms by (auto elim: name_okE)
  have len: "length (map ebc_to_asc (DS1DSNAM f)) = 44" using wf by (simp add: wf_f1_def)
  show r: "recoded f = f\<lparr>DS1DSNAM := map asc_to_ebc (ascii f)\<rparr>"
    unfolding recoded_def Let_def ascii_name(1) [OF wf] ascii_name(2) [OF len] by (simp add: ascii_def)
  show a: "ascii (recoded f) = ascii f"
    unfolding r using ascii_encoded [OF inv] by (simp add: ascii_def [of "f\<lparr>DS1DSNAM := _\<rparr>"])
  have "wf_f1 (recoded f)" unfolding r using wf len by (simp add: wf_f1_def ascii_def)
  then show "name_ok (recoded f)" using assms a by (simp add: name_ok_def)
qed

lemma set_type_name_ok:
  assumes n: "name_ok f" and d: "length dsname \<le> 6" "0 \<notin> set dsname" "list_all invertible dsname"
  shows "\<exists>i g. c_strstr (ascii f) (bytes_of ''PART'') = Some i \<and> i + 15 \<le> 44 \<and> set_type_name dsname f = Inr g \<and>
    g = f\<lparr>DS1DSNAM := DS1DSNAM g\<rparr> \<and> ascii g = overwrite (ascii f) (i + 9) (padded dsname) \<and> name_ok g"
proof -
  obtain i where wf: "wf_f1 f" and inv: "list_all invertible (ascii f)"
    and i: "c_strstr (ascii f) (bytes_of ''PART'') = Some i" "i + 15 \<le> 44" using n by (rule name_okE)
  let ?s = "overwrite (ascii f) (i + 9) (padded dsname)" and ?g = "f\<lparr>DS1DSNAM := map asc_to_ebc
    (overwrite (ascii f) (i + 9) (padded dsname))\<rparr>"
  have len: "length (ascii f) = 44" "length (padded dsname) = 6"
    using wf d(1) by (auto simp: ascii_def wf_f1_def padded_def)
  have "invertible 0x20" by (simp add: invertible_def not_invertible_def)
  then have "list_all invertible ?s"
    using inv d(3) by (auto simp: overwrite_def padded_def list_all_iff dest: in_set_takeD in_set_dropD)
  then have a: "ascii ?g = ?s" using ascii_encoded by (simp add: ascii_def [of ?g])
  have "c_strstr ?s (bytes_of ''PART'') = Some i"
    using i(2) len by (intro strstr_stable [OF i(1)]) (simp_all add: overwrite_def)
  moreover have "wf_f1 ?g" using wf len i(2) by (simp add: wf_f1_def)
  ultimately have "name_ok ?g" using \<open>list_all invertible ?s\<close> i(2) by (simp add: name_ok_def a)
  then show ?thesis using i a set_type_exact [OF wf i d(1,2)] by (intro exI [of _ i] exI [of _ ?g]) simp
qed

lemma init_name:
  "ascii (init_f1_label y d anc ext f) = bytes_of ''PART    .NEW                                ''"
  "name_ok (init_f1_label y d anc ext f)"
proof -
  let ?s = "bytes_of ''PART    .NEW                                ''"
  have e: "map ebc_to_asc (strncpy_data (vtoc_ebcdic_enc ?s ?s 44) 44) = ?s" by code_simp
  show a: "ascii (init_f1_label y d anc ext f) = ?s"
    using e by (simp add: ascii_def init_f1_label_def vtoc_init_format1_label_def vtoc_init_format8_label_def
        vtoc_init_format_1_8_label_def Let_def)
  have "list_all invertible ?s" by code_simp
  moreover have "c_strstr ?s (bytes_of ''PART'') = Some 0" by code_simp
  moreover have "wf_f1 (init_f1_label y d anc ext f)" by (simp add: init_f1_label_def)
  ultimately show "name_ok (init_f1_label y d anc ext f)" by (simp add: name_ok_def a)
qed

end
