(* ===== verification/Fdasd_Menu.thy ===== *)
theory Fdasd_Menu
  imports Fdasd_Names
begin

text \<open>
  The interactive session: the commands of the menu and the main loop.  A session is a sequence of
  steps on the anchor; every state it reaches satisfies the invariant of the partition table, and no
  command ends the program by a signal.
\<close>

section \<open>The menu\<close>

definition c_tolower :: "u8 \<Rightarrow> u8" where
  "c_tolower c = (if 0x41 \<le> c \<and> c \<le> 0x5a then c + 0x20 else c)"

definition fdasd_quit :: "fdasd_anchor \<Rightarrow> bytes \<Rightarrow> stop + bytes" where
  "fdasd_quit anc inp =
     (if vtoc_changed anc \<noteq> 0 \<or> vlabel_changed anc \<noteq> 0 then
        let (answer, inp) = yes_no inp in if answer = 1 then Inr inp else Inl (Exit 0)
      else Inl (Exit 0))"

text \<open>A command other than \<open>w\<close>.  Listing the types, the mapping and the menu only print.\<close>

definition menu_command ::
  "int \<Rightarrow> int \<Rightarrow> hd_geometry \<Rightarrow> u8 \<Rightarrow> fdasd_anchor \<Rightarrow> bytes \<Rightarrow> stop + fdasd_anchor \<times> bytes" where
  "menu_command y d geo c anc inp =
     (if c = of_char CHR ''d'' then fdasd_remove_partition geo anc inp
      else if c = of_char CHR ''n'' then fdasd_add_partition y d geo anc inp
      else if c = of_char CHR ''v'' then Inr (fdasd_change_volser anc inp)
      else if c = of_char CHR ''t'' then fdasd_change_part_type anc inp
      else if c = of_char CHR ''p'' then Inr (fdasd_list_partition_table anc, inp)
      else if c = of_char CHR ''u'' then Inr (anc\<lparr>option_reuse := option_reuse anc + 1\<rparr>, inp)
      else if c = of_char CHR ''r'' then Inr (anc\<lparr>option_recreate := option_recreate anc + 1\<rparr>, inp)
      else if c = of_char CHR ''q'' then bind_err (fdasd_quit anc inp) (\<lambda>inp. Inr (anc, inp))
      else Inr (anc, inp))"

text \<open>What the loop does after every command.\<close>

definition after_command ::
  "int \<Rightarrow> int \<Rightarrow> hd_geometry \<Rightarrow> fdasd_anchor \<Rightarrow> bytes \<Rightarrow> stop + fdasd_anchor \<times> bytes" where
  "after_command y d geo anc inp =
     bind_err (if option_reuse anc \<noteq> 0
         then bind_err (fdasd_reuse_vtoc y d geo anc inp) (\<lambda>(anc, inp). Inr (anc\<lparr>option_reuse := 0\<rparr>, inp))
         else Inr (anc, inp)) (\<lambda>(anc, inp).
       if option_recreate anc \<noteq> 0
       then bind_err (fdasd_recreate_vtoc geo anc inp) (\<lambda>(anc, inp). Inr (anc\<lparr>option_recreate := 0\<rparr>, inp))
       else Inr (anc, inp))"

definition menu_round ::
  "int \<Rightarrow> int \<Rightarrow> hd_geometry \<Rightarrow> fdasd_anchor \<Rightarrow> bytes \<Rightarrow> stop + fdasd_anchor \<times> bytes" where
  "menu_round y d geo anc inp =
     (let (l, inp) = read_line inp in
      bind_err (menu_command y d geo (c_tolower (cur l)) anc inp) (\<lambda>(anc, inp). after_command y d geo anc inp))"


section \<open>Every round uses up input\<close>

lemma yes_no_shorter: "length (snd (yes_no inp)) \<le> length inp"
proof (induction inp rule: yes_no.induct)
  case (1 inp)
  have "length (drop 1 (dropWhile (\<lambda>c. c \<noteq> 0x0a) inp)) \<le> length inp"
    using length_dropWhile_le [of "\<lambda>c. c \<noteq> 0x0a" inp] by simp
  with 1 show ?case by (subst yes_no.simps) (auto simp: Let_def intro: order_trans)
qed

lemma read_line_le: "length (snd (read_line inp)) \<le> length inp"
  using read_line_shorter [of inp] by (cases "inp = []") auto

lemma read_digit_le: "read_digit inp = Inr (c, inp') \<Longrightarrow> length inp' \<le> length inp"
proof (induction inp rule: read_digit.induct)
  case (1 inp)
  from 1(2) show ?case
    using 1(1) [OF refl refl] read_line_le [of inp]
    by (subst (asm) read_digit.simps) (auto simp: Let_def split: if_split_asm)
qed

lemma read_type_le: "read_type inp = Inr (c, inp') \<Longrightarrow> length inp' \<le> length inp"
proof (induction inp rule: read_type.induct)
  case (1 inp)
  from 1(2) show ?case
    using 1(1) [OF refl refl] read_line_le [of inp]
    by (subst (asm) read_type.simps) (auto simp: Let_def split: if_split_asm)
qed

lemma read_int_le:
  "read_int geo bs low dflt high base ud inp = Inr (v, inp') \<Longrightarrow> length inp' \<le> length inp"
proof (induction geo bs low dflt high base ud inp rule: read_int.induct)
  case (1 geo bs low dflt high base ud inp)
  have le: "length (snd (skip_lines inp)) \<le> length inp"
    using skip_lines_length [of inp] by (cases "inp = []") auto
  obtain l r where lr: "skip_lines inp = (l, r)" by fastforce
  from 1(2) obtain t u where rv: "read_value geo bs low dflt high base ud l = Inr (t, u)"
    by (subst (asm) read_int.simps) (auto simp: lr split: sum.split_asm)
  show ?case
  proof (cases "low \<le> t \<and> t \<le> high")
    case True
    with 1(2) have "inp' = r" by (subst (asm) read_int.simps) (simp add: lr rv)
    with le lr show ?thesis by simp
  next
    case False
    with 1(2) have "inp \<noteq> [] \<and> read_int geo bs low dflt high base u r = Inr (v, inp')"
      by (subst (asm) read_int.simps) (auto simp: lr rv split: if_split_asm)
    with 1(1) [OF lr [symmetric] refl rv refl False] le lr show ?thesis by simp
  qed
qed

lemma get_partition_data_le:
  assumes "fdasd_get_partition_data geo anc inp = Inr (r, inp')"
  shows "length inp' \<le> length inp"
proof -
  let ?read = "fdasd_read_int geo (blksize anc)"
  have le: "length i' \<le> length i" if "?read low dflt high base i = Inr (v, i')" for low dflt high base i v i'
    using that read_int_le unfolding fdasd_read_int_def by blast
  define lim where "lim = (ucast (ucast (DS4DSTRK (DS4DEVCT (a_f4 anc))) * get_usable_cylinders anc - 1 :: u32) :: u64)"
  define s0 where "s0 = default_start (parts anc)"
  note def = fdasd_get_partition_data_def [of geo anc inp, unfolded Let_def, folded lim_def s0_def]
  show ?thesis
  proof (cases "s0 > lim")
    case False
    obtain s1 i1 where r1: "?read s0 s0 lim lower inp = Inr (s1, i1)"
      using assms False unfolding def by (cases "?read s0 s0 lim lower inp") auto
    obtain s l where cs: "check_start (parts anc) 0 s1 lim = Some (s, l)"
      using assms False unfolding def r1 by (cases "check_start (parts anc) 0 s1 lim") auto
    obtain v where r2: "(if s = l then Inr (s, i1) else ?read s l l upper i1) = Inr (v, inp')"
      using assms False unfolding def r1 bind_err_simps prod.case cs option.case
      by (cases "if s = l then Inr (s, i1) else ?read s l l upper i1") (auto simp del: if_split split: if_split_asm)
    have "length inp' \<le> length i1" using r2 le by (auto split: if_split_asm)
    with le [OF r1] show ?thesis by simp
  qed (use assms in \<open>simp add: def\<close>)
qed

lemma add_partition_le: "fdasd_add_partition y d geo anc inp = Inr (anc', inp') \<Longrightarrow> length inp' \<le> length inp"
  unfolding fdasd_add_partition_def
  by (auto simp: Let_def bind_err_Inr split: if_split_asm option.split_asm dest!: get_partition_data_le)

lemma remove_partition_le: "fdasd_remove_partition geo anc inp = Inr (anc', inp') \<Longrightarrow> length inp' \<le> length inp"
  unfolding fdasd_remove_partition_def remove_listed_def
  by (auto simp: Let_def bind_err_Inr split: if_split_asm dest!: read_digit_le)

lemma change_part_type_le: "fdasd_change_part_type anc inp = Inr (anc', inp') \<Longrightarrow> length inp' \<le> length inp"
  unfolding fdasd_change_part_type_def change_listed_def
  by (auto simp: Let_def bind_err_Inr split: if_split_asm dest!: read_digit_le read_type_le)

lemma yes_no_le: "yes_no inp = (a, inp') \<Longrightarrow> length inp' \<le> length inp"
  using yes_no_shorter [of inp] by simp

lemma reuse_le: "fdasd_reuse_vtoc y d geo anc inp = Inr (anc', inp') \<Longrightarrow> length inp' \<le> length inp"
  unfolding fdasd_reuse_vtoc_def
  by (cases "if silent anc = 0 then yes_no inp else (0, inp)")
    (auto simp: Let_def bind_err_Inr split: if_split_asm dest: yes_no_le)

lemma recreate_le: "fdasd_recreate_vtoc geo anc inp = Inr (anc', inp') \<Longrightarrow> length inp' \<le> length inp"
  unfolding fdasd_recreate_vtoc_def
  by (cases "if silent anc = 0 then yes_no inp else (0, inp)")
    (auto simp: Let_def bind_err_Inr split: if_split_asm dest: yes_no_le)

lemma after_command_le: "after_command y d geo anc inp = Inr (anc', inp') \<Longrightarrow> length inp' \<le> length inp"
  unfolding after_command_def
  by (auto simp: bind_err_Inr split: if_split_asm dest!: reuse_le recreate_le)

lemma change_volser_le: "fdasd_change_volser anc inp = (anc', inp') \<Longrightarrow> length inp' \<le> length inp"
  using read_line_le [of inp] by (auto simp: fdasd_change_volser_def split_beta Let_def)

lemma quit_le: "fdasd_quit anc inp = Inr inp' \<Longrightarrow> length inp' \<le> length inp"
  using yes_no_shorter [of inp] by (auto simp: fdasd_quit_def split_beta Let_def split: if_split_asm)

lemma menu_command_le: "menu_command y d geo c anc inp = Inr (anc', inp') \<Longrightarrow> length inp' \<le> length inp"
  unfolding menu_command_def
  by (auto simp: bind_err_Inr split: if_split_asm dest: add_partition_le remove_partition_le
      change_part_type_le change_volser_le quit_le)

lemma menu_round_shorter:
  assumes "menu_round y d geo anc inp = Inr (anc', inp')" "inp \<noteq> []"
  shows "length inp' < length inp"
proof -
  obtain l r where lr: "read_line inp = (l, r)" by fastforce
  from assms(1) obtain anc1 i1 where "menu_command y d geo (c_tolower (cur l)) anc r = Inr (anc1, i1)"
    "after_command y d geo anc1 i1 = Inr (anc', inp')"
    by (auto simp: menu_round_def lr bind_err_Inr)
  then have "length inp' \<le> length r" using menu_command_le after_command_le by (meson le_trans)
  then show ?thesis using read_line_shorter [OF assms(2)] lr by simp
qed

text \<open>The main loop ends with \<open>w\<close> or inside a command.  At the end of the input the menu is printed
  over and over again.\<close>

function main_loop ::
  "int \<Rightarrow> int \<Rightarrow> int \<Rightarrow> hd_geometry \<Rightarrow> fdasd_anchor \<Rightarrow> bytes \<Rightarrow> device \<Rightarrow> stop \<times> device" where
  "main_loop y d rrpart geo anc inp dev =
     (if c_tolower (cur (fst (read_line inp))) = of_char CHR ''w'' then
        case fdasd_write_labels rrpart geo anc dev of
          (Inl e, dev) \<Rightarrow> (e, dev)
        | (Inr anc, dev) \<Rightarrow> (Exit 0, dev)
      else if inp = [] then (Hang, dev)
      else case menu_round y d geo anc inp of
        Inl e \<Rightarrow> (e, dev)
      | Inr (anc, inp) \<Rightarrow> main_loop y d rrpart geo anc inp dev)"
  by pat_completeness auto

termination
  by (relation "measure (\<lambda>(_, _, _, _, _, inp, _). length inp)") (auto simp: menu_round_shorter)

declare main_loop.simps [simp del]

section \<open>The invariant of a session\<close>

definition names_ok :: "fdasd_anchor \<Rightarrow> bool" where
  "names_ok anc \<longleftrightarrow> (\<forall>p \<in> set (parts anc). used p = 1 \<longrightarrow> name_ok (p_f1 p))"

definition session_ok :: "hd_geometry \<Rightarrow> fdasd_anchor \<Rightarrow> bool" where
  "session_ok geo anc \<longleftrightarrow> anchor_ok geo anc \<and> volume_ok geo anc \<and> names_ok anc"

lemma volume_ok_cong:
  "blksize anc' = blksize anc \<Longrightarrow> formatted_cylinders anc' = formatted_cylinders anc \<Longrightarrow>
     volume_ok geo anc' = volume_ok geo anc"
  by (simp add: volume_ok_def tracks_def geo_matches_def)

lemma enqueue_all:
  assumes "parts anc = bs @ [new]" "\<forall>p \<in> set bs. P (used p) (p_f1 p)" "P 1 (p_f1 new)"
  shows "\<forall>p \<in> set (parts (fdasd_enqueue_new_partition anc)). P (used p) (p_f1 p)"
proof -
  let ?k = "enqueue_pos new (bs @ [new])"
  have "?k \<le> length bs" by (simp add: enqueue_pos_def length_takeWhile_le)
  then have "?k \<noteq> 0 \<Longrightarrow> (bs @ [new]) ! (?k - 1) \<in> set bs" "take (?k - 1) (bs @ [new]) = take (?k - 1) bs"
    by (auto simp: nth_append)
  then show ?thesis using assms
    unfolding fdasd_enqueue_new_partition_def
    by (auto simp: Let_def dest: in_set_takeD in_set_dropD)
qed

lemma dequeue_all:
  assumes "k < length (parts anc)" "\<forall>p \<in> set (parts anc). P (used p) (p_f1 p)" "P 0 zero_f1"
  shows "\<forall>p \<in> set (parts (fdasd_dequeue_old_partition anc k)). P (used p) (p_f1 p)"
proof -
  have "k - 1 < length (parts anc)" "parts anc \<noteq> []" using assms(1) by auto
  then have "parts anc ! (k - 1) \<in> set (parts anc)" "set (tl (parts anc)) \<subseteq> set (parts anc)"
    by (auto dest: list.set_sel(2))
  then show ?thesis using assms
    unfolding fdasd_dequeue_old_partition_def
    by (auto simp: Let_def cleared_def dest: in_set_takeD in_set_dropD)
qed

lemma anchor_parts: "anchor_ok geo anc \<Longrightarrow> length (parts anc) = 3 \<and> unat (used_partitions anc) \<le> 3"
  by (auto simp: anchor_ok_def)

lemma enqueue_frame [simp]:
  "blksize (fdasd_enqueue_new_partition anc) = blksize anc"
  "formatted_cylinders (fdasd_enqueue_new_partition anc) = formatted_cylinders anc"
  by (simp_all add: fdasd_enqueue_new_partition_def Let_def)

lemma add_session:
  assumes s: "session_ok geo anc" and add: "fdasd_add_partition y d geo anc inp = Inr (anc', inp')"
  shows "session_ok geo anc'"
proof (cases "anc' = anc")
  case False
  have ok: "anchor_ok geo anc" "volume_ok geo anc" "names_ok anc" using s by (auto simp: session_ok_def)
  have "parts anc \<noteq> []" using anchor_parts [OF ok(1)] by auto
  then obtain bs p where ps: "parts anc = bs @ [p]" by (cases "parts anc" rule: rev_cases) auto
  obtain start stop ext g4 g5 g7 where
    anc': "anc' = (fdasd_enqueue_new_partition (anc\<lparr>parts := bs @ [filled y d anc start stop ext p]\<rparr>))
        \<lparr>used_partitions := used_partitions anc + 1, a_f4 := g4, a_f5 := g5, a_f7 := g7,
         vtoc_changed := vtoc_changed anc + 1\<rparr>"
    by (rule add_partition_steps [OF add False ps])
  have "\<forall>q \<in> set (parts (fdasd_enqueue_new_partition (anc\<lparr>parts := bs @ [filled y d anc start stop ext p]\<rparr>))).
      used q = 1 \<longrightarrow> name_ok (p_f1 q)"
    using ok(3) init_name(2)
    by (intro enqueue_all [where P = "\<lambda>u f. u = 1 \<longrightarrow> name_ok f"]) (auto simp: names_ok_def ps filled_def)
  then have "names_ok anc'" by (simp add: anc' names_ok_def)
  moreover have "volume_ok geo anc'" using ok(2) by (subst volume_ok_cong [of _ anc]) (simp_all add: anc')
  ultimately show ?thesis using add_partition_keeps [OF ok(1) add] by (simp add: session_ok_def)
qed (use s in simp)

lemma list_session:
  assumes "session_ok geo anc"
  shows "session_ok geo (fdasd_list_partition_table anc)"
proof -
  have "names_ok (fdasd_list_partition_table anc)"
    using assms recoded_name(3) by (auto simp: session_ok_def names_ok_def fdasd_list_partition_table_def)
  moreover have "volume_ok geo (fdasd_list_partition_table anc)"
    using assms by (subst volume_ok_cong [of _ anc]) (simp_all add: fdasd_list_partition_table_def session_ok_def)
  ultimately show ?thesis using assms list_partition_table_keeps by (simp add: session_ok_def)
qed

lemma remove_listed_session:
  assumes s: "session_ok geo anc" and rm: "remove_listed geo anc inp = Inr (anc', inp')"
  shows "session_ok geo anc'"
proof (cases "anc' = anc")
  case False
  have ok: "anchor_ok geo anc" "volume_ok geo anc" "names_ok anc" using s by (auto simp: session_ok_def)
  obtain k g4 g5 g7 where k: "k < unat (used_partitions anc)"
    and anc': "anc' = (fdasd_dequeue_old_partition (setpos anc k (-1)) k)
        \<lparr>used_partitions := used_partitions anc - 1, a_f4 := g4, a_f5 := g5, a_f7 := g7,
         vtoc_changed := vtoc_changed anc + 1\<rparr>"
    by (rule remove_listed_steps [OF rm False])
  have "k < length (parts (setpos anc k (-1)))" using k anchor_parts [OF ok(1)] by (simp add: setpos_def)
  then have "\<forall>q \<in> set (parts (fdasd_dequeue_old_partition (setpos anc k (-1)) k)). used q = 1 \<longrightarrow> name_ok (p_f1 q)"
    using ok(3)
    by (intro dequeue_all [where P = "\<lambda>u f. u = 1 \<longrightarrow> name_ok f"]) (auto simp: names_ok_def setpos_def)
  then have "names_ok anc'" by (simp add: anc' names_ok_def)
  moreover have "volume_ok geo anc'" using ok(2) by (subst volume_ok_cong [of _ anc]) (simp_all add: anc' setpos_def)
  ultimately show ?thesis using remove_listed_keeps [OF ok(1) rm] by (simp add: session_ok_def)
qed (use s in simp)

lemmas remove_session = remove_listed_session [OF list_session, folded fdasd_remove_partition_def]

lemma read_type_range: "read_type inp = Inr (t, inp') \<Longrightarrow> t \<in> {1, 2, 3, 4, 5}"
proof (induction inp rule: read_type.induct)
  case (1 inp)
  let ?c = "cur (fst (read_line inp))"
  have tab: "list_all (\<lambda>n. c_isdigit (word_of_nat n) \<and> 49 \<le> (word_of_nat n :: u8) \<and>
      unat (word_of_nat n :: u8) - 48 \<le> length partition_types - 1 \<longrightarrow>
      ucast (word_of_nat n :: u8) - 48 \<in> {1, 2, 3, 4, 5 :: u32}) [0..<256]" by code_simp
  have hit: "c_isdigit ?c \<and> 49 \<le> ?c \<and> unat ?c - 48 \<le> length partition_types - 1 \<longrightarrow>
      ucast ?c - 48 \<in> {1, 2, 3, 4, 5 :: u32}" by (rule all_bytesI [OF tab])
  show ?case
  proof (cases "c_isdigit ?c \<and> 49 \<le> ?c \<and> unat ?c - 48 \<le> length partition_types - 1")
    case True
    with 1(2) have "t = ucast ?c - 48" by (subst (asm) read_type.simps) (simp add: Let_def)
    then show ?thesis using hit True by simp
  next
    case False
    with 1(2) have "inp \<noteq> []" "read_type (snd (read_line inp)) = Inr (t, inp')"
      by (subst (asm) read_type.simps; auto simp: Let_def split: if_split_asm)+
    then show ?thesis using 1(1) [OF refl refl False] by simp
  qed
qed

lemma type_names:
  assumes "t \<in> {1, 2, 3, 4, 5 :: u32}"
  shows "\<exists>s. get_part_dsname_by_type t = Inr (Some s) \<and> length s \<le> 6 \<and> 0 \<notin> set s \<and> list_all invertible s"
proof -
  have "\<forall>t \<in> {1, 2, 3, 4, 5 :: u32}. (case get_part_dsname_by_type t of
      Inr (Some s) \<Rightarrow> length s \<le> 6 \<and> 0 \<notin> set s \<and> list_all invertible s | _ \<Rightarrow> False)" by code_simp
  then have "case get_part_dsname_by_type t of
      Inr (Some s) \<Rightarrow> length s \<le> 6 \<and> 0 \<notin> set s \<and> list_all invertible s | _ \<Rightarrow> False" using assms by blast
  then show ?thesis by (auto split: sum.split_asm option.split_asm)
qed

lemma read_digit_hang: "read_digit inp = Inl e \<Longrightarrow> e = Hang"
  by (induction inp rule: read_digit.induct)
    (subst (asm) (2) read_digit.simps, auto simp: Let_def split: if_split_asm)

lemma read_type_hang: "read_type inp = Inl e \<Longrightarrow> e = Hang"
  by (induction inp rule: read_type.induct)
    (subst (asm) (2) read_type.simps, auto simp: Let_def split: if_split_asm)

lemma used_element:
  assumes "anchor_ok geo anc" "k < unat (used_partitions anc)"
  shows "used (parts anc ! k) = 1" "k < length (parts anc)"
proof -
  obtain us zs where "parts anc = us @ zs" "length us = unat (used_partitions anc)"
    "chain geo 2 (tracks geo anc) (fspace_trk anc) us" using assms(1) by (rule anchor_okE)
  with assms(2) chain_mem show "used (parts anc ! k) = 1" by (auto simp: nth_append)
  show "k < length (parts anc)" using assms anchor_parts by fastforce
qed

text \<open>What a change of type does, whenever it changes anything.\<close>

definition type_changed :: "fdasd_anchor \<Rightarrow> nat \<Rightarrow> u32 \<Rightarrow> fdasd_anchor \<Rightarrow> bool" where
  "type_changed anc k t anc' \<longleftrightarrow> k < unat (used_partitions anc) \<and> t \<in> {1, 2, 3, 4, 5} \<and>
     (\<exists>s i g. get_part_dsname_by_type t = Inr (Some s) \<and>
        anc' = anc\<lparr>parts := (parts anc)[k := (parts anc ! k)\<lparr>p_f1 := g\<rparr>], vtoc_changed := vtoc_changed anc + 1\<rparr> \<and>
        c_strstr (ascii (p_f1 (parts anc ! k))) (bytes_of ''PART'') = Some i \<and> i + 15 \<le> 44 \<and>
        g = (p_f1 (parts anc ! k))\<lparr>DS1DSNAM := DS1DSNAM g\<rparr> \<and>
        ascii g = overwrite (ascii (p_f1 (parts anc ! k))) (i + 9) (padded s) \<and> name_ok g)"

lemma change_valid:
  assumes s: "session_ok geo anc" and rd: "read_digit inp = Inr (c, i1)" and rt: "read_type i1 = Inr (t, i2)"
    and id: "ucast c - 48 \<noteq> (0 :: u32)" "ucast c - 48 \<le> used_partitions anc"
  shows "\<exists>anc'. change_listed anc inp = Inr (anc', i2) \<and> type_changed anc (unat (ucast c - 48 :: u32) - 1) t anc'"
proof -
  have ok: "anchor_ok geo anc" "names_ok anc" using s by (auto simp: session_ok_def)
  let ?k = "unat (ucast c - 48 :: u32) - 1"
  have nz: "0 < unat (ucast c - 48 :: u32)" using id(1) by (simp add: unat_gt_0)
  then have k: "?k < unat (used_partitions anc)" using id(2) by (simp add: word_le_nat_alt)
  note u = used_element [OF ok(1) k]
  have le: "\<not> unat (ucast c - 48 :: u32) > length (parts anc)" using u(2) nz by simp
  have n: "name_ok (p_f1 (parts anc ! ?k))" using ok(2) u by (simp add: names_ok_def)
  have t: "t \<in> {1, 2, 3, 4, 5}" using read_type_range rt by blast
  obtain s where nm: "get_part_dsname_by_type t = Inr (Some s)" "length s \<le> 6" "0 \<notin> set s"
    "list_all invertible s" using type_names [OF t] by blast
  obtain i g where g: "c_strstr (ascii (p_f1 (parts anc ! ?k))) (bytes_of ''PART'') = Some i" "i + 15 \<le> 44"
    "set_type_name s (p_f1 (parts anc ! ?k)) = Inr g"
    "g = (p_f1 (parts anc ! ?k))\<lparr>DS1DSNAM := DS1DSNAM g\<rparr>"
    "ascii g = overwrite (ascii (p_f1 (parts anc ! ?k))) (i + 9) (padded s)" "name_ok g"
    using set_type_name_ok [OF n nm(2-4)] by blast
  let ?anc = "anc\<lparr>parts := (parts anc)[?k := (parts anc ! ?k)\<lparr>p_f1 := g\<rparr>], vtoc_changed := vtoc_changed anc + 1\<rparr>"
  have "change_listed anc inp = Inr (?anc, i2)"
    using id(1) leD [OF id(2)] le rt nm(1) g(3) by (simp add: change_listed_def rd Let_def)
  moreover have "type_changed anc ?k t ?anc" unfolding type_changed_def using k t nm(1) g by blast
  ultimately show ?thesis by blast
qed

lemma change_listed_cases:
  assumes s: "session_ok geo anc"
  obtains inp' where "change_listed anc inp = Inr (anc, inp')" | "change_listed anc inp = Inl Hang"
    | k t anc' inp' where "change_listed anc inp = Inr (anc', inp')" "type_changed anc k t anc'"
proof (cases "read_digit inp")
  case (Inl e)
  with that(2) read_digit_hang show thesis by (auto simp: change_listed_def)
next
  case rd: (Inr ci)
  obtain c i1 where ci: "ci = (c, i1)" by fastforce
  show thesis
  proof (cases "ucast c - 48 = (0 :: u32) \<or> ucast c - 48 > used_partitions anc")
    case True
    then have "change_listed anc inp = Inr (anc, i1)" using rd ci by (auto simp: change_listed_def Let_def)
    then show thesis by (rule that(1))
  next
    case False
    then have id: "ucast c - 48 \<noteq> (0 :: u32)" "ucast c - 48 \<le> used_partitions anc" by auto
    show thesis
    proof (cases "read_type i1")
      case (Inl e)
      have "unat (used_partitions anc) \<le> length (parts anc)"
        using s anchor_parts [of geo anc] by (simp add: session_ok_def)
      then have "\<not> unat (ucast c - 48 :: u32) > length (parts anc)" using id(2) by (simp add: word_le_nat_alt)
      then have "change_listed anc inp = Inl Hang"
        using rd ci id leD [OF id(2)] Inl read_type_hang by (simp add: change_listed_def Let_def)
      then show thesis by (rule that(2))
    next
      case rt: (Inr ti)
      obtain t i2 where "ti = (t, i2)" by fastforce
      then obtain anc' where "change_listed anc inp = Inr (anc', i2)"
        "type_changed anc (unat (ucast c - 48 :: u32) - 1) t anc'"
        using change_valid [OF s _ _ id] rd ci rt by blast
      then show thesis by (rule that(3))
    qed
  qed
qed

lemma change_session:
  assumes "session_ok geo anc" "type_changed anc k t anc'"
  shows "session_ok geo anc'"
proof -
  have ok: "anchor_ok geo anc" "volume_ok geo anc" "names_ok anc" using assms(1) by (auto simp: session_ok_def)
  obtain g where anc': "anc' = anc\<lparr>parts := (parts anc)[k := (parts anc ! k)\<lparr>p_f1 := g\<rparr>], vtoc_changed := vtoc_changed anc + 1\<rparr>"
    and g: "g = (p_f1 (parts anc ! k))\<lparr>DS1DSNAM := DS1DSNAM g\<rparr>" "name_ok g" "k < unat (used_partitions anc)"
    using assms(2) unfolding type_changed_def by blast
  have "DS1EXT1 g = DS1EXT1 (p_f1 (parts anc ! k))" by (subst g(1)) simp
  then have "relabelled (parts anc ! k) ((parts anc ! k)\<lparr>p_f1 := g\<rparr>)" by (simp add: relabelled_def)
  then have "list_all2 relabelled (parts anc) ((parts anc)[k := (parts anc ! k)\<lparr>p_f1 := g\<rparr>])"
    using used_element(2) [OF ok(1) g(3)] by (auto simp: list_all2_conv_all_nth nth_list_update relabelled_refl)
  then have "anchor_ok geo anc'" using relabel_keeps [OF _ ok(1)] by (simp add: anc')
  moreover have "names_ok anc'" using ok(3) g(2) by (auto simp: names_ok_def anc' dest!: set_update_subset_insert [THEN subsetD])
  moreover have "volume_ok geo anc'" using ok(2) by (subst volume_ok_cong [of _ anc]) (simp_all add: anc')
  ultimately show ?thesis by (simp add: session_ok_def)
qed

lemma strncpy_map:
  "(\<And>c. f c = 0 \<longleftrightarrow> c = 0) \<Longrightarrow> map f (strncpy_data s n) = strncpy_data (map f s) n"
  by (simp add: strncpy_data_def Let_def cstr_def takeWhile_map o_def take_map)

lemma reused_name:
  assumes "name_ok f"
  shows "name_ok (reused_f1 y d anc f)"
proof -
  obtain i where wf: "wf_f1 f" and inv: "list_all invertible (ascii f)"
    and i: "c_strstr (ascii f) (bytes_of ''PART'') = Some i" "i + 15 \<le> 44" using assms by (rule name_okE)
  let ?s = "strncpy_data (ascii f) 44"
  have a: "ascii (reused_f1 y d anc f) = ?s" by (simp add: ascii_def reused_f1_def strncpy_map)
  have len: "length (ascii f) = 44" using wf by (simp add: ascii_def wf_f1_def)
  have "invertible 0" by (simp add: invertible_def not_invertible_def)
  then have "list_all invertible ?s"
    using inv by (auto simp: strncpy_data_def Let_def cstr_def list_all_iff dest!: set_takeWhileD in_set_takeD)
  moreover have "c_strstr ?s (bytes_of ''PART'') = Some i"
  proof (rule strstr_stable [OF i(1)])
    have "i + 4 \<le> strlen (ascii f)"
      using find_sub_Some [of "bytes_of ''PART''" "cstr (ascii f)" i] i(1) by (simp add: c_strstr_def strlen_def)
    then have "take (i + 4) (cstr (ascii f)) = take (i + 4) (ascii f)" by (simp add: cstr_take)
    then show "take (i + length (bytes_of ''PART'')) ?s = take (i + length (bytes_of ''PART'')) (ascii f)"
      using len \<open>i + 4 \<le> strlen (ascii f)\<close> by (simp add: strncpy_data_def Let_def strlen_def numeral_eq_Suc)
  qed (use i len in simp)
  moreover have "wf_f1 (reused_f1 y d anc f)"
    by (simp add: reused_f1_def wf_f1_def init_f1_label_def vtoc_init_format1_label_def vtoc_init_format8_label_def
        vtoc_init_format_1_8_label_def Let_def)
  ultimately show ?thesis using i(2) by (simp add: name_ok_def a)
qed

lemma reuse_names:
  "reuse_parts y d geo anc ps l = Inr (ps', l') \<Longrightarrow> \<forall>p \<in> set ps. used p = 1 \<longrightarrow> name_ok (p_f1 p) \<Longrightarrow>
     \<forall>p \<in> set ps'. used p = 1 \<longrightarrow> name_ok (p_f1 p)"
  by (induction ps arbitrary: l ps' l')
    (fastforce simp: bind_err_Inr reused_name split: if_split_asm)+

lemma reuse_session:
  assumes s: "session_ok geo anc"
  obtains anc' inp' where "fdasd_reuse_vtoc y d geo anc inp = Inr (anc', inp')" "session_ok geo anc'"
proof -
  obtain anc' inp' where r: "fdasd_reuse_vtoc y d geo anc inp = Inr (anc', inp')" "anchor_ok geo anc'"
    "volume_ok geo anc'" using reuse_keeps [of geo anc y d inp] s by (auto simp: session_ok_def)
  have "anc' = anc \<or> (\<exists>l ps l'. reuse_parts y d geo anc (parts anc) l = Inr (ps, l') \<and> parts anc' = ps)"
    using r(1) unfolding fdasd_reuse_vtoc_def
    by (cases "if silent anc = 0 then yes_no inp else (0, inp)")
      (auto simp: Let_def bind_err_Inr split: if_split_asm)
  then have "names_ok anc'" using s reuse_names unfolding names_ok_def session_ok_def by metis
  with r that show thesis by (simp add: session_ok_def)
qed

text \<open>Recreating makes a consistent table out of any list of three elements.\<close>

lemma fresh_session:
  assumes v: "volume_ok geo anc" and sl: "slots_ok anc"
  obtains anc' where "fdasd_recreate_vtoc_unconditional geo anc = Inr anc'" "session_ok geo anc'"
    "used_partitions anc' = 0"
proof -
  obtain anc1 where a: "fdasd_recreate_vtoc_unconditional geo anc = Inr anc1" "anchor_ok geo anc1"
    "volume_ok geo anc1" "used_partitions anc1 = 0" using recreate_ok [OF v sl] by blast
  have "parts anc1 = map wiped (parts anc)"
    using a(1) by (auto simp: fdasd_recreate_vtoc_unconditional_def set_freespace_def Let_def bind_err_Inr)
  then have "names_ok anc1" using sl wiped_unused by (auto simp: names_ok_def slots_ok_def)
  then show thesis using a that by (simp add: session_ok_def)
qed

lemma recreate_session:
  assumes s: "session_ok geo anc"
  obtains anc' inp' where "fdasd_recreate_vtoc geo anc inp = Inr (anc', inp')" "session_ok geo anc'"
proof -
  have ok: "anchor_ok geo anc" "volume_ok geo anc" using s by (auto simp: session_ok_def)
  obtain us zs where us: "parts anc = us @ zs" "length us + length zs = 3"
      "chain geo 2 (tracks geo anc) (fspace_trk anc) us"
    and z: "\<forall>z \<in> set zs. used z = 0 \<and> start_trk z = 0 \<and> end_trk z = 0" using ok(1) by (rule anchor_okE)
  have "slots_ok anc" using us z chain_mem by (fastforce simp: slots_ok_def)
  then obtain anc1 where a: "fdasd_recreate_vtoc_unconditional geo anc = Inr anc1" "session_ok geo anc1"
    using fresh_session [OF ok(2)] by blast
  obtain q i where "(if silent anc = 0 then yes_no inp else (0, inp)) = (q, i)" by fastforce
  then have "fdasd_recreate_vtoc geo anc inp = Inr (if q = 0 then anc1 else anc, i)"
    using a(1) by (simp add: fdasd_recreate_vtoc_def)
  then show thesis using s a(2) that by (metis (full_types))
qed

lemma session_cong:
  "session_ok geo anc \<Longrightarrow> session_ok geo (anc\<lparr>option_reuse := a, option_recreate := b\<rparr>)"
  "session_ok geo anc \<Longrightarrow> session_ok geo (fst (fdasd_change_volser anc inp))"
proof -
  let ?a = "anc\<lparr>option_reuse := a, option_recreate := b\<rparr>" and ?b = "fst (fdasd_change_volser anc inp)"
  have va: "vol_ok geo ?a = vol_ok geo anc" "tracks geo ?a = tracks geo anc" by (rule vol_ok_cong; simp)+
  have vb: "vol_ok geo ?b = vol_ok geo anc" "tracks geo ?b = tracks geo anc"
    by (rule vol_ok_cong; simp add: fdasd_change_volser_def split_beta Let_def)+
  have "volume_ok geo ?a = volume_ok geo anc" "volume_ok geo ?b = volume_ok geo anc"
    by (rule volume_ok_cong; simp add: fdasd_change_volser_def split_beta Let_def)+
  moreover have "anchor_ok geo ?a = anchor_ok geo anc" "anchor_ok geo ?b = anchor_ok geo anc"
    unfolding anchor_ok_def va vb by (simp_all add: fdasd_change_volser_def split_beta Let_def)
  ultimately show "session_ok geo anc \<Longrightarrow> session_ok geo ?a" "session_ok geo anc \<Longrightarrow> session_ok geo ?b"
    by (simp_all add: session_ok_def names_ok_def fdasd_change_volser_def split_beta Let_def)
qed

section \<open>Sessions as sequences of steps\<close>

inductive session_step :: "int \<Rightarrow> int \<Rightarrow> hd_geometry \<Rightarrow> fdasd_anchor \<Rightarrow> fdasd_anchor \<Rightarrow> bool" for y d geo where
  add: "fdasd_add_partition y d geo anc inp = Inr (anc', inp') \<Longrightarrow> session_step y d geo anc anc'"
| remove: "fdasd_remove_partition geo anc inp = Inr (anc', inp') \<Longrightarrow> session_step y d geo anc anc'"
| change_type: "fdasd_change_part_type anc inp = Inr (anc', inp') \<Longrightarrow> session_step y d geo anc anc'"
| change_volser: "session_step y d geo anc (fst (fdasd_change_volser anc inp))"
| list_table: "session_step y d geo anc (fdasd_list_partition_table anc)"
| reuse: "fdasd_reuse_vtoc y d geo anc inp = Inr (anc', inp') \<Longrightarrow> session_step y d geo anc anc'"
| recreate: "fdasd_recreate_vtoc geo anc inp = Inr (anc', inp') \<Longrightarrow> session_step y d geo anc anc'"
| flags: "session_step y d geo anc (anc\<lparr>option_reuse := a, option_recreate := b\<rparr>)"

lemma step_keeps:
  assumes "session_step y d geo anc anc'" "session_ok geo anc"
  shows "session_ok geo anc'"
  using assms
proof (cases rule: session_step.cases)
  case (change_type inp inp')
  then have c: "change_listed (fdasd_list_partition_table anc) inp = Inr (anc', inp')"
    by (simp add: fdasd_change_part_type_def)
  have l: "session_ok geo (fdasd_list_partition_table anc)" by (rule list_session [OF assms(2)])
  show ?thesis
    by (rule change_listed_cases [OF l, of inp]) (use c l change_session in auto)
next
  case (reuse inp inp')
  then show ?thesis using assms(2) by (metis reuse_session sum.inject(2) prod.inject)
next
  case (recreate inp inp')
  then show ?thesis using assms(2) by (metis recreate_session sum.inject(2) prod.inject)
qed (auto intro: add_session remove_session list_session session_cong)

lemma reachable_session_ok:
  "rtranclp (session_step y d geo) anc anc' \<Longrightarrow> session_ok geo anc \<Longrightarrow> session_ok geo anc'"
  by (induction rule: rtranclp_induct) (auto intro: step_keeps)

lemma flag_steps:
  "session_step y d geo anc (anc\<lparr>option_reuse := k\<rparr>)" "session_step y d geo anc (anc\<lparr>option_recreate := k\<rparr>)"
  using flags [of y d geo anc "option_recreate anc" k] flags [of y d geo anc k "option_reuse anc"] by simp_all

lemma menu_command_steps:
  assumes "menu_command y d geo c anc inp = Inr (anc', inp')"
  shows "rtranclp (session_step y d geo) anc anc'"
proof -
  have v: "fdasd_change_volser anc inp = (anc', inp') \<Longrightarrow> session_step y d geo anc anc'"
    using session_step.change_volser [of y d geo anc inp] by simp
  from assms have "anc' = anc \<or> session_step y d geo anc anc'" unfolding menu_command_def
    by (auto simp: bind_err_Inr flag_steps split: if_split_asm intro: add remove change_type v list_table)
  then show ?thesis by auto
qed

lemma after_command_steps:
  assumes "after_command y d geo anc inp = Inr (anc', inp')"
  shows "rtranclp (session_step y d geo) anc anc'"
proof -
  from assms obtain anc1 i1 where
    a: "(if option_reuse anc \<noteq> 0
         then bind_err (fdasd_reuse_vtoc y d geo anc inp) (\<lambda>(anc, inp). Inr (anc\<lparr>option_reuse := 0\<rparr>, inp))
         else Inr (anc, inp)) = Inr (anc1, i1)"
    and b: "(if option_recreate anc1 \<noteq> 0 then bind_err (fdasd_recreate_vtoc geo anc1 i1)
       (\<lambda>(anc, inp). Inr (anc\<lparr>option_recreate := 0\<rparr>, inp)) else Inr (anc1, i1)) = Inr (anc', inp')"
    unfolding after_command_def bind_err_Inr by auto
  have "anc1 = anc \<or> (\<exists>x. session_step y d geo anc x \<and> session_step y d geo x anc1)"
    using a by (auto simp: bind_err_Inr split: if_split_asm intro: reuse flag_steps)
  then have "rtranclp (session_step y d geo) anc anc1" by auto
  moreover have "anc' = anc1 \<or> (\<exists>x. session_step y d geo anc1 x \<and> session_step y d geo x anc')"
    using b by (auto simp: bind_err_Inr split: if_split_asm intro: recreate flag_steps)
  then have "rtranclp (session_step y d geo) anc1 anc'" by auto
  ultimately show ?thesis by (rule rtranclp_trans)
qed

lemma menu_round_steps:
  assumes "menu_round y d geo anc inp = Inr (anc', inp')"
  shows "rtranclp (session_step y d geo) anc anc'"
proof -
  obtain l r where lr: "read_line inp = (l, r)" by fastforce
  from assms obtain anc1 i1 where "menu_command y d geo (c_tolower (cur l)) anc r = Inr (anc1, i1)"
    "after_command y d geo anc1 i1 = Inr (anc', inp')"
    by (auto simp: menu_round_def lr bind_err_Inr)
  then show ?thesis by (rule rtranclp_trans [OF menu_command_steps after_command_steps])
qed

lemma main_loop_device:
  "\<exists>anc'. rtranclp (session_step y d geo) anc anc' \<and>
     (snd (main_loop y d rrpart geo anc inp dev) = dev \<or>
      snd (main_loop y d rrpart geo anc inp dev) = snd (fdasd_write_labels rrpart geo anc' dev))"
proof (induction y d rrpart geo anc inp dev rule: main_loop.induct)
  case (1 y d rrpart geo anc inp dev)
  show ?case
  proof (cases "c_tolower (cur (fst (read_line inp))) = of_char CHR ''w''")
    case True
    then show ?thesis
      by (subst (1 2) main_loop.simps, intro exI [of _ anc]) (auto split: prod.split sum.split)
  next
    case w: False
    show ?thesis
    proof (cases "inp = []")
      case True
      with w show ?thesis by (subst (1 2) main_loop.simps) auto
    next
      case False
      show ?thesis
      proof (cases "menu_round y d geo anc inp")
        case (Inl e)
        with w False show ?thesis by (subst (1 2) main_loop.simps) auto
      next
        case (Inr r)
        obtain anc1 i1 where r: "r = (anc1, i1)" by fastforce
        have "main_loop y d rrpart geo anc inp dev = main_loop y d rrpart geo anc1 i1 dev"
          using w False Inr r by (subst main_loop.simps) simp
        then show ?thesis
          using 1 [OF w False Inr r [symmetric]] menu_round_steps [of y d geo anc inp anc1 i1] Inr r
          by (auto intro: rtranclp_trans)
      qed
    qed
  qed
qed

end
