(* ===== verification/Fdasd_Session.thy ===== *)
theory Fdasd_Session
  imports Fdasd_Menu
begin

text \<open>
  What a user of \<open>fdasd\<close> can rely on: the properties of the interactive session.
\<close>

section \<open>No command crashes\<close>

lemma heads_nz: "vol_ok geo anc \<Longrightarrow> heads geo \<noteq> 0"
  by (auto simp: vol_ok_def geo_ok_def)

lemma get_partition_data_total:
  assumes ok: "anchor_ok geo anc" and lt: "used_partitions anc < 3"
  shows "\<exists>r i. fdasd_get_partition_data geo anc inp = Inr (r, i)"
proof -
  obtain us zs where v: "vol_ok geo anc" and us: "parts anc = us @ zs" "length us + length zs = 3"
      "length us = unat (used_partitions anc)" "chain geo 2 (tracks geo anc) (fspace_trk anc) us"
    and z: "\<forall>z \<in> set zs. used z = 0 \<and> start_trk z = 0 \<and> end_trk z = 0" using ok by (rule anchor_okE)
  have "length us < 3" using lt us(3) by (simp add: word_less_nat_alt)
  then obtain a b c zs' where e: "us @ zs = [a, b, c]"
    "elem_ok (tracks geo anc - 1) a" "elem_ok (tracks geo anc - 1) b"
    "pend b \<noteq> 0 \<Longrightarrow> pend a \<noteq> 0 \<and> pend a < pstart b"
    using free_element [OF us(2) _ us(4) z] by metis
  define lim where "lim = (ucast (ucast (DS4DSTRK (DS4DEVCT (a_f4 anc))) * get_usable_cylinders anc - 1 :: u32) :: u64)"
  have lim: "unat lim = tracks geo anc - 1" unfolding lim_def by (rule limit_word [OF v])
  have N: "2 < tracks geo anc" "tracks geo anc \<le> 2 ^ 31" using v tracks_bound by (auto simp: vol_ok_def)
  let ?s0 = "default_start [a, b, c]"
  have s0: "2 \<le> unat ?s0" by (rule default_start_ge [OF e(2,3)]) (use N in simp)
  have bs: "blksize anc \<noteq> 0" "sectors geo \<noteq> 0" using v by (auto simp: vol_ok_def)
  note def = fdasd_get_partition_data_def [of geo anc inp, unfolded us(1) e(1) Let_def, folded lim_def]
  show ?thesis
  proof (cases "?s0 > lim")
    case False
    obtain s1 i1 where r1: "fdasd_read_int geo (blksize anc) ?s0 ?s0 lim lower inp = Inr (s1, i1)"
      unfolding fdasd_read_int_def using read_int_total [of ?s0 ?s0 lim "blksize anc" geo lower True inp] bs False by (auto simp: not_less)
    then have "?s0 \<le> s1" "s1 \<le> lim" using read_int_range unfolding fdasd_read_int_def by blast+
    then have "2 \<le> unat s1" "unat s1 \<le> unat lim" using s0 by (auto simp: word_le_nat_alt)
    from check_start_ok [OF e(2,3) [folded lim] _ e(4) this, of c] lim N
    obtain s l where cs: "check_start [a, b, c] 0 s1 lim = Some (s, l)" and sr: "start_result [a, b] (unat lim) s l"
      by auto
    have "s \<le> l" using sr by (simp add: start_result_def word_le_nat_alt)
    then obtain w i' where "fdasd_read_int geo (blksize anc) s l l upper i1 = Inr (w, i')"
      using read_int_total [of s l l "blksize anc" geo upper True i1] bs unfolding fdasd_read_int_def by auto
    then obtain v2 i2 where "(if s = l then Inr (s, i1) else fdasd_read_int geo (blksize anc) s l l upper i1) = Inr (v2, i2)"
      by (cases "s = l") simp_all
    then show ?thesis unfolding def using False r1 cs heads_nz [OF v] by (simp del: if_split)
  qed (simp add: def)
qed

lemma set_freespace_error: "set_freespace anc ch a b cyl trk = Inl e \<Longrightarrow> \<exists>m. e = Vtoc_exit m"
  by (cases "vtoc_set_freespace (a_f4 anc, a_f5 anc, a_f7 anc) ch a b cyl trk")
    (auto simp: set_freespace_def bind_err_Inl)

lemma add_partition_error:
  assumes ok: "anchor_ok geo anc" and e: "fdasd_add_partition y d geo anc inp = Inl e"
  shows "\<exists>m. e = Vtoc_exit m"
proof -
  have lt: "used_partitions anc < 3"
    using e by (auto simp: fdasd_add_partition_def USABLE_PARTITIONS_def split: if_split_asm)
  obtain r i where "fdasd_get_partition_data geo anc inp = Inr (r, i)" using get_partition_data_total [OF ok lt] by blast
  then show ?thesis using e lt unfolding fdasd_add_partition_def
    by (auto simp: bind_err_Inl Let_def split: if_split_asm option.split_asm dest!: set_freespace_error)
qed

text \<open>Removing never fails once a partition is chosen.\<close>

lemma remove_valid_id:
  assumes ok: "anchor_ok geo anc" and rd: "read_digit inp = Inr (c, i)"
    and id: "ucast c - 48 \<noteq> (0 :: u32)" "ucast c - 48 \<le> used_partitions anc"
  defines "k \<equiv> unat (ucast c - 48 :: u32) - 1"
  shows "\<exists>g4 g5 g7. remove_listed geo anc inp = Inr ((fdasd_dequeue_old_partition (setpos anc k (-1)) k)
    \<lparr>used_partitions := used_partitions anc - 1, a_f4 := g4, a_f5 := g5, a_f7 := g7,
      vtoc_changed := vtoc_changed anc + 1\<rparr>, i)"
proof -
  obtain us zs where v: "vol_ok geo anc" and us: "parts anc = us @ zs" "length us + length zs = 3"
      "length us = unat (used_partitions anc)" "chain geo 2 (tracks geo anc) (fspace_trk anc) us"
    and fs: "fs_valid (formatted_cylinders anc) (ucast (heads geo)) (a_f4 anc, a_f5 anc, a_f7 anc)"
      "fs_free (formatted_cylinders anc) (ucast (heads geo)) (a_f4 anc, a_f5 anc, a_f7 anc) =
        {2..<tracks geo anc} - covered (map interval us)" using ok by (rule anchor_okE)
  let ?k = "unat (ucast c - 48 :: u32) - 1"
  have nz: "0 < unat (ucast c - 48 :: u32)" using id(1) by (simp add: unat_gt_0)
  then have k: "?k < length us" using id(2) us(3) by (simp add: word_le_nat_alt)
  have le: "\<not> unat (ucast c - 48 :: u32) > length (parts anc)" using k nz us by simp
  have p: "2 \<le> pstart (us ! ?k)" "pstart (us ! ?k) \<le> pend (us ! ?k)" "pend (us ! ?k) < tracks geo anc"
    "label_ok geo (us ! ?k)" using chain_mem [OF us(4) nth_mem [OF k]] by auto
  have N: "tracks geo anc \<le> fs_lim (formatted_cylinders anc) (ucast (heads geo))" using v by (simp add: vol_ok_def)
  have pk: "parts anc ! ?k = us ! ?k" using k by (simp add: us(1) nth_append)
  have "\<exists>l. vtoc_set_freespace (g4, a_f5 anc, a_f7 anc) CHR ''+''
      (cchh2trk (llimit (DS1EXT1 (p_f1 (parts anc ! ?k)))) geo) (cchh2trk (ulimit (DS1EXT1 (p_f1 (parts anc ! ?k)))) geo)
      (formatted_cylinders anc) (ucast (heads geo)) = Inr l" for g4
    using add_labels [OF nth_mem [OF k] _ N fs p(1-3), of g4] us(2)
    unfolding pk label_words [OF p(4)] fs_add_def by (metis diff_Suc_1 le_add1)
  then obtain L where L: "\<And>g4. vtoc_set_freespace (g4, a_f5 anc, a_f7 anc) CHR ''+''
      (cchh2trk (llimit (DS1EXT1 (p_f1 (parts anc ! ?k)))) geo) (cchh2trk (ulimit (DS1EXT1 (p_f1 (parts anc ! ?k)))) geo)
      (formatted_cylinders anc) (ucast (heads geo)) = Inr (L g4)" by metis
  show ?thesis
    using id(1) leD [OF id(2)] le unfolding remove_listed_def rd Let_def set_freespace_def k_def
    by (simp add: L [simplified] split_beta) blast
qed

lemma remove_listed_error:
  assumes "anchor_ok geo anc" "remove_listed geo anc inp = Inl e"
  shows "e = Hang"
proof (cases "read_digit inp")
  case (Inl x)
  with assms(2) read_digit_hang show ?thesis by (auto simp: remove_listed_def)
next
  case (Inr ci)
  obtain c i where ci: "ci = (c, i)" by fastforce
  have "ucast c - 48 \<noteq> (0 :: u32)" "ucast c - 48 \<le> used_partitions anc"
    using assms(2) Inr ci by (auto simp: remove_listed_def Let_def not_less [symmetric] split: if_split_asm)
  then show ?thesis using remove_valid_id [OF assms(1) Inr [unfolded ci]] assms(2) by auto
qed

lemma menu_command_error:
  assumes s: "session_ok geo anc" and e: "menu_command y d geo c anc inp = Inl e"
  shows "e = Exit 0 \<or> e = Hang \<or> c = of_char CHR ''n'' \<and> (\<exists>m. e = Vtoc_exit m)"
proof -
  have ok: "anchor_ok geo anc" using s by (simp add: session_ok_def)
  have "fdasd_remove_partition geo anc inp = Inl e \<Longrightarrow> e = Hang"
    unfolding fdasd_remove_partition_def by (rule remove_listed_error [OF list_partition_table_keeps [OF ok]])
  moreover have "fdasd_add_partition y d geo anc inp = Inl e \<Longrightarrow> \<exists>m. e = Vtoc_exit m"
    by (rule add_partition_error [OF ok])
  moreover have "fdasd_change_part_type anc inp = Inl e \<Longrightarrow> e = Hang"
    unfolding fdasd_change_part_type_def by (rule change_listed_cases [OF list_session [OF s], of inp]) auto
  moreover have "fdasd_quit anc inp = Inl e \<Longrightarrow> e = Exit 0"
    by (auto simp: fdasd_quit_def split_beta Let_def split: if_split_asm)
  ultimately show ?thesis using e unfolding menu_command_def
    by (auto simp: bind_err_Inl split: if_split_asm)
qed

lemma after_command_total:
  assumes s: "session_ok geo anc"
  shows "\<exists>r. after_command y d geo anc inp = Inr r"
proof -
  obtain anc1 i1 where r1: "(if option_reuse anc \<noteq> 0
         then bind_err (fdasd_reuse_vtoc y d geo anc inp) (\<lambda>(anc, inp). Inr (anc\<lparr>option_reuse := 0\<rparr>, inp))
         else Inr (anc, inp)) = Inr (anc1, i1)" and s1: "session_ok geo anc1"
  proof (cases "option_reuse anc = 0")
    case False
    obtain a i where a: "fdasd_reuse_vtoc y d geo anc inp = Inr (a, i)" "session_ok geo a"
      by (rule reuse_session [OF s])
    have "session_ok geo (a\<lparr>option_reuse := 0\<rparr>)" using session_cong(1) [OF a(2), where a = 0 and b = "option_recreate a"] by simp
    with a(1) False show thesis by (intro that) auto
  qed (use s in \<open>auto intro: that\<close>)
  obtain a2 i2 where "fdasd_recreate_vtoc geo anc1 i1 = Inr (a2, i2)" by (rule recreate_session [OF s1])
  then show ?thesis unfolding after_command_def r1 by simp
qed



section \<open>The invariant of a session\<close>

definition partitions :: "fdasd_anchor \<Rightarrow> partition_info list" where
  "partitions anc = filter (\<lambda>p. used p = 1) (parts anc)"

lemma partitions_chain:
  assumes "parts anc = us @ zs" "chain geo lo n g us" "\<forall>z \<in> set zs. used z = 0"
  shows "partitions anc = us"
proof -
  have "filter (\<lambda>p. used p = 1) us = us" using chain_mem [OF assms(2)] by simp
  moreover have "filter (\<lambda>p. used p = 1) zs = []" using assms(3) by simp
  ultimately show ?thesis by (simp add: partitions_def assms(1))
qed

lemma anchor_ok_partitions:
  assumes "anchor_ok geo anc"
  shows "vol_ok geo anc" "chain geo 2 (tracks geo anc) (fspace_trk anc) (partitions anc)"
    "length (partitions anc) = unat (used_partitions anc)" "length (partitions anc) \<le> 3"
    "fs_valid (formatted_cylinders anc) (ucast (heads geo)) (a_f4 anc, a_f5 anc, a_f7 anc)"
    "fs_free (formatted_cylinders anc) (ucast (heads geo)) (a_f4 anc, a_f5 anc, a_f7 anc) =
      {2..<tracks geo anc} - covered (map interval (partitions anc))"
    "\<exists>zs. parts anc = partitions anc @ zs \<and> length zs = 3 - length (partitions anc) \<and>
      (\<forall>z \<in> set zs. used z = 0 \<and> start_trk z = 0 \<and> end_trk z = 0)"
proof -
  obtain us zs where a: "vol_ok geo anc" "parts anc = us @ zs" "length us + length zs = 3"
    "length us = unat (used_partitions anc)" "chain geo 2 (tracks geo anc) (fspace_trk anc) us"
    "\<forall>z \<in> set zs. used z = 0 \<and> start_trk z = 0 \<and> end_trk z = 0"
    "fs_valid (formatted_cylinders anc) (ucast (heads geo)) (a_f4 anc, a_f5 anc, a_f7 anc)"
    "fs_free (formatted_cylinders anc) (ucast (heads geo)) (a_f4 anc, a_f5 anc, a_f7 anc) =
      {2..<tracks geo anc} - covered (map interval us)" using assms by (rule anchor_okE)
  then have p: "partitions anc = us" by (intro partitions_chain [of _ _ zs]) auto
  show "vol_ok geo anc" "chain geo 2 (tracks geo anc) (fspace_trk anc) (partitions anc)"
    "length (partitions anc) = unat (used_partitions anc)" "length (partitions anc) \<le> 3"
    "fs_valid (formatted_cylinders anc) (ucast (heads geo)) (a_f4 anc, a_f5 anc, a_f7 anc)"
    "fs_free (formatted_cylinders anc) (ucast (heads geo)) (a_f4 anc, a_f5 anc, a_f7 anc) =
      {2..<tracks geo anc} - covered (map interval (partitions anc))"
    using a by (auto simp: p)
  show "\<exists>zs. parts anc = partitions anc @ zs \<and> length zs = 3 - length (partitions anc) \<and>
      (\<forall>z \<in> set zs. used z = 0 \<and> start_trk z = 0 \<and> end_trk z = 0)"
    using a unfolding p by (intro exI [of _ zs]) simp
qed

lemma chain_sorted: "chain geo lo n g us \<Longrightarrow> sorted (map pstart us)"
proof (induction us arbitrary: lo g)
  case (Cons p us)
  then have c: "chain geo (Suc (pend p)) n (p_fspace_trk p) us" "pstart p \<le> pend p" by auto
  with chain_mem [OF c(1)] Cons.IH show ?case by fastforce
qed simp

text \<open>C3: the invariant of the partition table.  Whatever sequence of commands the user runs, the
  partitions in use are sorted, pairwise disjoint and between track 2 and the end of the volume,
  every format 1 or format 8 label names the tracks of its partition, and the free-space labels of
  the VTOC describe exactly the tracks that belong to no partition.\<close>

theorem session_invariant:
  assumes "session_ok geo anc" and "rtranclp (session_step y d geo) anc anc'"
  shows "sorted (map pstart (partitions anc')) \<and>
    disjoint_within {2..<tracks geo anc'} (map interval (partitions anc')) \<and>
    list_all (label_ok geo) (partitions anc') \<and>
    length (partitions anc') = unat (used_partitions anc') \<and> unat (used_partitions anc') \<le> 3 \<and>
    fs_valid (formatted_cylinders anc') (ucast (heads geo)) (a_f4 anc', a_f5 anc', a_f7 anc') \<and>
    fs_free (formatted_cylinders anc') (ucast (heads geo)) (a_f4 anc', a_f5 anc', a_f7 anc') =
      {2..<tracks geo anc'} - covered (map interval (partitions anc'))"
proof -
  have ok: "anchor_ok geo anc'" using reachable_session_ok [OF assms(2,1)] by (simp add: session_ok_def)
  note c = anchor_ok_partitions(2) [OF ok]
  have "list_all (label_ok geo) (partitions anc')" using chain_mem [OF c] by (force simp: list_all_iff)
  then show ?thesis
    using anchor_ok_partitions(3-6) [OF ok] chain_sorted [OF c] chain_disjoint_within [OF c] by auto
qed

text \<open>A volume for the examples: 100 cylinders of 15 tracks, freshly labelled.\<close>

definition example_geo :: hd_geometry where
  "example_geo = \<lparr>heads = 15, sectors = 12, cylinders = 100, geo_start = 0\<rparr>"

definition example_blank :: fdasd_anchor where
  "example_blank = fdasd_initialize_anchor\<lparr>formatted_cylinders := 100, hw_cylinders := 100, blksize := 4096,
     label_pos := 8192, silent := 1\<rparr>"

definition example_anchor :: fdasd_anchor where
  "example_anchor = (case fdasd_recreate_vtoc_unconditional example_geo example_blank of
     Inr anc \<Rightarrow> anc | Inl _ \<Rightarrow> example_blank)"

lemma example_blank_ok:
  "volume_ok example_geo example_blank" "slots_ok example_blank" "names_ok example_blank"
proof -
  show "volume_ok example_geo example_blank"
    by (simp add: volume_ok_def geo_ok_def tracks_def fs_lim_def geo_matches_def example_geo_def example_blank_def
        fdasd_initialize_anchor_def LV_COMPAT_CYL_def)
  show "slots_ok example_blank"
    by (simp add: slots_ok_def example_blank_def fdasd_initialize_anchor_def USABLE_PARTITIONS_def empty_part_def)
  show "names_ok example_blank"
    by (simp add: names_ok_def example_blank_def fdasd_initialize_anchor_def USABLE_PARTITIONS_def empty_part_def)
qed

lemma example_ok: "session_ok example_geo example_anchor" "used_partitions example_anchor = 0"
proof -
  obtain anc where "fdasd_recreate_vtoc_unconditional example_geo example_blank = Inr anc"
    "session_ok example_geo anc" "used_partitions anc = 0" by (rule fresh_session [OF example_blank_ok(1,2)])
  then show "session_ok example_geo example_anchor" "used_partitions example_anchor = 0"
    by (simp_all add: example_anchor_def)
qed

text \<open>C11: until the user writes the table the disk is not touched, and what is written is a consistent
  table that the user's commands made out of the one the session started with.\<close>

theorem session_device:
  assumes "session_ok geo anc"
  shows "\<exists>anc'. rtranclp (session_step y d geo) anc anc' \<and> session_ok geo anc' \<and>
     (snd (main_loop y d rrpart geo anc inp dev) = dev \<or>
      snd (main_loop y d rrpart geo anc inp dev) = snd (fdasd_write_labels rrpart geo anc' dev))"
  using main_loop_device [of y d geo anc rrpart inp dev] reachable_session_ok [OF _ assms] by blast


section \<open>Adding and removing\<close>

text \<open>An empty line, and the end of the input, stand for the default.\<close>

lemma read_int_enter:
  assumes "low \<le> dflt" "dflt \<le> high"
  shows "fdasd_read_int geo bs low dflt high base (0x0a # inp) = Inr (dflt, inp)"
proof -
  have "fgets 79 (0x0a # inp) = ([0x0a], inp)" using fgets.simps(3) [of 78 "0x0a" inp] by simp
  then have "read_line (0x0a # inp) = ([], inp)" by (simp add: read_line_def LINE_LENGTH_def c_isgraph_def)
  then have "skip_lines (0x0a # inp) = ([], inp)" by (subst skip_lines.simps) (simp add: cur_def)
  then show ?thesis unfolding fdasd_read_int_def using assms
    by (subst read_int.simps) (simp add: read_value_eof)
qed


text \<open>The default start is the first track outside the first two partitions.\<close>

lemma default_start_free:
  fixes a b c :: partition_info
  assumes e: "elem_ok lim a" "elem_ok lim b" and ord: "pend b \<noteq> 0 \<Longrightarrow> pend a \<noteq> 0 \<and> pend a < pstart b"
    and lim: "Suc lim < 2 ^ 64"
  defines "s \<equiv> default_start [a, b, c]"
  shows "\<not> within s a" "\<not> within s b" "2 \<le> unat s"
    "2 \<le> t \<Longrightarrow> t < unat s \<Longrightarrow> (\<exists>p \<in> {a, b}. pend p \<noteq> 0 \<and> pstart p \<le> t \<and> t \<le> pend p)"
proof -
  have ea: "unat (end_trk a + 1) = Suc (pend a)" and eb: "unat (end_trk b + 1) = Suc (pend b)"
    using e lim by (auto simp: elem_ok_def elem_unused intro!: succ_end [of _ "Suc lim"])
  define s1 where "s1 = (if within 2 a then end_trk a + 1 else 2)"
  have s: "s = (if within s1 b then end_trk b + 1 else s1)" by (simp add: s_def s1_def default_start_def)
  have pa: "pstart a \<le> pend a" "pstart b \<le> pend b" "pend b \<noteq> 0 \<Longrightarrow> 2 \<le> pstart a" "pend a \<noteq> 0 \<Longrightarrow> 2 \<le> pstart a"
    using e ord by (auto simp: elem_ok_def elem_unused)
  have w2: "within 2 a \<longleftrightarrow> pstart a \<le> 2 \<and> 2 \<le> pend a" by (simp add: within_nat)
  have u1: "unat s1 = (if within 2 a then Suc (pend a) else 2)" by (simp add: s1_def ea)
  have w1: "within s1 b \<longleftrightarrow> pstart b \<le> unat s1 \<and> unat s1 \<le> pend b" by (simp add: within_nat)
  have us: "unat s = (if within s1 b then Suc (pend b) else unat s1)" by (simp add: s eb)
  have b2: "\<not> (pstart b \<le> 2 \<and> 2 \<le> pend b)" using pa ord by fastforce
  show "\<not> within s a" unfolding within_nat us w1 u1 w2 using pa ord b2 by auto
  show "\<not> within s b" unfolding within_nat us w1 u1 w2 using pa ord b2 by auto
  show "2 \<le> unat s" unfolding us w1 u1 w2 using pa ord b2 by auto
  show "2 \<le> t \<Longrightarrow> t < unat s \<Longrightarrow> (\<exists>p \<in> {a, b}. pend p \<noteq> 0 \<and> pstart p \<le> t \<and> t \<le> pend p)"
    unfolding us w1 u1 w2 using pa ord b2 by (auto split: if_split_asm)
qed

text \<open>From a start outside all partitions the limit is the end of its gap.\<close>

lemma check_start_gap:
  assumes e: "elem_ok (unat l) a" "elem_ok (unat l) b" and ord: "pend b \<noteq> 0 \<Longrightarrow> pend a \<noteq> 0 \<and> pend a < pstart b"
    and s: "\<not> within s a" "\<not> within s b" "2 \<le> unat s" "unat s \<le> unat l"
  obtains l' where "check_start [a, b, c] 0 s l = Some (s, l')" "unat s \<le> unat l'" "unat l' \<le> unat l"
    "\<And>t p. p \<in> {a, b} \<Longrightarrow> pend p \<noteq> 0 \<Longrightarrow> unat s \<le> t \<Longrightarrow> t \<le> unat l' \<Longrightarrow> \<not> (pstart p \<le> t \<and> t \<le> pend p)"
    "unat l' = unat l \<or> (\<exists>p \<in> {a, b}. pend p \<noteq> 0 \<and> pstart p = Suc (unat l'))"
proof -
  have pa: "pstart a \<le> pend a" "pstart b \<le> pend b" "pend a \<le> unat l" "pend b \<le> unat l"
    using e by (auto simp: elem_ok_def elem_unused)
  have z: "\<not> s < start_trk p \<or> pend p \<noteq> 0 \<and> unat (start_trk p - 1) = pstart p - 1 \<and> unat s < pstart p"
    if "elem_ok (unat l) p" for p
    using that pred_start [of p] by (auto simp: elem_ok_def elem_unused word_less_nat_alt simp flip: pstart_def)
  consider (a) "s < start_trk a" | (b) "\<not> s < start_trk a" "s < start_trk b" | (l) "\<not> s < start_trk a" "\<not> s < start_trk b"
    by blast
  then show thesis
  proof cases
    case a
    then have "check_start [a, b, c] 0 s l = Some (s, start_trk a - 1)" using s by (subst check_start_0) simp
    then show thesis using a z [OF e(1)] pa ord s(3) by (intro that [of "start_trk a - 1"]) (auto dest!: ord)
  next
    case b
    then have "check_start [a, b, c] 0 s l = Some (s, start_trk b - 1)"
      using s by (subst check_start_0, subst check_start_1) simp
    then show thesis using b z [OF e(2)] pa ord s(3,1) 
      by (intro that [of "start_trk b - 1"]) (auto simp: within_nat word_less_nat_alt simp flip: pstart_def dest!: ord)
  next
    case l
    then have "check_start [a, b, c] 0 s l = Some (s, l)" using s by (subst check_start_0, subst check_start_1) simp
    then show thesis using l pa s by (intro that [of l]) (auto simp: within_nat word_less_nat_alt simp flip: pstart_def)
  qed
qed


text \<open>With the limits chosen inside a gap nothing can go wrong any more.\<close>

lemma add_from_data:
  assumes ok: "anchor_ok geo anc" and lt: "used_partitions anc < 3"
    and data: "fdasd_get_partition_data geo anc inp = Inr (Some (start, stop, ext), inp')"
    and free: "{unat start..<Suc (unat stop)} \<subseteq>
      fs_free (formatted_cylinders anc) (ucast (heads geo)) (a_f4 anc, a_f5 anc, a_f7 anc)"
  shows "\<exists>anc'. fdasd_add_partition y d geo anc inp = Inr (anc', inp') \<and>
    used_partitions anc' = used_partitions anc + 1 \<and>
    fs_free (formatted_cylinders anc) (ucast (heads geo)) (a_f4 anc', a_f5 anc', a_f7 anc') =
      fs_free (formatted_cylinders anc) (ucast (heads geo)) (a_f4 anc, a_f5 anc, a_f7 anc) -
      {unat start..<Suc (unat stop)}"
proof -
  let ?cyl = "formatted_cylinders anc" and ?trk = "ucast (heads geo) :: u32"
  let ?T = "{unat start..<Suc (unat stop)}" and ?F = "fs_free ?cyl ?trk (a_f4 anc, a_f5 anc, a_f7 anc)"
  obtain us zs where v: "vol_ok geo anc" and us: "parts anc = us @ zs" "length us + length zs = 3"
      "length us = unat (used_partitions anc)" "chain geo 2 (tracks geo anc) (fspace_trk anc) us"
    and z: "\<forall>z \<in> set zs. used z = 0 \<and> start_trk z = 0 \<and> end_trk z = 0"
    and fs: "fs_valid ?cyl ?trk (a_f4 anc, a_f5 anc, a_f7 anc)" "?F = {2..<tracks geo anc} - covered (map interval us)"
    using ok by (rule anchor_okE)
  have us3: "length us < 3" using lt us(3) by (simp add: word_less_nat_alt)
  note lim = get_partition_data_ok [OF v us(2) us3 us(4,1) z data]
  have del: "\<exists>l. vtoc_set_freespace (g4, a_f5 anc, a_f7 anc) CHR ''-'' (cchh2trk (llimit ext) geo)
      (cchh2trk (ulimit ext) geo) ?cyl ?trk = Inr l \<and> fs_free ?cyl ?trk l = ?F - ?T" for g4
  proof -
    have g: "fs_valid ?cyl ?trk (g4, a_f5 anc, a_f7 anc)" "fs_free ?cyl ?trk (g4, a_f5 anc, a_f7 anc) = ?F"
      using fs(1) by (simp_all add: fs_any_f4 [of _ _ g4 _ _ "a_f4 anc"])
    have "card (runs ?F) < fs_cap ?cyl ?trk" unfolding fs(2) using room us3 by simp
    then obtain l where "fs_del ?cyl ?trk (g4, a_f5 anc, a_f7 anc) (unat start) (Suc (unat stop)) = Inr l"
      "fs_free ?cyl ?trk l = ?F - ?T" using vfs.del_law [OF g(1), of "unat start" "Suc (unat stop)"] lim(2) free g(2) by auto
    then show ?thesis using trk_word [OF lim(4)] trk_word [OF lim(5)] by (auto simp: fs_del_def)
  qed
  then obtain L where L: "\<And>g4. vtoc_set_freespace (g4, a_f5 anc, a_f7 anc) CHR ''-'' (cchh2trk (llimit ext) geo)
      (cchh2trk (ulimit ext) geo) ?cyl ?trk = Inr (L g4)" "\<And>g4. fs_free ?cyl ?trk (L g4) = ?F - ?T" by metis
  have keep: "a_f5 (fdasd_enqueue_new_partition a) = a_f5 a" "a_f7 (fdasd_enqueue_new_partition a) = a_f7 a"
    "used_partitions (fdasd_enqueue_new_partition a) = used_partitions a" for a
    by (simp_all add: fdasd_enqueue_new_partition_def Let_def)
  show ?thesis unfolding fdasd_add_partition_def Let_def data set_freespace_def
    using lt L(2) by (simp add: USABLE_PARTITIONS_def keep L(1) split_beta)
qed

lemma add_default:
  fixes geo :: hd_geometry and anc :: fdasd_anchor
  defines "F \<equiv> fs_free (formatted_cylinders anc) (ucast (heads geo)) (a_f4 anc, a_f5 anc, a_f7 anc)"
  assumes s: "session_ok geo anc" and lt: "used_partitions anc < 3" and ne: "F \<noteq> {}"
  shows "\<exists>anc' inp' e. fdasd_add_partition y d geo anc [0x0a, 0x0a] = Inr (anc', inp') \<and>
    session_ok geo anc' \<and> used_partitions anc' = used_partitions anc + 1 \<and>
    {Min F..<e} \<subseteq> F \<and> e \<notin> F \<and> Min F < e \<and>
    fs_free (formatted_cylinders anc) (ucast (heads geo)) (a_f4 anc', a_f5 anc', a_f7 anc') = F - {Min F..<e}"
proof -
  have ok: "anchor_ok geo anc" using s by (simp add: session_ok_def)
  obtain us zs where v: "vol_ok geo anc" and us: "parts anc = us @ zs" "length us + length zs = 3"
      "length us = unat (used_partitions anc)" "chain geo 2 (tracks geo anc) (fspace_trk anc) us"
    and z: "\<forall>z \<in> set zs. used z = 0 \<and> start_trk z = 0 \<and> end_trk z = 0"
    and F: "F = {2..<tracks geo anc} - covered (map interval us)"
    using ok unfolding F_def by (rule anchor_okE)
  have "length us < 3" using lt us(3) by (simp add: word_less_nat_alt)
  then obtain a b c zs' where e: "us @ zs = [a, b, c]"
    "elem_ok (tracks geo anc - 1) a" "elem_ok (tracks geo anc - 1) b"
    "pend b \<noteq> 0 \<Longrightarrow> pend a \<noteq> 0 \<and> pend a < pstart b" "\<And>p. p \<in> set us \<longleftrightarrow> p \<in> {a, b} \<and> pend p \<noteq> 0"
    using free_element [OF us(2) _ us(4) z] by metis
  define lim where "lim = (ucast (ucast (DS4DSTRK (DS4DEVCT (a_f4 anc))) * get_usable_cylinders anc - 1 :: u32) :: u64)"
  have lim: "unat lim = tracks geo anc - 1" unfolding lim_def by (rule limit_word [OF v])
  have N: "2 < tracks geo anc" "tracks geo anc \<le> 2 ^ 31" using v tracks_bound by (auto simp: vol_ok_def)
  have inF: "t \<in> F \<longleftrightarrow> 2 \<le> t \<and> t < tracks geo anc \<and> \<not> (\<exists>p \<in> {a, b}. pend p \<noteq> 0 \<and> pstart p \<le> t \<and> t \<le> pend p)" for t
    using e(5) unfolding F covered_def interval_def by force
  define s0 where "s0 = default_start [a, b, c]"
  have s0: "\<not> within s0 a" "\<not> within s0 b" "2 \<le> unat s0"
    "\<And>t. 2 \<le> t \<Longrightarrow> t < unat s0 \<Longrightarrow> t \<notin> F"
    using default_start_free [OF e(2,3,4), where c = c] N unfolding s0_def inF by auto
  obtain t where t: "t \<in> F" using ne by blast
  then have "2 \<le> t" "t < tracks geo anc" "\<not> t < unat s0" using s0(4) [of t] by (auto simp: inF)
  then have le: "unat s0 \<le> unat lim" by (simp add: lim)
  have s0F: "unat s0 \<in> F" unfolding inF using s0(1-3) le lim N by (auto simp: within_nat)
  have "Min F = unat s0" using s0F s0(4) F by (intro Min_eqI) (auto simp: not_le [symmetric])
  obtain l where l: "check_start [a, b, c] 0 s0 lim = Some (s0, l)" "unat s0 \<le> unat l" "unat l \<le> unat lim"
    "\<And>t p. p \<in> {a, b} \<Longrightarrow> pend p \<noteq> 0 \<Longrightarrow> unat s0 \<le> t \<Longrightarrow> t \<le> unat l \<Longrightarrow> \<not> (pstart p \<le> t \<and> t \<le> pend p)"
    "unat l = unat lim \<or> (\<exists>p \<in> {a, b}. pend p \<noteq> 0 \<and> pstart p = Suc (unat l))"
    by (rule check_start_gap [where c = c, OF e(2,3) [folded lim] e(4) s0(1-3) le]) (assumption | blast)+
  have sub: "{unat s0..<Suc (unat l)} \<subseteq> F" unfolding inF subset_iff using l(2-4) s0(3) lim N by auto
  have out: "Suc (unat l) \<notin> F" unfolding inF using l(5) lim N e(2,3) by (auto simp: elem_ok_def elem_unused)
  obtain ext inp' where "fdasd_get_partition_data geo anc [0x0a, 0x0a] = Inr (Some (s0, l, ext), inp')"
  proof -
    have "\<not> s0 > lim" "s0 \<le> lim" "s0 \<le> l" using le l(2) by (auto simp: word_less_nat_alt word_le_nat_alt)
    then show thesis using that l(1) heads_nz [OF v]
      unfolding fdasd_get_partition_data_def Let_def us(1) e(1) lim_def [symmetric] s0_def [symmetric]
      by (simp add: read_int_enter del: if_split) (cases "s0 = l"; simp add: read_int_enter)
  qed
  from add_from_data [OF ok lt this, of y d] sub obtain anc' where
    "fdasd_add_partition y d geo anc [0x0a, 0x0a] = Inr (anc', inp')" "used_partitions anc' = used_partitions anc + 1"
    "fs_free (formatted_cylinders anc) (ucast (heads geo)) (a_f4 anc', a_f5 anc', a_f7 anc') = F - {unat s0..<Suc (unat l)}"
    unfolding F_def by auto
  then show ?thesis using sub out l(2) add_session [OF s] \<open>Min F = unat s0\<close>
    by (intro exI [of _ anc'] exI [of _ inp'] exI [of _ "Suc (unat l)"]) auto
qed

text \<open>C6: a user who presses return at both questions of the command \<open>n\<close> gets a partition whenever
  there is a free track and fewer than three partitions exist: the new partition is the first gap,
  from its first free track to the last track before the next partition or the end of the volume,
  and the free-space labels lose exactly these tracks.\<close>

theorem add_default_succeeds:
  fixes geo :: hd_geometry and anc :: fdasd_anchor
  defines "F \<equiv> fs_free (formatted_cylinders anc) (ucast (heads geo)) (a_f4 anc, a_f5 anc, a_f7 anc)"
  assumes "session_ok geo anc" and "used_partitions anc < 3" and "F \<noteq> {}"
  shows "\<exists>anc' inp' e. fdasd_add_partition y d geo anc [0x0a, 0x0a] = Inr (anc', inp') \<and>
    session_ok geo anc' \<and> used_partitions anc' = used_partitions anc + 1 \<and>
    {Min F..<e} \<subseteq> F \<and> e \<notin> F \<and> Min F < e \<and>
    fs_free (formatted_cylinders anc) (ucast (heads geo)) (a_f4 anc', a_f5 anc', a_f7 anc') = F - {Min F..<e}"
  using add_default [OF assms(2,3)] assms(4) unfolding F_def by blast

end
