(* ===== verification/Fdasd_Start.thy ===== *)
theory Fdasd_Start
  imports Fdasd_Volume Fdasd_Session
begin

text \<open>
  Starting a session: on a disk without a usable VTOC \<open>fdasd_check_volume\<close> makes fresh labels, and
  the session starts with a consistent, empty table.
\<close>

section \<open>Fresh labels\<close>

text \<open>The anchor before the volume is checked: the geometry is known, the list is empty.\<close>

definition start_ok :: "hd_geometry \<Rightarrow> fdasd_anchor \<Rightarrow> bool" where
  "start_ok geo anc \<longleftrightarrow> volume_ok geo (anc\<lparr>formatted_cylinders := hw_cylinders anc\<rparr>) \<and> length (parts anc) = 3 \<and>
     (\<forall>p \<in> set (parts anc). used p = 0 \<and> start_trk p = 0 \<and> end_trk p = 0) \<and> used_partitions anc = 0"

lemma fresh_labels_ok:
  assumes v: "volume_ok geo anc" and p: "length (parts anc) = 3"
    "\<forall>p \<in> set (parts anc). used p = 0 \<and> start_trk p = 0 \<and> end_trk p = 0" "used_partitions anc = 0"
    and fs: "fspace_trk anc = ucast (formatted_cylinders anc * ucast (heads geo) - of_nat FIRST_USABLE_TRK)"
  shows "\<exists>anc'. fresh_labels geo anc = Inr anc' \<and> session_ok geo anc'"
proof (rule unused_table [OF v])
  fix g4 g5 g7
  let ?n = "formatted_cylinders anc * ucast (heads geo)" and ?anc = "anc\<lparr>a_f4 := g4, a_f5 := g5, a_f7 := g7\<rparr>"
  assume g: "vtoc_set_freespace (init_labels geo anc, vtoc_init_format5_label, vtoc_init_format7_label) CHR ''+''
       (of_nat FIRST_USABLE_TRK) (?n - 1) (formatted_cylinders anc) (ucast (heads geo)) = Inr (g4, g5, g7)"
  assume table: "\<And>anc'. a_f4 anc' = g4 \<Longrightarrow> a_f5 anc' = g5 \<Longrightarrow> a_f7 anc' = g7 \<Longrightarrow> blksize anc' = blksize anc \<Longrightarrow>
       formatted_cylinders anc' = formatted_cylinders anc \<Longrightarrow> length (parts anc') = 3 \<Longrightarrow>
       \<forall>p \<in> set (parts anc'). used p = 0 \<and> start_trk p = 0 \<and> end_trk p = 0 \<Longrightarrow> used_partitions anc' = 0 \<Longrightarrow>
       fspace_trk anc' = ucast (?n - of_nat FIRST_USABLE_TRK) \<Longrightarrow> anchor_ok geo anc' \<and> volume_ok geo anc'"
  have "fresh_labels geo anc = Inr ?anc"
    using g by (simp add: fresh_labels_def set_freespace_def init_labels_def)
  moreover have "anchor_ok geo ?anc \<and> volume_ok geo ?anc" using p fs by (intro table) simp_all
  moreover have "names_ok ?anc" using p(2) by (simp add: names_ok_def)
  ultimately show ?thesis by (simp add: session_ok_def)
qed

text \<open>The counters of changes, the volume label and the like play no role.\<close>

lemma session_labels:
  "session_ok geo anc \<Longrightarrow> session_ok geo (anc\<lparr>vlabel := v, vtoc_changed := a, vlabel_changed := b\<rparr>)"
proof -
  let ?a = "anc\<lparr>vlabel := v, vtoc_changed := a, vlabel_changed := b\<rparr>"
  have va: "vol_ok geo ?a = vol_ok geo anc" "tracks geo ?a = tracks geo anc" by (rule vol_ok_cong; simp)+
  have "volume_ok geo ?a = volume_ok geo anc" by (rule volume_ok_cong; simp)
  moreover have "anchor_ok geo ?a = anchor_ok geo anc" unfolding anchor_ok_def va by simp
  ultimately show "session_ok geo anc \<Longrightarrow> session_ok geo ?a" by (simp add: session_ok_def names_ok_def)
qed

lemma all_formatted_ok:
  assumes s: "start_ok geo anc"
    and eq: "parts anc' = parts anc" "hw_cylinders anc' = hw_cylinders anc" "blksize anc' = blksize anc"
      "used_partitions anc' = used_partitions anc"
    and fs: "formatted_cylinders anc' = hw_cylinders anc"
      "fspace_trk anc' = ucast (hw_cylinders anc * ucast (heads geo) - of_nat FIRST_USABLE_TRK)"
  shows "\<exists>a. fresh_labels geo anc' = Inr a \<and> session_ok geo a"
proof (rule fresh_labels_ok)
  have "volume_ok geo anc' = volume_ok geo (anc\<lparr>formatted_cylinders := hw_cylinders anc\<rparr>)"
    by (rule volume_ok_cong; simp add: eq fs)
  then show "volume_ok geo anc'" using s by (simp add: start_ok_def)
qed (use s eq fs in \<open>auto simp: start_ok_def\<close>)

lemma invalid_vtoc_session:
  assumes s: "start_ok geo anc" and r: "fdasd_process_invalid_vtoc geo anc inp = Inr (anc', inp')"
  shows "session_ok geo anc'"
proof -
  obtain a where a: "fresh_labels geo (all_formatted geo anc) = Inr a" "session_ok geo a"
    using all_formatted_ok [OF s, of "all_formatted geo anc"] by (auto simp: all_formatted_def)
  have "anc' = a\<lparr>vlabel := vlabel a, vtoc_changed := vtoc_changed a + 1, vlabel_changed := vlabel_changed a\<rparr>"
    using r a(1) by (auto simp: fdasd_process_invalid_vtoc_def bind_err_Inr)
  then show ?thesis using session_labels [OF a(2)] by metis
qed

lemma invalid_pointer_session:
  assumes s: "start_ok geo anc" and r: "fdasd_invalid_vtoc_pointer geo anc inp = Inr (anc', inp')"
  shows "session_ok geo anc'"
proof -
  obtain a where a: "fresh_labels geo (all_formatted geo anc) = Inr a" "session_ok geo a"
    using all_formatted_ok [OF s, of "all_formatted geo anc"] by (auto simp: all_formatted_def)
  have "\<exists>v b c. anc' = a\<lparr>vlabel := v, vtoc_changed := b, vlabel_changed := c\<rparr>"
    using r a(1) by (auto simp: fdasd_invalid_vtoc_pointer_def split_beta Let_def bind_err_Inr split: if_split_asm)
  then show ?thesis using session_labels [OF a(2)] by metis
qed

lemma init_volume_label_frame:
  "fdasd_init_volume_label opts dev anc inp = Inr (anc', inp') \<Longrightarrow> \<exists>v b. anc' = anc\<lparr>vlabel := v, vlabel_changed := b\<rparr>"
  by (auto simp: fdasd_init_volume_label_def Let_def bind_err_Inr)

lemma start_ok_cong:
  assumes "parts anc' = parts anc" "hw_cylinders anc' = hw_cylinders anc" "blksize anc' = blksize anc"
    "used_partitions anc' = used_partitions anc"
  shows "start_ok geo anc' = start_ok geo anc"
proof -
  have "volume_ok geo (anc'\<lparr>formatted_cylinders := hw_cylinders anc'\<rparr>) =
      volume_ok geo (anc\<lparr>formatted_cylinders := hw_cylinders anc\<rparr>)"
    by (rule volume_ok_cong; simp add: assms)
  then show ?thesis by (simp add: start_ok_def assms)
qed

text \<open>There is a VTOC: the volume label says \<open>VOL1\<close>, its pointer is valid and points to a format 4
  label.\<close>

definition has_vtoc :: "hd_geometry \<Rightarrow> device \<Rightarrow> fdasd_anchor \<Rightarrow> bool" where
  "has_vtoc geo dev anc \<longleftrightarrow>
     (case vtoc_read_volume_label dev (unat (label_pos anc)) of
        Inl _ \<Rightarrow> False
      | Inr v \<Rightarrow>
          let blk = (cchhb2blk (vtoc v) geo - 1) * ucast (blksize anc) in
          has_label ''VOL1'' v \<and> sint blk > 0 \<and>
          (case vtoc_read_label dev (unat blk) False True False False of
             Inl _ \<Rightarrow> False | Inr (_, f4, _) \<Rightarrow> DS4IDFMT (the f4) = 0xf4))"

lemma check_volume_session:
  assumes s: "start_ok geo anc" and nv: "\<not> has_vtoc geo dev anc"
    and r: "fdasd_check_volume geo opts dev anc inp = Inr (anc', inp', 0)"
  shows "session_ok geo anc'"
proof -
  obtain v where v: "vtoc_read_volume_label dev (unat (label_pos anc)) = Inr v"
    using r by (auto simp: fdasd_check_volume_def bind_err_Inr)
  define a where "a = anc\<lparr>vlabel := v\<rparr>"
  have sa: "start_ok geo a" using s by (subst start_ok_cong [of _ anc]) (simp_all add: a_def)
  define blk where "blk = (cchhb2blk (vtoc v) geo - 1) * ucast (blksize a)"
  have bs: "blksize anc = blksize a" by (simp add: a_def)
  show ?thesis
  proof (cases "has_label ''VOL1'' v")
    case vol1: True
    show ?thesis
    proof (cases "0 < sint blk")
      case True
      obtain anc1 inp1 rc where p: "fdasd_valid_vtoc_pointer geo dev a blk inp = Inr (anc1, inp1, rc)"
        "anc' = anc1" "print_table anc1 = 0 \<or> \<not> rc < 0"
        using r vol1 True unfolding fdasd_check_volume_def v
        by (auto simp: bind_err_Inr blk_def [symmetric] a_def [symmetric] Let_def split: if_split_asm)
      obtain x f4 y where f4: "vtoc_read_label dev (unat blk) False True False False = Inr (x, f4, y)"
        using p(1) by (auto simp: fdasd_valid_vtoc_pointer_def bind_err_Inr)
      have id: "DS4IDFMT (the f4) \<noteq> 0xf4"
        using nv v vol1 True f4 by (simp add: has_vtoc_def bs blk_def [symmetric] Let_def)
      have "fdasd_process_invalid_vtoc geo (a\<lparr>a_f4 := the f4\<rparr>) inp = Inr (anc1, inp1)"
        using p(1,3) id f4 by (auto simp: fdasd_valid_vtoc_pointer_def bind_err_Inr Let_def split: if_split_asm)
      moreover have "start_ok geo (a\<lparr>a_f4 := the f4\<rparr>)" using sa by (subst start_ok_cong [of _ a]) simp_all
      ultimately show ?thesis using invalid_vtoc_session p(2) by blast
    next
      case False
      then have "fdasd_invalid_vtoc_pointer geo a inp = Inr (anc', inp')"
        using r vol1 unfolding fdasd_check_volume_def v
        by (auto simp: bind_err_Inr blk_def [symmetric] a_def [symmetric] Let_def split: if_split_asm)
      then show ?thesis by (rule invalid_pointer_session [OF sa])
    qed
  next
    case False
    obtain i1 a1 i2 a2 where l: "fdasd_init_volume_label opts dev (all_formatted geo a) i1 = Inr (a1, i2)"
      "fresh_labels geo a1 = Inr a2" "anc' = a2\<lparr>vtoc_changed := vtoc_changed a2 + 1\<rparr>"
      using r False unfolding fdasd_check_volume_def v
      by (auto simp: bind_err_Inr a_def [symmetric] Let_def split_beta split: if_split_asm)
    obtain w b where a1: "a1 = (all_formatted geo a)\<lparr>vlabel := w, vlabel_changed := b\<rparr>"
      using init_volume_label_frame [OF l(1)] by blast
    have "session_ok geo a2"
      using all_formatted_ok [OF sa, of a1] l(2) by (auto simp: a1 all_formatted_def)
    from session_labels [OF this, where v = "vlabel a2" and a = "vtoc_changed a2 + 1" and b = "vlabel_changed a2"] show ?thesis
      by (simp add: l(3))
  qed
qed

text \<open>C13: on a disk without a usable VTOC the session starts with a consistent, empty table: when the
  volume label is missing, or its VTOC pointer is invalid, or there is no format 4 label where it
  points, and the program goes on at all, the invariant of a session holds.\<close>

theorem start_without_vtoc:
  assumes "start_ok geo anc" and "\<not> has_vtoc geo dev anc"
    and "fdasd_check_volume geo opts dev anc inp = Inr (anc', inp', 0)"
  shows "session_ok geo anc'"
  by (rule check_volume_session [OF assms])


definition blank_dev :: device where
  "blank_dev = \<lparr>dev_name = ''/dev/dasda'', content = replicate 65536 0, open_rdonly = True, open_wronly = True,
     seek_ok = (\<lambda>_. True)\<rparr>"

theorem start_without_vtoc_witness:
  "\<exists>anc' inp'. fdasd_check_volume example_geo \<lparr>device_opt = None, volser_opt = None, conffile_opt = None\<rparr> blank_dev
      (example_blank\<lparr>auto_partition := 1\<rparr>) [] = Inr (anc', inp', 0) \<and> session_ok example_geo anc'"
proof -
  let ?anc = "example_blank\<lparr>auto_partition := 1\<rparr>" and ?v = "fst (dec_vlabel (replicate 92 0))"
    and ?o = "\<lparr>device_opt = None, volser_opt = None, conffile_opt = None\<rparr>"
  have pos: "label_pos ?anc = 8192" "hw_cylinders ?anc = 100" by (simp_all add: example_blank_def)
  have "fd_read blank_dev 8192 92 = replicate 92 0" by (simp add: fd_read_def blank_dev_def)
  then have v: "vtoc_read_volume_label blank_dev (unat (label_pos ?anc)) = Inr ?v"
    unfolding pos by (simp add: vtoc_read_volume_label_def) (simp add: blank_dev_def)
  have l: "\<not> has_label ''VOL1'' ?v" "\<not> has_label ''LNX1'' ?v" by code_simp+
  have nv: "\<not> has_vtoc example_geo blank_dev ?anc" unfolding has_vtoc_def v using l by (simp add: Let_def)
  have "volume_ok example_geo (?anc\<lparr>formatted_cylinders := hw_cylinders ?anc\<rparr>) = volume_ok example_geo example_blank"
    by (rule volume_ok_cong; simp add: example_blank_def)
  then have s: "start_ok example_geo ?anc" using example_blank_ok(1)
    by (simp add: start_ok_def example_blank_def fdasd_initialize_anchor_def USABLE_PARTITIONS_def empty_part_def)
  then have sv: "start_ok example_geo (?anc\<lparr>vlabel := ?v\<rparr>)" by (subst start_ok_cong [of _ ?anc]) simp_all
  obtain a1 where a1: "fdasd_init_volume_label ?o blank_dev (all_formatted example_geo (?anc\<lparr>vlabel := ?v\<rparr>)) [] = Inr (a1, [])"
    by (simp add: fdasd_init_volume_label_def all_formatted_def example_blank_def fdasd_initialize_anchor_def Let_def)
  obtain w b where "a1 = (all_formatted example_geo (?anc\<lparr>vlabel := ?v\<rparr>))\<lparr>vlabel := w, vlabel_changed := b\<rparr>"
    using init_volume_label_frame [OF a1] by blast
  then obtain a2 where a2: "fresh_labels example_geo a1 = Inr a2"
    using all_formatted_ok [OF sv, of a1] by (auto simp: all_formatted_def)
  have p0: "print_table ?anc = 0" "print_volser ?anc = 0" "auto_partition ?anc = 1"
    by (simp_all add: example_blank_def fdasd_initialize_anchor_def)
  have "fdasd_check_volume example_geo ?o blank_dev ?anc [] = Inr (a2\<lparr>vtoc_changed := vtoc_changed a2 + 1\<rparr>, [], 0)"
    unfolding fdasd_check_volume_def v using l a1 a2 p0 pos(2)
    by (simp add: confirm_formatted_def Let_def LV_COMPAT_CYL_def)
  then show ?thesis using start_without_vtoc [OF s nv] by blast
qed

end
