(* ===== verification/Fdasd_Conf.thy ===== *)
theory Fdasd_Conf
  imports Fdasd_Write
begin

text \<open>
  Partitioning from a configuration file: the parser, the checks on its entries and the partition
  table made from them (\<open>fdasd_parse_conffile\<close>, \<open>fdasd_check_conffile_input\<close>,
  \<open>fdasd_auto_partition_conffile\<close>), and the checks on combinations of command line options.  An
  accepted file gives a table that satisfies the invariant \<open>anchor_ok\<close>.
\<close>

section \<open>Parsing\<close>

definition CONFIG_FILE_SIZE :: nat where "CONFIG_FILE_SIZE = USABLE_PARTITIONS * LINE_LENGTH"
definition CONFIG_MAX :: nat where "CONFIG_MAX = 3"

text \<open>\<open>strtok\<close> with one delimiter: the non-empty pieces.\<close>

fun pieces :: "u8 \<Rightarrow> bytes \<Rightarrow> bytes list" where
  "pieces ch [] = [[]]"
| "pieces ch (c # s) = (if c = ch then [] # pieces ch s
     else case pieces ch s of [] \<Rightarrow> [[c]] | p # ps \<Rightarrow> (c # p) # ps)"

definition gettoken :: "bytes \<Rightarrow> u8 \<Rightarrow> nat \<Rightarrow> bytes list" where
  "gettoken str ch n = take n (filter (\<lambda>t. t \<noteq> []) (pieces ch str))"

text \<open>A track number of an entry: the given value if the keyword occurs, a number that is not 0
  otherwise.\<close>

definition conf_number :: "string \<Rightarrow> u64 \<Rightarrow> bytes \<Rightarrow> u64 option" where
  "conf_number keyword val token =
     (if c_strstr token (bytes_of keyword) \<noteq> None then Some val
      else let (v, erange) = strtol10 token in
        if erange \<or> (word_of_int v :: u64) = 0 then None else Some (word_of_int v))"

definition conf_entry :: "hd_geometry \<Rightarrow> fdasd_anchor \<Rightarrow> string \<Rightarrow> bytes \<Rightarrow> stop + config_data" where
  "conf_entry geo anc file s =
     (let token = gettoken s 0x2c CONFIG_MAX;
          err = (\<lambda>m. Inl (Fail config_syntax_error (m @ file @ ''\<newline>'')))
      in if length token < 2 then err ''Missing parameter in config file ''
         else case conf_number ''FIRST'' first_trk (token ! 0) of
           None \<Rightarrow> err ''invalid partition start in config file ''
         | Some start \<Rightarrow>
             (case conf_number ''LAST'' (ucast (formatted_cylinders anc * ucast (heads geo) - 1)) (token ! 1) of
                None \<Rightarrow> err ''invalid partition end in config file ''
              | Some stop \<Rightarrow>
                  (case get_part_type_by_dsname (if length token < 3 then None else Some (token ! 2)) of
                     None \<Rightarrow> err ''invalid partition type in config file ''
                   | Some t \<Rightarrow> Inr \<lparr>c_start = start, c_stop = stop, c_type = t\<rparr>)))"

fun conf_entries ::
  "hd_geometry \<Rightarrow> fdasd_anchor \<Rightarrow> string \<Rightarrow> nat \<Rightarrow> nat \<Rightarrow> bytes \<Rightarrow> config_data list \<Rightarrow> stop + config_data list" where
  "conf_entries geo anc file 0 i s cs = Inr cs"
| "conf_entries geo anc file (Suc n) i s cs =
     (case c_strchr s 0x5b of
        None \<Rightarrow> Inr cs
      | Some a \<Rightarrow>
          let s = drop (a + 1) s in
          (case c_strchr s 0x5d of
             None \<Rightarrow> Inl (Fail config_syntax_error ([CHR 0x27] @ '']'' @ [CHR 0x27] @
               '' missing in config file '' @ file @ ''\<newline>''))
           | Some b \<Rightarrow>
               bind_err (conf_entry geo anc file (take b s)) (\<lambda>c.
                 conf_entries geo anc file n (i + 1) (drop (b + 1) s) (cs[i := c]))))"

text \<open>The configuration file as \<open>open\<close> and \<open>read\<close> see it.\<close>

datatype conf_file = cannot_open | cannot_read | conf_bytes bytes

definition fdasd_parse_conffile ::
  "hd_geometry \<Rightarrow> fdasd_options \<Rightarrow> conf_file \<Rightarrow> fdasd_anchor \<Rightarrow> stop + fdasd_anchor" where
  "fdasd_parse_conffile geo opts conf anc =
     (let file = (case conffile_opt opts of Some f \<Rightarrow> f | None \<Rightarrow> ''/etc/fdasd.conf'') in
      case conf of
        cannot_open \<Rightarrow> Inl (Fail unable_to_open_disk (''Could not open config file '' @ [CHR 0x27] @ file @ [CHR 0x27] @
          '' in read-only mode!\<newline>''))
      | cannot_read \<Rightarrow> Inr anc
      | conf_bytes bs \<Rightarrow>
          bind_err (conf_entries geo anc file USABLE_PARTITIONS 0
              (map c_toupper (take CONFIG_FILE_SIZE bs)) (confdata anc))
            (\<lambda>cs. Inr (anc\<lparr>confdata := cs\<rparr>)))"


section \<open>Checking\<close>

text \<open>The conversion \<open>%ld\<close>.\<close>

fun nat_digits :: "nat \<Rightarrow> string" where
  "nat_digits n = (if n < 10 then [char_of (48 + n)] else nat_digits (n div 10) @ [char_of (48 + n mod 10)])"

definition show_long :: "u64 \<Rightarrow> string" where
  "show_long w = (if sint w < 0 then CHR ''-'' # nat_digits (nat (- sint w)) else nat_digits (nat (sint w)))"

definition conf_error :: "string \<Rightarrow> u64 \<Rightarrow> config_data list \<Rightarrow> nat \<Rightarrow> string option" where
  "conf_error file last_trk cs i =
     (let start = c_start (cs ! i); stop = c_stop (cs ! i);
          range = ('' is not within the range of\<newline>'', '' ('' @ show_long first_trk @ ''-'' @ show_long last_trk @ '')!\<newline>'')
      in if start < first_trk \<or> start > last_trk then
           Some (''One of the lower partition limits ('' @ show_long start @ '')'' @ fst range @
             ''available tracks on disk'' @ snd range)
         else if stop < first_trk \<or> stop > last_trk then
           Some (''One of the upper partition limits ('' @ show_long stop @ '')'' @ fst range @
             '' available tracks on disk'' @ snd range)
         else if start \<ge> stop then
           Some (''Lower partition limit ('' @ show_long start @ '') is not less than upper partition\<newline>limit ('' @
             show_long stop @ '') in config file '' @ file @ ''!\<newline>'')
         else if i > 0 \<and> start \<le> c_stop (cs ! (i - 1)) then
           Some ''Partitions overlap or are not in ascending order!\<newline>''
         else if i < USABLE_PARTITIONS - 1 \<and> c_start (cs ! (i + 1)) > 0 \<and> stop \<ge> c_start (cs ! (i + 1)) then
           Some ''Partitions overlap or are not in ascending order!\<newline>''
         else None)"

fun check_entries ::
  "string \<Rightarrow> u64 \<Rightarrow> config_data list \<Rightarrow> nat \<Rightarrow> partition_info list \<Rightarrow> u64 \<Rightarrow> stop + u64 \<times> partition_info list" where
  "check_entries file last_trk cs i [] fs = Inr (fs, [])"
| "check_entries file last_trk cs i (p # ps) fs =
     (let start = c_start (cs ! i); stop = c_stop (cs ! i) in
      if start = 0 \<or> stop = 0 then Inr (fs, p # ps)
      else case conf_error file last_trk cs i of
        Some m \<Rightarrow> Inl (Fail config_syntax_error m)
      | None \<Rightarrow>
          let gap = (if i < USABLE_PARTITIONS - 1 \<and> c_start (cs ! (i + 1)) \<noteq> 0
                then c_start (cs ! (i + 1)) - stop - 1 else last_trk - stop);
              p = p\<lparr>used := 0x01, start_trk := start, end_trk := stop, len_trk := stop - start + 1,
                p_type := c_type (cs ! i), p_fspace_trk := gap\<rparr>
          in bind_err (check_entries file last_trk cs (i + 1) ps (if i = 0 then start - first_trk else fs))
               (\<lambda>(fs, ps). Inr (fs, p # ps)))"

definition fdasd_check_conffile_input ::
  "hd_geometry \<Rightarrow> fdasd_options \<Rightarrow> fdasd_anchor \<Rightarrow> stop + fdasd_anchor" where
  "fdasd_check_conffile_input geo opts anc =
     (let file = (case conffile_opt opts of Some f \<Rightarrow> f | None \<Rightarrow> ''/etc/fdasd.conf'') in
      bind_err (check_entries file (ucast (formatted_cylinders anc * ucast (heads geo) - 1)) (confdata anc) 0
          (parts anc) (fspace_trk anc))
        (\<lambda>(fs, ps). Inr (anc\<lparr>fspace_trk := fs, parts := ps\<rparr>)))"


section \<open>Making the table\<close>

text \<open>The type is written over \<open>.NEW\<close>, with the zero byte that ends the string.\<close>

definition typed_label :: "int \<Rightarrow> format1_label_t \<Rightarrow> stop + format1_label_t" where
  "typed_label type f1 =
     (let img = enc_f1 (f1\<lparr>DS1DSNAM := vtoc_ebcdic_dec (DS1DSNAM f1) (DS1DSNAM f1) 44\<rparr>) in
      bind_err (get_part_dsname_by_type (word_of_int type)) (\<lambda>dsname.
        case (c_strstr img (bytes_of ''.NEW''), dsname) of
          (Some i, Some s) \<Rightarrow>
            let f1 = fst (dec_f1 (overwrite img i (0x2e # s @ [0])))
            in Inr (f1\<lparr>DS1DSNAM := vtoc_ebcdic_enc (DS1DSNAM f1) (DS1DSNAM f1) 44\<rparr>)
        | _ \<Rightarrow> Inl Crash))"

definition conf_extent :: "hd_geometry \<Rightarrow> partition_info \<Rightarrow> extent_t" where
  "conf_extent geo p =
     (let H = ucast (heads geo);
          llim = vtoc_set_cchh (ucast (start_trk p div H)) (ucast (start_trk p mod H));
          ulim = vtoc_set_cchh (ucast (end_trk p div H)) (ucast (end_trk p mod H))
      in vtoc_set_extent (if vtoc_get_head_from_cchh llim = 0 then 0x81 else 0x01) 0x00 llim ulim)"

fun conf_parts ::
  "int \<Rightarrow> int \<Rightarrow> hd_geometry \<Rightarrow> partition_info list \<Rightarrow> fdasd_anchor \<Rightarrow> stop + partition_info list \<times> fdasd_anchor" where
  "conf_parts y d geo [] anc = Inr ([], anc)"
| "conf_parts y d geo (p # ps) anc =
     (if used p \<noteq> 0x01 then
        bind_err (conf_parts y d geo ps anc) (\<lambda>(ps, anc). Inr (p # ps, anc))
      else if heads geo = 0 then Inl Crash
      else
        let f1 = init_f1_label y d anc (conf_extent geo p) (p_f1 p);
            anc = anc\<lparr>used_partitions := used_partitions anc + 1\<rparr>;
            hf1 = get_addr_of_highest_f1_f8_label anc;
            anc = anc\<lparr>a_f4 := vtoc_update_format4_label (a_f4 anc) hf1 (DS4DSREC (a_f4 anc) - 1)\<rparr>;
            start = end_trk p + 1;
            stop = start + p_fspace_trk p - 1
        in bind_err (if p_fspace_trk p \<noteq> 0
             then set_freespace anc CHR ''+'' (ucast start) (ucast stop) (formatted_cylinders anc) (ucast (heads geo))
             else Inr anc) (\<lambda>anc.
           bind_err (typed_label (p_type p) f1) (\<lambda>f1.
           bind_err (conf_parts y d geo ps anc) (\<lambda>(ps, anc). Inr (p\<lparr>p_f1 := f1\<rparr> # ps, anc)))))"

definition conf_table :: "int \<Rightarrow> int \<Rightarrow> hd_geometry \<Rightarrow> fdasd_anchor \<Rightarrow> stop + fdasd_anchor" where
  "conf_table y d geo anc =
     (let anc = anc\<lparr>a_f4 := init_labels geo anc, a_f5 := vtoc_init_format5_label, a_f7 := vtoc_init_format7_label\<rparr>
      in bind_err (if fspace_trk anc \<noteq> 0
           then set_freespace anc CHR ''+'' (ucast first_trk) (ucast (first_trk + fspace_trk anc - 1))
             (formatted_cylinders anc) (ucast (heads geo))
           else Inr anc) (\<lambda>anc.
         bind_err (conf_parts y d geo (parts anc) anc) (\<lambda>(ps, anc).
           Inr (anc\<lparr>parts := ps, vtoc_changed := vtoc_changed anc + 1\<rparr>))))"

definition fdasd_auto_partition_conffile ::
  "int \<Rightarrow> int \<Rightarrow> int \<Rightarrow> hd_geometry \<Rightarrow> fdasd_options \<Rightarrow> fdasd_anchor \<Rightarrow> bytes \<Rightarrow> device \<Rightarrow> stop \<times> device" where
  "fdasd_auto_partition_conffile y d rrpart geo opts anc inp dev =
     (case bind_err (fdasd_init_volume_label opts dev anc inp) (\<lambda>(anc, inp). conf_table y d geo anc) of
        Inl e \<Rightarrow> (e, dev)
      | Inr anc \<Rightarrow>
          (case fdasd_write_labels rrpart geo anc dev of
             (Inl e, dev) \<Rightarrow> (e, dev)
           | (Inr anc, dev) \<Rightarrow> (Exit 0, dev)))"


section \<open>Option combinations\<close>

definition fdasd_verify_options :: "fdasd_options \<Rightarrow> fdasd_anchor \<Rightarrow> stop + unit" where
  "fdasd_verify_options opts anc =
     (let volser = volser_opt opts \<noteq> None; conffile = conffile_opt opts \<noteq> None;
          keep = keep_volser anc \<noteq> 0; auto = auto_partition anc \<noteq> 0; tab = print_table anc \<noteq> 0;
          err = (\<lambda>m. Inl (Fail parser_failed m))
      in if print_volser anc \<noteq> 0 \<and> (volser \<or> keep \<or> auto \<or> conffile \<or> tab) then
           err ''Option 'volser' cannot be used with other options.\<newline>''
         else if volser \<and> \<not> auto \<and> \<not> conffile then
           err ''Option 'auto' or 'config' required when specifying 'label'\<newline>''
         else if volser \<and> (keep \<or> tab) then
           err ''Option 'label' cannot be used with 'keep_volser' and 'table'.\<newline>''
         else if keep \<and> \<not> auto \<and> \<not> conffile then
           err ''Option 'auto' or 'config' required when specifying 'keep_volser'\<newline>''
         else if keep \<and> tab then err ''Option 'keep_volser' cannot be used with 'table'.\<newline>''
         else if auto \<and> (conffile \<or> tab) then
           err ''Option 'auto' cannot be used with 'config' and 'table'.\<newline>''
         else if conffile \<and> tab then err ''Option 'config' cannot be used with 'table'.\<newline>''
         else Inr ())"

end
