(* ===== verification/Fdasd_Conf_Table.thy ===== *)
theory Fdasd_Conf_Table
  imports Fdasd_Conf Fdasd_Session
begin

text \<open>
  What a configuration file can do: a file that passes the checks gives exactly the partitions it
  names, in a table that satisfies the invariant \<open>anchor_ok\<close>.
\<close>

section \<open>Entries\<close>

definition entry_ok :: "config_data \<Rightarrow> bool" where
  "entry_ok c \<longleftrightarrow> (c_start c = 0 \<longleftrightarrow> c_stop c = 0) \<and> (c_start c \<noteq> 0 \<longrightarrow> c_type c \<in> {1, 2, 3, 4, 5})"

lemma part_type_range:
  "get_part_type_by_dsname s = Some t \<Longrightarrow> t \<in> {1, 2, 3, 4, 5}"
  by (auto simp: get_part_type_by_dsname_def PARTITION_NATIVE_def match_type_def partition_types_def
      split: option.split_asm if_split_asm)

lemma conf_number_nz: "conf_number k v t = Some w \<Longrightarrow> v \<noteq> 0 \<Longrightarrow> w \<noteq> 0"
  by (auto simp: conf_number_def split_beta Let_def split: if_split_asm)

lemma conf_entry_ok:
  assumes "conf_entry geo anc file s = Inr c" and "ucast (formatted_cylinders anc * ucast (heads geo) - 1) \<noteq> (0 :: u64)"
  shows "entry_ok c"
  using assms conf_number_nz part_type_range
  by (fastforce simp: conf_entry_def entry_ok_def Let_def split: if_split_asm option.split_asm)

lemma conf_entries_ok:
  assumes "conf_entries geo anc file n i s cs = Inr cs'" "\<forall>c \<in> set cs. entry_ok c"
    and "ucast (formatted_cylinders anc * ucast (heads geo) - 1) \<noteq> (0 :: u64)"
  shows "(\<forall>c \<in> set cs'. entry_ok c) \<and> length cs' = length cs"
  using assms
proof (induction n arbitrary: i s cs)
  case (Suc n)
  show ?case
  proof (cases "c_strchr s 0x5b")
    case None
    with Suc show ?thesis by simp
  next
    case (Some a)
    then obtain b c where "conf_entry geo anc file (take b (drop (a + 1) s)) = Inr c"
      "conf_entries geo anc file n (i + 1) (drop (b + 1) (drop (a + 1) s)) (cs[i := c]) = Inr cs'"
      using Suc.prems(1) by (auto simp: Let_def bind_err_Inr split: option.split_asm)
    moreover from this(1) have "entry_ok c" using conf_entry_ok Suc.prems(3) by blast
    then have "\<forall>x \<in> set (cs[i := c]). entry_ok x"
      using Suc.prems(2) by (auto dest!: set_update_subset_insert [THEN subsetD])
    ultimately show ?thesis using Suc.IH Suc.prems(3) by fastforce
  qed
qed simp


section \<open>The checks\<close>

text \<open>Partitions as the checks leave them: like \<open>chain\<close>, with a type and without labels.\<close>

fun planned :: "nat \<Rightarrow> nat \<Rightarrow> u64 \<Rightarrow> partition_info list \<Rightarrow> bool" where
  "planned lo n g [] \<longleftrightarrow> lo \<le> n \<and> unat g = n - lo"
| "planned lo n g (p # ps) \<longleftrightarrow> used p = 1 \<and> p_type p \<in> {1, 2, 3, 4, 5} \<and> lo \<le> pstart p \<and>
     unat g = pstart p - lo \<and> pstart p \<le> pend p \<and> unat (len_trk p) = Suc (pend p) - pstart p \<and>
     planned (Suc (pend p)) n (p_fspace_trk p) ps"

definition gap_behind :: "u64 \<Rightarrow> config_data list \<Rightarrow> nat \<Rightarrow> u64 \<Rightarrow> u64" where
  "gap_behind last_trk cs i stop =
     (if i < 3 \<and> c_start (cs ! i) \<noteq> 0 then c_start (cs ! i) - stop - 1 else last_trk - stop)"

definition conf_intervals :: "config_data list \<Rightarrow> (nat \<times> nat) list" where
  "conf_intervals cs = map (\<lambda>c. (unat (c_start c), Suc (unat (c_stop c)))) (takeWhile (\<lambda>c. c_start c \<noteq> 0) cs)"

lemma conf_error_None:
  assumes "conf_error file last_trk cs i = None"
  shows "2 \<le> c_start (cs ! i)" "c_start (cs ! i) < c_stop (cs ! i)" "c_stop (cs ! i) \<le> last_trk"
    "0 < i \<Longrightarrow> c_stop (cs ! (i - 1)) < c_start (cs ! i)"
    "i < 2 \<Longrightarrow> c_start (cs ! (i + 1)) \<noteq> 0 \<Longrightarrow> c_stop (cs ! i) < c_start (cs ! (i + 1))"
  using assms by (auto simp: conf_error_def Let_def USABLE_PARTITIONS_def word_neq_0_conv split: if_split_asm)

lemma minus_words:
  fixes a b :: u64
  shows "a \<le> b \<Longrightarrow> unat (b - a) = unat b - unat a" "a < b \<Longrightarrow> unat (b - a - 1) = unat b - Suc (unat a)"
    "a \<le> b \<Longrightarrow> unat b < 2 ^ 63 \<Longrightarrow> unat (b - a + 1) = Suc (unat b) - unat a"
proof -
  show s: "unat (b - a) = unat b - unat a" if "a \<le> b" using that by (simp add: unat_sub)
  show "unat (b - a - 1) = unat b - Suc (unat a)" if "a < b"
  proof -
    have "unat (b - a) = unat b - unat a" "0 < unat b - unat a" using that s [OF less_imp_le [OF that]] by (auto simp: word_less_nat_alt)
    then show ?thesis by (subst unat_minus_one) (auto simp: unat_eq_0 [symmetric])
  qed
  show "unat (b - a + 1) = Suc (unat b) - unat a" if "a \<le> b" "unat b < 2 ^ 63"
    using that s [OF that(1)] by (intro unat_eqI) (auto simp: word_le_nat_alt of_nat_diff)
qed

lemma check_rest:
  assumes "check_entries file last_trk cs i ps fs = Inr (fs', ps')" "0 < i" "i + length ps = 3" "length cs = 3"
    and "\<forall>c \<in> set cs. entry_ok c" and n: "unat last_trk = n - 1" "2 < n" "n < 2 ^ 32"
    and "c_stop (cs ! (i - 1)) \<le> last_trk"
    and "i < 3 \<Longrightarrow> c_start (cs ! i) \<noteq> 0 \<Longrightarrow> c_stop (cs ! (i - 1)) < c_start (cs ! i)"
  shows "fs' = fs \<and> (\<exists>us. ps' = us @ drop (length us) ps \<and> length us \<le> length ps \<and>
    planned (Suc (unat (c_stop (cs ! (i - 1))))) n (gap_behind last_trk cs i (c_stop (cs ! (i - 1)))) us \<and>
    map interval us = conf_intervals (drop i cs))"
  using assms
proof (induction ps arbitrary: i fs ps')
  case Nil
  then have "planned (Suc (unat (c_stop (cs ! (i - 1))))) n (gap_behind last_trk cs i (c_stop (cs ! (i - 1)))) []"
    by (auto simp: gap_behind_def minus_words word_le_nat_alt)
  then show ?case using Nil by (auto simp: conf_intervals_def)
next
  case (Cons p ps)
  let ?c = "cs ! i" and ?q = "c_stop (cs ! (i - 1))"
  have i3: "i < 3" "i < length cs" using Cons.prems(3,4) by auto
  have ok: "entry_ok ?c" using Cons.prems(5) i3(2) by simp
  have dr: "drop i cs = ?c # drop (Suc i) cs" using i3(2) by (simp add: Cons_nth_drop_Suc)
  show ?case
  proof (cases "c_start ?c = 0")
    case True
    then have "fs' = fs" "ps' = p # ps" using Cons.prems(1) by auto
    moreover have "planned (Suc (unat ?q)) n (gap_behind last_trk cs i ?q) []"
      using True Cons.prems(6,7,9) by (auto simp: gap_behind_def minus_words word_le_nat_alt)
    ultimately show ?thesis using True by (intro conjI exI [of _ "[]"]) (auto simp: conf_intervals_def dr)
  next
    case False
    then have stop: "c_stop ?c \<noteq> 0" "c_type ?c \<in> {1, 2, 3, 4, 5}" using ok by (auto simp: entry_ok_def)
    let ?p = "p\<lparr>used := 1, start_trk := c_start ?c, end_trk := c_stop ?c, len_trk := c_stop ?c - c_start ?c + 1,
                p_type := c_type ?c, p_fspace_trk := gap_behind last_trk cs (i + 1) (c_stop ?c)\<rparr>"
    have g: "(if i < USABLE_PARTITIONS - 1 \<and> c_start (cs ! (i + 1)) \<noteq> 0
        then c_start (cs ! (i + 1)) - c_stop ?c - 1 else last_trk - c_stop ?c) = gap_behind last_trk cs (i + 1) (c_stop ?c)"
      by (auto simp: gap_behind_def USABLE_PARTITIONS_def)
    obtain ps1 where e: "conf_error file last_trk cs i = None" and ps': "ps' = ?p # ps1"
      and r: "check_entries file last_trk cs (i + 1) ps fs = Inr (fs', ps1)"
      using Cons.prems(1,2) False stop(1)
      by (auto simp: Let_def g [simplified] bind_err_Inr split: option.split_asm)
    note ce = conf_error_None [OF e]
    have "fs' = fs \<and> (\<exists>us. ps1 = us @ drop (length us) ps \<and> length us \<le> length ps \<and>
      planned (Suc (unat (c_stop ?c))) n (gap_behind last_trk cs (i + 1) (c_stop ?c)) us \<and>
      map interval us = conf_intervals (drop (i + 1) cs))"
      using Cons.IH [OF r] Cons.prems(3-8) ce(3,5) by simp
    then obtain us where u: "fs' = fs" "ps1 = us @ drop (length us) ps" "length us \<le> length ps"
      "planned (Suc (unat (c_stop ?c))) n (gap_behind last_trk cs (i + 1) (c_stop ?c)) us"
      "map interval us = conf_intervals (drop (Suc i) cs)" by auto
    have "unat (c_stop ?c) < 2 ^ 63" using ce(3) Cons.prems(6,8) by (simp add: word_le_nat_alt)
    then have "planned (Suc (unat ?q)) n (gap_behind last_trk cs i ?q) (?p # us)"
      using ce(2) ce(4) [OF Cons.prems(2)] u(4) stop(2) i3 False minus_words(2) minus_words(3) [of "c_start ?c" "c_stop ?c"]
      by (simp add: pstart_def pend_def gap_behind_def [of _ _ i] word_less_nat_alt word_le_nat_alt)
    moreover have "map interval (?p # us) = conf_intervals (drop i cs)"
      using u(5) False by (simp add: conf_intervals_def dr interval_def pstart_def pend_def)
    ultimately show ?thesis using u ps' by (intro conjI exI [of _ "?p # us"]) auto
  qed
qed


lemma check_conffile:
  assumes c: "fdasd_check_conffile_input geo opts anc = Inr anc'" and v: "volume_ok geo anc"
    and "length (parts anc) = 3" "\<forall>z \<in> set (parts anc). used z = 0 \<and> start_trk z = 0 \<and> end_trk z = 0"
    and "length (confdata anc) = 3" "\<forall>c \<in> set (confdata anc). entry_ok c"
    and fs: "unat (fspace_trk anc) = tracks geo anc - 2"
  shows "\<exists>us zs g. anc' = anc\<lparr>fspace_trk := g, parts := us @ zs\<rparr> \<and> length us + length zs = 3 \<and>
    planned 2 (tracks geo anc) g us \<and>
    (\<forall>z \<in> set zs. used z = 0 \<and> start_trk z = 0 \<and> end_trk z = 0) \<and>
    map interval us = conf_intervals (confdata anc)"
proof -
  let ?cs = "confdata anc" and ?n = "tracks geo anc"
  define last_trk where "last_trk = (ucast (formatted_cylinders anc * ucast (heads geo) - 1) :: u64)"
  have n: "2 < ?n" "?n < 2 ^ 32" using v by (auto simp: volume_ok_def fs_lim_def split: if_splits)
  have l: "unat last_trk = ?n - 1"
    unfolding last_trk_def tracks_word(1) [OF v] using widened_minus [of 1 ?n] n by simp
  obtain p ps where ps: "parts anc = p # ps" "length ps = 2" using assms(3) by (cases "parts anc") auto
  obtain c0 cs where cs: "?cs = c0 # cs" using assms(5) by (cases ?cs) auto
  obtain fn fs' ps' where ce: "check_entries fn last_trk ?cs 0 (p # ps) (fspace_trk anc) = Inr (fs', ps')"
    and anc': "anc' = anc\<lparr>fspace_trk := fs', parts := ps'\<rparr>"
    using c unfolding fdasd_check_conffile_input_def Let_def last_trk_def [symmetric] ps(1) by (auto simp: bind_err_Inr)
  show ?thesis
  proof (cases "c_start c0 = 0")
    case True
    then have "fs' = fspace_trk anc" "ps' = p # ps" using ce by (auto simp: cs)
    then have "anc' = anc\<lparr>fspace_trk := fspace_trk anc, parts := [] @ p # ps\<rparr>" by (simp add: anc')
    moreover have "map interval [] = conf_intervals ?cs" using True by (simp add: conf_intervals_def cs)
    moreover have "planned 2 ?n (fspace_trk anc) []" using fs n by simp
    ultimately show ?thesis using assms(4) ps by (intro exI [of _ "[]"] exI [of _ "p # ps"] exI [of _ "fspace_trk anc"]) simp
  next
    case False
    have ok: "entry_ok c0" using assms(6) by (simp add: cs)
    then have stop: "c_stop c0 \<noteq> 0" "c_type c0 \<in> {1, 2, 3, 4, 5}" using False by (auto simp: entry_ok_def)
    let ?p = "p\<lparr>used := 1, start_trk := c_start c0, end_trk := c_stop c0, len_trk := c_stop c0 - c_start c0 + 1,
                p_type := c_type c0, p_fspace_trk := gap_behind last_trk ?cs 1 (c_stop c0)\<rparr>"
    obtain ps1 where e: "conf_error fn last_trk ?cs 0 = None" and ps': "ps' = ?p # ps1"
      and r: "check_entries fn last_trk ?cs 1 ps (c_start c0 - 2) = Inr (fs', ps1)"
      using ce False stop(1)
      by (auto simp: Let_def cs gap_behind_def USABLE_PARTITIONS_def bind_err_Inr split: option.split_asm)
    note err = conf_error_None [OF e, unfolded cs nth_Cons_0]
    have "fs' = c_start c0 - 2 \<and> (\<exists>us. ps1 = us @ drop (length us) ps \<and> length us \<le> length ps \<and>
      planned (Suc (unat (c_stop (?cs ! (1 - 1))))) ?n (gap_behind last_trk ?cs 1 (c_stop (?cs ! (1 - 1)))) us \<and>
      map interval us = conf_intervals (drop 1 ?cs))"
      using err(3,5) by (intro check_rest [OF r _ _ assms(5,6) l n]) (auto simp: ps(2) cs)
    then obtain us where u: "fs' = c_start c0 - 2" "ps1 = us @ drop (length us) ps" "length us \<le> length ps"
      "planned (Suc (unat (c_stop c0))) ?n (gap_behind last_trk ?cs 1 (c_stop c0)) us"
      "map interval us = conf_intervals cs" by (auto simp: cs)
    have "unat (c_stop c0) < 2 ^ 63" using err(3) l n by (simp add: word_le_nat_alt)
    then have "planned 2 ?n (c_start c0 - 2) (?p # us)"
      using err(1,2) u(4) stop(2) minus_words(1) [of 2 "c_start c0"] minus_words(3) [of "c_start c0" "c_stop c0"]
      by (simp add: pstart_def pend_def word_less_nat_alt word_le_nat_alt)
    moreover have "map interval (?p # us) = conf_intervals ?cs"
      using u(5) False by (simp add: conf_intervals_def cs interval_def pstart_def pend_def)
    moreover have "ps' = (?p # us) @ drop (length us) ps" using u(2) ps' by simp
    moreover have "\<forall>z \<in> set (drop (length us) ps). used z = 0 \<and> start_trk z = 0 \<and> end_trk z = 0"
      using assms(4) by (auto simp: ps(1) dest: in_set_dropD)
    ultimately show ?thesis using u(1,3) ps(2)
      by (intro exI [of _ "?p # us"] exI [of _ "drop (length us) ps"] exI [of _ "c_start c0 - 2"]) (simp add: anc')
  qed
qed


section \<open>The labels\<close>

lemma conf_extent_label:
  assumes g: "geo_ok geo" and t: "pstart p < (2 ^ 28 - 1) * unat (heads geo)" "pend p < (2 ^ 28 - 1) * unat (heads geo)"
  shows "unat (cchh2trk (llimit (conf_extent geo p)) geo) = pstart p"
    "unat (cchh2trk (ulimit (conf_extent geo p)) geo) = pend p"
proof -
  have hw: "unat (ucast (heads geo) :: u64) = unat (heads geo)"
    using unat_u8_bound [of "heads geo"] by (simp add: unsigned_ucast_eq take_bit_nat_eq_self)
  have "(ucast (t div ucast (heads geo)) :: u32) = of_nat (unat t div unat (heads geo))"
    "(ucast (t mod ucast (heads geo)) :: u16) = of_nat (unat t mod unat (heads geo))" for t :: u64
    by (simp_all only: word_unat_eq_iff unsigned_ucast_eq [of "_ div _"] unsigned_ucast_eq [of "_ mod _"] unat_of_nat
        take_bit_eq_mod unat_div_distrib unat_mod_distrib hw)
  then have "vtoc_set_cchh (ucast (t div ucast (heads geo))) (ucast (t mod ucast (heads geo))) = trk_addr geo (unat t)"
    for t :: u64 by (simp add: trk_addr_def)
  then show "unat (cchh2trk (llimit (conf_extent geo p)) geo) = pstart p"
    "unat (cchh2trk (ulimit (conf_extent geo p)) geo) = pend p"
    using trk_addr_inverse [OF g] t by (simp_all add: conf_extent_def Let_def pstart_def pend_def)
qed

lemma typed_init:
  assumes "t \<in> {1, 2, 3, 4, 5}"
  shows "\<exists>f. typed_label t (init_f1_label y d anc ext f0) = Inr f \<and> DS1EXT1 f = ext"
proof -
  let ?f = "init_f1_label y d anc ext f0" and ?s = "bytes_of ''PART    .NEW                                ''"
  have wf: "wf_f1 ?f" by (simp add: init_f1_label_def)
  have a: "map ebc_to_asc (DS1DSNAM ?f) = ?s" using init_name(1) by (simp add: ascii_def)
  have "c_strstr ?s (bytes_of ''.NEW'') = Some 8" by code_simp
  then have i: "c_strstr (?s @ drop 44 (enc_f1 ?f)) (bytes_of ''.NEW'') = Some 8" by (rule strstr_append)
  obtain nm where nm: "get_part_dsname_by_type (word_of_int t) = Inr (Some nm)" "length nm \<le> 6"
    using type_names [of "word_of_int t"] assms by auto
  have len: "length ?s = 44" by (simp add: bytes_of_def)
  let ?s' = "overwrite ?s 8 (0x2e # nm @ [0])"
  have "typed_label t ?f = Inr (?f\<lparr>DS1DSNAM := vtoc_ebcdic_enc ?s' ?s' 44\<rparr>)"
    unfolding typed_label_def Let_def ascii_name(1) [OF wf] a enc_f1_name [OF wf] i nm(1)
    using nm(2) len by (simp add: overwrite_name dec_f1_name [OF wf])
  then show ?thesis by simp
qed


lemma planned_le: "planned lo n g us \<Longrightarrow> lo \<le> n"
  by (induction us arbitrary: lo g) fastforce+

lemma planned_gap:
  assumes "planned lo n g us"
  shows "lo + unat g \<le> n"
proof (cases us)
  case (Cons q qs)
  then have "planned (Suc (pend q)) n (p_fspace_trk q) qs" "pstart q \<le> pend q" "lo + unat g = pstart q" using assms by auto
  with planned_le [OF this(1)] show ?thesis by simp
qed (use assms in simp)

lemma conf_chain:
  assumes "planned lo n g us" "2 \<le> lo" "n \<le> fs_lim (formatted_cylinders anc) (ucast (heads geo))" "n < 2 ^ 32"
    and "geo_ok geo" "n \<le> (2 ^ 28 - 1) * unat (heads geo)"
    and "fs_valid (formatted_cylinders anc) (ucast (heads geo)) (a_f4 anc, a_f5 anc, a_f7 anc)"
    and "fs_free (formatted_cylinders anc) (ucast (heads geo)) (a_f4 anc, a_f5 anc, a_f7 anc) = {2..<lo + unat g} - covered cs"
    and "covered cs \<subseteq> {..<lo}" "length cs + length us \<le> 3"
  shows "\<exists>us' g4 g5 g7. conf_parts y d geo us anc = Inr (us', anc\<lparr>used_partitions :=
      used_partitions anc + of_nat (length us), a_f4 := g4, a_f5 := g5, a_f7 := g7\<rparr>) \<and>
    chain geo lo n g us' \<and> map interval us' = map interval us \<and> length us' = length us \<and>
    fs_valid (formatted_cylinders anc) (ucast (heads geo)) (g4, g5, g7) \<and>
    fs_free (formatted_cylinders anc) (ucast (heads geo)) (g4, g5, g7) =
      {2..<n} - (covered cs \<union> covered (map interval us)) \<and>
    DS4DEVCT g4 = DS4DEVCT (a_f4 anc) \<and> DS4DCYL g4 = DS4DCYL (a_f4 anc) \<and> DS4DEVAC g4 = DS4DEVAC (a_f4 anc)"
  using assms
proof (induction us arbitrary: lo g anc cs)
  case Nil
  then show ?case by (intro exI [of _ "[]"] exI [of _ "a_f4 anc"] exI [of _ "a_f5 anc"] exI [of _ "a_f7 anc"]) simp
next
  case (Cons p ps)
  let ?cyl = "formatted_cylinders anc" and ?trk = "ucast (heads geo) :: u32"
  let ?e = "Suc (pend p)" and ?f = "unat (p_fspace_trk p)" and ?cs = "interval p # cs"
  have p: "used p = 1" "p_type p \<in> {1, 2, 3, 4, 5}" "lo \<le> pstart p" "lo + unat g = pstart p" "pstart p \<le> pend p"
    and c: "planned ?e n (p_fspace_trk p) ps" using Cons.prems(1) by auto
  have n: "?e + ?f \<le> n" by (rule planned_gap [OF c])
  have hz: "heads geo \<noteq> 0" using Cons.prems(5) by (auto simp: geo_ok_def)
  define u where "u = vtoc_update_format4_label (a_f4 anc)
    (get_addr_of_highest_f1_f8_label (anc\<lparr>used_partitions := used_partitions anc + 1\<rparr>)) (DS4DSREC (a_f4 anc) - 1)"
  have u4: "DS4DEVCT u = DS4DEVCT (a_f4 anc)" "DS4DCYL u = DS4DCYL (a_f4 anc)" "DS4DEVAC u = DS4DEVAC (a_f4 anc)"
    by (simp_all add: u_def vtoc_update_format4_label_def)
  have fv: "fs_valid ?cyl ?trk (u, a_f5 anc, a_f7 anc)"
    using Cons.prems(7) by (simp add: fs_any_f4 [of _ _ u _ _ "a_f4 anc"])
  have free: "fs_free ?cyl ?trk (u, a_f5 anc, a_f7 anc) = {2..<?e} - covered ?cs"
    unfolding fs_any_f4(2) [of _ _ u _ _ "a_f4 anc"] using Cons.prems(8,9) p by (fastforce simp: interval_def)
  have cov: "covered ?cs \<subseteq> {..<?e}" using Cons.prems(9) p by fastforce
  obtain h4 h5 h7 where h:
    "(if p_fspace_trk p > 0 then lift_vtoc (vtoc_set_freespace (u, a_f5 anc, a_f7 anc) CHR ''+'' (ucast (end_trk p + 1))
        (ucast (end_trk p + p_fspace_trk p)) ?cyl ?trk) else Inr (u, a_f5 anc, a_f7 anc)) = Inr (h4, h5, h7)"
    "fs_valid ?cyl ?trk (h4, h5, h7)" "fs_free ?cyl ?trk (h4, h5, h7) = {2..<?e + ?f} - covered ?cs"
    "DS4DEVCT h4 = DS4DEVCT u" "DS4DCYL h4 = DS4DCYL u" "DS4DEVAC h4 = DS4DEVAC u"
    using gap_labels [OF fv free cov _ _ n Cons.prems(3,4)] Cons.prems(2,10) p by auto
  define anc1 where "anc1 = anc\<lparr>used_partitions := used_partitions anc + 1, a_f4 := h4, a_f5 := h5, a_f7 := h7\<rparr>"
  obtain ps' k4 k5 k7 where k: "conf_parts y d geo ps anc1 = Inr (ps', anc1\<lparr>used_partitions :=
      used_partitions anc1 + of_nat (length ps), a_f4 := k4, a_f5 := k5, a_f7 := k7\<rparr>)"
    "chain geo ?e n (p_fspace_trk p) ps'" "map interval ps' = map interval ps" "length ps' = length ps"
    "fs_valid ?cyl ?trk (k4, k5, k7)"
    "fs_free ?cyl ?trk (k4, k5, k7) = {2..<n} - (covered ?cs \<union> covered (map interval ps))"
    "DS4DEVCT k4 = DS4DEVCT h4" "DS4DCYL k4 = DS4DCYL h4" "DS4DEVAC k4 = DS4DEVAC h4"
    using Cons.IH [where anc = anc1 and cs = ?cs, OF c _ _ Cons.prems(4-6) _ _ cov] h(2,3) Cons.prems(2,3,10) p
    by (auto simp: anc1_def)
  obtain f where f: "typed_label (p_type p) (init_f1_label y d anc (conf_extent geo p) (p_f1 p)) = Inr f"
    "DS1EXT1 f = conf_extent geo p" using typed_init [OF p(2)] by blast
  have "conf_parts y d geo (p # ps) anc = Inr (p\<lparr>p_f1 := f\<rparr> # ps', anc\<lparr>used_partitions :=
      used_partitions anc + of_nat (length (p # ps)), a_f4 := k4, a_f5 := k5, a_f7 := k7\<rparr>)"
    using p(1) h(1) f(1) k(1) hz
    by (cases "p_fspace_trk p = 0")
      (auto simp: Let_def set_freespace_def word_neq_0_conv u_def [symmetric] anc1_def add.assoc)
  moreover have "label_ok geo (p\<lparr>p_f1 := f\<rparr>)"
    using conf_extent_label [OF Cons.prems(5), of p] p n Cons.prems(6) by (simp add: label_ok_def f(2))
  moreover have "{2..<n} - (covered ?cs \<union> covered (map interval ps)) =
      {2..<n} - (covered cs \<union> covered (map interval (p # ps)))" by auto
  ultimately show ?case using k h u4 p Cons.prems(1)
    by (intro exI [of _ "p\<lparr>p_f1 := f\<rparr> # ps'"] exI [of _ k4] exI [of _ k5] exI [of _ k7]) auto
qed


lemma conf_unused:
  assumes "\<forall>z \<in> set zs. used z = 0"
  shows "conf_parts y d geo (us @ zs) anc = bind_err (conf_parts y d geo us anc) (\<lambda>(us, anc). Inr (us @ zs, anc))"
proof -
  have "conf_parts y d geo zs anc = Inr (zs, anc)" for anc using assms by (induction zs) simp_all
  then show ?thesis
    by (induction us arbitrary: anc) (auto simp: bind_err_def Let_def split: sum.split)
qed

lemma conf_table_ok:
  assumes v: "volume_ok geo anc" and us: "parts anc = us @ zs" "length us + length zs = 3" "used_partitions anc = 0"
    and pl: "planned 2 (tracks geo anc) (fspace_trk anc) us"
    and z: "\<forall>z \<in> set zs. used z = 0 \<and> start_trk z = 0 \<and> end_trk z = 0"
  shows "\<exists>anc'. conf_table y d geo anc = Inr anc' \<and> anchor_ok geo anc' \<and>
    map interval (partitions anc') = map interval us \<and> confdata anc' = confdata anc"
proof -
  let ?cyl = "formatted_cylinders anc" and ?trk = "ucast (heads geo) :: u32" and ?n = "tracks geo anc"
  have t: "2 < ?n" "?n \<le> fs_lim ?cyl ?trk" "?n < 2 ^ 32" "geo_ok geo" "?n \<le> (2 ^ 28 - 1) * unat (heads geo)"
    using v by (auto simp: volume_ok_def fs_lim_def tracks_def split: if_splits)
  have g: "2 + unat (fspace_trk anc) \<le> ?n" by (rule planned_gap [OF pl])
  define f4 where "f4 = init_labels geo anc"
  obtain h4 h5 h7 where h: "(if fspace_trk anc > 0
      then lift_vtoc (vtoc_set_freespace (f4, vtoc_init_format5_label, vtoc_init_format7_label) CHR ''+''
        (of_nat FIRST_USABLE_TRK) (ucast (first_trk + fspace_trk anc - 1)) ?cyl ?trk)
      else Inr (f4, vtoc_init_format5_label, vtoc_init_format7_label)) = Inr (h4, h5, h7)"
    "fs_valid ?cyl ?trk (h4, h5, h7)"
    "fs_free ?cyl ?trk (h4, h5, h7) = {2..<2 + unat (fspace_trk anc)} - covered []"
    "DS4DEVCT h4 = DS4DEVCT f4" "DS4DCYL h4 = DS4DCYL f4" "DS4DEVAC h4 = DS4DEVAC f4"
    using first_gap [where n = ?n and g = "fspace_trk anc" and cyl = ?cyl and trk = ?trk and ?f4.0 = f4]
      g t tracks_word(2,3) [OF v] by auto
  define anc1 where "anc1 = anc\<lparr>a_f4 := h4, a_f5 := h5, a_f7 := h7\<rparr>"
  have gap: "(if fspace_trk anc \<noteq> 0 then set_freespace (anc\<lparr>a_f4 := f4, a_f5 := vtoc_init_format5_label,
        a_f7 := vtoc_init_format7_label\<rparr>) CHR ''+'' (ucast first_trk) (ucast (first_trk + fspace_trk anc - 1)) ?cyl ?trk
      else Inr (anc\<lparr>a_f4 := f4, a_f5 := vtoc_init_format5_label, a_f7 := vtoc_init_format7_label\<rparr>)) = Inr anc1"
    using h(1) by (auto simp: set_freespace_def word_neq_0_conv anc1_def FIRST_USABLE_TRK_def bind_err_Inr)
  obtain us' k4 k5 k7 where k: "conf_parts y d geo us anc1 = Inr (us', anc1\<lparr>used_partitions :=
      used_partitions anc1 + of_nat (length us), a_f4 := k4, a_f5 := k5, a_f7 := k7\<rparr>)"
    "chain geo 2 ?n (fspace_trk anc) us'" "map interval us' = map interval us" "length us' = length us"
    "fs_valid ?cyl ?trk (k4, k5, k7)"
    "fs_free ?cyl ?trk (k4, k5, k7) = {2..<?n} - (covered [] \<union> covered (map interval us))"
    "DS4DEVCT k4 = DS4DEVCT h4" "DS4DCYL k4 = DS4DCYL h4" "DS4DEVAC k4 = DS4DEVAC h4"
    using conf_chain [where anc = anc1 and cs = "[]", OF pl _ _ t(3,4,5), of y d] h(2,3) t(2) us(2) by (auto simp: anc1_def)
  define anc' where "anc' = anc\<lparr>used_partitions := of_nat (length us), a_f4 := k4, a_f5 := k5, a_f7 := k7,
    parts := us' @ zs, vtoc_changed := vtoc_changed anc + 1\<rparr>"
  have "conf_table y d geo anc = Inr anc'"
    unfolding conf_table_def Let_def f4_def [symmetric] using gap k(1) z us(1,3)
    by (cases "fspace_trk anc = 0") (simp_all add: anc1_def conf_unused anc'_def)
  moreover have vo: "vol_ok geo anc'" "tracks geo anc' = ?n"
    using volume_vol_ok [OF v, of "anc\<lparr>a_f4 := f4\<rparr>" "DS4DSREC f4" "DS4HPCHR f4"]
      vol_ok_cong [of anc' "anc\<lparr>a_f4 := f4\<rparr>" geo] k h by (simp_all add: anc'_def f4_def)
  have ok: "anchor_ok geo anc'" unfolding anchor_ok_def
  proof (intro conjI exI)
    show "parts anc' = us' @ zs" by (simp add: anc'_def)
    show "length us' = unat (used_partitions anc')" using k(4) us(2) by (simp add: anc'_def unat_of_nat_small)
  qed (use vo k us z in \<open>simp_all add: anc'_def\<close>)
  moreover have "partitions anc' = us'"
    using k(2) z by (intro partitions_chain [of _ _ zs]) (auto simp: anc'_def)
  ultimately show ?thesis using k(3) by (auto simp: anc'_def)
qed


section \<open>From the file to the table\<close>

text \<open>The steps of \<open>main\<close> with a configuration file, up to writing the labels.\<close>

definition conffile_steps ::
  "int \<Rightarrow> int \<Rightarrow> hd_geometry \<Rightarrow> fdasd_options \<Rightarrow> conf_file \<Rightarrow> fdasd_anchor \<Rightarrow> stop + fdasd_anchor" where
  "conffile_steps y d geo opts conf anc =
     bind_err (fdasd_recreate_vtoc_unconditional geo anc) (\<lambda>anc.
     bind_err (fdasd_parse_conffile geo opts conf anc) (\<lambda>anc.
     bind_err (fdasd_check_conffile_input geo opts anc) (\<lambda>anc. conf_table y d geo anc)))"

lemma recreate_fresh:
  assumes v: "volume_ok geo anc" and s: "slots_ok anc"
  obtains anc' where "fdasd_recreate_vtoc_unconditional geo anc = Inr anc'" "volume_ok geo anc'"
    "length (parts anc') = 3" "\<forall>z \<in> set (parts anc'). used z = 0 \<and> start_trk z = 0 \<and> end_trk z = 0"
    "used_partitions anc' = 0" "confdata anc' = confdata anc" "unat (fspace_trk anc') = tracks geo anc' - 2"
proof -
  obtain anc' where a: "fdasd_recreate_vtoc_unconditional geo anc = Inr anc'" "session_ok geo anc'"
    "used_partitions anc' = 0" by (rule fresh_session [OF v s])
  have ok: "anchor_ok geo anc'" "volume_ok geo anc'" using a(2) by (auto simp: session_ok_def)
  note p = anchor_ok_partitions [OF ok(1)]
  have "partitions anc' = []" using p(3) a(3) by simp
  moreover from this p(7) have "length (parts anc') = 3"
    "\<forall>z \<in> set (parts anc'). used z = 0 \<and> start_trk z = 0 \<and> end_trk z = 0" by auto
  moreover have "confdata anc' = confdata anc"
    using a(1) by (auto simp: fdasd_recreate_vtoc_unconditional_def set_freespace_def Let_def bind_err_Inr)
  ultimately show thesis using a ok p(2) that by simp
qed

definition failed :: "stop \<Rightarrow> bool" where
  "failed e \<longleftrightarrow> (\<exists>why m. e = Fail why m)"

lemma conf_entries_failed: "conf_entries geo anc file n i s cs = Inl e \<Longrightarrow> failed e"
proof (induction n arbitrary: i s cs)
  case (Suc n)
  have "conf_entry geo anc file t = Inl e \<Longrightarrow> failed e" for t
    by (auto simp: conf_entry_def Let_def failed_def split: if_split_asm option.split_asm)
  with Suc show ?case by (auto simp: Let_def bind_err_Inl failed_def split: option.split_asm)
qed simp

lemma parse_failed: "fdasd_parse_conffile geo opts conf anc = Inl e \<Longrightarrow> failed e"
  by (cases conf) (auto simp: fdasd_parse_conffile_def Let_def bind_err_Inl failed_def [of "Fail _ _"]
      intro: conf_entries_failed)

lemma check_entries_failed: "check_entries file l cs i ps fs = Inl e \<Longrightarrow> failed e"
proof (induction ps arbitrary: i fs)
  case (Cons p ps)
  then show ?case
    by (cases "conf_error file l cs i") (auto simp: Let_def bind_err_Inl failed_def [of "Fail _ _"] split: if_split_asm)
qed simp

lemma check_failed: "fdasd_check_conffile_input geo opts anc = Inl e \<Longrightarrow> failed e"
  by (auto simp: fdasd_check_conffile_input_def Let_def bind_err_Inl intro: check_entries_failed)

lemma parse_ok:
  assumes p: "fdasd_parse_conffile geo opts conf anc = Inr anc'" and v: "volume_ok geo anc"
    and cs: "\<forall>c \<in> set (confdata anc). c_start c = 0 \<and> c_stop c = 0"
  obtains cs where "anc' = anc\<lparr>confdata := cs\<rparr>" "\<forall>c \<in> set cs. entry_ok c" "length cs = length (confdata anc)"
proof -
  have n: "2 < tracks geo anc" "tracks geo anc < 2 ^ 32" using v by (auto simp: volume_ok_def fs_lim_def split: if_splits)
  have ok: "\<forall>c \<in> set (confdata anc). entry_ok c" using cs by (simp add: entry_ok_def)
  have "unat (ucast (formatted_cylinders anc * ucast (heads geo) - 1) :: u64) = tracks geo anc - 1"
    unfolding tracks_word(1) [OF v] using widened_minus [of 1 "tracks geo anc"] n by simp
  with n have nz: "ucast (formatted_cylinders anc * ucast (heads geo) - 1) \<noteq> (0 :: u64)" by (metis unat_0 zero_less_diff less_trans one_less_numeral_iff semiring_norm(76) less_irrefl)
  show thesis
  proof (cases "anc' = anc")
    case True
    then show thesis using that [of "confdata anc"] ok by simp
  next
    case False
    then obtain cs fn s where "conf_entries geo anc fn USABLE_PARTITIONS 0 s (confdata anc) = Inr cs"
      "anc' = anc\<lparr>confdata := cs\<rparr>"
      using p by (cases conf) (auto simp: fdasd_parse_conffile_def Let_def bind_err_Inr)
    then show thesis using that [of cs] conf_entries_ok [OF _ ok nz] by blast
  qed
qed

text \<open>What the checks leave behind can be made into a table, whatever happens to the volume label in
  between.\<close>

lemma checked_table:
  assumes v: "volume_ok geo anc" and s: "slots_ok anc" and "length (confdata anc) = 3"
    and "\<forall>c \<in> set (confdata anc). c_start c = 0 \<and> c_stop c = 0"
    and p: "fdasd_recreate_vtoc_unconditional geo anc = Inr a1" "fdasd_parse_conffile geo opts conf a1 = Inr a2"
      "fdasd_check_conffile_input geo opts a2 = Inr a3"
    and a4: "a4 = a3\<lparr>vlabel := w, vlabel_changed := b\<rparr>"
  shows "\<exists>anc'. conf_table y d geo a4 = Inr anc' \<and> anchor_ok geo anc' \<and>
      map interval (partitions anc') = conf_intervals (confdata anc') \<and> confdata anc' = confdata a2"
proof -
  have a1: "volume_ok geo a1" "length (parts a1) = 3"
    "\<forall>z \<in> set (parts a1). used z = 0 \<and> start_trk z = 0 \<and> end_trk z = 0"
    "used_partitions a1 = 0" "confdata a1 = confdata anc" "unat (fspace_trk a1) = tracks geo a1 - 2"
    using p(1) recreate_fresh [OF v s] by (metis sum.inject(2))+
  obtain cs where cs: "a2 = a1\<lparr>confdata := cs\<rparr>" "\<forall>c \<in> set cs. entry_ok c" "length cs = 3"
    using parse_ok [OF p(2) a1(1)] a1(5) assms(3,4) by auto
  have v2: "volume_ok geo a2" "tracks geo a2 = tracks geo a1"
  proof -
    have "volume_ok geo a2 = volume_ok geo a1" by (rule volume_ok_cong; simp add: cs(1))
    then show "volume_ok geo a2" "tracks geo a2 = tracks geo a1" using a1(1) by (simp_all add: cs(1) tracks_def)
  qed
  obtain us zs g where a3: "a3 = a2\<lparr>fspace_trk := g, parts := us @ zs\<rparr>" "length us + length zs = 3"
    "planned 2 (tracks geo a2) g us" "\<forall>z \<in> set zs. used z = 0 \<and> start_trk z = 0 \<and> end_trk z = 0"
    "map interval us = conf_intervals (confdata a2)"
    using check_conffile [OF p(3) v2(1)] a1(2,3,6) cs v2(2) by auto
  have "volume_ok geo a4 = volume_ok geo a2" by (rule volume_ok_cong; simp add: a3(1) a4)
  then have "volume_ok geo a4" "tracks geo a4 = tracks geo a2" using v2(1) by (simp_all add: a3(1) a4 tracks_def)
  then obtain a5 where "conf_table y d geo a4 = Inr a5" "anchor_ok geo a5"
    "map interval (partitions a5) = map interval us" "confdata a5 = confdata a4"
    using conf_table_ok [of geo a4 us zs y d] a3 a1(4) cs(1) a4 by auto
  then show ?thesis using a3(1,5) a4 by simp
qed

lemma conffile_accepted:
  assumes "volume_ok geo anc" "slots_ok anc" "length (confdata anc) = 3"
    "\<forall>c \<in> set (confdata anc). c_start c = 0 \<and> c_stop c = 0"
    and p: "fdasd_recreate_vtoc_unconditional geo anc = Inr a1" "fdasd_parse_conffile geo opts conf a1 = Inr a2"
      "fdasd_check_conffile_input geo opts a2 = Inr a3"
  shows "\<exists>anc'. conffile_steps y d geo opts conf anc = Inr anc' \<and> anchor_ok geo anc' \<and>
      map interval (partitions anc') = conf_intervals (confdata anc') \<and> confdata anc' = confdata a2"
  using checked_table [OF assms, where ?a4.0 = a3 and w = "vlabel a3" and b = "vlabel_changed a3" and y = y and d = d] p
  by (simp add: conffile_steps_def)

lemma conffile_steps_ok:
  assumes v: "volume_ok geo anc" and s: "slots_ok anc" and "length (confdata anc) = 3"
    and "\<forall>c \<in> set (confdata anc). c_start c = 0 \<and> c_stop c = 0"
    and nf: "\<forall>e. conffile_steps y d geo opts conf anc = Inl e \<longrightarrow> \<not> failed e"
  shows "\<exists>anc'. conffile_steps y d geo opts conf anc = Inr anc' \<and> anchor_ok geo anc' \<and>
      map interval (partitions anc') = conf_intervals (confdata anc')"
proof -
  obtain a1 where a1: "fdasd_recreate_vtoc_unconditional geo anc = Inr a1" by (rule recreate_fresh [OF v s])
  obtain a2 where a2: "fdasd_parse_conffile geo opts conf a1 = Inr a2"
    using nf parse_failed a1 by (cases "fdasd_parse_conffile geo opts conf a1") (auto simp: conffile_steps_def)
  obtain a3 where a3: "fdasd_check_conffile_input geo opts a2 = Inr a3"
    using nf check_failed a1 a2 by (cases "fdasd_check_conffile_input geo opts a2") (auto simp: conffile_steps_def)
  from conffile_accepted [OF assms(1-4) a1 a2 a3, of y d] show ?thesis by blast
qed

text \<open>A file that is accepted.\<close>

lemma conf_entries_geo:
  "formatted_cylinders a = formatted_cylinders b \<Longrightarrow> conf_entries geo a file n i s cs = conf_entries geo b file n i s cs"
proof (induction n arbitrary: i s cs)
  case (Suc n)
  have "conf_entry geo a file = conf_entry geo b file"
    by (rule ext) (simp only: conf_entry_def Suc.prems)
  with Suc show ?case by (simp add: Let_def split: option.split)
qed simp

definition example_file :: conf_file where
  "example_file = conf_bytes (bytes_of ''[FIRST,500,NATIVE][600,LAST,SWAP]'')"

definition example_opts :: fdasd_options where
  "example_opts = \<lparr>device_opt = None, volser_opt = None, conffile_opt = None\<rparr>"

definition example_entries :: "config_data list" where
  "example_entries = [\<lparr>c_start = 2, c_stop = 500, c_type = 1\<rparr>, \<lparr>c_start = 600, c_stop = 1499, c_type = 2\<rparr>,
     \<lparr>c_start = 0, c_stop = 0, c_type = 0\<rparr>]"

lemma example_accepted:
  "\<exists>anc'. conffile_steps y d example_geo example_opts example_file example_blank = Inr anc' \<and>
    confdata anc' = example_entries"
proof -
  obtain a1 where a1: "fdasd_recreate_vtoc_unconditional example_geo example_blank = Inr a1" "volume_ok example_geo a1"
    "length (parts a1) = 3" "\<forall>z \<in> set (parts a1). used z = 0 \<and> start_trk z = 0 \<and> end_trk z = 0"
    "used_partitions a1 = 0" "confdata a1 = confdata example_blank" "unat (fspace_trk a1) = tracks example_geo a1 - 2"
    by (rule recreate_fresh [OF example_blank_ok(1,2)])
  have cyl: "formatted_cylinders a1 = formatted_cylinders example_blank" "formatted_cylinders a1 = 100"
    using a1(1) by (auto simp: fdasd_recreate_vtoc_unconditional_def set_freespace_def Let_def bind_err_Inr example_blank_def)
  let ?a2 = "a1\<lparr>confdata := example_entries\<rparr>"
  have "conf_entries example_geo example_blank ''/etc/fdasd.conf'' 3 0
      (map c_toupper (take 240 (bytes_of ''[FIRST,500,NATIVE][600,LAST,SWAP]'')))
      (replicate 3 \<lparr>c_start = 0, c_stop = 0, c_type = 0\<rparr>) = Inr example_entries" by code_simp
  then have p: "fdasd_parse_conffile example_geo example_opts example_file a1 = Inr ?a2"
    by (simp add: fdasd_parse_conffile_def example_file_def example_opts_def conf_entries_geo [OF cyl(1)] a1(6)
        USABLE_PARTITIONS_def CONFIG_FILE_SIZE_def LINE_LENGTH_def example_blank_def fdasd_initialize_anchor_def)
  obtain q1 q2 q3 where q: "parts a1 = [q1, q2, q3]" using a1(3) by (auto simp: length_Suc_conv numeral_3_eq_3)
  have "conf_error f 1499 example_entries 0 = None" "conf_error f 1499 example_entries 1 = None" for f
    by (simp_all add: conf_error_def example_entries_def USABLE_PARTITIONS_def)
  then have "\<exists>r. check_entries f 1499 example_entries 0 [q1, q2, q3] g = Inr r" for f g
    by (simp add: Let_def) (simp add: example_entries_def)
  then obtain r where r: "check_entries ''/etc/fdasd.conf'' 1499 example_entries 0 [q1, q2, q3] (fspace_trk a1) = Inr r"
    by blast
  have w: "ucast (formatted_cylinders ?a2 * ucast (heads example_geo) - 1) = (1499 :: u64)"
    "confdata ?a2 = example_entries" "parts ?a2 = [q1, q2, q3]" "fspace_trk ?a2 = fspace_trk a1"
    by (simp_all add: cyl(2) example_geo_def q)
  obtain a3 where c: "fdasd_check_conffile_input example_geo example_opts ?a2 = Inr a3"
    unfolding fdasd_check_conffile_input_def w example_opts_def
    by (simp add: r split_beta del: check_entries.simps)
  have "\<exists>anc'. conffile_steps y d example_geo example_opts example_file example_blank = Inr anc' \<and>
      anchor_ok example_geo anc' \<and> map interval (partitions anc') = conf_intervals (confdata anc') \<and>
      confdata anc' = confdata ?a2"
    by (rule conffile_accepted [OF example_blank_ok(1,2) _ _ a1(1) p c])
      (simp_all add: example_blank_def fdasd_initialize_anchor_def USABLE_PARTITIONS_def)
  then show ?thesis by auto
qed



end
