(* ===== verification/Fdasd_Geometry.thy ===== *)
theory Fdasd_Geometry
  imports Fdasd_Conf
begin

text \<open>
  The geometry of the disk: the records per track the device driver computes, the values fdasd
  derives from the answers of the kernel, the \<open>force\<close> option and the check that the disk can be
  read.  What the kernel answers to the system calls is a value of type \<open>kernel\<close>, with \<open>None\<close> for a
  call that fails.
\<close>

section \<open>Records per track\<close>

definition ceil_quot :: "u32 \<Rightarrow> u32 \<Rightarrow> u32" where
  "ceil_quot d1 d2 = (d1 + (d2 - 1)) div d2"

definition recs_per_track :: "u16 \<Rightarrow> u32 \<Rightarrow> u32 \<Rightarrow> u32" where
  "recs_per_track devtype kl dl =
     (if devtype = DASD_3380_TYPE then
        if kl \<noteq> 0 then 1499 div (15 + 7 + ceil_quot (kl + 12) 32 + ceil_quot (dl + 12) 32)
        else 1499 div (15 + ceil_quot (dl + 12) 32)
      else if devtype = DASD_3390_TYPE then
        let dn = ceil_quot (dl + 6) 232 + 1 in
        if kl \<noteq> 0 then
          let kn = ceil_quot (kl + 6) 232 + 1
          in 1729 div (10 + 9 + ceil_quot (kl + 6 * kn) 34 + 9 + ceil_quot (dl + 6 * dn) 34)
        else 1729 div (10 + 9 + ceil_quot (dl + 6 * dn) 34)
      else if devtype = DASD_9345_TYPE then
        let dn = ceil_quot (dl + 6) 232 + 1 in
        if kl \<noteq> 0 then
          let kn = ceil_quot (kl + 6) 232 + 1
          in 1420 div (18 + 7 + ceil_quot (kl + 6 * kn) 34 + ceil_quot (dl + 6 * dn) 34)
        else 1420 div (18 + 7 + ceil_quot (dl + 6 * dn) 34)
      else 0)"

definition fdasd_verify_geometry :: "u16 \<Rightarrow> u32 \<Rightarrow> hd_geometry \<Rightarrow> bool" where
  "fdasd_verify_geometry devtype bs geo \<longleftrightarrow>
     heads geo = 15 \<and> ucast (sectors geo) = recs_per_track devtype 0 bs"


section \<open>The force option\<close>

definition supported_type :: "u32 \<Rightarrow> bool" where
  "supported_type t \<longleftrightarrow> t = ucast DASD_3390_TYPE \<or> t = ucast DASD_3380_TYPE \<or> t = ucast DASD_9345_TYPE"

definition supported_blksize :: "u32 \<Rightarrow> bool" where
  "supported_blksize b \<longleftrightarrow> b = 4096 \<or> b = 2048 \<or> b = 1024 \<or> b = 512"

text \<open>\<open>sscanf\<close> with \<open>%x,%d\<close>: both numbers, or \<open>None\<close> if it finds fewer than two.\<close>

definition hex_value :: "u8 \<Rightarrow> nat option" where
  "hex_value c =
     (if 0x30 \<le> c \<and> c \<le> 0x39 then Some (unat c - 48)
      else if 0x41 \<le> c \<and> c \<le> 0x46 then Some (unat c - 55)
      else if 0x61 \<le> c \<and> c \<le> 0x66 then Some (unat c - 87)
      else None)"

definition scan_hex :: "bytes \<Rightarrow> (u32 \<times> bytes) option" where
  "scan_hex s =
     (let s = dropWhile c_isspace s;
          neg = (s \<noteq> [] \<and> hd s = 0x2d);
          s = (if s \<noteq> [] \<and> (hd s = 0x2d \<or> hd s = 0x2b) then tl s else s);
          s = (if length s > 2 \<and> s ! 0 = 0x30 \<and> (s ! 1 = 0x78 \<or> s ! 1 = 0x58) then drop 2 s else s);
          ds = takeWhile (\<lambda>c. hex_value c \<noteq> None) s;
          v = fold (\<lambda>c v. 16 * v + int (the (hex_value c))) ds 0;
          v = (if v \<ge> 2 ^ 64 then 2 ^ 64 - 1 else if neg then - v else v)
      in if ds = [] then None else Some (word_of_int v, drop (length ds) s))"

definition scan_dec :: "bytes \<Rightarrow> u32 option" where
  "scan_dec s =
     (let t = dropWhile c_isspace s;
          t = (if t \<noteq> [] \<and> (hd t = 0x2d \<or> hd t = 0x2b) then tl t else t)
      in if t \<noteq> [] \<and> c_isdigit (hd t) then Some (word_of_int (fst (strtol10 s))) else None)"

definition scan_force :: "bytes \<Rightarrow> (u32 \<times> u32) option" where
  "scan_force s = (case scan_hex s of
       None \<Rightarrow> None
     | Some (t, r) \<Rightarrow> if r \<noteq> [] \<and> hd r = 0x2c then map_option (Pair t) (scan_dec (tl r)) else None)"

text \<open>The conversions \<open>%x\<close> and \<open>%d\<close>.\<close>

definition show_hex :: "u32 \<Rightarrow> string" where
  "show_hex w = map (\<lambda>c. char_of (unat c)) (rev (hex_rev (unat w)))"

definition show_int :: "u32 \<Rightarrow> string" where
  "show_int w = show_long (scast w)"

definition fdasd_parse_force_options :: "bytes option \<Rightarrow> fdasd_anchor \<Rightarrow> stop + fdasd_anchor" where
  "fdasd_parse_force_options optarg anc =
     (let err = (\<lambda>text m. Inl (Fail parser_failed (''Force parameter '' @ [CHR 0x27] @ text @ [CHR 0x27] @ m))) in
      case optarg of
        Some arg \<Rightarrow>
          (case scan_force arg of
             None \<Rightarrow> err (map (\<lambda>c. char_of (unat c)) arg) '' could not be parsed.\<newline>''
           | Some (t, b) \<Rightarrow>
               if \<not> supported_type t then err (show_hex t) '' is not a supported device type.\<newline>''
               else if \<not> supported_blksize b then err (show_int b) '' is not a supported block size.\<newline>''
               else Inr (anc\<lparr>dev_type := ucast t, blksize := b\<rparr>))
      | None \<Rightarrow> Inr (anc\<lparr>dev_type := DASD_3390_TYPE, blksize := 4096\<rparr>))"


section \<open>Reading the geometry\<close>

text \<open>The fields of \<open>dasd_information_t\<close> and of the characteristics in it that are read, and the
  results of the ioctls.\<close>

record dasd_information =
  d_devno :: u32
  d_dev_type :: u16
  d_open_count :: u32
  d_label_block :: u32
  d_FBA_layout :: u32
  d_type :: bytes
  no_cyl :: u16
  long_no_cyl :: u32

record kernel =
  k_size :: "u64 option"
  k_geo :: "hd_geometry option"
  k_blksize :: "u32 option"
  k_info :: "dasd_information option"
  k_rdonly :: "int option"

definition cylinders_of_size :: "u64 \<Rightarrow> u64 \<Rightarrow> stop + u32" where
  "cylinders_of_size sz bytes_per_cyl =
     (if bytes_per_cyl = 0 then Inl Crash else Inr (ucast (sz div bytes_per_cyl)))"

text \<open>The \<open>force\<close> option replaces the geometry by one computed from the type and the block size.\<close>

definition forced_geometry :: "u64 \<Rightarrow> fdasd_anchor \<Rightarrow> stop + hd_geometry \<times> fdasd_anchor" where
  "forced_geometry sz anc =
     (let secs = (ucast (recs_per_track (dev_type anc) 0 (blksize anc)) :: u8) in
      bind_err (cylinders_of_size sz (ucast (blksize anc * 15 * ucast secs))) (\<lambda>cyl.
        Inr (\<lparr>heads = 15, sectors = secs,
               cylinders = (if cyl < LV_COMPAT_CYL then ucast cyl else ucast LV_COMPAT_CYL), geo_start = 0\<rparr>,
             anc\<lparr>hw_cylinders := cyl, label_pos := ucast (2 * blksize anc), devno := 0\<rparr>)))"

text \<open>Without the ioctl of the DASD driver only the geometry is known.\<close>

definition plain_geometry :: "u64 \<Rightarrow> hd_geometry \<Rightarrow> u32 \<Rightarrow> fdasd_anchor \<Rightarrow> stop + hd_geometry \<times> fdasd_anchor" where
  "plain_geometry sz geo bs anc =
     (if \<not> fdasd_verify_geometry DASD_3390_TYPE bs geo then
        Inl (Fail wrong_disk_type ''Disk geometry does not match a DASD device of type 3390.'')
      else
        bind_err (cylinders_of_size sz (scast (bs * ucast (heads geo) * ucast (sectors geo)))) (\<lambda>cyl.
          Inr (geo, anc\<lparr>dev_type := DASD_3390_TYPE, blksize := bs, hw_cylinders := cyl,
            label_pos := scast (2 * bs), devno := 0\<rparr>)))"

definition dasd_geometry ::
  "string \<Rightarrow> hd_geometry \<Rightarrow> u32 \<Rightarrow> dasd_information \<Rightarrow> fdasd_anchor \<Rightarrow> stop + hd_geometry \<times> fdasd_anchor" where
  "dasd_geometry dev geo bs info anc =
     (let cyl = (if ucast (no_cyl info) = LV_COMPAT_CYL \<and> long_no_cyl info \<noteq> 0
                 then long_no_cyl info else ucast (no_cyl info))
      in if take 4 (d_type info) \<noteq> bytes_of ''ECKD'' then
           Inl (Fail wrong_disk_type (dev @ '' is not an ECKD disk! This disk type is not supported!''))
         else if d_FBA_layout info \<noteq> 0 then
           Inl (Fail wrong_disk_format (dev @ '' is not formatted with z/OS compatible disk layout!''))
         else if d_open_count info > 1 \<and> auto_partition anc \<noteq> 0 then
           Inl (Fail disk_in_use (''DASD '' @ [CHR 0x27] @ dev @ [CHR 0x27] @ '' is in use. Unmount it first!''))
         else Inr (geo, anc\<lparr>hw_cylinders := cyl, dev_type := d_dev_type info, blksize := bs,
           label_pos := ucast (d_label_block info * bs), devno := sint (d_devno info)\<rparr>))"

definition fdasd_get_geometry :: "device \<Rightarrow> kernel \<Rightarrow> fdasd_anchor \<Rightarrow> stop + hd_geometry \<times> fdasd_anchor" where
  "fdasd_get_geometry dev k anc =
     (if \<not> open_rdonly dev then
        Inl (Fail unable_to_open_disk (''Could not open device '' @ [CHR 0x27] @ dev_name dev @ [CHR 0x27] @
          '' in read-only mode!\<newline>''))
      else case k_size k of
        None \<Rightarrow> Inl (Fail unable_to_ioctl ''Could not retrieve disk size.'')
      | Some sz \<Rightarrow>
          if force_virtual anc \<noteq> 0 then forced_geometry sz anc
          else (case k_geo k of
            None \<Rightarrow> Inl (Fail unable_to_ioctl ''Could not retrieve disk geometry information.'')
          | Some geo \<Rightarrow>
              (case k_blksize k of
                 None \<Rightarrow> Inl (Fail unable_to_ioctl ''Could not retrieve blocksize information.'')
               | Some bs \<Rightarrow>
                   (case k_info k of
                      None \<Rightarrow> plain_geometry sz geo bs anc
                    | Some info \<Rightarrow> dasd_geometry (dev_name dev) geo bs info anc))))"


section \<open>Checking the access\<close>

definition fdasd_check_disk_access :: "hd_geometry \<Rightarrow> device \<Rightarrow> kernel \<Rightarrow> fdasd_anchor \<Rightarrow> stop + unit" where
  "fdasd_check_disk_access geo dev k anc =
     (let pos = sint (blksize anc * (2 * ucast (heads geo) - 1));
          quoted = [CHR 0x27] @ dev_name dev @ [CHR 0x27]
      in if \<not> open_rdonly dev then
           Inl (Fail unable_to_open_disk (''Could not open device '' @ quoted @ '' in read-only mode!\<newline>''))
         else if pos < 0 \<or> \<not> seek_ok dev (nat pos) then
           Inl (Fail unable_to_seek_disk (''Could not seek device '' @ quoted @ ''.''))
         else if length (fd_read dev (nat pos) 140) \<noteq> 140 then
           Inl (Fail unable_to_read_disk (''Could not read from device '' @ quoted @ ''.''))
         else if k_rdonly k = None then
           Inl (Fail unable_to_ioctl (''Could not get read-only status for device '' @ quoted @ ''.''))
         else Inr ())"


section \<open>Forced geometries are usable\<close>


lemma recs_bounds:
  assumes "supported_type t" "supported_blksize b"
  shows "9 \<le> recs_per_track (ucast t) 0 b \<and> recs_per_track (ucast t) 0 b < 50"
proof -
  have "\<forall>t \<in> {DASD_3390_TYPE, DASD_3380_TYPE, DASD_9345_TYPE}. \<forall>b \<in> {4096, 2048, 1024, 512}.
    9 \<le> recs_per_track t 0 b \<and> recs_per_track t 0 b < 50" by code_simp
  moreover have "ucast t \<in> {DASD_3390_TYPE, DASD_3380_TYPE, DASD_9345_TYPE}"
    using assms(1) by (auto simp: supported_type_def DASD_3390_TYPE_def DASD_3380_TYPE_def DASD_9345_TYPE_def)
  moreover have "b \<in> {4096, 2048, 1024, 512}" using assms(2) by (auto simp: supported_blksize_def)
  ultimately show ?thesis by blast
qed


lemma forced_params:
  assumes "fdasd_parse_force_options optarg anc = Inr anc'"
  shows "supported_blksize (blksize anc')" "force_virtual anc' = force_virtual anc"
    "9 \<le> recs_per_track (dev_type anc') 0 (blksize anc')" "recs_per_track (dev_type anc') 0 (blksize anc') < 50"
proof -
  obtain t b where tb: "supported_type t" "supported_blksize b" "anc' = anc\<lparr>dev_type := ucast t, blksize := b\<rparr>"
  proof (cases optarg)
    case None
    then have "anc' = anc\<lparr>dev_type := ucast (ucast DASD_3390_TYPE :: u32), blksize := 4096\<rparr>"
      using assms by (simp add: fdasd_parse_force_options_def DASD_3390_TYPE_def)
    then show thesis by (intro that [of "ucast DASD_3390_TYPE" 4096]) (simp_all add: supported_type_def supported_blksize_def)
  next
    case (Some arg)
    with assms show thesis
      by (auto simp: fdasd_parse_force_options_def Let_def split: option.split_asm if_split_asm intro: that)
  qed
  then show "supported_blksize (blksize anc')" "force_virtual anc' = force_virtual anc"
    "9 \<le> recs_per_track (dev_type anc') 0 (blksize anc')" "recs_per_track (dev_type anc') 0 (blksize anc') < 50"
    using recs_bounds [OF tb(1,2)] by simp_all
qed

lemma forced_geometry_volume:
  assumes f: "fdasd_parse_force_options optarg anc = Inr anc'" "force_virtual anc \<noteq> 0"
    and k: "k_size k = Some sz" "open_rdonly dev"
    and c: "c = unat sz div (unat (blksize anc') * 15 * unat (recs_per_track (dev_type anc') 0 (blksize anc')))"
      "0 < c" "c * 15 \<le> 2 ^ 31"
  shows "\<exists>geo anc''. fdasd_get_geometry dev k anc' = Inr (geo, anc'') \<and> unat (hw_cylinders anc'') = c \<and>
    volume_ok geo (anc''\<lparr>formatted_cylinders := hw_cylinders anc''\<rparr>)"
proof -
  note p = forced_params [OF f(1)]
  define r where "r = recs_per_track (dev_type anc') 0 (blksize anc')"
  define sec where "sec = (ucast r :: u8)"
  have r: "9 \<le> unat r" "unat r < 50" using p(3,4) by (simp_all add: r_def word_le_nat_alt word_less_nat_alt)
  have b: "unat (blksize anc') \<le> 4096" "0 < unat (blksize anc')" using p(1) by (auto simp: supported_blksize_def)
  have s: "unat sec = unat r" using r by (simp add: sec_def unsigned_ucast_eq take_bit_nat_eq_self)
  then have "unat (ucast sec :: u32) = unat r" using r by (simp add: unsigned_ucast_eq take_bit_nat_eq_self)
  then have s32: "ucast sec = r" by (rule word_unat_eq_iff [THEN iffD2])
  have prod: "unat (blksize anc') * 15 * unat r < 2 ^ 32"
  proof -
    have "unat (blksize anc') * 15 * unat r \<le> 4096 * 15 * 50" by (intro mult_le_mono) (use b r in auto)
    also have "\<dots> < 2 ^ 32" by simp
    finally show ?thesis .
  qed
  have w: "unat (blksize anc' * 15 * ucast sec) = unat (blksize anc') * 15 * unat r"
    by (rule unat_eqI) (use prod s32 in simp_all)
  then have w64: "unat (ucast (blksize anc' * 15 * ucast sec) :: u64) = unat (blksize anc') * 15 * unat r"
    using prod by (simp add: unsigned_ucast_eq take_bit_nat_eq_self)
  define cyl where "cyl = (ucast (sz div ucast (blksize anc' * 15 * ucast sec)) :: u32)"
  have "unat (sz div ucast (blksize anc' * 15 * ucast sec)) = c"
    by (simp only: unat_div_distrib w64 c(1) r_def [symmetric])
  then have cyl: "unat cyl = c" using c(3) by (simp add: cyl_def unsigned_ucast_eq take_bit_nat_eq_self)
  have nz: "ucast (blksize anc' * 15 * ucast sec) \<noteq> (0 :: u64)"
    using w64 b r by (auto simp: unat_eq_0 [symmetric])
  let ?geo = "\<lparr>heads = 15, sectors = sec, cylinders = (if cyl < LV_COMPAT_CYL then ucast cyl else ucast LV_COMPAT_CYL),
    geo_start = 0\<rparr>" and ?anc = "anc'\<lparr>hw_cylinders := cyl, label_pos := ucast (2 * blksize anc'), devno := 0\<rparr>"
  have "fdasd_get_geometry dev k anc' = Inr (?geo, ?anc)"
    using f(2) p(2) k nz
    by (simp add: fdasd_get_geometry_def forced_geometry_def Let_def r_def [symmetric] sec_def [symmetric] cylinders_of_size_def cyl_def)
  moreover have "volume_ok ?geo (?anc\<lparr>formatted_cylinders := hw_cylinders ?anc\<rparr>)"
  proof -
    have "cyl < LV_COMPAT_CYL \<Longrightarrow> ucast (ucast cyl :: u16) = cyl"
      by (rule word_unat_eq_iff [THEN iffD2])
        (simp add: LV_COMPAT_CYL_def word_less_nat_alt unsigned_ucast_eq unsigned_take_bit_eq take_bit_nat_eq_self)
    then have "geo_matches ?geo (?anc\<lparr>formatted_cylinders := hw_cylinders ?anc\<rparr>)"
      by (auto simp: geo_matches_def LV_COMPAT_CYL_def not_less)
    moreover have "c * 15 \<le> fs_lim cyl 15"
    proof -
      have "unat (cyl * 15) = c * 15" by (rule unat_eqI) (use c(3) in \<open>simp_all add: cyl [symmetric]\<close>)
      then show ?thesis using c(3) by (auto simp: fs_lim_def big_disk_def BIG_DISK_SIZE_def word_less_nat_alt)
    qed
    moreover have "sec \<noteq> 0" "blksize anc' \<noteq> 0" using s r b by (auto simp: unat_eq_0 [symmetric])
    ultimately show ?thesis using c(2,3) cyl by (simp add: volume_ok_def geo_ok_def tracks_def)
  qed
  ultimately show ?thesis using cyl by auto
qed

text \<open>C20: with the option \<open>force\<close>, whatever its argument, the geometry is usable for every disk from one
  cylinder to \<open>2 ^ 31\<close> tracks: reading it succeeds, the number of cylinders is the size divided by the
  size of a cylinder, and all requirements of the label code hold, on large volumes too.\<close>

theorem forced_geometry_usable:
  assumes "fdasd_parse_force_options optarg anc = Inr anc'" "force_virtual anc \<noteq> 0"
    and "k_size k = Some sz" "open_rdonly dev"
    and "c = unat sz div (unat (blksize anc') * 15 * unat (recs_per_track (dev_type anc') 0 (blksize anc')))"
      "0 < c" "c * 15 \<le> 2 ^ 31"
  shows "\<exists>geo anc''. fdasd_get_geometry dev k anc' = Inr (geo, anc'') \<and> unat (hw_cylinders anc'') = c \<and>
    volume_ok geo (anc''\<lparr>formatted_cylinders := hw_cylinders anc''\<rparr>)"
  by (rule forced_geometry_volume [OF assms])

definition example_forced :: fdasd_anchor where
  "example_forced = fdasd_initialize_anchor\<lparr>force_virtual := 1, dev_type := 13200, blksize := 4096\<rparr>"

definition example_kernel :: kernel where
  "example_kernel = \<lparr>k_size = Some 73728000, k_geo = None, k_blksize = None, k_info = None, k_rdonly = Some 0\<rparr>"

lemma example_forced_params:
  "fdasd_parse_force_options (Some (bytes_of ''3390,4096'')) (fdasd_initialize_anchor\<lparr>force_virtual := 1\<rparr>) =
     Inr example_forced"
  "recs_per_track (dev_type example_forced) 0 (blksize example_forced) = 12"
proof -
  have "scan_force (bytes_of ''3390,4096'') = Some (13200, 4096)" by code_simp
  then show "fdasd_parse_force_options (Some (bytes_of ''3390,4096'')) (fdasd_initialize_anchor\<lparr>force_virtual := 1\<rparr>) =
      Inr example_forced"
    by (simp add: example_forced_def fdasd_parse_force_options_def supported_type_def supported_blksize_def DASD_3390_TYPE_def)
  show "recs_per_track (dev_type example_forced) 0 (blksize example_forced) = 12" by code_simp
qed

theorem forced_geometry_usable_witness:
  "\<exists>geo anc''. fdasd_get_geometry \<lparr>dev_name = ''/dev/loop0'', content = [], open_rdonly = True, open_wronly = True,
      seek_ok = (\<lambda>_. True)\<rparr> example_kernel example_forced = Inr (geo, anc'') \<and>
    unat (hw_cylinders anc'') = 100 \<and> volume_ok geo (anc''\<lparr>formatted_cylinders := hw_cylinders anc''\<rparr>)"
  by (rule forced_geometry_usable [OF example_forced_params(1), where sz = 73728000])
    (simp_all add: example_forced_params(2) example_kernel_def, simp_all add: example_forced_def)

end
