(* ===== verification/Fdasd_Commands.thy ===== *)
theory Fdasd_Commands
  imports Fdasd_Session
begin

text \<open>
  What the single commands do: removing a partition, listing the table, changing a type, recreating
  and reusing the VTOC, and the examples for the properties of a session.
\<close>

section \<open>Removing\<close>

lemma rm_intervals:
  "k < length us \<Longrightarrow> map interval (snd (rm k g us)) = take k (map interval us) @ drop (Suc k) (map interval us)"
  "k < length us \<Longrightarrow> map p_f1 (snd (rm k g us)) = take k (map p_f1 us) @ drop (Suc k) (map p_f1 us)"
proof (induction k g us rule: rm.induct)
  case (3 k g p ps)
  {
    case 1 with 3 show ?case by (simp add: split_beta Let_def)
  next
    case 2 with 3 show ?case by (simp add: split_beta Let_def)
  }
qed simp_all

lemma list_partitions:
  "map interval (partitions (fdasd_list_partition_table anc)) = map interval (partitions anc)"
  "map p_f1 (partitions (fdasd_list_partition_table anc)) = map (recoded \<circ> p_f1) (partitions anc)"
  "used_partitions (fdasd_list_partition_table anc) = used_partitions anc"
proof -
  have "partitions (fdasd_list_partition_table anc) = map (\<lambda>p. p\<lparr>p_f1 := recoded (p_f1 p)\<rparr>) (partitions anc)"
    by (simp add: partitions_def fdasd_list_partition_table_def filter_map o_def if_distrib [of used] cong: if_cong)
  then show "map interval (partitions (fdasd_list_partition_table anc)) = map interval (partitions anc)"
    "map p_f1 (partitions (fdasd_list_partition_table anc)) = map (recoded \<circ> p_f1) (partitions anc)"
    by (simp_all add: interval_def pstart_def pend_def)
qed (simp add: fdasd_list_partition_table_def)


lemma list_names:
  assumes "session_ok geo anc"
  shows "map (ascii \<circ> p_f1) (partitions (fdasd_list_partition_table anc)) = map (ascii \<circ> p_f1) (partitions anc)"
proof -
  have "map (ascii \<circ> p_f1) (partitions (fdasd_list_partition_table anc)) = map (ascii \<circ> recoded \<circ> p_f1) (partitions anc)"
    using arg_cong [OF list_partitions(2), of "map ascii" anc] by (simp add: comp_assoc)
  also have "\<dots> = map (ascii \<circ> p_f1) (partitions anc)"
    using assms recoded_name(2) by (auto simp: session_ok_def names_ok_def partitions_def)
  finally show ?thesis .
qed

lemma digit_id:
  assumes "k < 3"
  shows "ucast (of_nat (49 + k) :: u8) - 48 \<noteq> (0 :: u32)" "unat (ucast (of_nat (49 + k) :: u8) - 48 :: u32) = Suc k"
proof -
  have "k = 0 \<or> k = 1 \<or> k = 2" using assms by linarith
  then show "ucast (of_nat (49 + k) :: u8) - 48 \<noteq> (0 :: u32)" "unat (ucast (of_nat (49 + k) :: u8) - 48 :: u32) = Suc k"
    by auto
qed

lemma remove_listed_exact:
  assumes ok: "anchor_ok geo anc" and rd: "read_digit inp = Inr (of_nat (49 + k), inp')" and k: "k < length (partitions anc)"
  shows "\<exists>anc'. remove_listed geo anc inp = Inr (anc', inp') \<and>
    map interval (partitions anc') = take k (map interval (partitions anc)) @ drop (Suc k) (map interval (partitions anc)) \<and>
    map p_f1 (partitions anc') = take k (map p_f1 (partitions anc)) @ drop (Suc k) (map p_f1 (partitions anc))"
proof -
  note p = anchor_ok_partitions [OF ok]
  obtain zs where zs: "parts anc = partitions anc @ zs" "\<forall>z \<in> set zs. used z = 0" using p(7) by blast
  have k3: "k < 3" using k p(4) by simp
  note id = digit_id [OF k3]
  have le: "ucast (of_nat (49 + k) :: u8) - 48 \<le> used_partitions anc" unfolding word_le_nat_alt id using k p(3) by simp
  let ?r = "rm k (fspace_trk anc) (partitions anc)"
  obtain g4 g5 g7 where r: "remove_listed geo anc inp = Inr ((fdasd_dequeue_old_partition (setpos anc k (-1)) k)
    \<lparr>used_partitions := used_partitions anc - 1, a_f4 := g4, a_f5 := g5, a_f7 := g7,
      vtoc_changed := vtoc_changed anc + 1\<rparr>, inp')" (is "_ = Inr (?anc, _)")
    using remove_valid_id [OF ok rd id(1) le] unfolding id by auto
  obtain pn where "fdasd_dequeue_old_partition (setpos anc k (-1)) k = (setpos anc k (-1))\<lparr>partno := pn, fspace_trk := fst ?r,
      parts := snd ?r @ zs @ [cleared (partitions anc ! k)]\<rparr>"
    using dequeue_rm [of "setpos anc k (-1)" "partitions anc" zs k] zs(1) k by auto
  then have ps: "parts ?anc = snd ?r @ zs @ [cleared (partitions anc ! k)]" by simp
  have "tracks geo anc < 2 ^ 64" using tracks_bound [OF p(1)] by simp
  then have "chain geo 2 (tracks geo anc) (fst ?r) (snd ?r)" using rm_chain [OF p(2) k] by blast
  then have "partitions ?anc = snd ?r" using zs(2) by (intro partitions_chain [OF ps]) (auto simp: cleared_def)
  then show ?thesis using r rm_intervals [OF k] by metis
qed

text \<open>C10: removing partition \<open>k\<close> takes exactly this partition out of the table: the others keep their
  order, their tracks and their names, and the table stays consistent, so that its tracks are free
  again.\<close>

theorem remove_exact:
  assumes s: "session_ok geo anc" and rd: "read_digit inp = Inr (of_nat (49 + k), inp')"
    and k: "k < length (partitions anc)"
  shows "\<exists>anc'. fdasd_remove_partition geo anc inp = Inr (anc', inp') \<and> session_ok geo anc' \<and>
    map interval (partitions anc') = take k (map interval (partitions anc)) @ drop (Suc k) (map interval (partitions anc)) \<and>
    map (ascii \<circ> p_f1) (partitions anc') =
      take k (map (ascii \<circ> p_f1) (partitions anc)) @ drop (Suc k) (map (ascii \<circ> p_f1) (partitions anc))"
proof -
  let ?l = "fdasd_list_partition_table anc"
  have l: "session_ok geo ?l" by (rule list_session [OF s])
  then have ok: "anchor_ok geo ?l" by (simp add: session_ok_def)
  have len: "length (partitions ?l) = length (partitions anc)"
    using arg_cong [OF list_partitions(1), of length anc] by simp
  obtain anc' where a: "fdasd_remove_partition geo anc inp = Inr (anc', inp')"
    "map interval (partitions anc') = take k (map interval (partitions ?l)) @ drop (Suc k) (map interval (partitions ?l))"
    "map p_f1 (partitions anc') = take k (map p_f1 (partitions ?l)) @ drop (Suc k) (map p_f1 (partitions ?l))"
    using remove_listed_exact [OF ok rd] k len unfolding fdasd_remove_partition_def by auto
  have n: "map (ascii \<circ> p_f1) (partitions ?l) = map (ascii \<circ> p_f1) (partitions anc)" by (rule list_names [OF s])
  have "map (ascii \<circ> p_f1) (partitions anc') = map ascii (map p_f1 (partitions anc'))" by simp
  also have "\<dots> = take k (map (ascii \<circ> p_f1) (partitions ?l)) @ drop (Suc k) (map (ascii \<circ> p_f1) (partitions ?l))"
    unfolding a(3) by (simp add: take_map drop_map)
  finally show ?thesis using a(1,2) remove_session [OF s a(1)] unfolding n list_partitions(1) by blast
qed


section \<open>Listing\<close>

text \<open>Rows that follow one another from track \<open>lo\<close> to the end of the volume.\<close>

fun tiles :: "nat \<Rightarrow> nat \<Rightarrow> (nat \<times> u64 \<times> u64 \<times> u64) list \<Rightarrow> bool" where
  "tiles lo n [] \<longleftrightarrow> lo = n"
| "tiles lo n ((i, s, e, l) # rs) \<longleftrightarrow> unat s = lo \<and> lo \<le> unat e \<and> unat l = Suc (unat e) - lo \<and>
     tiles (Suc (unat e)) n rs"

definition gap_row :: "u64 \<Rightarrow> u64 \<Rightarrow> (nat \<times> u64 \<times> u64 \<times> u64) list" where
  "gap_row lo g = (if g > 0 then [(0, lo, lo + g - 1, g)] else [])"

lemma rows_unused: "\<forall>z \<in> set zs. used z = 0 \<Longrightarrow> part_rows i zs = []"
  by (induction zs arbitrary: i) simp_all

lemma gap_row_tiles:
  assumes "unat lo + unat g \<le> n" "n < 2 ^ 64" "tiles (unat lo + unat g) n rs"
  shows "tiles (unat lo) n (gap_row lo g @ rs)"
proof (cases "g = 0")
  case False
  then have "0 < unat g" "g > 0" by (auto simp: unat_gt_0 word_neq_0_conv)
  moreover have "unat (lo + g - 1) = unat lo + unat g - 1"
    by (rule unat_eqI) (use assms \<open>0 < unat g\<close> in \<open>simp_all add: of_nat_diff\<close>)
  ultimately show ?thesis using assms(3) by (simp add: gap_row_def)
qed (use assms in \<open>simp add: gap_row_def\<close>)

lemma chain_tiles:
  assumes "chain geo (unat lo) n g us" "n < 2 ^ 64" "\<forall>z \<in> set zs. used z = 0"
  shows "tiles (unat lo) n (gap_row lo g @ part_rows i (us @ zs))"
  using assms
proof (induction us arbitrary: lo g i)
  case Nil
  then show ?case by (intro gap_row_tiles) (simp_all add: rows_unused)
next
  case (Cons p us)
  have p: "used p = 1" "unat lo + unat g = pstart p" "pstart p \<le> pend p" "unat (len_trk p) = Suc (pend p) - pstart p"
    and c: "chain geo (Suc (pend p)) n (p_fspace_trk p) us" using Cons.prems(1) by auto
  have e: "unat (end_trk p + 1) = Suc (pend p)"
    using chain_le [OF c] Cons.prems(2) by (intro succ_end [of p n]) auto
  have rows: "part_rows i ((p # us) @ zs) = (i, start_trk p, end_trk p, len_trk p) #
      gap_row (end_trk p + 1) (p_fspace_trk p) @ part_rows (i + 1) (us @ zs)"
    using p(1) by (simp add: gap_row_def)
  have "tiles (unat (end_trk p + 1)) n (gap_row (end_trk p + 1) (p_fspace_trk p) @ part_rows (i + 1) (us @ zs))"
    using Cons.IH [of "end_trk p + 1"] c e Cons.prems(2,3) by simp
  then have "tiles (pstart p) n (part_rows i ((p # us) @ zs))" unfolding rows using p e
    by (simp add: pstart_def pend_def)
  then show ?case using p(2,3) chain_le [OF c] Cons.prems(2) by (intro gap_row_tiles) simp_all
qed

text \<open>C14: the table the user sees is complete and correct.  The lines of the command \<open>p\<close>, partitions and
  free areas together, follow one another without gap or overlap from the first usable track to the
  last track of the volume, the lengths agree with the limits, and the numbered lines are the
  partitions in their order.\<close>

theorem listing_tiles_volume:
  assumes "session_ok geo anc"
  shows "tiles 2 (tracks geo anc) (table_rows anc) \<and>
    filter (\<lambda>r. fst r \<noteq> 0) (table_rows anc) =
      map2 (\<lambda>i p. (i, start_trk p, end_trk p, len_trk p)) [1..<Suc (length (partitions anc))] (partitions anc)"
proof -
  have ok: "anchor_ok geo anc" using assms by (simp add: session_ok_def)
  note p = anchor_ok_partitions [OF ok]
  obtain zs where zs: "parts anc = partitions anc @ zs" "\<forall>z \<in> set zs. used z = 0"
    "length zs = 3 - length (partitions anc)" using p(7) by blast
  then have ne: "parts anc \<noteq> []" using p(4) by (cases "partitions anc") auto
  have rows: "table_rows anc = gap_row 2 (fspace_trk anc) @ part_rows 1 (parts anc)"
    using ne by (simp add: table_rows_def gap_row_def)
  have "tiles (unat (2 :: u64)) (tracks geo anc) (table_rows anc)"
    unfolding rows zs(1) using p(2) tracks_bound [OF p(1)] zs(2) by (intro chain_tiles) simp_all
  moreover have "filter (\<lambda>r. fst r \<noteq> 0) (part_rows (Suc i) (us @ zs)) =
      map2 (\<lambda>i p. (i, start_trk p, end_trk p, len_trk p)) [Suc i..<Suc (i + length us)] us"
    if "\<forall>p \<in> set us. used p = 1" for us i
    using that
  proof (induction us arbitrary: i)
    case (Cons q us)
    then show ?case by (simp add: upt_conv_Cons del: upt_Suc)
  qed (simp add: rows_unused [OF zs(2)])
  from this [of "partitions anc" 0] have "filter (\<lambda>r. fst r \<noteq> 0) (table_rows anc) =
      map2 (\<lambda>i p. (i, start_trk p, end_trk p, len_trk p)) [1..<Suc (length (partitions anc))] (partitions anc)"
    unfolding rows by (subst zs(1)) (simp add: partitions_def gap_row_def)
  ultimately show ?thesis by simp
qed


section \<open>Changing the type\<close>

text \<open>C15: changing the type of a partition succeeds for every partition and every type of the menu, and
  replaces nothing but the six characters of the type, nine characters behind \<open>PART\<close>, in the name of
  this one partition.\<close>

theorem type_change_exact:
  assumes s: "session_ok geo anc" and rd: "read_digit inp = Inr (of_nat (49 + k), inp1)"
    and k: "k < length (partitions anc)" and rt: "read_type inp1 = Inr (t, inp2)"
  shows "\<exists>anc' dsname i. fdasd_change_part_type anc inp = Inr (anc', inp2) \<and> session_ok geo anc' \<and>
    get_part_dsname_by_type t = Inr (Some dsname) \<and>
    c_strstr (ascii (p_f1 (partitions anc ! k))) (bytes_of ''PART'') = Some i \<and>
    map interval (partitions anc') = map interval (partitions anc) \<and>
    map (ascii \<circ> p_f1) (partitions anc') = (map (ascii \<circ> p_f1) (partitions anc))
      [k := overwrite (ascii (p_f1 (partitions anc ! k))) (i + 9) (padded dsname)]"
proof -
  let ?l = "fdasd_list_partition_table anc"
  have l: "session_ok geo ?l" by (rule list_session [OF s])
  then have ok: "anchor_ok geo ?l" by (simp add: session_ok_def)
  note p = anchor_ok_partitions [OF ok]
  obtain zs where zs: "parts ?l = partitions ?l @ zs" "\<forall>z \<in> set zs. used z = 0" using p(7) by blast
  have kl: "k < length (partitions ?l)"
    using k arg_cong [OF list_partitions(1), of length anc] by simp
  then have "k < 3" using p(4) by simp
  note id = digit_id [OF this]
  have le: "ucast (of_nat (49 + k) :: u8) - 48 \<le> used_partitions ?l"
    unfolding word_le_nat_alt id using kl p(3) by simp
  obtain anc' where c: "fdasd_change_part_type anc inp = Inr (anc', inp2)" and tc: "type_changed ?l k t anc'"
    using change_valid [OF l rd rt id(1) le] unfolding id fdasd_change_part_type_def by auto
  obtain dsname i g where t: "get_part_dsname_by_type t = Inr (Some dsname)"
    and anc': "anc' = ?l\<lparr>parts := (parts ?l)[k := (parts ?l ! k)\<lparr>p_f1 := g\<rparr>], vtoc_changed := vtoc_changed ?l + 1\<rparr>"
    and i: "c_strstr (ascii (p_f1 (parts ?l ! k))) (bytes_of ''PART'') = Some i"
    and g: "ascii g = overwrite (ascii (p_f1 (parts ?l ! k))) (i + 9) (padded dsname)"
    using tc unfolding type_changed_def by blast
  have pk: "parts ?l ! k = partitions ?l ! k" using kl by (simp add: zs(1) nth_append)
  have ps: "partitions anc' = (partitions ?l)[k := (partitions ?l ! k)\<lparr>p_f1 := g\<rparr>]"
  proof -
    have "parts anc' = (partitions ?l)[k := (partitions ?l ! k)\<lparr>p_f1 := g\<rparr>] @ zs"
      using kl by (simp add: anc' zs(1) list_update_append nth_append)
    moreover have "\<forall>p \<in> set ((partitions ?l)[k := (partitions ?l ! k)\<lparr>p_f1 := g\<rparr>]). used p = 1"
      using kl nth_mem [OF kl] by (auto simp: partitions_def dest!: set_update_subset_insert [THEN subsetD])
    ultimately show ?thesis using zs(2) by (simp add: partitions_def [of anc'])
  qed
  have n: "map (ascii \<circ> p_f1) (partitions ?l) = map (ascii \<circ> p_f1) (partitions anc)" by (rule list_names [OF s])
  have nk: "ascii (p_f1 (partitions ?l ! k)) = ascii (p_f1 (partitions anc ! k))"
    using arg_cong [OF n, of "\<lambda>xs. xs ! k"] k kl by simp
  have "interval (q\<lparr>p_f1 := g\<rparr>) = interval q" for q by (simp add: interval_def pstart_def pend_def)
  then have "map interval (partitions anc') = (map interval (partitions ?l))[k := map interval (partitions ?l) ! k]"
    using kl by (simp add: ps map_update)
  then have iv: "map interval (partitions anc') = map interval (partitions anc)" by (simp add: list_partitions(1))
  have "map (ascii \<circ> p_f1) (partitions anc') = (map (ascii \<circ> p_f1) (partitions anc))
      [k := overwrite (ascii (p_f1 (partitions anc ! k))) (i + 9) (padded dsname)]"
    unfolding ps map_update n using g by (simp add: pk nk)
  then show ?thesis using c t iv change_session [OF l tc] i unfolding pk nk by blast
qed



section \<open>Making a VTOC\<close>

text \<open>C18: recreating the VTOC succeeds on every volume, whatever the labels were, and gives an empty,
  consistent table: every usable track is free.\<close>

theorem recreate_gives_empty_table:
  assumes "volume_ok geo anc" and "slots_ok anc"
  shows "\<exists>anc'. fdasd_recreate_vtoc_unconditional geo anc = Inr anc' \<and> session_ok geo anc' \<and>
    partitions anc' = [] \<and>
    fs_free (formatted_cylinders anc') (ucast (heads geo)) (a_f4 anc', a_f5 anc', a_f7 anc') = {2..<tracks geo anc'}"
proof -
  obtain anc' where a: "fdasd_recreate_vtoc_unconditional geo anc = Inr anc'" "session_ok geo anc'"
    "used_partitions anc' = 0" by (rule fresh_session [OF assms])
  then have "anchor_ok geo anc'" by (simp add: session_ok_def)
  from anchor_ok_partitions(3,6) [OF this] a show ?thesis by auto
qed

theorem recreate_gives_empty_table_witness:
  "\<exists>anc'. fdasd_recreate_vtoc_unconditional example_geo example_blank = Inr anc' \<and> session_ok example_geo anc' \<and>
    partitions anc' = [] \<and>
    fs_free (formatted_cylinders anc') (ucast (heads example_geo)) (a_f4 anc', a_f5 anc', a_f7 anc') =
      {2..<tracks example_geo anc'}"
  by (rule recreate_gives_empty_table [OF example_blank_ok(1,2)])



text \<open>C19: \<open>fdasd -a\<close> makes one partition of all usable tracks, with a label and free-space labels that
  say so.\<close>

theorem auto_partition_whole_disk:
  assumes "volume_ok geo anc" and "length (parts anc) = 3"
    and "\<forall>p \<in> set (parts anc). used p = 0 \<and> start_trk p = 0 \<and> end_trk p = 0"
  shows "anchor_ok geo (whole_disk y d geo anc) \<and>
    map interval (partitions (whole_disk y d geo anc)) = [(2, tracks geo anc)]"
proof -
  note w = whole_disk_ok [OF assms, of y d]
  note p = anchor_ok_partitions [OF w(1)]
  obtain zs where zs: "parts (whole_disk y d geo anc) = partitions (whole_disk y d geo anc) @ zs" using p(7) by blast
  have "length (partitions (whole_disk y d geo anc)) = 1" using p(3) w(2) by simp
  then obtain q where "partitions (whole_disk y d geo anc) = [q]" by (auto simp: length_Suc_conv)
  with w zs show ?thesis by simp
qed

theorem auto_partition_whole_disk_witness:
  "anchor_ok example_geo (whole_disk 119 200 example_geo example_blank) \<and>
    map interval (partitions (whole_disk 119 200 example_geo example_blank)) = [(2, tracks example_geo example_blank)]"
  by (rule auto_partition_whole_disk [OF example_blank_ok(1)])
    (simp_all add: example_blank_def fdasd_initialize_anchor_def USABLE_PARTITIONS_def empty_part_def)



section \<open>Examples of a session\<close>

text \<open>The table after the first partition was added with the default limits.\<close>

definition example_added :: fdasd_anchor where
  "example_added = (case fdasd_add_partition 119 200 example_geo example_anchor [0x0a, 0x0a] of
     Inr (anc, inp) \<Rightarrow> anc | Inl _ \<Rightarrow> example_anchor)"

lemma example_free:
  "fs_free (formatted_cylinders example_anchor) (ucast (heads example_geo))
     (a_f4 example_anchor, a_f5 example_anchor, a_f7 example_anchor) = {2..<1500}"
proof -
  have ok: "anchor_ok example_geo example_anchor" using example_ok by (simp add: session_ok_def)
  have "partitions example_anchor = []" using anchor_ok_partitions(3) [OF ok] example_ok(2) by simp
  moreover have "formatted_cylinders example_anchor = 100"
    by (simp add: example_anchor_def example_blank_def fdasd_recreate_vtoc_unconditional_def set_freespace_def Let_def
        bind_err_def lift_vtoc_def split: sum.split prod.split)
  ultimately show ?thesis using anchor_ok_partitions(6) [OF ok] by (simp add: tracks_def example_geo_def)
qed

theorem add_default_succeeds_witness:
  "\<exists>anc' inp' e. fdasd_add_partition 119 200 example_geo example_anchor [0x0a, 0x0a] = Inr (anc', inp') \<and>
    session_ok example_geo anc' \<and> used_partitions anc' = used_partitions example_anchor + 1 \<and>
    {Min {2..<1500}..<e} \<subseteq> {2..<1500} \<and> e \<notin> {2..<1500} \<and> Min {2..<1500} < e \<and>
    fs_free (formatted_cylinders example_anchor) (ucast (heads example_geo)) (a_f4 anc', a_f5 anc', a_f7 anc') =
      {2..<1500} - {Min {2..<1500}..<e}"
  using add_default_succeeds [OF example_ok(1), of 119 200] by (simp add: example_free example_ok(2))

lemma example_added_ok:
  "session_ok example_geo example_added" "length (partitions example_added) = 1"
  "rtranclp (session_step 119 200 example_geo) example_anchor example_added"
proof -
  obtain anc' inp' where a: "fdasd_add_partition 119 200 example_geo example_anchor [0x0a, 0x0a] = Inr (anc', inp')"
    "session_ok example_geo anc'" "used_partitions anc' = 1"
    using add_default [OF example_ok(1), of 119 200] by (auto simp: example_free example_ok(2))
  then have e: "example_added = anc'" by (simp add: example_added_def)
  show "session_ok example_geo example_added" by (simp add: e a(2))
  then have "anchor_ok example_geo example_added" by (simp add: session_ok_def)
  from anchor_ok_partitions(3) [OF this] show "length (partitions example_added) = 1" by (simp add: e a(3))
  show "rtranclp (session_step 119 200 example_geo) example_anchor example_added"
    unfolding e using a(1) by (intro r_into_rtranclp session_step.add)
qed

theorem session_invariant_witness:
  "sorted (map pstart (partitions example_added)) \<and>
    disjoint_within {2..<tracks example_geo example_added} (map interval (partitions example_added)) \<and>
    list_all (label_ok example_geo) (partitions example_added) \<and>
    length (partitions example_added) = unat (used_partitions example_added) \<and> unat (used_partitions example_added) \<le> 3 \<and>
    fs_valid (formatted_cylinders example_added) (ucast (heads example_geo))
      (a_f4 example_added, a_f5 example_added, a_f7 example_added) \<and>
    fs_free (formatted_cylinders example_added) (ucast (heads example_geo))
      (a_f4 example_added, a_f5 example_added, a_f7 example_added) =
      {2..<tracks example_geo example_added} - covered (map interval (partitions example_added))"
  by (rule session_invariant [OF example_ok(1) example_added_ok(3)])

lemma read_digit_1: "read_digit [0x31, 0x0a] = Inr (of_nat (49 + 0), [])"
  by code_simp

theorem remove_exact_witness:
  "\<exists>anc'. fdasd_remove_partition example_geo example_added [0x31, 0x0a] = Inr (anc', []) \<and> session_ok example_geo anc' \<and>
    map interval (partitions anc') = take 0 (map interval (partitions example_added)) @
      drop (Suc 0) (map interval (partitions example_added)) \<and>
    map (ascii \<circ> p_f1) (partitions anc') = take 0 (map (ascii \<circ> p_f1) (partitions example_added)) @
      drop (Suc 0) (map (ascii \<circ> p_f1) (partitions example_added))"
  by (rule remove_exact [OF example_added_ok(1) read_digit_1]) (simp add: example_added_ok(2))

theorem type_change_exact_witness:
  "\<exists>anc' dsname i. fdasd_change_part_type example_added [0x31, 0x0a, 0x32, 0x0a] = Inr (anc', []) \<and>
    session_ok example_geo anc' \<and> get_part_dsname_by_type 2 = Inr (Some dsname) \<and>
    c_strstr (ascii (p_f1 (partitions example_added ! 0))) (bytes_of ''PART'') = Some i \<and>
    map interval (partitions anc') = map interval (partitions example_added) \<and>
    map (ascii \<circ> p_f1) (partitions anc') = (map (ascii \<circ> p_f1) (partitions example_added))
      [0 := overwrite (ascii (p_f1 (partitions example_added ! 0))) (i + 9) (padded dsname)]"
proof -
  have "read_digit [0x31, 0x0a, 0x32, 0x0a] = Inr (of_nat (49 + 0), [0x32, 0x0a])"
    "read_type [0x32, 0x0a] = Inr (2, [])" by code_simp+
  then show ?thesis by (intro type_change_exact [OF example_added_ok(1)]) (simp_all add: example_added_ok(2))
qed

theorem listing_tiles_volume_witness:
  "tiles 2 (tracks example_geo example_added) (table_rows example_added) \<and>
    filter (\<lambda>r. fst r \<noteq> 0) (table_rows example_added) =
      map2 (\<lambda>i p. (i, start_trk p, end_trk p, len_trk p)) [1..<Suc (length (partitions example_added))]
        (partitions example_added)"
  by (rule listing_tiles_volume [OF example_added_ok(1)])

definition example_dev :: device where
  "example_dev = \<lparr>dev_name = ''/dev/dasda'', content = replicate 4096 0, open_rdonly = True, open_wronly = True,
     seek_ok = (\<lambda>_. True)\<rparr>"

theorem session_device_witness:
  "\<exists>anc'. rtranclp (session_step 119 200 example_geo) example_anchor anc' \<and> session_ok example_geo anc' \<and>
     (snd (main_loop 119 200 0 example_geo example_anchor (bytes_of ''n'' @ [0x0a, 0x0a, 0x0a] @ bytes_of ''w'') example_dev) = example_dev \<or>
      snd (main_loop 119 200 0 example_geo example_anchor (bytes_of ''n'' @ [0x0a, 0x0a, 0x0a] @ bytes_of ''w'') example_dev) =
        snd (fdasd_write_labels 0 example_geo anc' example_dev))"
  by (rule session_device [OF example_ok(1)])


end
