(* ===== verification/Fdasd_Main.thy ===== *)
theory Fdasd_Main
  imports Fdasd_Start Fdasd_Conf_Table Fdasd_Geometry Fdasd_Commands
begin

text \<open>
  The program as a whole: \<open>main\<close> of \<open>fdasd.c\<close> after the options have been read into \<open>opts\<close> and
  \<open>anc\<close>.  The file system's checks of the device node are left out; the kernel's answers \<open>k\<close>, the
  bytes of the configuration file \<open>conf\<close>, standard input \<open>inp\<close>, the date \<open>y d\<close> and the result of the
  ioctl that rereads the partition table are arguments.  The result is the way the program ends and
  the device it leaves behind.
\<close>

section \<open>The program\<close>

text \<open>From the check of the volume on.  \<open>rc\<close> is the result of that check.\<close>

definition main_checked ::
  "int \<Rightarrow> int \<Rightarrow> int \<Rightarrow> conf_file \<Rightarrow> fdasd_options \<Rightarrow> hd_geometry \<Rightarrow> int \<Rightarrow> fdasd_anchor \<Rightarrow> bytes \<Rightarrow> device \<Rightarrow>
   stop \<times> device" where
  "main_checked y d rrpart conf opts geo rc anc inp dev =
     (let anc = (if formatted_cylinders anc * ucast (heads geo) > BIG_DISK_SIZE
                 then anc\<lparr>big_disk_flag := big_disk_flag anc + 1\<rparr> else anc) in
      if auto_partition anc \<noteq> 0 then
        case fdasd_recreate_vtoc_unconditional geo anc of
          Inl e \<Rightarrow> (e, dev)
        | Inr anc \<Rightarrow> fdasd_auto_partition y d rrpart geo opts anc inp dev
      else if conffile_opt opts \<noteq> None then
        case bind_err (fdasd_recreate_vtoc_unconditional geo anc) (\<lambda>anc.
             bind_err (fdasd_parse_conffile geo opts conf anc) (\<lambda>anc. fdasd_check_conffile_input geo opts anc)) of
          Inl e \<Rightarrow> (e, dev)
        | Inr anc \<Rightarrow> fdasd_auto_partition_conffile y d rrpart geo opts anc inp dev
      else
        case bind_err (if print_volser anc \<noteq> 0 then fdasd_quit anc inp else Inr inp) (\<lambda>inp.
             if print_table anc \<noteq> 0 then
               let anc = (if rc = 0 then fdasd_list_partition_table anc else anc)
               in bind_err (fdasd_quit anc inp) (\<lambda>inp. Inr (anc, inp))
             else Inr (anc, inp)) of
          Inl e \<Rightarrow> (e, dev)
        | Inr (anc, inp) \<Rightarrow> main_loop y d rrpart geo anc inp dev)"

definition fdasd_main ::
  "int \<Rightarrow> int \<Rightarrow> int \<Rightarrow> kernel \<Rightarrow> conf_file \<Rightarrow> fdasd_options \<Rightarrow> fdasd_anchor \<Rightarrow> bytes \<Rightarrow> device \<Rightarrow> stop \<times> device" where
  "fdasd_main y d rrpart k conf opts anc inp dev =
     (case bind_err (fdasd_verify_options opts anc) (\<lambda>_.
           bind_err (fdasd_get_geometry dev k anc) (\<lambda>(geo, anc).
           bind_err (fdasd_check_disk_access geo dev k anc) (\<lambda>_.
           bind_err (fdasd_check_volume geo opts dev anc inp) (\<lambda>r. Inr (geo, r))))) of
        Inl e \<Rightarrow> (e, dev)
      | Inr (geo, anc, inp, rc) \<Rightarrow> main_checked y d rrpart conf opts geo rc anc inp dev)"


section \<open>Looking at a disk\<close>

text \<open>What the steps before \<open>main_checked\<close> leave alone.\<close>

lemma get_geometry_frame:
  assumes "fdasd_get_geometry dev k anc = Inr (geo, anc')"
  shows "print_table anc' = print_table anc" "vtoc_changed anc' = vtoc_changed anc" "vlabel_changed anc' = vlabel_changed anc"
    "auto_partition anc' = auto_partition anc" "print_volser anc' = print_volser anc"
    "confdata anc' = confdata anc" "parts anc' = parts anc" "used_partitions anc' = used_partitions anc"
  using assms
  by (auto simp: fdasd_get_geometry_def forced_geometry_def plain_geometry_def dasd_geometry_def Let_def bind_err_Inr
      split: if_split_asm option.split_asm)

definition same_flags :: "fdasd_anchor \<Rightarrow> fdasd_anchor \<Rightarrow> bool" where
  "same_flags a b \<longleftrightarrow> print_table a = print_table b \<and> vtoc_changed a = vtoc_changed b \<and>
     vlabel_changed a = vlabel_changed b \<and> auto_partition a = auto_partition b \<and> print_volser a = print_volser b"

lemma scan_label_flags: "same_flags (s_anc (scan_label f s)) (s_anc s)"
  by (simp add: scan_label_def same_flags_def Let_def setpos_def)

lemma scan_vtoc_flags: "scan_vtoc dev bs n blk s = Inr s' \<Longrightarrow> same_flags (s_anc s') (s_anc s)"
proof (induction n arbitrary: blk s)
  case (Suc n)
  then obtain f where "scan_vtoc dev bs n (blk + bs) (scan_label f s) = Inr s'" by (auto simp: bind_err_Inr)
  from Suc.IH [OF this] scan_label_flags [of f s] show ?case by (simp add: same_flags_def)
qed (simp add: same_flags_def)

lemma process_valid_flags:
  "fdasd_process_valid_vtoc geo dev anc blk = Inr anc' \<Longrightarrow> same_flags anc' anc"
  by (auto simp: fdasd_process_valid_vtoc_def Let_def bind_err_Inr fdasd_update_partition_info_def
      fdasd_reorganize_FMT1s_def same_flags_def split_beta dest!: scan_vtoc_flags)


text \<open>With the option \<open>-p\<close> the check of the volume asks nothing.\<close>

definition asks_nothing :: "(bytes \<Rightarrow> stop + fdasd_anchor \<times> bytes \<times> int) \<Rightarrow> fdasd_anchor \<Rightarrow> bool" where
  "asks_nothing f anc \<longleftrightarrow> (\<exists>e. \<forall>inp. f inp = Inl e) \<or> (\<exists>a rc. same_flags a anc \<and> (\<forall>inp. f inp = Inr (a, inp, rc)))"

lemma asks_nothingI:
  "(\<And>inp. f inp = Inl e) \<Longrightarrow> asks_nothing f anc"
  "same_flags a anc \<Longrightarrow> (\<And>inp. f inp = Inr (a, inp, rc)) \<Longrightarrow> asks_nothing f anc"
  unfolding asks_nothing_def by blast+

lemma pointer_asks_nothing:
  assumes t: "print_table anc \<noteq> 0"
  shows "asks_nothing (fdasd_valid_vtoc_pointer geo dev anc blk) anc"
proof (cases "vtoc_read_label dev (unat blk) False True False False")
  case (Inl m)
  then show ?thesis by (intro asks_nothingI(1)) (simp add: fdasd_valid_vtoc_pointer_def)
next
  case (Inr r)
  obtain x f4 y where r: "r = (x, f4, y)" by (cases r)
  let ?a = "anc\<lparr>a_f4 := the f4\<rparr>"
  have fl: "same_flags ?a anc" by (simp add: same_flags_def)
  show ?thesis
  proof (cases "DS4IDFMT (the f4) = 0xf4")
    case False
    with t Inr r fl show ?thesis by (intro asks_nothingI(2) [of ?a]) (simp_all add: fdasd_valid_vtoc_pointer_def)
  next
    case True
    show ?thesis
    proof (cases "fdasd_process_valid_vtoc geo dev ?a blk")
      case (Inl e)
      with True Inr r show ?thesis \<comment> \<open>reading the labels fails\<close>
        by (intro asks_nothingI(1)) (simp add: fdasd_valid_vtoc_pointer_def)
    next
      case b: (Inr b)
      have "same_flags b anc" using process_valid_flags [OF b] fl by (simp add: same_flags_def)
      with True Inr r b show ?thesis by (intro asks_nothingI(2) [of b]) (simp_all add: fdasd_valid_vtoc_pointer_def)
    qed
  qed
qed

lemma check_volume_asks_nothing:
  assumes t: "print_table anc \<noteq> 0"
  shows "asks_nothing (fdasd_check_volume geo opts dev anc) anc"
proof (cases "vtoc_read_volume_label dev (unat (label_pos anc))")
  case (Inl m)
  then show ?thesis by (intro asks_nothingI(1)) (simp add: fdasd_check_volume_def)
next
  case (Inr v)
  define a where "a = anc\<lparr>vlabel := v\<rparr>"
  define blk where "blk = (cchhb2blk (vtoc v) geo - 1) * ucast (blksize a)"
  have ta: "print_table a \<noteq> 0" "same_flags a anc" using t by (simp_all add: a_def same_flags_def)
  note check = fdasd_check_volume_def [of geo opts dev anc, unfolded Inr lift_vtoc_simps bind_err_simps Let_def,
    folded a_def, folded blk_def]
  show ?thesis
  proof (cases "has_label ''VOL1'' v \<and> 0 < sint blk")
    case False
    then show ?thesis using ta by (intro asks_nothingI(2) [of a]) (simp_all add: check)
  next
    case True
    consider e where "\<And>inp. fdasd_valid_vtoc_pointer geo dev a blk inp = Inl e"
      | b rc where "same_flags b a" "\<And>inp. fdasd_valid_vtoc_pointer geo dev a blk inp = Inr (b, inp, rc)"
      using pointer_asks_nothing [OF ta(1), of geo dev blk] unfolding asks_nothing_def by auto
    then show ?thesis
    proof cases
      case 1
      with True show ?thesis by (intro asks_nothingI(1)) (simp add: check)
    next
      case 2
      then have "same_flags b anc" using ta(2) by (simp add: same_flags_def)
      with True 2(2) show ?thesis by (intro asks_nothingI(2) [of b anc _ "if print_table b \<noteq> 0 \<and> rc < 0 then -1 else 0"]) (simp_all add: check)
    qed
  qed
qed

lemma table_options:
  assumes "fdasd_verify_options opts anc = Inr u" "print_table anc \<noteq> 0"
  shows "auto_partition anc = 0" "conffile_opt opts = None" "print_volser anc = 0"
  using assms by (auto simp: fdasd_verify_options_def Let_def split: if_split_asm)

lemma quit_unchanged: "vtoc_changed anc = 0 \<Longrightarrow> vlabel_changed anc = 0 \<Longrightarrow> fdasd_quit anc inp = Inl (Exit 0)"
  by (simp add: fdasd_quit_def)

lemma main_checked_table:
  assumes "print_table anc \<noteq> 0" "vtoc_changed anc = 0" "vlabel_changed anc = 0" "auto_partition anc = 0"
    "print_volser anc = 0" "conffile_opt opts = None"
  shows "main_checked y d rrpart conf opts geo rc anc inp dev = (Exit 0, dev)"
  using assms by (simp add: main_checked_def Let_def quit_unchanged fdasd_list_partition_table_def)

text \<open>C12: with the option \<open>-p\<close> the program only looks: it ends without a question to the user,
  whatever is on standard input, and leaves every byte of the device alone.\<close>

theorem table_mode_reads_only:
  assumes "print_table anc \<noteq> 0" and "vtoc_changed anc = 0" and "vlabel_changed anc = 0"
  shows "\<exists>e. \<forall>inp. fdasd_main y d rrpart k conf opts anc inp dev = (e, dev)"
proof -
  define pre where "pre = bind_err (fdasd_verify_options opts anc) (\<lambda>_. bind_err (fdasd_get_geometry dev k anc) (\<lambda>(geo, anc).
    bind_err (fdasd_check_disk_access geo dev k anc) (\<lambda>_. Inr (geo, anc))))"
  have main: "fdasd_main y d rrpart k conf opts anc inp dev =
      (case bind_err pre (\<lambda>(geo, anc). bind_err (fdasd_check_volume geo opts dev anc inp) (\<lambda>r. Inr (geo, r))) of
         Inl e \<Rightarrow> (e, dev) | Inr (geo, anc, inp, rc) \<Rightarrow> main_checked y d rrpart conf opts geo rc anc inp dev)" for inp
    by (cases "fdasd_verify_options opts anc"; cases "fdasd_get_geometry dev k anc")
      (auto simp: fdasd_main_def pre_def bind_err_def split: sum.split prod.split)
  show ?thesis
  proof (cases pre)
    case (Inl e)
    then show ?thesis by (simp add: main)
  next
    case (Inr ga)
    obtain geo a u where ga: "ga = (geo, a)" "fdasd_get_geometry dev k anc = Inr (geo, a)" "fdasd_verify_options opts anc = Inr u"
      using Inr by (auto simp: pre_def bind_err_Inr)
    note o = table_options [OF ga(3) assms(1)] and g = get_geometry_frame [OF ga(2)]
    consider e where "\<And>inp. fdasd_check_volume geo opts dev a inp = Inl e"
      | b rc where "same_flags b a" "\<And>inp. fdasd_check_volume geo opts dev a inp = Inr (b, inp, rc)"
      using check_volume_asks_nothing [of a geo opts dev] g(1) assms(1) unfolding asks_nothing_def by auto
    then show ?thesis
    proof cases
      case 1
      then show ?thesis by (simp add: main Inr ga(1))
    next
      case 2
      then have "main_checked y d rrpart conf opts geo rc b inp dev = (Exit 0, dev)" for inp
        using g o assms by (intro main_checked_table) (simp_all add: same_flags_def)
      with 2(2) show ?thesis by (simp add: main Inr ga(1))
    qed
  qed
qed


section \<open>What is written\<close>

lemma write_at_most_once:
  "snd (fdasd_auto_partition y d rrpart geo opts anc inp dev) = dev \<or>
     (\<exists>a inp'. fdasd_init_volume_label opts dev anc inp = Inr (a, inp') \<and>
       snd (fdasd_auto_partition y d rrpart geo opts anc inp dev) = snd (fdasd_write_labels rrpart geo (whole_disk y d geo a) dev))"
  "snd (fdasd_auto_partition_conffile y d rrpart geo opts anc inp dev) = dev \<or>
     (\<exists>a b inp'. fdasd_init_volume_label opts dev anc inp = Inr (a, inp') \<and> conf_table y d geo a = Inr b \<and>
       snd (fdasd_auto_partition_conffile y d rrpart geo opts anc inp dev) = snd (fdasd_write_labels rrpart geo b dev))"
proof -
  show "snd (fdasd_auto_partition y d rrpart geo opts anc inp dev) = dev \<or>
     (\<exists>a inp'. fdasd_init_volume_label opts dev anc inp = Inr (a, inp') \<and>
       snd (fdasd_auto_partition y d rrpart geo opts anc inp dev) = snd (fdasd_write_labels rrpart geo (whole_disk y d geo a) dev))"
    by (auto simp: fdasd_auto_partition_def split: sum.split prod.split)
  show "snd (fdasd_auto_partition_conffile y d rrpart geo opts anc inp dev) = dev \<or>
     (\<exists>a b inp'. fdasd_init_volume_label opts dev anc inp = Inr (a, inp') \<and> conf_table y d geo a = Inr b \<and>
       snd (fdasd_auto_partition_conffile y d rrpart geo opts anc inp dev) = snd (fdasd_write_labels rrpart geo b dev))"
    by (cases "fdasd_init_volume_label opts dev anc inp") (auto simp: fdasd_auto_partition_conffile_def split: sum.split prod.split)
qed

lemma init_volume_label_result:
  assumes "fdasd_init_volume_label opts dev anc inp = Inr (anc', inp')"
  obtains w b where "anc' = anc\<lparr>vlabel := w, vlabel_changed := b\<rparr>"
  using init_volume_label_frame [OF assms] by blast

lemma slots_of_session: "session_ok geo anc \<Longrightarrow> slots_ok anc"
  unfolding session_ok_def slots_ok_def anchor_ok_def using chain_mem by fastforce

lemma session_big_disk: "session_ok geo anc \<Longrightarrow> session_ok geo (anc\<lparr>big_disk_flag := i\<rparr>)"
proof -
  let ?a = "anc\<lparr>big_disk_flag := i\<rparr>"
  have va: "vol_ok geo ?a = vol_ok geo anc" "tracks geo ?a = tracks geo anc" by (rule vol_ok_cong; simp)+
  have "volume_ok geo ?a = volume_ok geo anc" by (rule volume_ok_cong; simp)
  moreover have "anchor_ok geo ?a = anchor_ok geo anc" unfolding anchor_ok_def va by simp
  ultimately show "session_ok geo anc \<Longrightarrow> session_ok geo ?a" by (simp add: session_ok_def names_ok_def)
qed

definition consistent_write :: "int \<Rightarrow> hd_geometry \<Rightarrow> device \<Rightarrow> device \<Rightarrow> bool" where
  "consistent_write rrpart geo dev dev' \<longleftrightarrow>
     dev' = dev \<or> (\<exists>anc. anchor_ok geo anc \<and> dev' = snd (fdasd_write_labels rrpart geo anc dev))"

lemma auto_writes:
  assumes s: "session_ok geo anc" and r: "fdasd_recreate_vtoc_unconditional geo anc = Inr a1"
  shows "consistent_write rrpart geo dev (snd (fdasd_auto_partition y d rrpart geo opts a1 inp dev))"
proof (rule disjE [OF write_at_most_once(1) [of y d rrpart geo opts a1 inp dev]])
  assume "\<exists>a inp'. fdasd_init_volume_label opts dev a1 inp = Inr (a, inp') \<and>
    snd (fdasd_auto_partition y d rrpart geo opts a1 inp dev) = snd (fdasd_write_labels rrpart geo (whole_disk y d geo a) dev)"
  then obtain a inp' where a: "fdasd_init_volume_label opts dev a1 inp = Inr (a, inp')"
    "snd (fdasd_auto_partition y d rrpart geo opts a1 inp dev) = snd (fdasd_write_labels rrpart geo (whole_disk y d geo a) dev)"
    by blast
  obtain w b where wb: "a = a1\<lparr>vlabel := w, vlabel_changed := b\<rparr>" by (rule init_volume_label_result [OF a(1)])
  have v: "volume_ok geo anc" using s by (simp add: session_ok_def)
  have a1: "volume_ok geo a1" "length (parts a1) = 3" "\<forall>z \<in> set (parts a1). used z = 0 \<and> start_trk z = 0 \<and> end_trk z = 0"
    using r recreate_fresh [OF v slots_of_session [OF s]] by (metis sum.inject(2))+
  have "volume_ok geo a = volume_ok geo a1" by (rule volume_ok_cong; simp add: wb)
  with whole_disk_ok(1) [of geo a] a1 have "anchor_ok geo (whole_disk y d geo a)" by (simp add: wb)
  with a(2) show ?thesis unfolding consistent_write_def by blast
qed (simp add: consistent_write_def)

lemma conffile_writes:
  assumes s: "session_ok geo anc" and c: "length (confdata anc) = 3" "\<forall>c \<in> set (confdata anc). c_start c = 0 \<and> c_stop c = 0"
    and p: "fdasd_recreate_vtoc_unconditional geo anc = Inr a1" "fdasd_parse_conffile geo opts conf a1 = Inr a2"
      "fdasd_check_conffile_input geo opts a2 = Inr a3"
  shows "consistent_write rrpart geo dev (snd (fdasd_auto_partition_conffile y d rrpart geo opts a3 inp dev))"
proof (rule disjE [OF write_at_most_once(2) [of y d rrpart geo opts a3 inp dev]])
  assume "\<exists>a b inp'. fdasd_init_volume_label opts dev a3 inp = Inr (a, inp') \<and> conf_table y d geo a = Inr b \<and>
    snd (fdasd_auto_partition_conffile y d rrpart geo opts a3 inp dev) = snd (fdasd_write_labels rrpart geo b dev)"
  then obtain a b inp' where a: "fdasd_init_volume_label opts dev a3 inp = Inr (a, inp')" "conf_table y d geo a = Inr b"
    "snd (fdasd_auto_partition_conffile y d rrpart geo opts a3 inp dev) = snd (fdasd_write_labels rrpart geo b dev)"
    by blast
  obtain w i where wb: "a = a3\<lparr>vlabel := w, vlabel_changed := i\<rparr>" by (rule init_volume_label_result [OF a(1)])
  have v: "volume_ok geo anc" using s by (simp add: session_ok_def)
  from checked_table [OF v slots_of_session [OF s] c p wb, of y d] a(2) have "anchor_ok geo b" by auto
  with a(3) show ?thesis unfolding consistent_write_def by blast
qed (simp add: consistent_write_def)

lemma session_writes:
  "session_ok geo anc \<Longrightarrow> consistent_write rrpart geo dev (snd (main_loop y d rrpart geo anc inp dev))"
  using main_loop_device [of y d geo anc rrpart inp dev] reachable_session_ok unfolding consistent_write_def session_ok_def
  by blast

lemma main_checked_writes:
  assumes s: "session_ok geo anc" and c: "length (confdata anc) = 3" "\<forall>c \<in> set (confdata anc). c_start c = 0 \<and> c_stop c = 0"
  shows "consistent_write rrpart geo dev (snd (main_checked y d rrpart conf opts geo rc anc inp dev))"
proof -
  define a where "a = (if formatted_cylinders anc * ucast (heads geo) > BIG_DISK_SIZE
                 then anc\<lparr>big_disk_flag := big_disk_flag anc + 1\<rparr> else anc)"
  have a: "session_ok geo a" "length (confdata a) = 3" "\<forall>c \<in> set (confdata a). c_start c = 0 \<and> c_stop c = 0"
    using s c session_big_disk [OF s] by (simp_all add: a_def)
  note def = main_checked_def [of y d rrpart conf opts geo rc anc inp dev, folded a_def, unfolded Let_def]
  have dev: "consistent_write rrpart geo dev dev" by (simp add: consistent_write_def)
  consider "auto_partition a \<noteq> 0" | "auto_partition a = 0" "conffile_opt opts \<noteq> None"
    | "auto_partition a = 0" "conffile_opt opts = None" by blast
  then show ?thesis
  proof cases
    case 1
    then show ?thesis
      by (cases "fdasd_recreate_vtoc_unconditional geo a") (simp_all add: def dev auto_writes [OF a(1)])
  next
    case 2
    show ?thesis
    proof (cases "bind_err (fdasd_recreate_vtoc_unconditional geo a) (\<lambda>anc.
             bind_err (fdasd_parse_conffile geo opts conf anc) (\<lambda>anc. fdasd_check_conffile_input geo opts anc))")
      case (Inl e)
      with 2 show ?thesis by (simp add: def dev)
    next
      case (Inr a3)
      then obtain a1 a2 where p: "fdasd_recreate_vtoc_unconditional geo a = Inr a1"
        "fdasd_parse_conffile geo opts conf a1 = Inr a2" "fdasd_check_conffile_input geo opts a2 = Inr a3"
        by (auto simp: bind_err_Inr)
      from conffile_writes [OF a p] 2 Inr show ?thesis by (simp add: def)
    qed
  next
    case 3
    have "consistent_write rrpart geo dev (snd (main_loop y d rrpart geo a i dev))"
      "consistent_write rrpart geo dev (snd (main_loop y d rrpart geo (fdasd_list_partition_table a) i dev))" for i
      using session_writes a(1) list_session by blast+
    with 3 dev show ?thesis by (auto simp: def bind_err_def split: sum.split)
  qed
qed

lemma fresh_labels_confdata: "fresh_labels geo anc = Inr a \<Longrightarrow> confdata a = confdata anc"
  by (auto simp: fresh_labels_def set_freespace_def bind_err_Inr)

lemma all_formatted_confdata [simp]: "confdata (all_formatted geo anc) = confdata anc"
  by (simp add: all_formatted_def)

lemma scan_vtoc_confdata: "scan_vtoc dev bs n blk s = Inr s' \<Longrightarrow> confdata (s_anc s') = confdata (s_anc s)"
proof (induction n arbitrary: blk s)
  case (Suc n)
  then obtain f where f: "scan_vtoc dev bs n (blk + bs) (scan_label f s) = Inr s'" by (auto simp: bind_err_Inr)
  have "confdata (s_anc (scan_label f s)) = confdata (s_anc s)" by (simp add: scan_label_def Let_def setpos_def)
  with Suc.IH [OF f] show ?case by simp
qed simp

lemma process_valid_confdata:
  "fdasd_process_valid_vtoc geo dev anc blk = Inr anc' \<Longrightarrow> confdata anc' = confdata anc"
  by (auto simp: fdasd_process_valid_vtoc_def Let_def bind_err_Inr fdasd_update_partition_info_def
      fdasd_reorganize_FMT1s_def split_beta dest!: scan_vtoc_confdata)

lemma process_invalid_confdata:
  "fdasd_process_invalid_vtoc geo anc inp = Inr (anc', inp') \<Longrightarrow> confdata anc' = confdata anc"
  "fdasd_invalid_vtoc_pointer geo anc inp = Inr (anc', inp') \<Longrightarrow> confdata anc' = confdata anc"
  by (auto simp: fdasd_process_invalid_vtoc_def fdasd_invalid_vtoc_pointer_def Let_def split_beta bind_err_Inr
      split: if_split_asm dest!: fresh_labels_confdata)

lemma valid_pointer_confdata:
  "fdasd_valid_vtoc_pointer geo dev anc blk inp = Inr (anc', inp', rc) \<Longrightarrow> confdata anc' = confdata anc"
  by (auto simp: fdasd_valid_vtoc_pointer_def Let_def bind_err_Inr split: if_split_asm
      dest!: process_invalid_confdata process_valid_confdata)

lemma check_volume_confdata:
  assumes "fdasd_check_volume geo opts dev anc inp = Inr (anc', inp', rc)"
  shows "confdata anc' = confdata anc"
proof -
  obtain v where v: "vtoc_read_volume_label dev (unat (label_pos anc)) = Inr v"
    using assms by (auto simp: fdasd_check_volume_def bind_err_Inr)
  define a where "a = anc\<lparr>vlabel := v\<rparr>"
  define blk where "blk = (cchhb2blk (vtoc v) geo - 1) * ucast (blksize a)"
  have c: "confdata a = confdata anc" by (simp add: a_def)
  note check = assms [unfolded fdasd_check_volume_def v lift_vtoc_simps bind_err_simps Let_def, folded a_def, folded blk_def]
  show ?thesis
  proof (cases "has_label ''VOL1'' v")
    case True
    with check c show ?thesis by (auto simp: bind_err_Inr split: if_split_asm dest!: valid_pointer_confdata process_invalid_confdata(2))
  next
    case False
    have "anc' = a \<or> (\<exists>i1 a1 i2 a2. fdasd_init_volume_label opts dev (all_formatted geo a) i1 = Inr (a1, i2) \<and>
        fresh_labels geo a1 = Inr a2 \<and> anc' = a2\<lparr>vtoc_changed := vtoc_changed a2 + 1\<rparr>)"
      using check False by (auto simp: bind_err_Inr split_beta split: if_split_asm)
    then show ?thesis
    proof (elim disjE exE conjE)
      fix i1 a1 i2 a2
      assume l: "fdasd_init_volume_label opts dev (all_formatted geo a) i1 = Inr (a1, i2)" "fresh_labels geo a1 = Inr a2"
        "anc' = a2\<lparr>vtoc_changed := vtoc_changed a2 + 1\<rparr>"
      obtain w b where "a1 = (all_formatted geo a)\<lparr>vlabel := w, vlabel_changed := b\<rparr>" by (rule init_volume_label_result [OF l(1)])
      with fresh_labels_confdata [OF l(2)] l(3) c show ?thesis by simp
    qed (simp add: c)
  qed
qed

lemma pointer_accepted:
  "fdasd_valid_vtoc_pointer geo dev anc blk inp = Inr (anc', inp', rc) \<Longrightarrow> print_table anc = 0 \<Longrightarrow> rc = 0"
  by (auto simp: fdasd_valid_vtoc_pointer_def Let_def bind_err_Inr split: if_split_asm)

lemma check_volume_refused:
  assumes r: "fdasd_check_volume geo opts dev anc inp = Inr (anc', inp', rc)" "rc \<noteq> 0"
  shows "same_flags anc' anc" "print_table anc \<noteq> 0 \<or> print_volser anc \<noteq> 0"
proof -
  obtain v where v: "vtoc_read_volume_label dev (unat (label_pos anc)) = Inr v"
    using r by (auto simp: fdasd_check_volume_def bind_err_Inr)
  note check = r(1) [unfolded fdasd_check_volume_def v lift_vtoc_simps bind_err_simps Let_def]
  have "same_flags anc' anc \<and> (print_table anc \<noteq> 0 \<or> print_volser anc \<noteq> 0)"
  proof (cases "print_table anc = 0")
    case True
    with check r(2) show ?thesis
      by (auto simp: same_flags_def bind_err_Inr split_beta split: if_split_asm dest!: pointer_accepted)
  next
    case False
    with check_volume_asks_nothing [OF False, of geo opts dev] r(1) show ?thesis by (auto simp: asks_nothing_def)
  qed
  then show "same_flags anc' anc" "print_table anc \<noteq> 0 \<or> print_volser anc \<noteq> 0" by auto
qed



section \<open>A virtual disk of 100 cylinders\<close>

lemma blank_has_no_vtoc: "\<not> has_vtoc geo blank_dev anc"
proof (cases "vtoc_read_volume_label blank_dev (unat (label_pos anc))")
  case (Inr v)
  let ?r = "fd_read blank_dev (unat (label_pos anc)) 92"
  have "length ?r = 92" "v = fst (dec_vlabel ?r)"
    using Inr by (auto simp: vtoc_read_volume_label_def Let_def split: if_split_asm)
  moreover from this have "?r = replicate 92 0" by (simp add: fd_read_def blank_dev_def)
  moreover have "\<not> has_label ''VOL1'' (fst (dec_vlabel (replicate 92 0)))" by code_simp
  ultimately show ?thesis using Inr by (simp add: has_vtoc_def Let_def)
qed (simp add: has_vtoc_def)


theorem table_mode_reads_only_witness:
  "\<exists>e. \<forall>inp. fdasd_main 119 200 0 example_kernel cannot_open example_opts (example_forced\<lparr>print_table := 1\<rparr>) inp blank_dev =
     (e, blank_dev)"
  by (rule table_mode_reads_only) (simp_all add: example_forced_def fdasd_initialize_anchor_def)

end
