(* ===== verification/Fdasd_Disk.thy ===== *)
theory Fdasd_Disk
  imports Fdasd_Main
begin

text \<open>
  What the labels have to satisfy, besides the invariant of the partition table, for the program to
  find the same table when it reads them again: the kind of every format 1 label, the counter of
  unused labels in the format 4 label, and the number of cylinders in it.  Every step of a session
  keeps this, and it holds in the first state.
\<close>

definition part_fmt :: "fdasd_anchor \<Rightarrow> u8" where
  "part_fmt anc = (if formatted_cylinders anc > LV_COMPAT_CYL then 0xf8 else 0xf1)"

text \<open>The number of cylinders as \<open>fdasd_process_valid_vtoc\<close> takes it from the label.\<close>

definition f4_cyl :: "format4_label_t \<Rightarrow> u32" where
  "f4_cyl f4 = (if ucast (DS4DSCYL (DS4DEVCT f4)) = LV_COMPAT_CYL \<and> DS4DCYL f4 > ucast (DS4DSCYL (DS4DEVCT f4))
     then DS4DCYL f4 else ucast (DS4DSCYL (DS4DEVCT f4)))"

definition f4_ok :: "u32 \<Rightarrow> format4_label_t \<Rightarrow> bool" where
  "f4_ok cyl f4 \<longleftrightarrow> wf_f4 f4 \<and> DS4IDFMT f4 = 0xf4 \<and> f4_cyl f4 = cyl"

definition f57_ok :: "format5_label_t \<Rightarrow> format7_label_t \<Rightarrow> bool" where
  "f57_ok f5 f7 \<longleftrightarrow> wf_f5 f5 \<and> DS5FMTID f5 = 0xf5 \<and> wf_f7 f7 \<and> DS7FMTID f7 = 0xf7"

definition f9_ok :: "format9_label_t \<Rightarrow> bool" where
  "f9_ok f9 \<longleftrightarrow> wf_f9 f9 \<and> DS9FMTID f9 = 0xf9"

definition readable :: "hd_geometry \<Rightarrow> fdasd_anchor \<Rightarrow> bool" where
  "readable geo anc \<longleftrightarrow> (\<forall>p \<in> set (parts anc). used p = 1 \<longrightarrow> DS1FMTID (p_f1 p) = part_fmt anc) \<and>
     f4_ok (formatted_cylinders anc) (a_f4 anc) \<and> f57_ok (a_f5 anc) (a_f7 anc) \<and> f9_ok (a_f9 anc) \<and>
     DS4DSREC (a_f4 anc) + ucast (used_partitions anc) + 2 = ucast (sectors geo)"

lemma f4_ok_cong:
  assumes "DS4DEVCT g = DS4DEVCT f" "DS4DCYL g = DS4DCYL f" "wf_f4 g = wf_f4 f" "DS4IDFMT g = DS4IDFMT f"
  shows "f4_ok c g = f4_ok c f"
  by (simp only: f4_ok_def f4_cyl_def assms)

lemma freespace_f4_update:
  assumes "vtoc_set_freespace (f4, f5, f7) ch a b cyl trk = Inr (g4, g5, g7)"
  shows "\<exists>x y z. g4 = f4\<lparr>DS4VTOCI := x, DS4EFLVL := y, DS4EFPTR := z\<rparr>"
proof -
  have "g4 = f4 \<or> g4 = f4\<lparr>DS4VTOCI := 0xa0, DS4EFLVL := 0x07, DS4EFPTR := vtoc_set_cchhb 0 1 3\<rparr>"
    using assms by (auto simp: vtoc_set_freespace_def Let_def bind_err_Inr split: if_split_asm)
  moreover have "f4 = f4\<lparr>DS4VTOCI := DS4VTOCI f4, DS4EFLVL := DS4EFLVL f4, DS4EFPTR := DS4EFPTR f4\<rparr>" by simp
  ultimately show ?thesis by metis
qed

lemma freespace_f4_ok:
  assumes "vtoc_set_freespace (f4, f5, f7) ch a b cyl trk = Inr (g4, g5, g7)"
  shows "f4_ok c g4 = f4_ok c f4" "DS4DSREC g4 = DS4DSREC f4"
proof -
  obtain x y z where g: "g4 = f4\<lparr>DS4VTOCI := x, DS4EFLVL := y, DS4EFPTR := z\<rparr>" using freespace_f4_update [OF assms] by blast
  show "f4_ok c g4 = f4_ok c f4" by (rule f4_ok_cong) (simp_all add: g wf_f4_def)
  show "DS4DSREC g4 = DS4DSREC f4" by (simp add: g)
qed

lemma set_exts_sel [simp]:
  "DS5FMTID (set_f5_exts f5 xs) = DS5FMTID f5" "DS7FMTID (set_f7_exts f7 ys) = DS7FMTID f7"
  by (simp_all add: set_f5_exts_def set_f7_exts_def)

lemma update7_ids:
  "vtoc_update_format7_label_add f7 a b = Inr h \<Longrightarrow> wf_f7 f7 \<Longrightarrow> wf_f7 h \<and> DS7FMTID h = DS7FMTID f7"
  "vtoc_update_format7_label_del f7 a b = Inr h \<Longrightarrow> wf_f7 f7 \<Longrightarrow> wf_f7 h \<and> DS7FMTID h = DS7FMTID f7"
  "wf_f7 f7 \<Longrightarrow> wf_f7 (vtoc_reorganize_FMT7_extents f7) \<and> DS7FMTID (vtoc_reorganize_FMT7_extents f7) = DS7FMTID f7"
  by (auto simp: vtoc_update_format7_label_add_def vtoc_update_format7_label_del_def vtoc_reorganize_FMT7_extents_def
      bind_err_Inr wf_set_f7_exts length_f7_exts dest!: length_exts_add length_exts_del)

lemma update5_ids:
  "vtoc_update_format5_label_add f5 t a b c = Inr h \<Longrightarrow> wf_f5 f5 \<Longrightarrow> wf_f5 h \<and> DS5FMTID h = DS5FMTID f5"
  "vtoc_update_format5_label_del f5 t a b c = Inr h \<Longrightarrow> wf_f5 f5 \<Longrightarrow> wf_f5 h \<and> DS5FMTID h = DS5FMTID f5"
  "wf_f5 f5 \<Longrightarrow> wf_f5 (vtoc_reorganize_FMT5_extents f5) \<and> DS5FMTID (vtoc_reorganize_FMT5_extents f5) = DS5FMTID f5"
  by (auto simp: vtoc_update_format5_label_add_def vtoc_update_format5_label_del_def vtoc_reorganize_FMT5_extents_def
      bind_err_Inr wf_set_f5_exts length_f5_exts dest!: length_exts_add length_exts_del)

lemma freespace_f57_ok:
  assumes "vtoc_set_freespace (f4, f5, f7) ch a b cyl trk = Inr (g4, g5, g7)" and "f57_ok f5 f7"
  shows "f57_ok g5 g7"
  using assms
  by (auto simp: vtoc_set_freespace_def bind_err_Inr Let_def f57_ok_def update7_ids(3) update5_ids(3)
      split: if_split_asm dest: update7_ids(1,2) update5_ids(1,2))

lemma init_f57_ok: "f57_ok vtoc_init_format5_label vtoc_init_format7_label"
  by (simp add: f57_ok_def vtoc_init_format5_label_def vtoc_init_format7_label_def wf_f5_def wf_f7_def)

lemma list_ops_f9 [simp]:
  "a_f9 (fdasd_enqueue_new_partition anc) = a_f9 anc" "a_f9 (fdasd_dequeue_old_partition anc k) = a_f9 anc"
  "a_f9 (setpos anc i j) = a_f9 anc"
  by (simp_all add: fdasd_enqueue_new_partition_def fdasd_dequeue_old_partition_def setpos_def Let_def)

lemma update_f4_ok [simp]: "f4_ok c (f4\<lparr>DS4HPCHR := h, DS4DSREC := r\<rparr>) = f4_ok c f4"
  "f4_ok c (vtoc_update_format4_label f4 h r) = f4_ok c f4" "DS4DSREC (vtoc_update_format4_label f4 h r) = r"
  by (rule f4_ok_cong, simp_all add: vtoc_update_format4_label_def wf_f4_def) (rule f4_ok_cong, simp_all add: wf_f4_def)

lemma count_words:
  "(ucast (u + 1 :: u32) :: u16) = ucast u + 1" "(ucast (u - 1 :: u32) :: u16) = ucast u - 1" "(ucast (u - 2 :: u32) :: u16) = ucast u - 2"
  by (simp_all add: word_uint_eq_iff uint_word_ariths unsigned_ucast_eq take_bit_eq_mod mod_mod_cancel mod_simps)

lemma ucast_ucast_u8: "(ucast (ucast (b :: u8) :: u32) :: u16) = ucast b"
  by (rule bit_word_eqI) (auto simp: bit_ucast_iff dest: bit_imp_le_length)

lemma session_parts: "session_ok geo anc \<Longrightarrow> length (parts anc) = 3 \<and> unat (used_partitions anc) \<le> 3"
  unfolding session_ok_def using anchor_parts by blast

lemma init_f4_ok:
  assumes "volume_ok geo anc"
  shows "f4_ok (formatted_cylinders anc) (init_labels geo anc)" "DS4DSREC (init_labels geo anc) = ucast (sectors geo) - 2"
proof -
  have "ucast (ucast (cylinders geo) :: u32) = cylinders geo"
    by (rule ucast_up_ucast_id) (simp add: is_up)
  then show "f4_ok (formatted_cylinders anc) (init_labels geo anc)"
    using assms by (auto simp: f4_ok_def f4_cyl_def init_labels_def vtoc_init_format4_label_def wf_f4_def volume_ok_def
        geo_matches_def)
  show "DS4DSREC (init_labels geo anc) = ucast (sectors geo) - 2"
    by (simp add: init_labels_def vtoc_init_format4_label_def count_words ucast_ucast_u8)
qed

lemma init_f1_fmt: "DS1FMTID (init_f1_label y d anc ext f) = part_fmt anc"
  by (simp add: init_f1_label_def part_fmt_def vtoc_init_format8_label_def vtoc_init_format1_label_def
      vtoc_init_format_1_8_label_def)



section \<open>Every step keeps it\<close>

lemma readable_add:
  assumes s: "session_ok geo anc" and r: "readable geo anc" and add: "fdasd_add_partition y d geo anc inp = Inr (anc', inp')"
  shows "readable geo anc'"
proof (cases "anc' = anc")
  case False
  have "parts anc \<noteq> []" using session_parts [OF s] by auto
  then obtain bs p where ps: "parts anc = bs @ [p]" by (cases "parts anc" rule: rev_cases) auto
  obtain start stop ext f4 g4 g5 g7 h where f4: "f4 = vtoc_update_format4_label (a_f4 anc) h (DS4DSREC (a_f4 anc) - 1)"
    and g: "vtoc_set_freespace (f4, a_f5 anc, a_f7 anc) CHR ''-'' (cchh2trk (llimit ext) geo)
       (cchh2trk (ulimit ext) geo) (formatted_cylinders anc) (ucast (heads geo)) = Inr (g4, g5, g7)"
    and anc': "anc' = (fdasd_enqueue_new_partition (anc\<lparr>parts := bs @ [filled y d anc start stop ext p]\<rparr>))
        \<lparr>used_partitions := used_partitions anc + 1, a_f4 := g4, a_f5 := g5, a_f7 := g7,
         vtoc_changed := vtoc_changed anc + 1\<rparr>"
    by (rule add_partition_steps [OF add False ps])
  have "\<forall>q \<in> set (parts (fdasd_enqueue_new_partition (anc\<lparr>parts := bs @ [filled y d anc start stop ext p]\<rparr>))).
      used q = 1 \<longrightarrow> DS1FMTID (p_f1 q) = part_fmt anc"
    using r init_f1_fmt
    by (intro enqueue_all [where P = "\<lambda>u f. u = 1 \<longrightarrow> DS1FMTID f = part_fmt anc"]) (auto simp: readable_def ps filled_def)
  moreover have "DS4DSREC g4 + ucast (used_partitions anc + 1) + 2 = ucast (sectors geo)"
    using r unfolding freespace_f4_ok(2) [OF g] f4 update_f4_ok count_words readable_def by (simp add: algebra_simps)
  ultimately show ?thesis using r freespace_f4_ok(1) [OF g] freespace_f57_ok [OF g]
    by (simp add: readable_def anc' f4 part_fmt_def)
qed (use r in simp)

lemma readable_list: "readable geo anc \<Longrightarrow> readable geo (fdasd_list_partition_table anc)"
  by (auto simp: readable_def fdasd_list_partition_table_def part_fmt_def recoded_def Let_def)

lemma readable_remove_listed:
  assumes s: "session_ok geo anc" and r: "readable geo anc" and rm: "remove_listed geo anc inp = Inr (anc', inp')"
  shows "readable geo anc'"
proof (cases "anc' = anc")
  case False
  obtain k f4 g4 g5 g7 h where k: "k < unat (used_partitions anc)"
    and f4: "f4 = vtoc_update_format4_label (a_f4 anc) h (DS4DSREC (a_f4 anc) + 1)"
    and g: "vtoc_set_freespace (f4, a_f5 anc, a_f7 anc) CHR ''+''
       (cchh2trk (llimit (DS1EXT1 (p_f1 (parts anc ! k)))) geo)
       (cchh2trk (ulimit (DS1EXT1 (p_f1 (parts anc ! k)))) geo)
       (formatted_cylinders anc) (ucast (heads geo)) = Inr (g4, g5, g7)"
    and anc': "anc' = (fdasd_dequeue_old_partition (setpos anc k (-1)) k)
        \<lparr>used_partitions := used_partitions anc - 1, a_f4 := g4, a_f5 := g5, a_f7 := g7,
         vtoc_changed := vtoc_changed anc + 1\<rparr>"
    by (rule remove_listed_steps [OF rm False])
  have "k < length (parts (setpos anc k (-1)))" using k session_parts [OF s] by (simp add: setpos_def)
  then have "\<forall>q \<in> set (parts (fdasd_dequeue_old_partition (setpos anc k (-1)) k)). used q = 1 \<longrightarrow> DS1FMTID (p_f1 q) = part_fmt anc"
    using r by (intro dequeue_all [where P = "\<lambda>u f. u = 1 \<longrightarrow> DS1FMTID f = part_fmt anc"]) (auto simp: readable_def setpos_def)
  then show ?thesis using r freespace_f4_ok [OF g] freespace_f57_ok [OF g]
    by (simp add: readable_def anc' f4 count_words part_fmt_def algebra_simps setpos_def)
qed (use r in simp)

lemma readable_type_changed:
  assumes s: "session_ok geo anc" and r: "readable geo anc" and t: "type_changed anc k t anc'"
  shows "readable geo anc'"
proof -
  obtain g where anc': "anc' = anc\<lparr>parts := (parts anc)[k := (parts anc ! k)\<lparr>p_f1 := g\<rparr>], vtoc_changed := vtoc_changed anc + 1\<rparr>"
    and g: "g = (p_f1 (parts anc ! k))\<lparr>DS1DSNAM := DS1DSNAM g\<rparr>" and k: "k < unat (used_partitions anc)"
    using t by (auto simp: type_changed_def)
  have "k < length (parts anc)" using k session_parts [OF s] by simp
  then have "used (parts anc ! k) = 1 \<longrightarrow> DS1FMTID g = part_fmt anc"
    using r by (subst g) (simp add: readable_def)
  then show ?thesis using r
    by (auto simp: readable_def anc' part_fmt_def dest!: set_update_subset_insert [THEN subsetD])
qed

lemma readable_parts_reused:
  "reuse_parts y d geo anc ps l = Inr (ps', l') \<Longrightarrow> \<forall>p \<in> set ps. used p = 1 \<longrightarrow> DS1FMTID (p_f1 p) = part_fmt anc \<Longrightarrow>
     (\<forall>p \<in> set ps'. used p = 1 \<longrightarrow> DS1FMTID (p_f1 p) = part_fmt anc) \<and>
     f4_ok c (fst l') = f4_ok c (fst l) \<and> DS4DSREC (fst l') = DS4DSREC (fst l) \<and>
     (f57_ok (fst (snd l)) (snd (snd l)) \<longrightarrow> f57_ok (fst (snd l')) (snd (snd l')))"
proof (induction ps arbitrary: l ps' l')
  case (Cons p ps)
  show ?case
  proof (cases "used p = 1")
    case False
    with Cons show ?thesis by (fastforce simp: bind_err_Inr)
  next
    case True
    obtain l1 ps1 where l1: "(if p_fspace_trk p > 0
            then lift_vtoc (vtoc_set_freespace l CHR ''+'' (ucast (end_trk p + 1))
              (ucast (end_trk p + p_fspace_trk p)) (formatted_cylinders anc) (ucast (heads geo)))
            else Inr l) = Inr l1"
      and ps1: "reuse_parts y d geo anc ps l1 = Inr (ps1, l')" "ps' = p\<lparr>p_f1 := reused_f1 y d anc (p_f1 p)\<rparr> # ps1"
      using Cons.prems(1) True by (auto simp: bind_err_Inr)
    have "f4_ok c (fst l1) = f4_ok c (fst l) \<and> DS4DSREC (fst l1) = DS4DSREC (fst l) \<and>
        (f57_ok (fst (snd l)) (snd (snd l)) \<longrightarrow> f57_ok (fst (snd l1)) (snd (snd l1)))"
      using l1 freespace_f4_ok freespace_f57_ok by (cases l; cases l1) (auto simp: lift_vtoc_Inr split: if_split_asm)
    moreover have "DS1FMTID (reused_f1 y d anc (p_f1 p)) = part_fmt anc" by (simp add: reused_f1_def init_f1_fmt)
    ultimately show ?thesis using Cons.IH [OF ps1(1)] Cons.prems(2) ps1(2) by auto
  qed
qed simp

lemma readable_reuse:
  assumes s: "session_ok geo anc" and r: "readable geo anc" and ru: "fdasd_reuse_vtoc y d geo anc inp = Inr (anc', inp')"
  shows "readable geo anc'"
proof (cases "anc' = anc")
  case False
  let ?f4 = "(init_labels geo anc)\<lparr>DS4HPCHR := DS4HPCHR (a_f4 anc), DS4DSREC := DS4DSREC (a_f4 anc)\<rparr>"
  obtain l ps f4 f5 f7 where l: "(if fspace_trk anc > 0
             then lift_vtoc (vtoc_set_freespace (?f4, vtoc_init_format5_label, vtoc_init_format7_label) CHR ''+''
               (of_nat FIRST_USABLE_TRK) (ucast (first_trk + fspace_trk anc - 1)) (formatted_cylinders anc) (ucast (heads geo)))
             else Inr (?f4, vtoc_init_format5_label, vtoc_init_format7_label)) = Inr l"
    and ps: "reuse_parts y d geo anc (parts anc) l = Inr (ps, f4, f5, f7)"
    and anc': "anc' = anc\<lparr>parts := ps, a_f4 := f4, a_f5 := f5, a_f7 := f7, vtoc_changed := vtoc_changed anc + 1\<rparr>"
    using ru False unfolding fdasd_reuse_vtoc_def
    by (cases "if silent anc = 0 then yes_no inp else (0, inp)") (auto simp: Let_def bind_err_Inr split: if_split_asm)
  have "f4_ok (formatted_cylinders anc) ?f4" using init_f4_ok(1) s by (simp add: session_ok_def)
  then have "f4_ok (formatted_cylinders anc) (fst l) \<and> DS4DSREC (fst l) = DS4DSREC (a_f4 anc) \<and>
      f57_ok (fst (snd l)) (snd (snd l))"
    using l freespace_f4_ok [of ?f4] freespace_f57_ok [of ?f4] init_f57_ok by (cases l) (auto simp: lift_vtoc_Inr split: if_split_asm)
  with readable_parts_reused [OF ps, of "formatted_cylinders anc"] r show ?thesis
    by (simp add: readable_def anc' part_fmt_def)
qed (use r in simp)

lemma readable_recreated:
  assumes v: "volume_ok geo anc" and sl: "slots_ok anc" and f9: "f9_ok (a_f9 anc)"
    and rc: "fdasd_recreate_vtoc_unconditional geo anc = Inr anc'"
  shows "readable geo anc'"
proof -
  obtain g4 g5 g7 where g: "vtoc_set_freespace (init_labels geo anc, vtoc_init_format5_label, vtoc_init_format7_label) CHR ''+''
      (of_nat FIRST_USABLE_TRK) (formatted_cylinders anc * ucast (heads geo) - 1) (formatted_cylinders anc) (ucast (heads geo))
      = Inr (g4, g5, g7)"
    and anc': "a_f4 anc' = g4" "a_f5 anc' = g5" "a_f7 anc' = g7" "a_f9 anc' = a_f9 anc" "formatted_cylinders anc' = formatted_cylinders anc" "used_partitions anc' = 0"
      "parts anc' = map wiped (parts anc)"
    using rc by (auto simp: fdasd_recreate_vtoc_unconditional_def set_freespace_def Let_def bind_err_Inr lift_vtoc_Inr init_labels_def)
  have "\<forall>p \<in> set (parts anc'). used p \<noteq> 1" using sl wiped_unused by (auto simp: anc' slots_ok_def)
  with init_f4_ok [OF v] freespace_f4_ok [OF g] freespace_f57_ok [OF g init_f57_ok] f9 show ?thesis
    by (simp add: readable_def anc')
qed

lemma readable_recreate:
  assumes s: "session_ok geo anc" and r: "readable geo anc" and rc: "fdasd_recreate_vtoc geo anc inp = Inr (anc', inp')"
  shows "readable geo anc'"
proof (cases "anc' = anc")
  case False
  then have "fdasd_recreate_vtoc_unconditional geo anc = Inr anc'"
    using rc unfolding fdasd_recreate_vtoc_def
    by (cases "if silent anc = 0 then yes_no inp else (0, inp)") (auto simp: bind_err_Inr split: if_split_asm)
  then show ?thesis using readable_recreated s slots_of_session [OF s] r unfolding session_ok_def readable_def [of _ anc] by blast
qed (use r in simp)

lemma readable_step:
  assumes "session_step y d geo anc anc'" "session_ok geo anc" "readable geo anc"
  shows "readable geo anc'"
  using assms
proof (cases rule: session_step.cases)
  case (remove inp inp')
  then show ?thesis
    using readable_remove_listed [OF list_session readable_list] assms(2,3) by (simp add: fdasd_remove_partition_def)
next
  case (change_type inp inp')
  then have c: "change_listed (fdasd_list_partition_table anc) inp = Inr (anc', inp')"
    by (simp add: fdasd_change_part_type_def)
  have l: "session_ok geo (fdasd_list_partition_table anc)" by (rule list_session [OF assms(2)])
  show ?thesis
    by (rule change_listed_cases [OF l, of inp])
      (use c readable_list [OF assms(3)] readable_type_changed [OF l] in auto)
next
  case (change_volser inp)
  then show ?thesis using assms(3) by (simp add: fdasd_change_volser_def split_beta Let_def readable_def part_fmt_def)
next
  case (flags a b)
  then show ?thesis using assms(3) by (simp add: readable_def part_fmt_def)
qed (use assms(2,3) in \<open>auto intro: readable_add readable_list readable_reuse readable_recreate\<close>)

lemma reachable_readable:
  "rtranclp (session_step y d geo) anc anc' \<Longrightarrow> session_ok geo anc \<Longrightarrow> readable geo anc \<Longrightarrow> readable geo anc'"
  by (induction rule: rtranclp_induct) (auto intro: readable_step reachable_session_ok)

end
