(* ===== verification/Fdasd_Image.thy ===== *)
theory Fdasd_Image
  imports Fdasd_Disk
begin

text \<open>
  What \<open>fdasd_write_vtoc_labels\<close> leaves on the device: a sequence of label images, one per block,
  and nothing else changed.
\<close>

section \<open>Names stay within the name field\<close>

lemma strchr_bound:
  assumes "c_strchr s c = Some j" "k < length s" "s ! k = c \<or> s ! k = 0"
  shows "j \<le> k"
proof -
  have f: "find_sub [c] (cstr s) = Some j" using assms(1) by (simp add: c_strchr_def)
  then have j: "j < strlen s" using find_sub_Some by (fastforce simp: strlen_def)
  show ?thesis
  proof (cases "k < strlen s")
    case True
    then have ck: "cstr s ! k = s ! k" unfolding strlen_def cstr_def by (rule takeWhile_nth)
    have "cstr s ! k \<noteq> 0" using True zero_notin_cstr [of s] by (metis nth_mem strlen_def)
    with assms(3) ck have "cstr s ! k = c" by auto
    with True have "prefix [c] (drop k (cstr s))" by (simp add: strlen_def Cons_nth_drop_Suc [symmetric])
    with find_sub_least [OF f, of k] show ?thesis by fastforce
  next
    case False
    with j show ?thesis by simp
  qed
qed

lemma length_volser_ascii: "length (volser_ascii v) = 6"
  by (simp add: volser_ascii_def VOLSER_LENGTH_def)

lemma rename_image:
  assumes s: "length s = 44" and r: "rename v (s @ t) = Inr img"
  obtains s' where "img = s' @ t" "length s' = 44"
proof -
  let ?w = "strncpy_data (volser_ascii v @ [0x20]) 7"
  obtain k j where k: "c_strchr (drop 7 (s @ t)) 0x2e = Some k"
    and j: "c_strchr (overwrite (s @ t) 7 ?w) 0x20 = Some j"
    and img: "img = overwrite (overwrite (s @ t) 7 ?w) j (strncpy_data (drop (7 + k) (s @ t)) 31)"
    using r by (auto simp: rename_def Let_def split: option.split_asm if_split_asm)
  have o: "overwrite (s @ t) 7 ?w = overwrite s 7 ?w @ t" using s by (simp add: overwrite_name)
  have "?w ! 6 = 0x20 \<or> ?w ! 6 = 0"
    using length_volser_ascii [of v]
    by (auto simp: strncpy_data_def Let_def cstr_def nth_append takeWhile_nth length_takeWhile_le
        dest: order.strict_trans2 [OF _ length_takeWhile_le])
  then have "overwrite s 7 ?w ! 13 = 0x20 \<or> overwrite s 7 ?w ! 13 = 0"
    using s by (simp add: overwrite_def nth_append)
  then have "j \<le> 13" using j s unfolding o by (intro strchr_bound [OF j [unfolded o]]) (simp_all add: nth_append)
  then show thesis using s by (intro that [of "overwrite (overwrite s 7 ?w) j (strncpy_data (drop (7 + k) (s @ t)) 31)"])
    (simp_all add: img o overwrite_name)
qed

lemma new_name_image:
  assumes s: "length s = 44" and d: "length dsname \<le> 6" and r: "new_name v k dsname (s @ t) = Inr img"
  obtains s' where "img = s' @ t" "length s' = 44"
proof -
  let ?b = "bytes_of ''LINUX.V                                     ''" and ?w = "strncpy_data (volser_ascii v) VOLSER_LENGTH"
  have b: "length ?b = 44" "overwrite (s @ t) 0 ?b = ?b @ t" using s by (simp_all add: overwrite_def)
  have o: "overwrite (?b @ t) 7 ?w = overwrite ?b 7 ?w @ t"
    by (rule overwrite_name) (simp_all add: VOLSER_LENGTH_def)
  have "overwrite ?b 7 ?w ! 13 = 0x20" by (simp add: overwrite_def VOLSER_LENGTH_def nth_append bytes_of_def)
  moreover obtain j where j: "c_strchr (overwrite ?b 7 ?w @ t) 0x20 = Some j"
    and img: "img = overwrite (overwrite (overwrite (overwrite ?b 7 ?w @ t) j (bytes_of ''.PART'')) (j + 5)
      (dec04 (k + 1) @ [0x2e])) (j + 10) dsname"
    using r b(2) o by (auto simp: new_name_def Let_def split: option.split_asm)
  moreover have "length (overwrite ?b 7 ?w) = 44" by (simp add: VOLSER_LENGTH_def)
  ultimately have "j \<le> 13" by (intro strchr_bound [OF j]) (simp_all add: nth_append)
  then have "img = overwrite (overwrite (overwrite (overwrite ?b 7 ?w) j (bytes_of ''.PART'')) (j + 5)
      (dec04 (k + 1) @ [0x2e])) (j + 10) dsname @ t"
    unfolding img using d by (simp add: overwrite_name VOLSER_LENGTH_def dec04_def)
  then show thesis using that \<open>j \<le> 13\<close> d by (simp add: VOLSER_LENGTH_def dec04_def)
qed

lemma dsname_short:
  "get_part_dsname_by_type t = Inr ds \<Longrightarrow> length (case ds of Some s \<Rightarrow> s | None \<Rightarrow> []) \<le> 6"
proof -
  assume d: "get_part_dsname_by_type t = Inr ds"
  have "\<forall>p \<in> set partition_types. length (pt_dsname p) \<le> 6" by (simp add: partition_types_def)
  then have "i < length partition_types \<Longrightarrow> length (pt_dsname (partition_types ! i)) \<le> 6" for i by simp
  moreover have "1 < length partition_types" by (simp add: partition_types_def)
  ultimately show ?thesis using d
    by (auto simp: get_part_dsname_by_type_def simp del: One_nat_def split: if_split_asm)
qed

text \<open>The label that is written: the one in the table with another name and serial.\<close>

definition renamed :: "format1_label_t \<Rightarrow> format1_label_t \<Rightarrow> bool" where
  "renamed f g \<longleftrightarrow> g = f\<lparr>DS1DSSN := DS1DSSN g, DS1DSNAM := DS1DSNAM g\<rparr> \<and> wf_f1 g"

lemma named_label:
  assumes wf: "wf_f1 (p_f1 p)" and n: "named anc i k p = Inr (anc', k', p')"
  obtains q t g where "anc' = anc\<lparr>partno := q\<rparr>" "p' = p\<lparr>p_type := t, p_f1 := g\<rparr>" "renamed (p_f1 p) g"
proof -
  let ?f = "(p_f1 p)\<lparr>DS1DSSN := strncpy_data (volid (vlabel anc)) VOLSER_LENGTH\<rparr>"
  let ?s = "vtoc_ebcdic_dec (DS1DSNAM ?f) (DS1DSNAM ?f) 44"
  let ?finish = "\<lambda>img. (fst (dec_f1 img))\<lparr>DS1DSNAM := vtoc_ebcdic_enc (DS1DSNAM (fst (dec_f1 img))) (DS1DSNAM (fst (dec_f1 img))) 44\<rparr>"
  have f: "wf_f1 ?f" using wf by (simp add: wf_f1_def VOLSER_LENGTH_def)
  have s: "length ?s = 44" using f by (simp add: wf_f1_def)
  define t where "t = drop 44 (enc_f1 ?f)"
  have img: "enc_f1 (?f\<lparr>DS1DSNAM := ?s\<rparr>) = ?s @ t" unfolding t_def by (rule enc_f1_name [OF f])
  have fin: "renamed (p_f1 p) (?finish (s' @ t))" if "length s' = 44" for s'
    unfolding t_def dec_f1_name [OF f that] using f that by (simp add: renamed_def wf_f1_def)
  note def = n [unfolded named_def Let_def img]
  show thesis
  proof (cases "getdsn anc (int i - 1) > -1")
    case True
    then obtain m where m: "rename (vlabel anc) (?s @ t) = Inr m" "anc' = anc" "p' = p\<lparr>p_f1 := ?finish m\<rparr>"
      using def by (auto simp: bind_err_Inr)
    obtain s' where "m = s' @ t" "length s' = 44" by (rule rename_image [OF s m(1)])
    then show thesis using m fin that [of "partno anc" "?finish m" "p_type p"] by simp
  next
    case False
    obtain ty k1 ds m where d: "get_part_dsname_by_type (word_of_int ty) = Inr ds"
      "new_name (vlabel anc) k1 (case ds of Some s \<Rightarrow> s | None \<Rightarrow> []) (?s @ t) = Inr m"
      "anc' = setpos anc k1 (int i - 1)" "p' = p\<lparr>p_type := ty, p_f1 := ?finish m\<rparr>"
      using def False by (auto simp: bind_err_Inr)
    obtain s' where "m = s' @ t" "length s' = 44" by (rule new_name_image [OF s dsname_short [OF d(1)] d(2)])
    then show thesis using d fin that [of "(partno anc)[k1 := int i - 1]" "?finish m" ty] by (simp add: setpos_def)
  qed
qed


section \<open>Sequences of blocks\<close>

text \<open>\<open>imgs\<close> was written from \<open>pos\<close> on, one image every \<open>bs\<close> bytes; everything before and behind is as
  it was.\<close>

definition wrote :: "device \<Rightarrow> nat \<Rightarrow> nat \<Rightarrow> bytes list \<Rightarrow> device \<Rightarrow> bool" where
  "wrote dev pos bs imgs dev' \<longleftrightarrow>
     open_rdonly dev' = open_rdonly dev \<and> seek_ok dev' = seek_ok dev \<and> length (content dev') = length (content dev) \<and>
     (\<forall>i < length imgs. fd_read dev' (pos + i * bs) 140 = imgs ! i) \<and>
     (\<forall>q n. q + n \<le> pos \<or> pos + length imgs * bs \<le> q \<longrightarrow> fd_read dev' q n = fd_read dev q n)"

lemma wrote_Nil: "wrote dev pos bs [] dev"
  by (simp add: wrote_def)

lemma wrote_append:
  assumes a: "wrote dev pos bs us dev1" and b: "wrote dev1 (pos + length us * bs) bs vs dev2" and bs: "140 \<le> bs"
  shows "wrote dev pos bs (us @ vs) dev2"
proof -
  have "fd_read dev2 (pos + i * bs) 140 = (us @ vs) ! i" if i: "i < length (us @ vs)" for i
  proof (cases "i < length us")
    case True
    then have "i * bs + bs \<le> length us * bs" by (metis Suc_leI add.commute mult_Suc mult_le_mono1)
    then have "pos + i * bs + 140 \<le> pos + length us * bs" using bs by simp
    then have "fd_read dev2 (pos + i * bs) 140 = fd_read dev1 (pos + i * bs) 140" using b by (simp add: wrote_def)
    then show ?thesis using a True by (simp add: wrote_def nth_append)
  next
    case False
    define k where "k = i - length us"
    have k: "i = length us + k" "k < length vs" using False i by (auto simp: k_def)
    have "fd_read dev2 (pos + length us * bs + k * bs) 140 = vs ! k" using b k(2) unfolding wrote_def by blast
    moreover have "pos + i * bs = pos + length us * bs + k * bs" by (simp add: k(1) algebra_simps)
    ultimately show ?thesis using k(1) by (simp only: nth_append_length_plus)
  qed
  moreover have "fd_read dev2 q n = fd_read dev q n" if q: "q + n \<le> pos \<or> pos + length (us @ vs) * bs \<le> q" for q n
  proof -
    have "q + n \<le> pos + length us * bs \<or> pos + length us * bs + length vs * bs \<le> q" using q by (auto simp: algebra_simps)
    then have "fd_read dev2 q n = fd_read dev1 q n" using b unfolding wrote_def by blast
    moreover have "q + n \<le> pos \<or> pos + length us * bs \<le> q" using q by (auto simp: algebra_simps)
    then have "fd_read dev1 q n = fd_read dev q n" using a unfolding wrote_def by blast
    ultimately show ?thesis by simp
  qed
  ultimately show ?thesis using a b by (simp add: wrote_def)
qed

lemma write_dscb_wrote:
  assumes w: "write_dscbs dev pos [(img, m)] = (Inr (), dev')" and img: "length img = 140" and bs: "140 \<le> bs"
  shows "wrote dev pos bs [img] dev'"
proof -
  have rc: "fst (fd_write dev pos img) = 140" and dev': "dev' = snd (fd_write dev pos img)"
    using w by (auto simp: split_beta Let_def split: if_split_asm)
  then have fit: "pos + length img \<le> length (content dev)"
    using fst_fd_write_full [of dev pos img] img by auto
  have "fd_read dev' pos 140 = img" using fd_read_write_same [OF fit] img by (simp add: dev')
  moreover have "fd_read dev' q n = fd_read dev q n" if "q + n \<le> pos \<or> pos + bs \<le> q" for q n
    using that bs img unfolding dev' by (intro fd_read_write_other [OF fit]) auto
  moreover have "length (content dev') = length (content dev)" using fit by (simp add: dev')
  ultimately show ?thesis by (simp add: wrote_def dev')
qed

text \<open>One call of \<open>vtoc_write_label\<close> with one label.\<close>

lemma write_label_wrote:
  assumes bs: "140 \<le> bs" and w: "vtoc_write_label dev pos f1 f4 f5 f7 f9 = (Inr (), dev')"
    and one: "opt_dscb enc_f1 ''Could not write VTOC FMT1 DSCB.'' f1 @
         opt_dscb enc_f4 ''Could not write VTOC FMT4 DSCB.'' f4 @
         opt_dscb enc_f5 ''Could not write VTOC FMT5 DSCB.'' f5 @
         opt_dscb enc_f7 ''Could not write VTOC FMT7 DSCB.'' f7 @
         opt_dscb enc_f9 ''Could not write VTOC FMT9 DSCB.'' f9 = [(img, m)]" and img: "length img = 140"
  shows "wrote dev pos bs [img] dev'"
proof (rule write_dscb_wrote [OF _ img bs])
  show "write_dscbs dev pos [(img, m)] = (Inr (), dev')" using w unfolding vtoc_write_label_def one by (auto split: if_split_asm)
qed

lemma write_f1: "140 \<le> bs \<Longrightarrow> wf_f1 f \<Longrightarrow> vtoc_write_label dev pos (Some f) None None None None = (Inr (), dev') \<Longrightarrow>
    wrote dev pos bs [enc_f1 f] dev'"
  and write_f4: "140 \<le> bs \<Longrightarrow> wf_f4 f4 \<Longrightarrow> vtoc_write_label dev pos None (Some f4) None None None = (Inr (), dev') \<Longrightarrow>
    wrote dev pos bs [enc_f4 f4] dev'"
  and write_f5: "140 \<le> bs \<Longrightarrow> wf_f5 f5 \<Longrightarrow> vtoc_write_label dev pos None None (Some f5) None None = (Inr (), dev') \<Longrightarrow>
    wrote dev pos bs [enc_f5 f5] dev'"
  and write_f7: "140 \<le> bs \<Longrightarrow> wf_f7 f7 \<Longrightarrow> vtoc_write_label dev pos None None None (Some f7) None = (Inr (), dev') \<Longrightarrow>
    wrote dev pos bs [enc_f7 f7] dev'"
  and write_f9: "140 \<le> bs \<Longrightarrow> wf_f9 f9 \<Longrightarrow> vtoc_write_label dev pos None None None None (Some f9) = (Inr (), dev') \<Longrightarrow>
    wrote dev pos bs [enc_f9 f9] dev'"
  by (erule write_label_wrote, assumption, simp add: opt_dscb_def,
      simp add: length_enc_f1 length_enc_f4 length_enc_f5 length_enc_f7 length_enc_f9)+


section \<open>The labels of the partitions\<close>

definition part_images :: "format9_label_t \<Rightarrow> format1_label_t list \<Rightarrow> bytes list" where
  "part_images f9 fs = concat (map (\<lambda>f. if DS1FMTID f = 0xf8 then [enc_f1 f, enc_f9 f9] else [enc_f1 f]) fs)"

lemma part_images_Cons [simp]:
  "part_images f9 [] = []"
  "part_images f9 (f # fs) = (if DS1FMTID f = 0xf8 then [enc_f1 f, enc_f9 f9] else [enc_f1 f]) @ part_images f9 fs"
  by (simp_all add: part_images_def)

definition rewritten :: "partition_info \<Rightarrow> partition_info \<Rightarrow> bool" where
  "rewritten p p' \<longleftrightarrow> (\<exists>t g. p' = p\<lparr>p_type := t, p_f1 := g\<rparr> \<and> DS1FMTID g = DS1FMTID (p_f1 p) \<and>
     DS1EXT1 g = DS1EXT1 (p_f1 p) \<and> wf_f1 g)"

definition in_use :: "partition_info list \<Rightarrow> format1_label_t list" where
  "in_use ps = map p_f1 (filter (\<lambda>p. used p = 1) ps)"

lemma blk_step:
  fixes blk :: u64 and b :: u32
  assumes "unat blk + unat b < 2 ^ 64"
  shows "unat (blk + ucast b) = unat blk + unat b"
proof -
  have "unat (ucast b :: u64) = unat b" using assms by (simp add: unsigned_ucast_eq take_bit_nat_eq_self)
  then show ?thesis using assms by (simp add: unat_add_lem [THEN iffD1])
qed

lemma renamed_sel:
  "renamed f g \<Longrightarrow> DS1FMTID g = DS1FMTID f \<and> DS1EXT1 g = DS1EXT1 f \<and> wf_f1 g"
proof -
  assume r: "renamed f g"
  then have g: "g = f\<lparr>DS1DSSN := DS1DSSN g, DS1DSNAM := DS1DSNAM g\<rparr>" by (simp add: renamed_def)
  have "DS1FMTID g = DS1FMTID f" "DS1EXT1 g = DS1EXT1 f" by (subst g, simp)+
  with r show ?thesis by (simp add: renamed_def)
qed

lemma write_parts_wrote:
  assumes "write_parts geo anc i k blk ps dev = (Inr (anc', blk', ps'), dev')"
    and "140 \<le> unat (blksize anc)" "unat blk + 2 * length ps * unat (blksize anc) < 2 ^ 64"
    and "\<forall>p \<in> set ps. used p = 1 \<longrightarrow> wf_f1 (p_f1 p)" "wf_f9 (a_f9 anc)"
  shows "wrote dev (unat blk) (unat (blksize anc)) (part_images (a_f9 anc) (in_use ps')) dev' \<and>
    unat blk' = unat blk + length (part_images (a_f9 anc) (in_use ps')) * unat (blksize anc) \<and>
    list_all2 (\<lambda>p p'. if used p = 1 then rewritten p p' else p' = p) ps ps' \<and> (\<exists>q. anc' = anc\<lparr>partno := q\<rparr>)"
  using assms
proof (induction ps arbitrary: anc i k blk dev anc' blk' ps' dev')
  case Nil
  have e: "anc' = anc" "blk' = blk" "ps' = []" "dev' = dev" using Nil.prems(1) by simp_all
  show ?case unfolding e by (intro conjI exI [of _ "partno anc"]) (simp_all add: wrote_Nil in_use_def)
next
  case (Cons p ps)
  let ?bs = "unat (blksize anc)"
  have room: "unat blk + 2 * length ps * ?bs < 2 ^ 64" "unat blk + ?bs < 2 ^ 64" "unat blk + ?bs + ?bs < 2 ^ 64"
    "unat blk + ?bs + 2 * length ps * ?bs < 2 ^ 64" "unat blk + ?bs + ?bs + 2 * length ps * ?bs < 2 ^ 64"
  proof -
    have "2 * length (p # ps) * ?bs = ?bs + ?bs + 2 * length ps * ?bs" by simp
    with Cons.prems(3) show "unat blk + 2 * length ps * ?bs < 2 ^ 64" "unat blk + ?bs < 2 ^ 64" "unat blk + ?bs + ?bs < 2 ^ 64"
      "unat blk + ?bs + 2 * length ps * ?bs < 2 ^ 64" "unat blk + ?bs + ?bs + 2 * length ps * ?bs < 2 ^ 64"
      by linarith+
  qed
  show ?case
  proof (cases "used p = 1")
    case False
    then obtain qs where w: "write_parts geo anc i k blk ps dev = (Inr (anc', blk', qs), dev')" "ps' = p # qs"
      using Cons.prems(1) by (auto simp: seq_Inr)
    from Cons.IH [OF w(1) Cons.prems(2) room(1)] Cons.prems(4,5) w(2) False show ?thesis
      by (simp add: in_use_def)
  next
    case u: True
    obtain a k1 p1 where n: "named anc (i + 1) k p = Inr (a, k1, p1)"
      using Cons.prems(1) u by (cases "named anc (i + 1) k p") auto
    obtain q t g where a: "a = anc\<lparr>partno := q\<rparr>" and p1: "p1 = p\<lparr>p_type := t, p_f1 := g\<rparr>" and g: "renamed (p_f1 p) g"
      using Cons.prems(4) u by (auto intro: named_label [OF _ n])
    note gs = renamed_sel [OF g]
    have sel: "blksize a = blksize anc" "a_f9 a = a_f9 anc" by (simp_all add: a)
    have pq: "\<exists>q. anc' = anc\<lparr>partno := q\<rparr>" if "\<exists>q. anc' = a\<lparr>partno := q\<rparr>" using that by (auto simp: a)
    show ?thesis
    proof (cases "DS1FMTID g = 0xf8")
      case f8: True
      define h where "h = vtoc_update_format8_label (vtoc_set_cchhb VTOC_START_CC VTOC_START_HH
                      (ucast (blk div ucast (blksize anc) mod ucast (sectors geo)) + 2)) g"
      have h: "wf_f1 h" "DS1FMTID h = 0xf8" "DS1EXT1 h = DS1EXT1 (p_f1 p)" "DS1FMTID h = DS1FMTID (p_f1 p)"
        using gs f8 by (simp_all add: h_def vtoc_update_format8_label_def wf_f1_def)
      obtain d1 d2 qs where w: "vtoc_write_label dev (unat blk) (Some h) None None None None = (Inr (), d1)"
        "vtoc_write_label d1 (unat (blk + ucast (blksize anc))) None None None None (Some (a_f9 anc)) = (Inr (), d2)"
        "write_parts geo a (i + 1) k1 (blk + ucast (blksize anc) + ucast (blksize anc)) ps d2 = (Inr (anc', blk', qs), dev')"
        "ps' = p1\<lparr>p_f1 := h\<rparr> # qs"
        using Cons.prems(1) u n f8 sel
        by (auto simp: p1 Let_def seq_Inr lift_write_Inr h_def [symmetric] split: if_split_asm)
      have b1: "unat (blk + ucast (blksize anc)) = unat blk + ?bs" by (rule blk_step [OF room(2)])
      have b2: "unat (blk + ucast (blksize anc) + ucast (blksize anc)) = unat blk + ?bs + ?bs"
        using blk_step [of "blk + ucast (blksize anc)" "blksize anc"] b1 room(3) by simp
      have "wrote dev (unat blk) ?bs [enc_f1 h] d1" by (rule write_f1 [OF Cons.prems(2) h(1) w(1)])
      moreover have "wrote d1 (unat blk + length [enc_f1 h] * ?bs) ?bs [enc_f9 (a_f9 anc)] d2"
        using write_f9 [OF Cons.prems(2,5) w(2)] b1 by simp
      ultimately have w12: "wrote dev (unat blk) ?bs [enc_f1 h, enc_f9 (a_f9 anc)] d2"
        using wrote_append [OF _ _ Cons.prems(2)] by fastforce
      note ih = Cons.IH [OF w(3), unfolded sel b2, OF Cons.prems(2) room(5) _ Cons.prems(5)]
      have used1: "used (p1\<lparr>p_f1 := h\<rparr>) = 1" using u by (simp add: p1)
      have rw: "rewritten p (p1\<lparr>p_f1 := h\<rparr>)" using h unfolding rewritten_def p1 by (intro exI [of _ t] exI [of _ h]) simp
      show ?thesis using ih Cons.prems(4) w(4) used1 u rw h(2) pq
          wrote_append [OF w12 _ Cons.prems(2)]
        by (auto simp: in_use_def algebra_simps)
    next
      case f1: False
      obtain d1 qs where w: "vtoc_write_label dev (unat blk) (Some g) None None None None = (Inr (), d1)"
        "write_parts geo a (i + 1) k1 (blk + ucast (blksize anc)) ps d1 = (Inr (anc', blk', qs), dev')"
        "ps' = p1 # qs"
        using Cons.prems(1) u n f1 sel
        by (auto simp: p1 Let_def seq_Inr lift_write_Inr split: if_split_asm)
      have b1: "unat (blk + ucast (blksize anc)) = unat blk + ?bs" by (rule blk_step [OF room(2)])
      have w1: "wrote dev (unat blk) ?bs [enc_f1 g] d1" using gs by (intro write_f1 [OF Cons.prems(2) _ w(1)]) simp
      note ih = Cons.IH [OF w(2), unfolded sel b1, OF Cons.prems(2) room(4) _ Cons.prems(5)]
      have used1: "used p1 = 1" "p_f1 p1 = g" using u by (simp_all add: p1)
      have rw: "rewritten p p1" using gs unfolding rewritten_def p1 by (intro exI [of _ t] exI [of _ g]) simp
      show ?thesis using ih Cons.prems(4) w(3) used1 u rw f1 pq wrote_append [OF w1 _ Cons.prems(2)]
        by (auto simp: in_use_def algebra_simps)
    qed
  qed
qed


section \<open>All blocks of the VTOC\<close>

lemma wf_zero_f1: "wf_f1 zero_f1"
  by (simp add: zero_f1_def wf_dec_f1)

lemma write_empty_wrote:
  assumes "write_empty b maxblk blk dev = (Inr (), dev')" and "140 \<le> unat b"
    and "unat blk + n * unat b = unat maxblk" "unat maxblk < 2 ^ 63"
  shows "wrote dev (unat blk) (unat b) (replicate n (enc_f1 zero_f1)) dev'"
  using assms
proof (induction n arbitrary: blk dev)
  case 0
  then have "\<not> blk < maxblk" by (simp add: word_less_nat_alt)
  then show ?case using 0(1) by (subst (asm) write_empty.simps) (simp add: wrote_Nil)
next
  case (Suc n)
  have lt: "blk < maxblk" using Suc.prems by (simp add: word_less_nat_alt)
  have b: "unat (blk + ucast b) = unat blk + unat b" using Suc.prems by (intro blk_step) simp
  obtain d1 where w: "vtoc_write_label dev (unat blk) (Some zero_f1) None None None None = (Inr (), d1)"
    "write_empty b maxblk (blk + ucast b) d1 = (Inr (), dev')"
    using Suc.prems(1) lt by (subst (asm) write_empty.simps) (auto simp: seq_Inr lift_write_Inr split: if_split_asm)
  have "wrote d1 (unat (blk + ucast b)) (unat b) (replicate n (enc_f1 zero_f1)) dev'"
    using Suc.prems b by (intro Suc.IH [OF w(2)]) simp_all
  moreover have "wrote dev (unat blk) (unat b) [enc_f1 zero_f1] d1" by (rule write_f1 [OF Suc.prems(2) wf_zero_f1 w(1)])
  ultimately show ?case using wrote_append [of dev "unat blk" "unat b" "[enc_f1 zero_f1]" d1] b Suc.prems(2) by simp
qed

definition vtoc_blk :: "hd_geometry \<Rightarrow> fdasd_anchor \<Rightarrow> u64" where
  "vtoc_blk geo anc = (cchhb2blk (vtoc (vlabel anc)) geo - 1) * ucast (blksize anc)"

text \<open>The nine blocks: the format 4 label, the free-space labels, the labels of the partitions, and
  empty labels.\<close>

definition vtoc_images :: "fdasd_anchor \<Rightarrow> partition_info list \<Rightarrow> bytes list" where
  "vtoc_images anc ps =
     (let xs = [enc_f4 (a_f4 anc), enc_f5 (a_f5 anc)] @ (if big_disk_flag anc \<noteq> 0 then [enc_f7 (a_f7 anc)] else []) @
        part_images (a_f9 anc) (in_use ps)
      in xs @ replicate (9 - length xs) (enc_f1 zero_f1))"

lemma part_images_length: "length (part_images f9 fs) \<le> 2 * length fs"
  by (induction fs) auto

lemma list_all2_in_use:
  "list_all2 (\<lambda>p p'. if used p = 1 then rewritten p p' else p' = p) ps ps' \<Longrightarrow>
     list_all2 (\<lambda>f g. DS1FMTID g = DS1FMTID f \<and> DS1EXT1 g = DS1EXT1 f \<and> wf_f1 g) (in_use ps) (in_use ps')"
  by (induction rule: list_all2_induct) (auto simp: in_use_def rewritten_def)

lemma vtoc_labels_wrote:
  assumes w: "fdasd_write_vtoc_labels geo anc dev = (Inr anc', dev')"
    and bs: "140 \<le> unat (blksize anc)" "unat (blksize anc) \<le> 4096"
    and room: "unat (vtoc_blk geo anc) + 9 * unat (blksize anc) < 2 ^ 63"
    and len: "length (parts anc) = 3" and wf: "\<forall>p \<in> set (parts anc). used p = 1 \<longrightarrow> wf_f1 (p_f1 p)"
    and f: "wf_f4 (a_f4 anc)" "f57_ok (a_f5 anc) (a_f7 anc)" "f9_ok (a_f9 anc)"
  obtains ps where "wrote dev (unat (vtoc_blk geo anc)) (unat (blksize anc)) (vtoc_images anc ps) dev'"
    "length (vtoc_images anc ps) = 9"
    "list_all2 (\<lambda>f g. DS1FMTID g = DS1FMTID f \<and> DS1EXT1 g = DS1EXT1 f \<and> wf_f1 g) (in_use (parts anc)) (in_use ps)"
proof -
  let ?b = "ucast (blksize anc) :: u64" and ?n = "unat (blksize anc)" and ?big = "big_disk_flag anc \<noteq> 0"
  define blk where "blk = vtoc_blk geo anc"
  have room: "unat blk + 9 * ?n < 2 ^ 63" using room by (simp add: blk_def)
  obtain d1 d2 d3 d4 a bl ps where
    w4: "vtoc_write_label dev (unat blk) None (Some (a_f4 anc)) None None None = (Inr (), d1)" and
    w5: "vtoc_write_label d1 (unat (blk + ?b)) None None (Some (a_f5 anc)) None None = (Inr (), d2)" and
    w7: "(if ?big then lift_write (vtoc_write_label d2 (unat (blk + ?b + ?b)) None None None (Some (a_f7 anc)) None)
          else (Inr (), d2)) = (Inr (), d3)" and
    wp: "write_parts geo anc 0 0 (if ?big then blk + ?b + ?b + ?b else blk + ?b + ?b) (parts anc) d3 = (Inr (a, bl, ps), d4)" and
    we: "write_empty (blksize a) (blk + ucast (blksize anc * 9)) bl d4 = (Inr (), dev')"
    using w unfolding fdasd_write_vtoc_labels_def Let_def vtoc_blk_def [symmetric] blk_def [symmetric]
    by (auto simp: seq_Inr lift_write_Inr split: if_split_asm)
  have b1: "unat (blk + ?b) = unat blk + ?n" using room by (intro blk_step) simp
  have b2: "unat (blk + ?b + ?b) = unat blk + 2 * ?n" using room b1 by (subst blk_step) simp_all
  have b3: "unat (blk + ?b + ?b + ?b) = unat blk + 3 * ?n" using room b2 by (subst blk_step) simp_all
  define h where "h = [enc_f4 (a_f4 anc), enc_f5 (a_f5 anc)] @ (if ?big then [enc_f7 (a_f7 anc)] else [])"
  define q where "q = part_images (a_f9 anc) (in_use ps)"
  have i4: "wrote dev (unat blk) ?n [enc_f4 (a_f4 anc)] d1" by (rule write_f4 [OF bs(1) f(1) w4])
  have i5: "wrote d1 (unat blk + ?n) ?n [enc_f5 (a_f5 anc)] d2"
    using write_f5 [OF bs(1) _ w5] f(2) b1 by (simp add: f57_ok_def)
  have i45: "wrote dev (unat blk) ?n [enc_f4 (a_f4 anc), enc_f5 (a_f5 anc)] d2"
    using wrote_append [OF i4 _ bs(1)] i5 by fastforce
  have i7: "wrote d2 (unat blk + 2 * ?n) ?n (if ?big then [enc_f7 (a_f7 anc)] else []) d3"
    using w7 write_f7 [OF bs(1), of "a_f7 anc" d2 "unat (blk + ?b + ?b)" d3] f(2) b2
    by (auto simp: f57_ok_def lift_write_Inr wrote_Nil split: if_split_asm)
  have ih: "wrote dev (unat blk) ?n h d3" unfolding h_def
    by (rule wrote_append [OF i45 _ bs(1)]) (use i7 in \<open>simp add: mult_2\<close>)
  have hl: "unat (if ?big then blk + ?b + ?b + ?b else blk + ?b + ?b) = unat blk + length h * ?n"
    using b2 b3 by (simp add: h_def)
  have parts: "wrote d3 (unat blk + length h * ?n) ?n q d4" "unat bl = unat blk + length h * ?n + length q * ?n"
    "list_all2 (\<lambda>p p'. if used p = 1 then rewritten p p' else p' = p) (parts anc) ps"
    using write_parts_wrote [OF wp bs(1)] wf f(3) len room unfolding hl q_def
    by (auto simp: f9_ok_def h_def)
  have "\<exists>q. a = anc\<lparr>partno := q\<rparr>"
    using write_parts_wrote [OF wp bs(1)] wf f(3) len room unfolding hl by (auto simp: f9_ok_def h_def)
  then have we: "write_empty (blksize anc) (blk + ucast (blksize anc * 9)) bl d4 = (Inr (), dev')" using we by auto
  have "length q \<le> 2 * length (in_use ps)" unfolding q_def by (rule part_images_length)
  moreover have "length (in_use ps) \<le> 3"
    using list_all2_lengthD [OF parts(3)] len length_filter_le [of "\<lambda>p. used p = 1" ps] by (simp add: in_use_def)
  ultimately have ql: "length h + length q \<le> 9" by (simp add: h_def)
  have ihq: "wrote dev (unat blk) ?n (h @ q) d4" by (rule wrote_append [OF ih parts(1) bs(1)])
  have mx: "unat (blk + ucast (blksize anc * 9)) = unat blk + 9 * ?n"
  proof -
    have "unat (blksize anc * 9) = 9 * ?n" using bs(2) by (simp add: unat_word_ariths)
    then show ?thesis using blk_step [of blk "blksize anc * 9"] room by simp
  qed
  have "wrote d4 (unat bl) ?n (replicate (9 - length (h @ q)) (enc_f1 zero_f1)) dev'"
  proof (rule write_empty_wrote [OF we bs(1)])
    have "(length h + length q + (9 - length (h @ q))) * ?n = 9 * ?n" using ql by simp
    then show "unat bl + (9 - length (h @ q)) * ?n = unat (blk + ucast (blksize anc * 9))"
      unfolding mx parts(2) by (simp add: algebra_simps)
    show "unat (blk + ucast (blksize anc * 9)) < 2 ^ 63" unfolding mx by (rule room)
  qed
  then have all: "wrote dev (unat blk) ?n (h @ q @ replicate (9 - length (h @ q)) (enc_f1 zero_f1)) dev'"
    using wrote_append [OF ihq _ bs(1), of "replicate (9 - length (h @ q)) (enc_f1 zero_f1)" dev'] parts(2)
    by (simp add: algebra_simps)
  have im: "vtoc_images anc ps = h @ q @ replicate (9 - length (h @ q)) (enc_f1 zero_f1)"
    by (simp add: vtoc_images_def h_def q_def Let_def)
  show thesis
  proof (rule that)
    show "wrote dev (unat (vtoc_blk geo anc)) ?n (vtoc_images anc ps) dev'" using all by (simp add: im blk_def)
    show "length (vtoc_images anc ps) = 9" using ql by (simp add: im)
  qed (rule list_all2_in_use [OF parts(3)])
qed

end
