(* ===== verification/Fdasd_Reread.thy ===== *)
theory Fdasd_Reread
  imports Fdasd_Image
begin

text \<open>
  Reading the labels that were written: the program finds the table again.
\<close>

section \<open>The kind of an image\<close>

lemma image_fmt: "length img = 140 \<Longrightarrow> DS1FMTID (fst (dec_f1 img)) = img ! 44"
proof -
  assume l: "length img = 140"
  let ?f = "fst (dec_f1 img)"
  have "enc_f1 ?f ! 44 = DS1FMTID ?f" using wf_dec_f1 [OF l] by (simp add: enc_f1_def wf_f1_def nth_append)
  then show ?thesis by (simp add: image_dec_f1 [OF l])
qed

lemma fmt_f5: "wf_f5 f \<Longrightarrow> DS1FMTID (fst (dec_f1 (enc_f5 f))) = DS5FMTID f"
  and fmt_f7: "wf_f7 f7 \<Longrightarrow> DS1FMTID (fst (dec_f1 (enc_f7 f7))) = DS7FMTID f7"
  and fmt_f9: "wf_f9 f9 \<Longrightarrow> DS1FMTID (fst (dec_f1 (enc_f9 f9))) = DS9FMTID f9"
  by (simp_all add: image_fmt length_enc_f5 length_enc_f7 length_enc_f9)
    (simp_all add: enc_f5_def wf_f5_def enc_f7_def wf_f7_def enc_f9_def wf_f9_def nth_append length_concat_enc
      length_enc_ds5ext length_enc_ds7ext)

text \<open>Labels that are neither partitions nor free space are passed over.\<close>

definition foreign :: "format1_label_t \<Rightarrow> bool" where
  "foreign f \<longleftrightarrow> DS1FMTID f \<notin> {0xf1, 0xf5, 0xf7, 0xf8}"

lemma scan_foreign: "foreign f \<Longrightarrow> scan_label f s = s"
  by (simp add: scan_label_def foreign_def is_part_label_def Let_def)

lemma scan_all_foreign: "\<forall>f \<in> set fs. foreign f \<Longrightarrow> fold scan_label fs s = s"
  by (induction fs arbitrary: s) (simp_all add: scan_foreign)

text \<open>The elements of the list get the labels in the order they are found.\<close>

fun placed :: "partition_info list \<Rightarrow> format1_label_t list \<Rightarrow> partition_info list" where
  "placed ps [] = ps"
| "placed [] fs = []"
| "placed (p # ps) (f # fs) = p\<lparr>p_f1 := recoded f\<rparr> # placed ps fs"

abbreviation image_label :: "bytes \<Rightarrow> format1_label_t" where
  "image_label img \<equiv> fst (dec_f1 img)"

lemma scan_parts:
  assumes "parts (s_anc s) = us @ vs" "length us = f1_counter s" "length fs \<le> length vs"
    and "\<forall>f \<in> set fs. wf_f1 f \<and> is_part_label f" "f9_ok f9"
  shows "\<exists>q. fold scan_label (map image_label (part_images f9 fs)) s =
    s\<lparr>s_anc := (s_anc s)\<lparr>parts := us @ placed vs fs, partno := q\<rparr>, f1_counter := f1_counter s + length fs\<rparr>"
  using assms
proof (induction fs arbitrary: s us vs)
  case Nil
  then show ?case by (intro exI [of _ "partno (s_anc s)"]) simp
next
  case (Cons f fs)
  obtain v vs' where vs: "vs = v # vs'" using Cons.prems(3) by (cases vs) auto
  have f: "wf_f1 f" "is_part_label f" using Cons.prems(4) by auto
  have d: "image_label (enc_f1 f) = f" using f(1) by simp
  define no where "no = part_no_of f"
  define t where "t = scan_label f s"
  have pk: "parts (s_anc s) ! f1_counter s = v" "\<not> length (parts (s_anc s)) \<le> f1_counter s"
    using Cons.prems(1,2) by (simp_all add: vs nth_append)
  have upd: "(parts (s_anc s))[f1_counter s := v\<lparr>p_f1 := recoded f\<rparr>] = us @ v\<lparr>p_f1 := recoded f\<rparr> # vs'"
    using Cons.prems(1,2) by (simp add: vs list_update_append)
  obtain q where t: "t = s\<lparr>s_anc := (s_anc s)\<lparr>parts := us @ v\<lparr>p_f1 := recoded f\<rparr> # vs', partno := q\<rparr>, f1_counter := f1_counter s + 1\<rparr>"
  proof
    show "t = s\<lparr>s_anc := (s_anc s)\<lparr>parts := us @ v\<lparr>p_f1 := recoded f\<rparr> # vs',
        partno := (if no < 0 \<or> no \<ge> int USABLE_PARTITIONS then partno (s_anc s)
          else (partno (s_anc s))[nat no := int (f1_counter s)])\<rparr>, f1_counter := f1_counter s + 1\<rparr>"
      using f(2) pk by (simp add: t_def scan_label_def Let_def upd no_def setpos_def)
  qed
  have "foreign (image_label (enc_f9 f9))" using Cons.prems(5) by (simp add: f9_ok_def fmt_f9 foreign_def)
  then have step: "fold scan_label (map image_label (part_images f9 (f # fs))) s =
      fold scan_label (map image_label (part_images f9 fs)) t"
    by (simp add: t_def d scan_foreign)
  have "\<exists>q'. fold scan_label (map image_label (part_images f9 fs)) t =
    t\<lparr>s_anc := (s_anc t)\<lparr>parts := (us @ [v\<lparr>p_f1 := recoded f\<rparr>]) @ placed vs' fs, partno := q'\<rparr>,
      f1_counter := f1_counter t + length fs\<rparr>"
    using Cons.prems by (intro Cons.IH) (simp_all add: t vs)
  then show ?case unfolding step by (auto simp: t vs)
qed

text \<open>Reading succeeds as long as the device has the blocks.\<close>

lemma scan_vtoc_images:
  assumes "open_rdonly dev" "\<forall>i < n. seek_ok dev (unat blk + i * unat bs) \<and> unat blk + i * unat bs + 140 \<le> length (content dev)"
    and "unat blk + n * unat bs < 2 ^ 64"
  shows "scan_vtoc dev bs n blk s =
    Inr (fold scan_label (map (\<lambda>i. image_label (fd_read dev (unat blk + i * unat bs) 140)) [0..<n]) s)"
  using assms
proof (induction n arbitrary: blk s)
  case (Suc n)
  let ?f = "image_label (fd_read dev (unat blk) 140)"
  have r: "vtoc_read_label dev (unat blk) True False False False = Inr (Some ?f, None, None, None)"
    using Suc.prems(1,2) by (force simp: vtoc_read_label_def read_dscb_def Let_def)
  have b: "unat (blk + bs) = unat blk + unat bs"
    using Suc.prems(3) by (simp add: unat_add_lem [THEN iffD1])
  have "scan_vtoc dev bs n (blk + bs) (scan_label ?f s) =
      Inr (fold scan_label (map (\<lambda>i. image_label (fd_read dev (unat (blk + bs) + i * unat bs) 140)) [0..<n]) (scan_label ?f s))"
  proof (rule Suc.IH [OF Suc.prems(1)])
    show "\<forall>i < n. seek_ok dev (unat (blk + bs) + i * unat bs) \<and> unat (blk + bs) + i * unat bs + 140 \<le> length (content dev)"
    proof (intro allI impI)
      fix i assume "i < n"
      then have "Suc i < Suc n" by simp
      with Suc.prems(2) have "seek_ok dev (unat blk + Suc i * unat bs) \<and> unat blk + Suc i * unat bs + 140 \<le> length (content dev)" by blast
      then show "seek_ok dev (unat (blk + bs) + i * unat bs) \<and> unat (blk + bs) + i * unat bs + 140 \<le> length (content dev)"
        by (simp add: b add.assoc)
    qed
    show "unat (blk + bs) + n * unat bs < 2 ^ 64" using Suc.prems(3) by (simp add: b)
  qed
  moreover have "[0..<Suc n] = 0 # map Suc [0..<n]" by (simp only: map_Suc_upt upt_conv_Cons zero_less_Suc)
  ultimately show ?case by (simp only: scan_vtoc.simps r lift_vtoc_simps bind_err_simps)
    (simp add: b comp_def add.assoc)
qed simp


section \<open>The table made from the labels\<close>

definition read_part :: "hd_geometry \<Rightarrow> partition_info \<Rightarrow> partition_info" where
  "read_part geo p = (let start = ucast (cchh2trk (llimit (DS1EXT1 (p_f1 p))) geo);
       stop = ucast (cchh2trk (ulimit (DS1EXT1 (p_f1 p))) geo)
     in p\<lparr>used := 0x01, start_trk := start, end_trk := stop, len_trk := stop - start + 1\<rparr>)"

lemma update_parts_label:
  "is_part_label (p_f1 p) \<Longrightarrow> update_parts geo lim 1 [] (p # ps) fs =
     update_parts geo lim 2 [read_part geo p] ps (start_trk (read_part geo p) - first_trk)"
  "is_part_label (p_f1 p) \<Longrightarrow> i \<noteq> 1 \<Longrightarrow> update_parts geo lim i acc (p # ps) fs =
     update_parts geo lim (i + 1) ((if i = 3 then (read_part geo p)\<lparr>p_fspace_trk := lim - end_trk (read_part geo p)\<rparr>
       else read_part geo p) # set_gap (start_trk (read_part geo p)) acc) ps fs"
  by (simp_all add: read_part_def Let_def USABLE_PARTITIONS_def numeral_2_eq_2)

lemma unat_u32_bound: "unat (w :: u32) < 2 ^ 32"
  using unsigned_less [where 'a = nat and w = w] by simp

lemma ucast_trk: "unat (ucast (w :: u32) :: u64) = unat w"
  using unat_u32_bound [of w] by (simp add: unsigned_ucast_eq take_bit_nat_eq_self)

text \<open>An element read from a label is the one that was written, but for the free-space counter.\<close>

lemma read_part_ok:
  assumes "label_ok geo u" "DS1EXT1 (p_f1 p) = DS1EXT1 (p_f1 u)" "pstart u \<le> pend u"
  shows "used (read_part geo p) = 1" "start_trk (read_part geo p) = start_trk u" "end_trk (read_part geo p) = end_trk u"
    "pstart (read_part geo p) = pstart u" "pend (read_part geo p) = pend u" "label_ok geo (read_part geo p)"
    "unat (len_trk (read_part geo p)) = Suc (pend u) - pstart u"
proof -
  have s: "(ucast (cchh2trk (llimit (DS1EXT1 (p_f1 p))) geo) :: u64) = start_trk u"
    "(ucast (cchh2trk (ulimit (DS1EXT1 (p_f1 p))) geo) :: u64) = end_trk u"
    using assms(1,2) by (auto simp: label_ok_def pstart_def pend_def ucast_trk intro!: word_unat_eq_iff [THEN iffD2])
  show a: "used (read_part geo p) = 1" "start_trk (read_part geo p) = start_trk u" "end_trk (read_part geo p) = end_trk u"
    by (simp_all add: read_part_def Let_def s)
  then show "pstart (read_part geo p) = pstart u" "pend (read_part geo p) = pend u" by (simp_all add: pstart_def pend_def)
  then show "label_ok geo (read_part geo p)"
    using assms(1,2) by (simp add: label_ok_def) (simp add: read_part_def Let_def)
  have "pend u < 2 ^ 32" using assms(1) unat_u32_bound unfolding label_ok_def by metis
  moreover have "start_trk u \<le> end_trk u" using assms(3) by (simp add: pstart_def pend_def word_le_nat_alt)
  ultimately have "unat (end_trk u - start_trk u + 1) = Suc (pend u) - pstart u"
    by (intro unat_eqI) (auto simp: pstart_def pend_def unat_sub of_nat_diff word_le_nat_alt)
  then show "unat (len_trk (read_part geo p)) = Suc (pend u) - pstart u"
    by (simp add: read_part_def Let_def s)
qed

definition same_extent :: "partition_info \<Rightarrow> partition_info \<Rightarrow> bool" where
  "same_extent u p \<longleftrightarrow> is_part_label (p_f1 p) \<and> DS1EXT1 (p_f1 p) = DS1EXT1 (p_f1 u)"

lemma gap_word:
  fixes a b :: u64
  assumes "unat a < unat b"
  shows "unat (b - a - 1) = unat b - Suc (unat a)"
proof -
  have "a \<le> b" using assms by (simp add: word_le_nat_alt)
  then have "unat (b - a) = unat b - unat a" by (simp add: unat_sub)
  moreover from this assms have "1 \<le> b - a" by (simp add: word_le_nat_alt)
  ultimately show ?thesis by (simp add: unat_sub)
qed

lemma update_rest:
  assumes "chain geo (Suc (pend q)) n g us" "list_all2 same_extent us ps" "unat lim = n - 1" "0 < n"
    and "\<forall>z \<in> set zs. \<not> is_part_label (p_f1 z)" "1 < i" "i + length us + length zs = 4"
    and "i = 4 \<longrightarrow> p_fspace_trk q = lim - end_trk q"
  shows "\<exists>g' vs. update_parts geo lim i (q # qs) (ps @ zs) fs = (fs, rev qs @ q\<lparr>p_fspace_trk := g'\<rparr> # vs @ zs) \<and>
    chain geo (Suc (pend q)) n g' vs \<and> map interval vs = map interval us"
  using assms
proof (induction us arbitrary: q g ps i qs)
  case Nil
  have q: "end_trk q \<le> lim" "unat lim = n - 1" "Suc (pend q) \<le> n" using Nil.prems by (auto simp: word_le_nat_alt pend_def)
  then have c: "chain geo (Suc (pend q)) n (lim - end_trk q) []" by (simp add: unat_sub pend_def)
  show ?case
  proof (cases zs)
    case Nil': Nil
    then have "q\<lparr>p_fspace_trk := lim - end_trk q\<rparr> = q" using Nil.prems by simp
    with Nil' Nil.prems c show ?thesis by (intro exI [of _ "lim - end_trk q"] exI [of _ "[]"]) simp
  next
    case (Cons z zs')
    with Nil.prems c show ?thesis by (intro exI [of _ "lim - end_trk q"] exI [of _ "[]"]) simp
  qed
next
  case (Cons u us)
  obtain p ps' where ps: "ps = p # ps'" "same_extent u p" "list_all2 same_extent us ps'"
    using Cons.prems(2) by (cases ps) auto
  have u: "label_ok geo u" "pstart u \<le> pend u" "Suc (pend q) \<le> pstart u" "chain geo (Suc (pend u)) n (p_fspace_trk u) us"
    using Cons.prems(1) by auto
  note r = read_part_ok [OF u(1) _ u(2), of p]
  have e: "DS1EXT1 (p_f1 p) = DS1EXT1 (p_f1 u)" "is_part_label (p_f1 p)" using ps(2) by (auto simp: same_extent_def)
  define w where "w = (if i = 3 then (read_part geo p)\<lparr>p_fspace_trk := lim - end_trk (read_part geo p)\<rparr> else read_part geo p)"
  define q' where "q' = q\<lparr>p_fspace_trk := start_trk (read_part geo p) - end_trk q - 1\<rparr>"
  have w: "pstart w = pstart u" "pend w = pend u" "used w = 1" "label_ok geo w" "end_trk w = end_trk u"
    "unat (len_trk w) = Suc (pend u) - pstart u" "interval w = interval u"
    using r [OF e(1)] by (simp_all add: w_def interval_def)
  have step: "update_parts geo lim i (q # qs) (ps @ zs) fs = update_parts geo lim (i + 1) (w # q' # qs) (ps' @ zs) fs"
    using update_parts_label(2) [OF e(2), of i geo lim "q # qs" "ps' @ zs" fs] Cons.prems(6)
    by (simp only: ps(1) append_Cons set_gap_def w_def q'_def list.case less_numeral_extra(4) refl)
  have "\<exists>g' vs. update_parts geo lim (i + 1) (w # q' # qs) (ps' @ zs) fs =
      (fs, rev (q' # qs) @ w\<lparr>p_fspace_trk := g'\<rparr> # vs @ zs) \<and> chain geo (Suc (pend w)) n g' vs \<and> map interval vs = map interval us"
  proof (rule Cons.IH)
    show "chain geo (Suc (pend w)) n (p_fspace_trk u) us" using u(4) by (simp add: w(2))
    show "i + 1 = 4 \<longrightarrow> p_fspace_trk w = lim - end_trk w" by (simp add: w_def)
  qed (use Cons.prems ps in auto)
  then obtain g' vs where v: "update_parts geo lim (i + 1) (w # q' # qs) (ps' @ zs) fs =
      (fs, rev qs @ q' # w\<lparr>p_fspace_trk := g'\<rparr> # vs @ zs)" "chain geo (Suc (pend u)) n g' vs" "map interval vs = map interval us"
    by (auto simp: w(2))
  have "unat (start_trk (read_part geo p) - end_trk q - 1) = pstart u - Suc (pend q)"
    using gap_word [of "end_trk q" "start_trk u"] u(3) r(2) [OF e(1)] by (simp add: pstart_def pend_def)
  then have "chain geo (Suc (pend q)) n (start_trk (read_part geo p) - end_trk q - 1) (w\<lparr>p_fspace_trk := g'\<rparr> # vs)"
    using w u v(2) by simp
  with v w(7) show ?case unfolding step
    by (intro exI [of _ "start_trk (read_part geo p) - end_trk q - 1"] exI [of _ "w\<lparr>p_fspace_trk := g'\<rparr> # vs"]) (simp add: q'_def)
qed

lemma update_table:
  assumes c: "chain geo 2 n g us" and l: "list_all2 same_extent us ps" and lim: "unat lim = n - 1" "2 < n"
    and z: "\<forall>z \<in> set zs. \<not> is_part_label (p_f1 z)" "length us + length zs = 3"
  shows "\<exists>g' vs. update_parts geo lim 1 [] (ps @ zs) fs = (g', vs @ zs) \<and> chain geo 2 n g' vs \<and> map interval vs = map interval us"
proof (cases us)
  case Nil
  then obtain z1 zs' where zs: "zs = z1 # zs'" using z(2) by (cases zs) auto
  have "unat (lim - first_trk + 1) = n - 2"
    using lim by (simp add: first_trk_2 unat_sub word_le_nat_alt)
  with Nil l zs z(1) show ?thesis using lim(2) by (intro exI [of _ "lim - first_trk + 1"] exI [of _ "[]"]) simp
next
  case (Cons u us')
  obtain p ps' where ps: "ps = p # ps'" "same_extent u p" "list_all2 same_extent us' ps'"
    using l Cons by (cases ps) auto
  have u: "label_ok geo u" "pstart u \<le> pend u" "2 \<le> pstart u" "chain geo (Suc (pend u)) n (p_fspace_trk u) us'"
    using c Cons by auto
  have e: "DS1EXT1 (p_f1 p) = DS1EXT1 (p_f1 u)" "is_part_label (p_f1 p)" using ps(2) by (auto simp: same_extent_def)
  note r = read_part_ok [OF u(1) e(1) u(2)]
  have "\<exists>g' vs. update_parts geo lim 2 [read_part geo p] (ps' @ zs) (start_trk (read_part geo p) - first_trk) =
      (start_trk (read_part geo p) - first_trk, rev [] @ (read_part geo p)\<lparr>p_fspace_trk := g'\<rparr> # vs @ zs) \<and>
      chain geo (Suc (pend (read_part geo p))) n g' vs \<and> map interval vs = map interval us'"
  proof (rule update_rest)
    show "chain geo (Suc (pend (read_part geo p))) n (p_fspace_trk u) us'" using u(4) by (simp add: r(5))
  qed (use ps(3) lim z Cons in auto)
  then obtain g' vs where v: "update_parts geo lim 2 [read_part geo p] (ps' @ zs) (start_trk (read_part geo p) - first_trk) =
      (start_trk (read_part geo p) - first_trk, (read_part geo p)\<lparr>p_fspace_trk := g'\<rparr> # vs @ zs)"
    "chain geo (Suc (pend u)) n g' vs" "map interval vs = map interval us'" by (auto simp: r(5))
  have "unat (start_trk u - first_trk) = pstart u - 2"
    using u(3) by (simp add: first_trk_2 unat_sub word_le_nat_alt pstart_def)
  then have "chain geo 2 n (start_trk (read_part geo p) - first_trk) ((read_part geo p)\<lparr>p_fspace_trk := g'\<rparr> # vs)"
    using r u v(2) by simp
  then show ?thesis using v(1,3) e(2) r(4,5)
    by (intro exI [of _ "start_trk (read_part geo p) - first_trk"] exI [of _ "(read_part geo p)\<lparr>p_fspace_trk := g'\<rparr> # vs"])
      (simp add: ps(1) Cons update_parts_label(1) interval_def del: update_parts.simps One_nat_def)
qed


section \<open>Reading what was written\<close>

lemma recoded_sel [simp]: "DS1FMTID (recoded f) = DS1FMTID f" "DS1EXT1 (recoded f) = DS1EXT1 f"
  by (simp_all add: recoded_def Let_def)

lemma is_part_label_recoded [simp]: "is_part_label (recoded f) = is_part_label f"
  by (simp add: is_part_label_def)

lemma placed_empty:
  "length fs \<le> n \<Longrightarrow> placed (replicate n empty_part) fs =
     map (\<lambda>f. empty_part\<lparr>p_f1 := recoded f\<rparr>) fs @ replicate (n - length fs) empty_part"
proof (induction fs arbitrary: n)
  case (Cons f fs)
  then show ?case by (cases n) simp_all
qed simp

lemma zero_f1_fmt: "DS1FMTID zero_f1 = 0"
  by (simp add: zero_f1_def image_fmt)

text \<open>Labels of one kind, with unused ones behind them, are in order already.\<close>

lemma reorganize_same:
  assumes "length fs \<le> 3" "\<forall>f \<in> set fs. DS1FMTID f = c"
    "parts anc = map (\<lambda>f. empty_part\<lparr>p_f1 := recoded f\<rparr>) fs @ replicate (3 - length fs) empty_part"
  shows "fdasd_reorganize_FMT1s anc = anc"
proof -
  have fmt: "DS1FMTID (p_f1 (parts anc ! j)) = (if j < length fs then c else 0)" if "j < 3" for j
    using that assms by (auto simp: nth_append empty_part_def zero_f1_fmt)
  have "swap_f1 j (parts anc) = parts anc" if "j < 2" for j
  proof -
    have "\<not> DS1FMTID (p_f1 (parts anc ! j)) < DS1FMTID (p_f1 (parts anc ! Suc j))" using that by (simp add: fmt)
    then show ?thesis by (simp add: swap_f1_def)
  qed
  then have "swap_f1 0 (parts anc) = parts anc" "swap_f1 (Suc 0) (parts anc) = parts anc" by simp_all
  then show ?thesis
    by (simp add: fdasd_reorganize_FMT1s_def USABLE_PARTITIONS_def upt_conv_Cons)
qed

lemma scan_free_space:
  assumes "f57_ok f5 f7"
  shows "scan_label (image_label (enc_f5 f5)) s = s\<lparr>s_anc := (s_anc s)\<lparr>a_f5 := f5\<rparr>, f5_counter := Suc (f5_counter s)\<rparr>"
    "f7_counter s = 0 \<Longrightarrow> scan_label (image_label (enc_f7 f7)) s =
       s\<lparr>s_anc := (s_anc s)\<lparr>a_f7 := f7\<rparr>, f7_counter := Suc 0\<rparr>"
proof -
  have l: "length (enc_f5 f5) = 140" "length (enc_f7 f7) = 140" using assms by (simp_all add: f57_ok_def length_enc_f5 length_enc_f7)
  have d: "fst (dec_f5 (enc_f5 f5)) = f5" "fst (dec_f7 (enc_f7 f7)) = f7"
    using assms by (simp_all add: f57_ok_def)
  have t: "DS1FMTID (image_label (enc_f5 f5)) = 0xf5" "DS1FMTID (image_label (enc_f7 f7)) = 0xf7"
    using assms by (simp_all add: f57_ok_def fmt_f5 fmt_f7)
  show "scan_label (image_label (enc_f5 f5)) s = s\<lparr>s_anc := (s_anc s)\<lparr>a_f5 := f5\<rparr>, f5_counter := Suc (f5_counter s)\<rparr>"
    by (simp add: scan_label_def is_part_label_def t image_dec_f1 l d Let_def)
  show "f7_counter s = 0 \<Longrightarrow> scan_label (image_label (enc_f7 f7)) s =
       s\<lparr>s_anc := (s_anc s)\<lparr>a_f7 := f7\<rparr>, f7_counter := Suc 0\<rparr>"
    by (simp add: scan_label_def is_part_label_def t image_dec_f1 l d Let_def)
qed

text \<open>All labels behind the format 4 label.\<close>

lemma scan_written:
  assumes f: "f57_ok (a_f5 anc) (a_f7 anc)" "f9_ok (a_f9 anc)" and p: "\<forall>f \<in> set (in_use ps). wf_f1 f \<and> is_part_label f"
    and r: "parts r = replicate 3 empty_part" "length (in_use ps) \<le> 3" and stale: "\<forall>f \<in> set old. foreign f"
  shows "\<exists>q. fold scan_label (map image_label (tl (vtoc_images anc ps)) @ old)
      \<lparr>s_anc = r, f1_counter = 0, f5_counter = 0, f7_counter = 0\<rparr> =
    \<lparr>s_anc = r\<lparr>a_f5 := a_f5 anc, a_f7 := (if big_disk_flag anc \<noteq> 0 then a_f7 anc else a_f7 r),
       parts := map (\<lambda>f. empty_part\<lparr>p_f1 := recoded f\<rparr>) (in_use ps) @ replicate (3 - length (in_use ps)) empty_part,
       partno := q\<rparr>,
     f1_counter = length (in_use ps), f5_counter = 1, f7_counter = (if big_disk_flag anc \<noteq> 0 then 1 else 0)\<rparr>"
proof -
  let ?big = "big_disk_flag anc \<noteq> 0"
  define s where "s = \<lparr>s_anc = r\<lparr>a_f5 := a_f5 anc, a_f7 := (if ?big then a_f7 anc else a_f7 r)\<rparr>,
     f1_counter = 0, f5_counter = 1, f7_counter = (if ?big then 1 else 0)\<rparr>"
  obtain k where t: "tl (vtoc_images anc ps) = [enc_f5 (a_f5 anc)] @ (if ?big then [enc_f7 (a_f7 anc)] else []) @
      part_images (a_f9 anc) (in_use ps) @ replicate k (enc_f1 zero_f1)"
    by (simp add: vtoc_images_def Let_def)
  have z: "foreign (image_label (enc_f1 zero_f1))" using wf_zero_f1 by (simp add: foreign_def zero_f1_fmt)
  have "fold scan_label (map image_label ([enc_f5 (a_f5 anc)] @ (if ?big then [enc_f7 (a_f7 anc)] else [])))
      \<lparr>s_anc = r, f1_counter = 0, f5_counter = 0, f7_counter = 0\<rparr> = s"
    using scan_free_space [OF f(1)] by (simp add: s_def)
  moreover obtain q where "fold scan_label (map image_label (part_images (a_f9 anc) (in_use ps))) s =
      s\<lparr>s_anc := (s_anc s)\<lparr>parts := [] @ placed (replicate 3 empty_part) (in_use ps), partno := q\<rparr>,
        f1_counter := f1_counter s + length (in_use ps)\<rparr>"
    using scan_parts [of s "[]" "replicate 3 empty_part" "in_use ps" "a_f9 anc"] r p f(2) by (auto simp: s_def)
  moreover have "fold scan_label (map image_label (replicate k (enc_f1 zero_f1)) @ old) u = u" for u
    by (rule scan_all_foreign) (use z stale in auto)
  ultimately show ?thesis using r(2)
    by (intro exI [of _ q]) (simp only: t map_append append_assoc fold_append comp_apply, simp add: s_def placed_empty)
qed


lemma read_table:
  assumes ok: "anchor_ok geo anc" and us: "parts anc = us @ zs" "\<forall>z \<in> set zs. used z = 0" "length us \<le> 3"
      "chain geo 2 (tracks geo anc) (fspace_trk anc) us"
    and l: "list_all2 (\<lambda>f g. DS1FMTID g = DS1FMTID f \<and> DS1EXT1 g = DS1EXT1 f \<and> wf_f1 g) (in_use (parts anc)) fs"
    and fmt: "\<forall>f \<in> set (in_use (parts anc)). DS1FMTID f = c" "c = 0xf1 \<or> c = 0xf8"
    and lim: "unat lim = tracks geo anc - 1"
  shows "length fs = length us" "\<forall>f \<in> set fs. wf_f1 f \<and> is_part_label f \<and> DS1FMTID f = c"
    "\<exists>g vs. update_parts geo lim 1 [] (map (\<lambda>f. empty_part\<lparr>p_f1 := recoded f\<rparr>) fs @ replicate (3 - length fs) empty_part) h =
       (g, vs @ replicate (3 - length fs) empty_part) \<and> chain geo 2 (tracks geo anc) g vs \<and> map interval vs = map interval us"
proof -
  have "filter (\<lambda>p. used p = 1) us = us" using chain_mem [OF us(4)] by simp
  moreover have "filter (\<lambda>p. used p = 1) zs = []" using us(2) by simp
  ultimately have iu: "in_use (parts anc) = map p_f1 us" by (simp add: in_use_def us(1))
  from list_all2_lengthD [OF l] show len: "length fs = length us" by (simp add: iu)
  show fs: "\<forall>f \<in> set fs. wf_f1 f \<and> is_part_label f \<and> DS1FMTID f = c"
  proof
    fix f assume "f \<in> set fs"
    then obtain i where i: "i < length fs" "f = fs ! i" by (auto simp: in_set_conv_nth)
    with l have "DS1FMTID f = DS1FMTID (in_use (parts anc) ! i) \<and> wf_f1 f" "i < length (in_use (parts anc))"
      by (auto simp: list_all2_conv_all_nth)
    with fmt show "wf_f1 f \<and> is_part_label f \<and> DS1FMTID f = c" by (auto simp: is_part_label_def)
  qed
  let ?ps = "map (\<lambda>f. empty_part\<lparr>p_f1 := recoded f\<rparr>) fs"
  have se: "list_all2 same_extent us ?ps"
    using l fs len unfolding iu by (simp add: list_all2_conv_all_nth same_extent_def)
  have "2 < tracks geo anc" using ok by (simp add: anchor_ok_def vol_ok_def)
  with update_table [OF us(4) se lim] us(3) len
  show "\<exists>g vs. update_parts geo lim 1 [] (?ps @ replicate (3 - length fs) empty_part) h =
       (g, vs @ replicate (3 - length fs) empty_part) \<and> chain geo 2 (tracks geo anc) g vs \<and> map interval vs = map interval us"
    by (simp add: empty_part_def is_part_label_def zero_f1_fmt)
qed

text \<open>The anchor before the volume is read.\<close>

definition reader :: "fdasd_anchor \<Rightarrow> fdasd_anchor \<Rightarrow> bool" where
  "reader anc r \<longleftrightarrow> parts r = replicate 3 empty_part \<and> blksize r = blksize anc \<and> big_disk_flag r = 0"

text \<open>The volume: nine blocks for the labels, all blocks of the track can be read, and what is
  behind the nine blocks are no labels.\<close>

definition volume_fits :: "hd_geometry \<Rightarrow> fdasd_anchor \<Rightarrow> device \<Rightarrow> bool" where
  "volume_fits geo anc dev \<longleftrightarrow> 9 \<le> unat (sectors geo) \<and> supported_blksize (blksize anc) \<and> open_rdonly dev \<and>
     length (content dev) < 2 ^ 63 \<and>
     unat (vtoc_blk geo anc) + unat (sectors geo) * unat (blksize anc) \<le> length (content dev) \<and>
     (\<forall>i < unat (sectors geo). seek_ok dev (unat (vtoc_blk geo anc) + i * unat (blksize anc))) \<and>
     (\<forall>i < unat (sectors geo). 9 \<le> i \<longrightarrow>
        foreign (image_label (fd_read dev (unat (vtoc_blk geo anc) + i * unat (blksize anc)) 140)))"


lemma count_read:
  assumes "DS4DSREC f4 + ucast (u :: u32) + 2 = ucast (s :: u8)" "unat u \<le> 3" "9 \<le> unat s"
  shows "word_of_int (uint s - 2 - uint (DS4DSREC f4)) = u"
proof -
  have "DS4DSREC f4 = ucast s - 2 - ucast u" using assms(1) by (simp add: algebra_simps)
  moreover have "unat (ucast s - 2 - ucast u :: u16) = unat s - 2 - unat u"
  proof -
    have s: "unat (ucast s :: u16) = unat s" using unat_u8_bound [of s] by (simp add: unsigned_ucast_eq take_bit_nat_eq_self)
    have u: "unat (ucast u :: u16) = unat u" using assms(2) by (simp add: unsigned_ucast_eq take_bit_nat_eq_self)
    have 2: "unat (ucast s - 2 :: u16) = unat s - 2" using s assms(3) by (simp add: unat_sub word_le_nat_alt)
    show ?thesis using assms(2,3) u by (subst unat_sub) (simp_all add: 2 word_le_nat_alt)
  qed
  ultimately have "unat (DS4DSREC f4) = unat s - 2 - unat u" by simp
  then have "uint (DS4DSREC f4) = uint s - 2 - uint u"
    using assms(2,3) unfolding uint_nat by linarith
  then show ?thesis by simp
qed

lemma images_hd: "hd (vtoc_images anc ps) = enc_f4 (a_f4 anc)" "vtoc_images anc ps \<noteq> []"
  by (simp_all add: vtoc_images_def Let_def)

text \<open>The labels behind the format 4 label as the device has them.\<close>

lemma device_labels:
  assumes w: "wrote dev b n imgs dev'" "length imgs = 9" and k: "9 \<le> k"
    and stale: "\<forall>i < k. 9 \<le> i \<longrightarrow> foreign (image_label (fd_read dev (b + i * n) 140))"
  obtains old where "map (\<lambda>i. image_label (fd_read dev' (b + n + i * n) 140)) [0..<k - 1] = map image_label (tl imgs) @ old"
    "\<forall>f \<in> set old. foreign f"
proof -
  let ?l = "\<lambda>i. image_label (fd_read dev' (b + n + i * n) 140)"
  have pos: "b + n + i * n = b + Suc i * n" for i by simp
  have a: "?l i = image_label (tl imgs ! i)" if "i < 8" for i
  proof -
    have "Suc i < length imgs" using w(2) that by simp
    then have "fd_read dev' (b + Suc i * n) 140 = imgs ! Suc i" using w(1) unfolding wrote_def by blast
    then show ?thesis using w(2) that unfolding pos by (simp add: nth_tl)
  qed
  have o: "foreign (?l i)" if "8 \<le> i" "i < k - 1" for i
  proof -
    have "9 * n \<le> Suc i * n" using that by (intro mult_le_mono1) simp
    then have "fd_read dev' (b + n + i * n) 140 = fd_read dev (b + Suc i * n) 140"
      unfolding pos using w unfolding wrote_def by simp
    moreover have "Suc i < k" "9 \<le> Suc i" using that by auto
    ultimately show ?thesis using stale by presburger
  qed
  have "[0..<k - 1] = [0..<8] @ [8..<k - 1]" using k upt_add_eq_append [of 0 8 "k - 9"] by simp
  moreover have "map ?l [0..<8] = map image_label (tl imgs)"
    by (rule nth_equalityI) (use a w(2) in auto)
  ultimately have "map ?l [0..<k - 1] = map image_label (tl imgs) @ map ?l [8..<k - 1]" by simp
  then show thesis by (rule that) (use o in auto)
qed

end
