(* ===== verification/Fdasd_Progress.thy ===== *)
theory Fdasd_Progress
  imports Fdasd_Image
begin

text \<open>
  Writing the VTOC succeeds: on a device that can be written where the VTOC is, and with data set
  names that can be made, \<open>fdasd_write_vtoc_labels\<close> returns without an error and the loop that fills
  the rest of the nine blocks ends.
\<close>

section \<open>One label\<close>

text \<open>The device can be written from \<open>lo\<close> to \<open>hi\<close>.\<close>

definition ready :: "nat \<Rightarrow> nat \<Rightarrow> device \<Rightarrow> bool" where
  "ready lo hi dev \<longleftrightarrow> open_wronly dev \<and> (\<forall>q. lo \<le> q \<longrightarrow> q < hi \<longrightarrow> seek_ok dev q) \<and> hi \<le> length (content dev)"

lemma label_written:
  assumes r: "ready lo hi dev" and pos: "lo \<le> pos" "pos + 140 \<le> hi"
    and one: "opt_dscb enc_f1 ''Could not write VTOC FMT1 DSCB.'' f1 @
         opt_dscb enc_f4 ''Could not write VTOC FMT4 DSCB.'' f4 @
         opt_dscb enc_f5 ''Could not write VTOC FMT5 DSCB.'' f5 @
         opt_dscb enc_f7 ''Could not write VTOC FMT7 DSCB.'' f7 @
         opt_dscb enc_f9 ''Could not write VTOC FMT9 DSCB.'' f9 = [(img, m)]" and img: "length img = 140"
  shows "\<exists>dev'. lift_write (vtoc_write_label dev pos f1 f4 f5 f7 f9) = (Inr (), dev') \<and> ready lo hi dev'"
proof -
  have fit: "pos + length img \<le> length (content dev)" and e: "open_wronly dev" "seek_ok dev pos"
    using r pos img by (auto simp: ready_def)
  define dev' where "dev' = snd (fd_write dev pos img)"
  have "fst (fd_write dev pos img) = 140" using fst_fd_write_full [of dev pos img] fit img by simp
  then have "write_dscbs dev pos [(img, m)] = (Inr (), dev')" by (simp add: split_beta Let_def dev'_def)
  then have "vtoc_write_label dev pos f1 f4 f5 f7 f9 = (Inr (), dev')" unfolding vtoc_write_label_def one using e by simp
  moreover have "ready lo hi dev'" using r fit by (simp add: ready_def dev'_def)
  ultimately show ?thesis by (simp add: lift_write_Inr)
qed

lemma label_f1: "ready lo hi dev \<Longrightarrow> lo \<le> pos \<Longrightarrow> pos + 140 \<le> hi \<Longrightarrow> wf_f1 f \<Longrightarrow>
    \<exists>dev'. lift_write (vtoc_write_label dev pos (Some f) None None None None) = (Inr (), dev') \<and> ready lo hi dev'"
  and label_f4: "ready lo hi dev \<Longrightarrow> lo \<le> pos \<Longrightarrow> pos + 140 \<le> hi \<Longrightarrow> wf_f4 f4 \<Longrightarrow>
    \<exists>dev'. lift_write (vtoc_write_label dev pos None (Some f4) None None None) = (Inr (), dev') \<and> ready lo hi dev'"
  and label_f5: "ready lo hi dev \<Longrightarrow> lo \<le> pos \<Longrightarrow> pos + 140 \<le> hi \<Longrightarrow> wf_f5 f5 \<Longrightarrow>
    \<exists>dev'. lift_write (vtoc_write_label dev pos None None (Some f5) None None) = (Inr (), dev') \<and> ready lo hi dev'"
  and label_f7: "ready lo hi dev \<Longrightarrow> lo \<le> pos \<Longrightarrow> pos + 140 \<le> hi \<Longrightarrow> wf_f7 f7 \<Longrightarrow>
    \<exists>dev'. lift_write (vtoc_write_label dev pos None None None (Some f7) None) = (Inr (), dev') \<and> ready lo hi dev'"
  and label_f9: "ready lo hi dev \<Longrightarrow> lo \<le> pos \<Longrightarrow> pos + 140 \<le> hi \<Longrightarrow> wf_f9 f9 \<Longrightarrow>
    \<exists>dev'. lift_write (vtoc_write_label dev pos None None None None (Some f9)) = (Inr (), dev') \<and> ready lo hi dev'"
  by (rule label_written, assumption, assumption, assumption, simp add: opt_dscb_def,
      simp add: length_enc_f1 length_enc_f4 length_enc_f5 length_enc_f7 length_enc_f9)+


section \<open>The labels of the partitions\<close>

text \<open>Every partition in use gets a data set name.\<close>

fun names_made :: "fdasd_anchor \<Rightarrow> nat \<Rightarrow> nat \<Rightarrow> partition_info list \<Rightarrow> bool" where
  "names_made anc i k [] \<longleftrightarrow> True"
| "names_made anc i k (p # ps) \<longleftrightarrow>
     (if used p \<noteq> 1 then names_made anc i k ps
      else case named anc (i + 1) k p of Inl e \<Rightarrow> False | Inr (anc, k, p) \<Rightarrow> names_made anc (i + 1) k ps)"

lemma parts_ready:
  assumes "names_made anc i k ps" "ready lo hi dev" "lo \<le> unat blk"
    "unat blk + 2 * length ps * unat (blksize anc) \<le> hi" "hi < 2 ^ 63"
    "\<forall>p \<in> set ps. used p = 1 \<longrightarrow> wf_f1 (p_f1 p)" "wf_f9 (a_f9 anc)" "140 \<le> unat (blksize anc)" "sectors geo \<noteq> 0"
  shows "\<exists>r dev'. write_parts geo anc i k blk ps dev = (Inr r, dev') \<and> ready lo hi dev'"
  using assms
proof (induction ps arbitrary: anc i k blk dev)
  case Nil
  then show ?case by simp
next
  case (Cons p ps)
  let ?bs = "unat (blksize anc)"
  have room: "unat blk + ?bs + ?bs + 2 * length ps * ?bs \<le> hi" using Cons.prems(4) by (simp add: algebra_simps)
  show ?case
  proof (cases "used p = 1")
    case False
    have "\<exists>r dev'. write_parts geo anc i k blk ps dev = (Inr r, dev') \<and> ready lo hi dev'"
      using Cons.prems room False by (intro Cons.IH) simp_all
    then obtain r d1 where "write_parts geo anc i k blk ps dev = (Inr r, d1)" "ready lo hi d1" by blast
    then show ?thesis using False by (cases r) simp
  next
    case u: True
    obtain a k1 p1 where n: "named anc (i + 1) k p = Inr (a, k1, p1)" and m: "names_made a (i + 1) k1 ps"
      using Cons.prems(1) u by (auto split: sum.splits)
    obtain q t g where a: "a = anc\<lparr>partno := q\<rparr>" and p1: "p1 = p\<lparr>p_type := t, p_f1 := g\<rparr>" and g: "renamed (p_f1 p) g"
      using Cons.prems(6) u by (auto intro: named_label [OF _ n])
    note gs = renamed_sel [OF g]
    have sel: "blksize a = blksize anc" "a_f9 a = a_f9 anc" by (simp_all add: a)
    have b1: "unat (blk + ucast (blksize anc)) = unat blk + ?bs" using room Cons.prems(5) by (intro blk_step) simp
    have b2: "unat (blk + ucast (blksize anc) + ucast (blksize anc)) = unat blk + ?bs + ?bs"
      using blk_step [of "blk + ucast (blksize anc)" "blksize anc"] b1 room Cons.prems(5) by simp
    have at: "unat blk + 140 \<le> hi" "unat blk + ?bs + 140 \<le> hi" using room Cons.prems(8) by linarith+
    have ih: "\<exists>r dev'. write_parts geo a (i + 1) k1 b ps d = (Inr r, dev') \<and> ready lo hi dev'"
      if "ready lo hi d" "b = blk + ucast (blksize anc) \<or> b = blk + ucast (blksize anc) + ucast (blksize anc)" for b d
      using that m Cons.prems(3,5-9) room b1 b2 by (intro Cons.IH) (auto simp: sel)
    show ?thesis
    proof (cases "DS1FMTID g = 0xf8")
      case f8: True
      define h where "h = vtoc_update_format8_label (vtoc_set_cchhb VTOC_START_CC VTOC_START_HH
                      (ucast (blk div ucast (blksize anc) mod ucast (sectors geo)) + 2)) g"
      have h: "wf_f1 h" using gs by (simp add: h_def vtoc_update_format8_label_def wf_f1_def)
      obtain d1 where w1: "lift_write (vtoc_write_label dev (unat blk) (Some h) None None None None) = (Inr (), d1)" "ready lo hi d1"
        using label_f1 [OF Cons.prems(2,3) at(1) h] by blast
      obtain d2 where w2: "lift_write (vtoc_write_label d1 (unat (blk + ucast (blksize anc))) None None None None
          (Some (a_f9 anc))) = (Inr (), d2)" "ready lo hi d2"
        using label_f9 [OF w1(2) _ at(2) Cons.prems(7)] Cons.prems(3) unfolding b1 by fastforce
      obtain r d3 where w3: "write_parts geo a (i + 1) k1 (blk + ucast (blksize anc) + ucast (blksize anc)) ps d2 = (Inr r, d3)"
        "ready lo hi d3" using ih [OF w2(2)] by blast
      have "blksize anc \<noteq> 0" using Cons.prems(8) by auto
      then show ?thesis using u n f8 sel w1 w2 w3 Cons.prems(9)
        by (cases r) (simp add: p1 Let_def h_def [symmetric])
    next
      case f1: False
      obtain d1 where w1: "lift_write (vtoc_write_label dev (unat blk) (Some g) None None None None) = (Inr (), d1)" "ready lo hi d1"
        using label_f1 [OF Cons.prems(2,3) at(1)] gs by blast
      obtain r d2 where w2: "write_parts geo a (i + 1) k1 (blk + ucast (blksize anc)) ps d1 = (Inr r, d2)"
        "ready lo hi d2" using ih [OF w1(2)] by blast
      show ?thesis using u n f1 sel w1 w2 by (cases r) (simp add: p1)
    qed
  qed
qed

text \<open>The empty labels.\<close>

lemma empty_ready:
  assumes "ready lo hi dev" "lo \<le> unat blk" "unat blk + n * unat b = unat maxblk" "unat maxblk \<le> hi" "hi < 2 ^ 63" "140 \<le> unat b"
  shows "\<exists>dev'. write_empty b maxblk blk dev = (Inr (), dev') \<and> ready lo hi dev'"
  using assms
proof (induction n arbitrary: blk dev)
  case 0
  then have "\<not> blk < maxblk" by (simp add: word_less_nat_alt)
  then show ?case using 0(1) by (subst write_empty.simps) simp
next
  case (Suc n)
  have lt: "blk < maxblk" using Suc.prems by (simp add: word_less_nat_alt)
  have b: "unat (blk + ucast b) = unat blk + unat b" using Suc.prems by (intro blk_step) simp
  have up: "\<not> blk + ucast b \<le> blk" using b Suc.prems(6) by (simp add: word_le_nat_alt)
  have "unat blk + 140 \<le> hi" using Suc.prems by simp
  then obtain d1 where w: "lift_write (vtoc_write_label dev (unat blk) (Some zero_f1) None None None None) = (Inr (), d1)"
    "ready lo hi d1" using label_f1 [OF Suc.prems(1,2) _ wf_zero_f1] by blast
  have "\<exists>dev'. write_empty b maxblk (blk + ucast b) d1 = (Inr (), dev') \<and> ready lo hi dev'"
    using Suc.prems w(2) by (intro Suc.IH) (simp_all add: b)
  then show ?case using lt up w(1) by (subst write_empty.simps) simp
qed


section \<open>The whole VTOC\<close>

text \<open>What follows the labels of the volume.\<close>

lemma tail_ready:
  assumes nm: "names_made anc 0 0 (parts anc)" and r: "ready lo hi dev" and p: "unat p = lo + k * unat (blksize anc)" "k \<le> 3"
    and hi: "hi = lo + 9 * unat (blksize anc)" "hi < 2 ^ 63" and len: "length (parts anc) = 3"
    and wf: "\<forall>p \<in> set (parts anc). used p = 1 \<longrightarrow> wf_f1 (p_f1 p)" "wf_f9 (a_f9 anc)"
    and n: "140 \<le> unat (blksize anc)" and sec: "sectors geo \<noteq> 0" and mx: "unat maxblk = hi"
  shows "\<exists>a bl ps d4 d5. write_parts geo anc 0 0 p (parts anc) dev = (Inr (a, bl, ps), d4) \<and>
    write_empty (blksize a) maxblk bl d4 = (Inr (), d5)"
proof -
  let ?n = "unat (blksize anc)"
  have "k * ?n \<le> 3 * ?n" using p(2) by (rule mult_le_mono1)
  then have at: "lo \<le> unat p" "unat p + 2 * length (parts anc) * ?n \<le> hi" unfolding p hi len by linarith+
  obtain a bl ps d4 where wp: "write_parts geo anc 0 0 p (parts anc) dev = (Inr (a, bl, ps), d4)" "ready lo hi d4"
    using parts_ready [OF nm r at hi(2) wf n sec] by auto
  have "unat p + 2 * length (parts anc) * ?n < 2 ^ 64" using at(2) hi(2) by simp
  note w = write_parts_wrote [OF wp(1) n this wf]
  define j where "j = k + length (part_images (a_f9 anc) (in_use ps))"
  have bl: "unat bl = lo + j * ?n" using w p(1) by (simp add: j_def algebra_simps)
  have a: "blksize a = blksize anc" using w by auto
  have "length ps = 3" using w list_all2_lengthD len by fastforce
  then have "length (part_images (a_f9 anc) (in_use ps)) \<le> 6"
    using part_images_length [of "a_f9 anc" "in_use ps"] length_filter_le [of "\<lambda>p. used p = 1" ps] by (simp add: in_use_def)
  then have "j + (9 - j) = 9" using p(2) by (simp add: j_def)
  then have "unat bl + (9 - j) * ?n = hi" by (metis add.assoc add_mult_distrib bl hi(1))
  then obtain d5 where "write_empty (blksize anc) maxblk bl d4 = (Inr (), d5)"
    using empty_ready [OF wp(2) _ _ _ hi(2) n, of bl "9 - j" maxblk] by (auto simp: mx bl)
  then show ?thesis using wp(1) a by auto
qed

lemma write_ready:
  assumes s: "session_ok geo anc" and rd: "readable geo anc" and bs: "supported_blksize (blksize anc)"
    and blk: "vtoc_blk geo anc \<noteq> 0"
    and r: "ready (unat (vtoc_blk geo anc)) (unat (vtoc_blk geo anc) + 9 * unat (blksize anc)) dev"
    and len: "unat (vtoc_blk geo anc) + 9 * unat (blksize anc) < 2 ^ 63" and nm: "names_made anc 0 0 (parts anc)"
  shows "\<exists>anc' dev'. fdasd_write_vtoc_labels geo anc dev = (Inr anc', dev')"
proof -
  let ?b = "ucast (blksize anc) :: u64" and ?n = "unat (blksize anc)" and ?big = "big_disk_flag anc \<noteq> 0"
  define blk where "blk = vtoc_blk geo anc"
  define hi where "hi = unat blk + 9 * ?n"
  have n: "140 \<le> ?n" "?n \<le> 4096" using bs by (auto simp: supported_blksize_def)
  have f: "wf_f4 (a_f4 anc)" "wf_f5 (a_f5 anc)" "wf_f7 (a_f7 anc)" "wf_f9 (a_f9 anc)"
    using rd by (simp_all add: readable_def f4_ok_def f57_ok_def f9_ok_def)
  have wf: "\<forall>p \<in> set (parts anc). used p = 1 \<longrightarrow> wf_f1 (p_f1 p)"
    using s by (simp add: session_ok_def names_ok_def name_ok_def)
  have sec: "sectors geo \<noteq> 0" using s by (simp add: session_ok_def volume_ok_def)
  have r0: "ready (unat blk) hi dev" and hi: "hi < 2 ^ 63" using r len by (simp_all add: blk_def hi_def)
  have b1: "unat (blk + ?b) = unat blk + ?n" using hi unfolding hi_def by (intro blk_step) simp
  have b2: "unat (blk + ?b + ?b) = unat blk + 2 * ?n" using hi b1 unfolding hi_def by (subst blk_step) simp_all
  have b3: "unat (blk + ?b + ?b + ?b) = unat blk + 3 * ?n" using hi b2 unfolding hi_def by (subst blk_step) simp_all
  have mx: "unat (blk + ucast (blksize anc * 9)) = hi"
  proof -
    have "unat (blksize anc * 9) = 9 * ?n" using n(2) by (simp add: unat_word_ariths)
    then show ?thesis using blk_step [of blk "blksize anc * 9"] hi by (simp add: hi_def)
  qed
  obtain d1 where w4: "lift_write (vtoc_write_label dev (unat blk) None (Some (a_f4 anc)) None None None) = (Inr (), d1)"
    "ready (unat blk) hi d1" using label_f4 [OF r0 _ _ f(1), of "unat blk"] n(1) by (auto simp: hi_def)
  obtain d2 where w5: "lift_write (vtoc_write_label d1 (unat (blk + ?b)) None None (Some (a_f5 anc)) None None) = (Inr (), d2)"
    "ready (unat blk) hi d2" using label_f5 [OF w4(2) _ _ f(2), of "unat (blk + ?b)"] n(1) by (auto simp: hi_def b1)
  have at: "unat blk \<le> unat (blk + ?b + ?b)" "unat (blk + ?b + ?b) + 140 \<le> hi" unfolding b2 hi_def using n(1) by linarith+
  obtain d3 where w7: "(if ?big then lift_write (vtoc_write_label d2 (unat (blk + ?b + ?b)) None None None (Some (a_f7 anc)) None)
      else (Inr (), d2)) = (Inr (), d3)" "ready (unat blk) hi d3"
    using label_f7 [OF w5(2) at f(3)] w5(2) by (cases ?big) auto
  let ?p = "if ?big then blk + ?b + ?b + ?b else blk + ?b + ?b"
  have p: "unat ?p = unat blk + (if ?big then 3 else 2) * ?n" "(if ?big then 3 else 2) \<le> (3 :: nat)" using b2 b3 by simp_all
  have "length (parts anc) = 3" using session_parts [OF s] by simp
  then obtain a bl ps d4 d5 where wp: "write_parts geo anc 0 0 ?p (parts anc) d3 = (Inr (a, bl, ps), d4)"
    "write_empty (blksize a) (blk + ucast (blksize anc * 9)) bl d4 = (Inr (), d5)"
    using tail_ready [OF nm w7(2) p hi_def hi _ wf f(4) n(1) sec mx] by auto
  then show ?thesis
    using w4 w5 w7 blk unfolding fdasd_write_vtoc_labels_def Let_def vtoc_blk_def [symmetric] blk_def [symmetric]
    by simp
qed

end
