(* ===== verification/Fdasd_Roundtrip.thy ===== *)
theory Fdasd_Roundtrip
  imports Fdasd_Reread Fdasd_Progress
begin

text \<open>
  The VTOC that \<open>fdasd_write_vtoc_labels\<close> writes and the table that \<open>fdasd_valid_vtoc_pointer\<close>
  builds from it when the volume is opened again.
\<close>

lemma wrote_hd:
  assumes "wrote dev b n imgs dev'" "imgs \<noteq> []"
  shows "fd_read dev' b 140 = hd imgs"
proof -
  have "fd_read dev' (b + 0 * n) 140 = imgs ! 0" using assms unfolding wrote_def by blast
  then show ?thesis using assms(2) by (simp add: hd_conv_nth)
qed

lemma process_valid_vtoc:
  "fdasd_process_valid_vtoc geo dev anc blk =
     bind_err (scan_vtoc dev (ucast (blksize anc)) (unat (sectors geo) - 1) (blk + ucast (blksize anc))
       \<lparr>s_anc = anc\<lparr>formatted_cylinders := f4_cyl (a_f4 anc),
            fspace_trk := ucast (f4_cyl (a_f4 anc) * ucast (heads geo) - of_nat FIRST_USABLE_TRK)\<rparr>,
        f1_counter = 0, f5_counter = 0, f7_counter = 0\<rparr>) (\<lambda>s.
       let anc = s_anc s;
           anc = (if f5_counter s = 0 \<or> big_disk_flag anc \<noteq> 0 then anc\<lparr>a_f5 := vtoc_init_format5_label\<rparr> else anc);
           anc = (if f7_counter s = 0 then anc\<lparr>a_f7 := vtoc_init_format7_label\<rparr> else anc)
       in Inr (fdasd_update_partition_info geo (fdasd_reorganize_FMT1s anc)))"
  unfolding fdasd_process_valid_vtoc_def f4_cyl_def [symmetric] by (simp add: Let_def)

lemma vol_ok_eq:
  "blksize b = blksize a \<Longrightarrow> formatted_cylinders b = formatted_cylinders a \<Longrightarrow> a_f4 b = a_f4 a \<Longrightarrow>
     vol_ok geo b = vol_ok geo a"
  by (simp add: vol_ok_def tracks_def get_usable_cylinders_def)

text \<open>What reading the labels leaves in the anchor, before the positions are computed.\<close>

definition read_back :: "hd_geometry \<Rightarrow> fdasd_anchor \<Rightarrow> format1_label_t list \<Rightarrow> fdasd_anchor \<Rightarrow> int list \<Rightarrow> fdasd_anchor" where
  "read_back geo anc fs r q =
     r\<lparr>a_f4 := a_f4 anc, formatted_cylinders := formatted_cylinders anc,
       fspace_trk := ucast (formatted_cylinders anc * ucast (heads geo) - of_nat FIRST_USABLE_TRK), a_f5 := a_f5 anc,
       a_f7 := (if big_disk_flag anc \<noteq> 0 then a_f7 anc else vtoc_init_format7_label),
       parts := map (\<lambda>f. empty_part\<lparr>p_f1 := recoded f\<rparr>) fs @ replicate (3 - length fs) empty_part, partno := q\<rparr>"

abbreviation same_labels :: "fdasd_anchor \<Rightarrow> format1_label_t list \<Rightarrow> bool" where
  "same_labels anc \<equiv> list_all2 (\<lambda>f g. DS1FMTID g = DS1FMTID f \<and> DS1EXT1 g = DS1EXT1 f \<and> wf_f1 g) (in_use (parts anc))"

lemma volume_room:
  assumes "volume_fits geo anc dev"
  shows "unat (vtoc_blk geo anc) + 9 * unat (blksize anc) < 2 ^ 63"
    "unat (vtoc_blk geo anc) + unat (sectors geo) * unat (blksize anc) < 2 ^ 63"
proof -
  have "9 * unat (blksize anc) \<le> unat (sectors geo) * unat (blksize anc)"
    using assms by (intro mult_le_mono1) (simp add: volume_fits_def)
  then show "unat (vtoc_blk geo anc) + 9 * unat (blksize anc) < 2 ^ 63"
    "unat (vtoc_blk geo anc) + unat (sectors geo) * unat (blksize anc) < 2 ^ 63"
    using assms unfolding volume_fits_def by linarith+
qed

text \<open>What the blocks of the VTOC hold after the write.\<close>

lemma written_device:
  assumes s: "session_ok geo anc" and rd: "readable geo anc" and fits: "volume_fits geo anc dev"
    and w: "fdasd_write_vtoc_labels geo anc dev = (Inr anc', dev')"
  obtains ps old where
    "vtoc_read_label dev' (unat (vtoc_blk geo anc)) False True False False = Inr (None, Some (a_f4 anc), None, None)"
    "\<And>s0. scan_vtoc dev' (ucast (blksize anc)) (unat (sectors geo) - 1) (vtoc_blk geo anc + ucast (blksize anc)) s0 =
       Inr (fold scan_label (map image_label (tl (vtoc_images anc ps)) @ old) s0)"
    "\<forall>f \<in> set old. foreign f" "same_labels anc (in_use ps)"
proof -
  let ?n = "unat (blksize anc)" and ?b = "unat (vtoc_blk geo anc)" and ?bs = "ucast (blksize anc) :: u64"
    and ?k = "unat (sectors geo)"
  have f: "f4_ok (formatted_cylinders anc) (a_f4 anc)" "f57_ok (a_f5 anc) (a_f7 anc)" "f9_ok (a_f9 anc)"
    using rd by (auto simp: readable_def)
  have v: "9 \<le> ?k" "140 \<le> ?n" "?n \<le> 4096" "open_rdonly dev" "?b + ?k * ?n \<le> length (content dev)"
    using fits by (auto simp: volume_fits_def supported_blksize_def)
  note room = volume_room [OF fits]
  have wf: "\<forall>p \<in> set (parts anc). used p = 1 \<longrightarrow> wf_f1 (p_f1 p)"
    using s by (simp add: session_ok_def names_ok_def name_ok_def)
  obtain ps where wr: "wrote dev ?b ?n (vtoc_images anc ps) dev'" and l9: "length (vtoc_images anc ps) = 9"
    and same: "same_labels anc (in_use ps)"
    by (rule vtoc_labels_wrote [OF w v(2,3) room(1) _ wf]) (use session_parts [OF s] f in \<open>auto simp: f4_ok_def\<close>)
  have env: "open_rdonly dev'" "seek_ok dev' = seek_ok dev" "length (content dev') = length (content dev)"
    using wr v(4) by (simp_all add: wrote_def)
  have at: "seek_ok dev' (?b + i * ?n) \<and> ?b + i * ?n + 140 \<le> length (content dev')" if "i < ?k" for i
  proof -
    have "i * ?n + ?n \<le> ?k * ?n" using that by (metis Suc_leI add.commute mult_Suc mult_le_mono1)
    then show ?thesis using v(2,5) fits that by (simp add: env volume_fits_def)
  qed
  have "fd_read dev' ?b 140 = enc_f4 (a_f4 anc)" using wrote_hd [OF wr] images_hd [of anc ps] by simp
  then have f4: "vtoc_read_label dev' ?b False True False False = Inr (None, Some (a_f4 anc), None, None)"
    using at [of 0] v(1) env f(1)
    by (auto simp: vtoc_read_label_def read_dscb_def f4_ok_def length_enc_f4 min_def)
  obtain old where old: "map (\<lambda>i. image_label (fd_read dev' (?b + ?n + i * ?n) 140)) [0..<?k - 1] =
      map image_label (tl (vtoc_images anc ps)) @ old" "\<forall>f \<in> set old. foreign f"
    using device_labels [OF wr l9 v(1)] fits by (auto simp: volume_fits_def)
  have b1: "unat (vtoc_blk geo anc + ?bs) = ?b + ?n" using room by (intro blk_step) simp
  have "seek_ok dev' (?b + ?n + i * ?n) \<and> ?b + ?n + i * ?n + 140 \<le> length (content dev')" if "i < ?k - 1" for i
  proof -
    have "Suc i < ?k" using that by simp
    then show ?thesis using at [of "Suc i"] by (simp only: mult_Suc add.assoc)
  qed
  moreover have "?b + ?n + (?k - 1) * ?n = ?b + ?k * ?n" using v(1) by (cases ?k) simp_all
  ultimately have scan: "scan_vtoc dev' ?bs (?k - 1) (vtoc_blk geo anc + ?bs) s0 =
      Inr (fold scan_label (map image_label (tl (vtoc_images anc ps)) @ old) s0)" for s0
    using scan_vtoc_images [of dev' "?k - 1" "vtoc_blk geo anc + ?bs" ?bs s0] env(1) room(2)
    unfolding b1 ucast_trk old(1) by simp
  show thesis by (rule that [OF f4 scan old(2) same])
qed

text \<open>The labels the scan collects.\<close>

lemma process_written:
  assumes rd: "readable geo anc" and r: "reader anc r"
    and scan: "\<And>s0. scan_vtoc dev (ucast (blksize anc)) (unat (sectors geo) - 1) (blk + ucast (blksize anc)) s0 =
       Inr (fold scan_label (map image_label (tl (vtoc_images anc ps)) @ old) s0)" and old: "\<forall>f \<in> set old. foreign f"
    and p: "\<forall>f \<in> set (in_use ps). wf_f1 f \<and> is_part_label f \<and> DS1FMTID f = c" "length (in_use ps) \<le> 3"
  shows "\<exists>q. fdasd_process_valid_vtoc geo dev (r\<lparr>a_f4 := a_f4 anc\<rparr>) blk =
    Inr (fdasd_update_partition_info geo (read_back geo anc (in_use ps) r q))"
proof -
  have f: "f4_cyl (a_f4 anc) = formatted_cylinders anc" "f57_ok (a_f5 anc) (a_f7 anc)" "f9_ok (a_f9 anc)"
    using rd by (auto simp: readable_def f4_ok_def)
  define r1 where "r1 = r\<lparr>a_f4 := a_f4 anc, formatted_cylinders := formatted_cylinders anc,
      fspace_trk := ucast (formatted_cylinders anc * ucast (heads geo) - of_nat FIRST_USABLE_TRK)\<rparr>"
  let ?anc = "r1\<lparr>a_f5 := a_f5 anc, a_f7 := (if big_disk_flag anc \<noteq> 0 then a_f7 anc else a_f7 r1),
       parts := map (\<lambda>f. empty_part\<lparr>p_f1 := recoded f\<rparr>) (in_use ps) @ replicate (3 - length (in_use ps)) empty_part\<rparr>"
  have r1: "parts r1 = replicate 3 empty_part" "big_disk_flag r1 = 0" "blksize (r\<lparr>a_f4 := a_f4 anc\<rparr>) = blksize anc"
    using r by (simp_all add: r1_def reader_def)
  obtain q where q: "fold scan_label (map image_label (tl (vtoc_images anc ps)) @ old)
      \<lparr>s_anc = r1, f1_counter = 0, f5_counter = 0, f7_counter = 0\<rparr> =
    \<lparr>s_anc = ?anc\<lparr>partno := q\<rparr>, f1_counter = length (in_use ps), f5_counter = 1,
      f7_counter = (if big_disk_flag anc \<noteq> 0 then 1 else 0)\<rparr>"
    using scan_written [OF f(2,3) _ r1(1) p(2) old] p(1) by auto
  define r2 where "r2 = read_back geo anc (in_use ps) r q"
  have same: "fdasd_reorganize_FMT1s r2 = r2"
    using p by (intro reorganize_same [of "in_use ps" c]) (auto simp: r2_def read_back_def)
  have "r\<lparr>a_f4 := a_f4 anc, formatted_cylinders := f4_cyl (a_f4 (r\<lparr>a_f4 := a_f4 anc\<rparr>)),
      fspace_trk := ucast (f4_cyl (a_f4 (r\<lparr>a_f4 := a_f4 anc\<rparr>)) * ucast (heads geo) - of_nat FIRST_USABLE_TRK)\<rparr> = r1"
    by (simp add: r1_def f(1))
  moreover note r1(3) scan [of "\<lparr>s_anc = r1, f1_counter = 0, f5_counter = 0, f7_counter = 0\<rparr>", unfolded q]
  ultimately have *: "fdasd_process_valid_vtoc geo dev (r\<lparr>a_f4 := a_f4 anc\<rparr>) blk =
      Inr (fdasd_update_partition_info geo (fdasd_reorganize_FMT1s
        (if big_disk_flag anc \<noteq> 0 then ?anc\<lparr>partno := q\<rparr> else ?anc\<lparr>partno := q, a_f7 := vtoc_init_format7_label\<rparr>)))"
    unfolding process_valid_vtoc using r1(2) by simp
  have "(if big_disk_flag anc \<noteq> 0 then ?anc\<lparr>partno := q\<rparr> else ?anc\<lparr>partno := q, a_f7 := vtoc_init_format7_label\<rparr>) = r2"
    by (rule fdasd_anchor.equality) (simp_all add: r2_def read_back_def r1_def)
  with * same have "fdasd_process_valid_vtoc geo dev (r\<lparr>a_f4 := a_f4 anc\<rparr>) blk = Inr (fdasd_update_partition_info geo r2)"
    by simp
  then show ?thesis unfolding r2_def by (rule exI)
qed

text \<open>The table that the positions of the labels give.\<close>

lemma update_written:
  assumes s: "session_ok geo anc" and rd: "readable geo anc" and r: "reader anc r" "9 \<le> unat (sectors geo)"
    and big: "big_disk_flag anc \<noteq> 0 \<longleftrightarrow> big_disk (formatted_cylinders anc) (ucast (heads geo))"
    and same: "same_labels anc fs"
  shows "\<forall>f \<in> set fs. wf_f1 f \<and> is_part_label f \<and> DS1FMTID f = part_fmt anc" "length fs \<le> 3"
    "fdasd_update_partition_info geo (read_back geo anc fs r q) = r' \<Longrightarrow>
       anchor_ok geo r' \<and> a_f4 r' = a_f4 anc \<and> formatted_cylinders r' = formatted_cylinders anc \<and>
       used_partitions r' = used_partitions anc \<and> map interval (partitions r') = map interval (partitions anc)"
proof -
  have ok: "anchor_ok geo anc" "vol_ok geo anc" "volume_ok geo anc" using s by (simp_all add: session_ok_def anchor_ok_def)
  have dsrec: "DS4DSREC (a_f4 anc) + ucast (used_partitions anc) + 2 = ucast (sectors geo)" using rd by (simp add: readable_def)
  obtain us zs where us: "parts anc = us @ zs" "length us + length zs = 3" "length us = unat (used_partitions anc)"
      "chain geo 2 (tracks geo anc) (fspace_trk anc) us" "\<forall>z \<in> set zs. used z = 0 \<and> start_trk z = 0 \<and> end_trk z = 0"
    and fs: "fs_valid (formatted_cylinders anc) (ucast (heads geo)) (a_f4 anc, a_f5 anc, a_f7 anc)"
      "fs_free (formatted_cylinders anc) (ucast (heads geo)) (a_f4 anc, a_f5 anc, a_f7 anc) = {2..<tracks geo anc} - covered (map interval us)"
    using ok(1) by (rule anchor_okE)
  have fmt: "\<forall>f \<in> set (in_use (parts anc)). DS1FMTID f = part_fmt anc" "part_fmt anc = 0xf1 \<or> part_fmt anc = 0xf8"
    using rd by (auto simp: readable_def in_use_def part_fmt_def)
  define lim where "lim = (ucast (formatted_cylinders anc * ucast (heads geo) - 1 :: u32) :: u64)"
  have "2 < tracks geo anc" using ok(2) by (simp add: vol_ok_def)
  then have lim: "unat lim = tracks geo anc - 1"
    using widened_minus [of 1 "tracks geo anc"] tracks_bound [OF ok(2)] tracks_word(1) [OF ok(3)] by (simp add: lim_def)
  have z: "\<forall>z \<in> set zs. used z = 0" "length us \<le> 3" using us(2,5) by simp_all
  note rt = read_table [OF ok(1) us(1) z us(4) same fmt lim]
  show lab: "\<forall>f \<in> set fs. wf_f1 f \<and> is_part_label f \<and> DS1FMTID f = part_fmt anc" "length fs \<le> 3" using rt(1,2) z(2) by simp_all
  let ?r = "read_back geo anc fs r q" and ?zs = "replicate (3 - length fs) empty_part"
  obtain g vs where tab: "update_parts geo lim 1 [] (parts ?r) (fspace_trk ?r) = (g, vs @ ?zs)"
    "chain geo 2 (tracks geo anc) g vs" "map interval vs = map interval us"
    using rt(3) [of "fspace_trk ?r"] by (auto simp: read_back_def)
  assume "fdasd_update_partition_info geo ?r = r'"
  moreover have "word_of_int (uint (sectors geo) - 2 - uint (DS4DSREC (a_f4 anc))) = used_partitions anc"
    using dsrec session_parts [OF s] r(2) by (intro count_read) simp_all
  moreover have "formatted_cylinders ?r = formatted_cylinders anc" "a_f4 ?r = a_f4 anc" by (simp_all add: read_back_def)
  ultimately have r': "r' = ?r\<lparr>used_partitions := used_partitions anc, fspace_trk := g, parts := vs @ ?zs\<rparr>"
    using tab(1) by (simp add: fdasd_update_partition_info_def Let_def lim_def)
  have sel: "blksize r' = blksize anc" "formatted_cylinders r' = formatted_cylinders anc" "a_f4 r' = a_f4 anc"
    "used_partitions r' = used_partitions anc" "fspace_trk r' = g" "parts r' = vs @ ?zs" "a_f5 r' = a_f5 anc"
    "big_disk_flag anc \<noteq> 0 \<longrightarrow> a_f7 r' = a_f7 anc"
    using r by (simp_all add: r' read_back_def reader_def)
  have tr: "tracks geo r' = tracks geo anc" by (simp add: tracks_def sel(2))
  have fse: "fs_valid c h (a_f4 anc, a_f5 anc, a_f7 r') = fs_valid c h (a_f4 anc, a_f5 anc, a_f7 anc)"
      "fs_free c h (a_f4 anc, a_f5 anc, a_f7 r') = fs_free c h (a_f4 anc, a_f5 anc, a_f7 anc)"
    if "c = formatted_cylinders anc" "h = ucast (heads geo)" for c h
    using big sel(8) that by (auto simp: fs_valid_def fs_free_def)
  have "\<forall>z \<in> set ?zs. used z = 0 \<and> start_trk z = 0 \<and> end_trk z = 0" by (simp add: empty_part_def)
  moreover have "vol_ok geo r'" using ok(2) vol_ok_eq [OF sel(1,2,3)] by simp
  moreover have "length vs = length us" using tab(3) by (metis length_map)
  then have "length vs + length ?zs = 3" "length vs = unat (used_partitions anc)" using rt(1) us(3) z(2) by simp_all
  ultimately have inv: "anchor_ok geo r'"
    unfolding anchor_ok_def sel(2-7) tr using tab(2,3) fs fse by (intro conjI exI [of _ vs] exI [of _ ?zs]) simp_all
  have "partitions r' = vs" "partitions anc = us"
    using partitions_chain [OF sel(6) tab(2)] partitions_chain [OF us(1,4)] us(5) by (simp_all add: empty_part_def)
  then show "anchor_ok geo r' \<and> a_f4 r' = a_f4 anc \<and> formatted_cylinders r' = formatted_cylinders anc \<and>
       used_partitions r' = used_partitions anc \<and> map interval (partitions r') = map interval (partitions anc)"
    using inv sel tab(3) by simp
qed

lemma table_read:
  assumes s: "session_ok geo anc" and rd: "readable geo anc" and fits: "volume_fits geo anc dev"
    and big: "big_disk_flag anc \<noteq> 0 \<longleftrightarrow> big_disk (formatted_cylinders anc) (ucast (heads geo))"
    and w: "fdasd_write_vtoc_labels geo anc dev = (Inr anc', dev')" and r: "reader anc r"
  shows "\<exists>r'. fdasd_valid_vtoc_pointer geo dev' r (vtoc_blk geo anc) inp = Inr (r', inp, 0) \<and> anchor_ok geo r' \<and>
    a_f4 r' = a_f4 anc \<and> formatted_cylinders r' = formatted_cylinders anc \<and>
    used_partitions r' = used_partitions anc \<and> map interval (partitions r') = map interval (partitions anc)"
proof -
  obtain ps old where
    f4: "vtoc_read_label dev' (unat (vtoc_blk geo anc)) False True False False = Inr (None, Some (a_f4 anc), None, None)"
    and scan: "\<And>s0. scan_vtoc dev' (ucast (blksize anc)) (unat (sectors geo) - 1) (vtoc_blk geo anc + ucast (blksize anc)) s0 =
       Inr (fold scan_label (map image_label (tl (vtoc_images anc ps)) @ old) s0)"
    and old: "\<forall>f \<in> set old. foreign f" and same: "same_labels anc (in_use ps)"
    by (rule written_device [OF s rd fits w]) (rule that; assumption)
  have "9 \<le> unat (sectors geo)" using fits by (simp add: volume_fits_def)
  note up = update_written [OF s rd r this big same]
  obtain q where "fdasd_process_valid_vtoc geo dev' (r\<lparr>a_f4 := a_f4 anc\<rparr>) (vtoc_blk geo anc) =
      Inr (fdasd_update_partition_info geo (read_back geo anc (in_use ps) r q))"
    using process_written [OF rd r scan old up(1,2)] by blast
  moreover have "DS4IDFMT (a_f4 anc) = 0xf4" using rd by (simp add: readable_def f4_ok_def)
  ultimately have "fdasd_valid_vtoc_pointer geo dev' r (vtoc_blk geo anc) inp =
      Inr (fdasd_update_partition_info geo (read_back geo anc (in_use ps) r q), inp, 0)"
    by (simp add: fdasd_valid_vtoc_pointer_def f4)
  then show ?thesis using up(3) [OF refl, of q] by blast
qed

section \<open>The round trip\<close>

text \<open>C2: what a session writes is what the next run reads.  From a state whose labels can be read
  back, in every state the user's commands lead to, after the VTOC was written without an error the
  program finds, when it reads the volume again, the same partitions, the same format 4 label and
  free-space labels that agree with them.\<close>

theorem session_round_trip:
  assumes "session_ok geo anc0" and "readable geo anc0" and "rtranclp (session_step y d geo) anc0 anc"
    and "volume_fits geo anc dev" and "big_disk_flag anc \<noteq> 0 \<longleftrightarrow> big_disk (formatted_cylinders anc) (ucast (heads geo))"
    and "fdasd_write_vtoc_labels geo anc dev = (Inr anc', dev')" and "reader anc r"
  shows "\<exists>r'. fdasd_valid_vtoc_pointer geo dev' r (vtoc_blk geo anc) inp = Inr (r', inp, 0) \<and> anchor_ok geo r' \<and>
    a_f4 r' = a_f4 anc \<and> formatted_cylinders r' = formatted_cylinders anc \<and>
    used_partitions r' = used_partitions anc \<and> map interval (partitions r') = map interval (partitions anc)"
  by (rule table_read [OF reachable_session_ok [OF assms(3,1)] reachable_readable [OF assms(3,1,2)] assms(4-7)])



section \<open>An example\<close>

text \<open>One partition for the whole disk is a state whose labels can be read back.\<close>

lemma whole_disk_session:
  assumes v: "volume_ok geo anc" and len: "length (parts anc) = 3" and f9: "f9_ok (a_f9 anc)"
    and z: "\<forall>p \<in> set (parts anc). used p = 0 \<and> start_trk p = 0 \<and> end_trk p = 0"
  shows "session_ok geo (whole_disk y d geo anc)" "readable geo (whole_disk y d geo anc)"
proof -
  let ?w = "whole_disk y d geo anc" and ?base = "anc\<lparr>a_f4 := init_labels geo anc,
    a_f5 := vtoc_init_format5_label, a_f7 := vtoc_init_format7_label\<rparr>"
  obtain p ps where P: "parts anc = p # ps" using len by (cases "parts anc") auto
  have ps: "parts ?w = hd (parts ?w) # ps" "\<forall>p \<in> set ps. used p = 0"
    using z by (simp_all add: whole_disk_def Let_def P)
  have "\<exists>ext. p_f1 (hd (parts ?w)) = init_f1_label y d ?base ext (p_f1 p)"
    unfolding whole_disk_def Let_def by (simp add: P) (rule exI, rule refl)
  then obtain ext where f: "p_f1 (hd (parts ?w)) = init_f1_label y d ?base ext (p_f1 p)" by blast
  obtain h where sel: "a_f4 ?w = vtoc_update_format4_label (init_labels geo anc) h (DS4DSREC (init_labels geo anc) - 1)"
    and fc: "formatted_cylinders ?w = formatted_cylinders anc" "a_f5 ?w = vtoc_init_format5_label"
      "a_f7 ?w = vtoc_init_format7_label" "a_f9 ?w = a_f9 anc" "used_partitions ?w = 1" "blksize ?w = blksize anc"
    by (simp add: whole_disk_def Let_def)
  have "name_ok (p_f1 (hd (parts ?w)))" unfolding f by (rule init_name(2))
  then have "names_ok ?w" unfolding names_ok_def by (subst ps(1)) (use ps(2) in auto)
  moreover have "volume_ok geo ?w" using v by (subst volume_ok_cong [of _ anc]) (simp_all add: fc)
  ultimately show "session_ok geo ?w" using whole_disk_ok(1) [OF v len z] by (simp add: session_ok_def)
  have "\<forall>p \<in> set (parts ?w). used p = 1 \<longrightarrow> DS1FMTID (p_f1 p) = part_fmt ?w"
  proof -
    have "DS1FMTID (p_f1 (hd (parts ?w))) = part_fmt ?w" unfolding f by (simp add: init_f1_fmt part_fmt_def fc)
    then show ?thesis by (subst ps(1)) (use ps(2) in auto)
  qed
  then show "readable geo ?w"
    using init_f4_ok [OF v] init_f57_ok f9 by (simp add: readable_def fc sel)
qed

definition example_pointer :: fdasd_anchor where
  "example_pointer = example_blank\<lparr>vlabel := zero_vlabel\<lparr>volid := vtoc_ebcdic_enc (bytes_of ''LNX200'') (replicate 6 0) 6,
     vtoc := vtoc_set_cchhb 0 1 1\<rparr>\<rparr>"

definition example_whole :: fdasd_anchor where
  "example_whole = whole_disk 119 200 example_geo example_pointer"

definition example_volume :: device where
  "example_volume = example_dev\<lparr>content := replicate 98304 0\<rparr>"

lemma example_whole_ok:
  "session_ok example_geo example_whole" "readable example_geo example_whole"
proof -
  have "volume_ok example_geo example_pointer"
    using example_blank_ok(1) by (subst volume_ok_cong [of _ example_blank]) (simp_all add: example_pointer_def)
  moreover have "f9_ok (a_f9 example_pointer)"
    by (simp add: f9_ok_def example_pointer_def example_blank_def fdasd_initialize_anchor_def) code_simp
  moreover have "length (parts example_pointer) = 3"
    "\<forall>p \<in> set (parts example_pointer). used p = 0 \<and> start_trk p = 0 \<and> end_trk p = 0"
    by (simp_all add: example_pointer_def example_blank_def fdasd_initialize_anchor_def USABLE_PARTITIONS_def empty_part_def)
  ultimately show "session_ok example_geo example_whole" "readable example_geo example_whole"
    unfolding example_whole_def by (blast intro: whole_disk_session)+
qed

lemma example_whole_sel:
  "blksize example_whole = 4096" "big_disk_flag example_whole = 0" "formatted_cylinders example_whole = 100"
  "vlabel example_whole = vlabel example_pointer"
  by (simp_all add: example_whole_def whole_disk_def Let_def example_pointer_def example_blank_def fdasd_initialize_anchor_def)

lemma example_vtoc_blk: "vtoc_blk example_geo example_whole = 49152"
  unfolding vtoc_blk_def example_whole_sel by (simp add: example_pointer_def example_geo_def) code_simp

lemma example_names: "names_made example_whole 0 0 (parts example_whole)"
  by code_simp

lemma example_write:
  "vtoc_blk example_geo example_whole \<noteq> 0" "supported_blksize (blksize example_whole)"
  "ready (unat (vtoc_blk example_geo example_whole))
     (unat (vtoc_blk example_geo example_whole) + 9 * unat (blksize example_whole)) example_volume"
  "unat (vtoc_blk example_geo example_whole) + 9 * unat (blksize example_whole) < 2 ^ 63"
  by (simp_all add: example_vtoc_blk example_whole_sel supported_blksize_def ready_def example_volume_def example_dev_def)

lemma example_fits: "volume_fits example_geo example_whole example_volume"
proof -
  have "fd_read example_volume (49152 + i * 4096) 140 = replicate 140 0" if "i < 12" for i
    using that by (simp add: fd_read_def example_volume_def example_dev_def)
  moreover have "foreign (image_label (replicate 140 0))" by code_simp
  moreover have "sectors example_geo = 12" "open_rdonly example_volume" "length (content example_volume) = 98304"
    "seek_ok example_volume = (\<lambda>_. True)"
    by (simp_all add: example_geo_def example_volume_def example_dev_def)
  ultimately show ?thesis
    by (simp add: volume_fits_def example_vtoc_blk example_whole_sel supported_blksize_def)
qed


theorem session_round_trip_witness:
  "\<exists>anc' dev' r'. fdasd_write_vtoc_labels example_geo example_whole example_volume = (Inr anc', dev') \<and>
    fdasd_valid_vtoc_pointer example_geo dev' (fdasd_initialize_anchor\<lparr>blksize := 4096\<rparr>) (vtoc_blk example_geo example_whole) [] =
      Inr (r', [], 0) \<and>
    anchor_ok example_geo r' \<and> a_f4 r' = a_f4 example_whole \<and> map interval (partitions r') = map interval (partitions example_whole)"
proof -
  obtain anc' dev' where w: "fdasd_write_vtoc_labels example_geo example_whole example_volume = (Inr anc', dev')"
    using write_ready [OF example_whole_ok example_write(2,1,3,4) example_names] by blast
  have "reader example_whole (fdasd_initialize_anchor\<lparr>blksize := 4096\<rparr>)"
    by (simp add: reader_def example_whole_sel fdasd_initialize_anchor_def USABLE_PARTITIONS_def)
  moreover have "big_disk_flag example_whole \<noteq> 0 \<longleftrightarrow> big_disk (formatted_cylinders example_whole) (ucast (heads example_geo))"
    by (simp add: example_whole_sel big_disk_def BIG_DISK_SIZE_def example_geo_def)
  ultimately show ?thesis
    using session_round_trip [OF example_whole_ok rtranclp.rtrancl_refl [of "session_step 119 200 example_geo"] example_fits _ w,
      where inp = "[]"] w
    by blast
qed

end
