(* ===== verification/Util_List.thy ===== *)
theory Util_List
  imports Prelude "HOL-Library.Monad_Syntax"
begin

text \<open>
  The linked list of \<open>libutil\<close>: \<open>src/libutil/util_list.c\<close>.  The nodes are embedded in the entries of
  the caller, at a fixed offset.  The memory is a map from the addresses of nodes to nodes; an access
  to any other address has no defined result, which is \<open>None\<close>.  A list of entries on the heap is
  described by the list of their addresses; every operation is the operation on that list, reads and
  writes nodes of the list only, and leaves all other memory as it is.
\<close>

section \<open>The data and the operations\<close>

record util_list_node =
  nd_next :: u64
  nd_prev :: u64

record util_list =
  l_offset :: u64
  l_start :: u64
  l_end :: u64

type_synonym nodes = "u64 \<rightharpoonup> util_list_node"

definition n2e :: "util_list \<Rightarrow> u64 \<Rightarrow> u64" where
  "n2e l node = node - l_offset l"

definition e2n :: "util_list \<Rightarrow> u64 \<Rightarrow> u64" where
  "e2n l entry = entry + l_offset l"

definition set_next :: "u64 \<Rightarrow> u64 \<Rightarrow> nodes \<Rightarrow> nodes option" where
  "set_next a x m = (case m a of None \<Rightarrow> None | Some n \<Rightarrow> Some (m(a \<mapsto> n\<lparr>nd_next := x\<rparr>)))"

definition set_prev :: "u64 \<Rightarrow> u64 \<Rightarrow> nodes \<Rightarrow> nodes option" where
  "set_prev a x m = (case m a of None \<Rightarrow> None | Some n \<Rightarrow> Some (m(a \<mapsto> n\<lparr>nd_prev := x\<rparr>)))"

definition util_list_init_offset :: "u64 \<Rightarrow> util_list" where
  "util_list_init_offset off = \<lparr>l_offset = off, l_start = 0, l_end = 0\<rparr>"

definition util_list_add_tail :: "util_list \<Rightarrow> nodes \<Rightarrow> u64 \<Rightarrow> (util_list \<times> nodes) option" where
  "util_list_add_tail l m entry =
     (let node = e2n l entry in
      set_next node 0 m \<bind> (\<lambda>m.
      (if l_start l = 0 then set_prev node 0 m \<bind> (\<lambda>m. Some (l\<lparr>l_start := node\<rparr>, m))
       else set_next (l_end l) node m \<bind> (\<lambda>m. set_prev node (l_end l) m \<bind> (\<lambda>m. Some (l, m)))) \<bind> (\<lambda>(l, m).
      Some (l\<lparr>l_end := node\<rparr>, m))))"

definition util_list_add_head :: "util_list \<Rightarrow> nodes \<Rightarrow> u64 \<Rightarrow> (util_list \<times> nodes) option" where
  "util_list_add_head l m entry =
     (let node = e2n l entry in
      set_prev node 0 m \<bind> (\<lambda>m. set_next node 0 m \<bind> (\<lambda>m.
      (if l_start l = 0 then Some (l\<lparr>l_end := node\<rparr>, m)
       else set_prev (l_start l) node m \<bind> (\<lambda>m. set_next node (l_start l) m \<bind> (\<lambda>m. Some (l, m)))) \<bind> (\<lambda>(l, m).
      Some (l\<lparr>l_start := node\<rparr>, m)))))"

definition util_list_add_next :: "util_list \<Rightarrow> nodes \<Rightarrow> u64 \<Rightarrow> u64 \<Rightarrow> (util_list \<times> nodes) option" where
  "util_list_add_next l m entry list_entry =
     (let node = e2n l entry; list_node = e2n l list_entry in
      m list_node \<bind> (\<lambda>ln. set_next node (nd_next ln) m \<bind> (\<lambda>m.
      set_prev node list_node m \<bind> (\<lambda>m.
      m list_node \<bind> (\<lambda>ln.
      (if nd_next ln \<noteq> 0 then set_prev (nd_next ln) node m \<bind> (\<lambda>m. Some (l, m))
       else Some (l\<lparr>l_end := node\<rparr>, m)) \<bind> (\<lambda>(l, m).
      set_next list_node node m \<bind> (\<lambda>m. Some (l, m))))))))"

definition util_list_add_prev :: "util_list \<Rightarrow> nodes \<Rightarrow> u64 \<Rightarrow> u64 \<Rightarrow> (util_list \<times> nodes) option" where
  "util_list_add_prev l m entry list_entry =
     (let node = e2n l entry; list_node = e2n l list_entry in
      m list_node \<bind> (\<lambda>ln. set_prev node (nd_prev ln) m \<bind> (\<lambda>m.
      set_next node list_node m \<bind> (\<lambda>m.
      m list_node \<bind> (\<lambda>ln.
      (if nd_prev ln \<noteq> 0 then set_next (nd_prev ln) node m \<bind> (\<lambda>m. Some (l, m))
       else Some (l\<lparr>l_start := node\<rparr>, m)) \<bind> (\<lambda>(l, m).
      set_prev list_node node m \<bind> (\<lambda>m. Some (l, m))))))))"

definition util_list_remove :: "util_list \<Rightarrow> nodes \<Rightarrow> u64 \<Rightarrow> (util_list \<times> nodes) option" where
  "util_list_remove l m entry =
     (let node = e2n l entry in
      m node \<bind> (\<lambda>n.
      let l = (if l_start l = node then l\<lparr>l_start := nd_next n\<rparr> else l);
          l = (if l_end l = node then l\<lparr>l_end := nd_prev n\<rparr> else l) in
      (if nd_prev n \<noteq> 0 then set_next (nd_prev n) (nd_next n) m else Some m) \<bind> (\<lambda>m.
      m node \<bind> (\<lambda>n.
      (if nd_next n \<noteq> 0 then set_prev (nd_next n) (nd_prev n) m else Some m) \<bind> (\<lambda>m.
      Some (l, m))))))"

definition util_list_start :: "util_list \<Rightarrow> u64" where
  "util_list_start l = (if l_start l = 0 then 0 else l_start l - l_offset l)"

definition util_list_end :: "util_list \<Rightarrow> u64" where
  "util_list_end l = (if l_end l = 0 then 0 else n2e l (l_end l))"

definition util_list_next :: "util_list \<Rightarrow> nodes \<Rightarrow> u64 \<Rightarrow> u64 option" where
  "util_list_next l m entry =
     (if entry = 0 then Some 0
      else m (e2n l entry) \<bind> (\<lambda>n. Some (if nd_next n = 0 then 0 else n2e l (nd_next n))))"

definition util_list_prev :: "util_list \<Rightarrow> nodes \<Rightarrow> u64 \<Rightarrow> u64 option" where
  "util_list_prev l m entry =
     (if entry = 0 then Some 0
      else m (e2n l entry) \<bind> (\<lambda>n. Some (if nd_prev n = 0 then 0 else n2e l (nd_prev n))))"

definition util_list_is_empty :: "util_list \<Rightarrow> bool" where
  "util_list_is_empty l \<longleftrightarrow> l_start l = 0"

text \<open>The macro \<open>util_list_iterate\<close> from an entry on: \<open>f\<close> is the body of the loop, which does not
  change the list.  A list that runs in a circle is never left, which is \<open>None\<close> as well.\<close>

partial_function (option) util_list_iterate ::
  "util_list \<Rightarrow> nodes \<Rightarrow> (u64 \<Rightarrow> 'b \<Rightarrow> 'b) \<Rightarrow> u64 \<Rightarrow> 'b \<Rightarrow> 'b option" where
  "util_list_iterate l m f i s =
     (if i = 0 then Some s
      else util_list_next l m i \<bind> (\<lambda>j. util_list_iterate l m f j (f i s)))"

declare util_list_iterate.simps [code]

definition util_list_len :: "util_list \<Rightarrow> nodes \<Rightarrow> u64 option" where
  "util_list_len l m = util_list_iterate l m (\<lambda>_ cnt. cnt + 1) (util_list_start l) 0"

text \<open>One round of the inner loop of \<open>util_list_sort\<close>: \<open>node1\<close> and the node behind it.\<close>

definition sort_round ::
  "(u64 \<Rightarrow> u64 \<Rightarrow> int) \<Rightarrow> util_list \<Rightarrow> nodes \<Rightarrow> u64 \<Rightarrow> (util_list \<times> nodes \<times> u64) option" where
  "sort_round cmp l m node1 =
     (m node1 \<bind> (\<lambda>n1. let node2 = nd_next n1 in
      if cmp (n2e l node1) (n2e l node2) > 0 then
        m node2 \<bind> (\<lambda>n2. set_next node1 (nd_next n2) m \<bind> (\<lambda>m.
        (if nd_next n2 \<noteq> 0 then set_prev (nd_next n2) node1 m \<bind> (\<lambda>m. Some (l, m))
         else Some (l\<lparr>l_end := node1\<rparr>, m)) \<bind> (\<lambda>(l, m).
        set_next node2 node1 m \<bind> (\<lambda>m.
        m node1 \<bind> (\<lambda>n1.
        set_prev node2 (nd_prev n1) m \<bind> (\<lambda>m.
        (if nd_prev n1 \<noteq> 0 then set_next (nd_prev n1) node2 m \<bind> (\<lambda>m. Some (l, m))
         else Some (l\<lparr>l_start := node2\<rparr>, m)) \<bind> (\<lambda>(l, m).
        set_prev node1 node2 m \<bind> (\<lambda>m. Some (l, m, node1)))))))))
      else Some (l, m, node2)))"

fun sort_rounds ::
  "nat \<Rightarrow> (u64 \<Rightarrow> u64 \<Rightarrow> int) \<Rightarrow> util_list \<Rightarrow> nodes \<Rightarrow> u64 \<Rightarrow> (util_list \<times> nodes) option" where
  "sort_rounds 0 cmp l m node1 = Some (l, m)"
| "sort_rounds (Suc k) cmp l m node1 =
     sort_round cmp l m node1 \<bind> (\<lambda>(l, m, node1). sort_rounds k cmp l m node1)"

fun sort_passes ::
  "nat list \<Rightarrow> nat \<Rightarrow> (u64 \<Rightarrow> u64 \<Rightarrow> int) \<Rightarrow> util_list \<Rightarrow> nodes \<Rightarrow> (util_list \<times> nodes) option" where
  "sort_passes [] n cmp l m = Some (l, m)"
| "sort_passes (i # is) n cmp l m =
     sort_rounds (n - i) cmp l m (l_start l) \<bind> (\<lambda>(l, m). sort_passes is n cmp l m)"

definition util_list_sort :: "(u64 \<Rightarrow> u64 \<Rightarrow> int) \<Rightarrow> util_list \<Rightarrow> nodes \<Rightarrow> (util_list \<times> nodes) option" where
  "util_list_sort cmp l m =
     util_list_len l m \<bind> (\<lambda>cnt. sort_passes [1..<unat cnt] (unat cnt) cmp l m)"


section \<open>Lists on the heap\<close>

definition firstn :: "u64 list \<Rightarrow> u64 \<Rightarrow> u64" where
  "firstn xs q = (case xs of [] \<Rightarrow> q | x # _ \<Rightarrow> x)"

definition lastn :: "u64 \<Rightarrow> u64 list \<Rightarrow> u64" where
  "lastn p xs = (if xs = [] then p else last xs)"

lemma firstn_simps [simp]: "firstn [] q = q" "firstn (x # xs) q = x" "firstn (xs @ ys) q = firstn xs (firstn ys q)"
  by (simp_all add: firstn_def split: list.split)

lemma lastn_simps [simp]: "lastn p [] = p" "lastn p (xs @ [x]) = x" "lastn p (x # xs) = lastn x xs"
  "lastn p (xs @ ys) = lastn (lastn p xs) ys"
  by (simp_all add: lastn_def)

text \<open>\<open>seg m p xs q\<close>: the nodes \<open>xs\<close> are linked in both directions, \<open>p\<close> is before them and \<open>q\<close> behind.\<close>

fun seg :: "nodes \<Rightarrow> u64 \<Rightarrow> u64 list \<Rightarrow> u64 \<Rightarrow> bool" where
  "seg m p [] q \<longleftrightarrow> True"
| "seg m p (x # xs) q \<longleftrightarrow> x \<noteq> 0 \<and> m x = Some \<lparr>nd_next = firstn xs q, nd_prev = p\<rparr> \<and> seg m x xs q"

lemma seg_append [simp]:
  "seg m p (xs @ ys) q \<longleftrightarrow> seg m p xs (firstn ys q) \<and> seg m (lastn p xs) ys q"
  by (induction xs arbitrary: p) auto

lemma seg_frame: "\<forall>x \<in> set xs. m' x = m x \<Longrightarrow> seg m' p xs q = seg m p xs q"
  by (induction xs arbitrary: p) auto

lemma seg_upd [simp]: "a \<notin> set xs \<Longrightarrow> seg (m(a \<mapsto> n)) p xs q = seg m p xs q"
  by (rule seg_frame) auto

lemma seg_nonzero: "seg m p xs q \<Longrightarrow> 0 \<notin> set xs"
  by (induction xs arbitrary: p) auto

lemma seg_dom: "seg m p xs q \<Longrightarrow> set xs \<subseteq> dom m"
  by (induction xs arbitrary: p) auto

text \<open>The entries of a list, by their addresses.\<close>

definition nodes_of :: "util_list \<Rightarrow> u64 list \<Rightarrow> u64 list" where
  "nodes_of l es = map (e2n l) es"

definition holds :: "util_list \<Rightarrow> nodes \<Rightarrow> u64 list \<Rightarrow> bool" where
  "holds l m es \<longleftrightarrow> distinct es \<and> 0 \<notin> set es \<and> seg m 0 (nodes_of l es) 0 \<and>
     l_start l = firstn (nodes_of l es) 0 \<and> l_end l = lastn 0 (nodes_of l es)"

text \<open>The memory outside the nodes of the entries \<open>es\<close> is as it was.\<close>

definition only :: "util_list \<Rightarrow> u64 set \<Rightarrow> nodes \<Rightarrow> nodes \<Rightarrow> bool" where
  "only l es m m' \<longleftrightarrow> dom m' = dom m \<and> (\<forall>a. a \<notin> e2n l ` es \<longrightarrow> m' a = m a)"

text \<open>What an operation gives back.\<close>

definition became ::
  "util_list \<Rightarrow> nodes \<Rightarrow> u64 set \<Rightarrow> u64 list \<Rightarrow> (util_list \<times> nodes) option \<Rightarrow> bool" where
  "became l m es es' r \<longleftrightarrow>
     (case r of None \<Rightarrow> False | Some (l', m') \<Rightarrow> l_offset l' = l_offset l \<and> holds l' m' es' \<and> only l es m m')"

text \<open>An entry that is not in the list and has its node in the memory.\<close>

definition fresh :: "util_list \<Rightarrow> nodes \<Rightarrow> u64 list \<Rightarrow> u64 \<Rightarrow> bool" where
  "fresh l m es e \<longleftrightarrow> e \<notin> set es \<and> e \<noteq> 0 \<and> e2n l e \<noteq> 0 \<and> e2n l e \<in> dom m"

lemma e2n_inj [simp]: "e2n l a = e2n l b \<longleftrightarrow> a = b" "n2e l (e2n l a) = a" "e2n l (n2e l x) = x"
  by (simp_all add: e2n_def n2e_def)

lemma e2n_image [simp]: "e2n l a \<in> e2n l ` S \<longleftrightarrow> a \<in> S"
  by (auto simp: image_iff)

lemma nodes_of_simps [simp]: "nodes_of l [] = []" "nodes_of l (e # es) = e2n l e # nodes_of l es"
  "nodes_of l (es @ fs) = nodes_of l es @ nodes_of l fs" "set (nodes_of l es) = e2n l ` set es"
  by (simp_all add: nodes_of_def)

lemma offset_only [simp]:
  "e2n (l\<lparr>l_start := x\<rparr>) = e2n l" "e2n (l\<lparr>l_end := x\<rparr>) = e2n l" "n2e (l\<lparr>l_start := x\<rparr>) = n2e l" "n2e (l\<lparr>l_end := x\<rparr>) = n2e l"
  "nodes_of (l\<lparr>l_start := x\<rparr>) = nodes_of l" "nodes_of (l\<lparr>l_end := x\<rparr>) = nodes_of l"
  by (auto simp: fun_eq_iff e2n_def n2e_def nodes_of_def)

lemma set_field_Some: "m a = Some n \<Longrightarrow> set_next a x m = Some (m(a \<mapsto> n\<lparr>nd_next := x\<rparr>))"
  "m a = Some n \<Longrightarrow> set_prev a x m = Some (m(a \<mapsto> n\<lparr>nd_prev := x\<rparr>))"
  by (simp_all add: set_next_def set_prev_def)

lemma only_upd:
  "only l es m m' \<Longrightarrow> a \<in> dom m \<Longrightarrow> a \<in> e2n l ` es \<Longrightarrow> only l es m (m'(a \<mapsto> n))"
  "only l es m m"
  by (auto simp: only_def)


lemma firstn_nonzero: "seg m p xs q \<Longrightarrow> q \<noteq> 0 \<Longrightarrow> firstn xs q \<noteq> 0"
  by (cases xs) auto

lemma lastn_nonzero: "seg m p xs q \<Longrightarrow> p \<noteq> 0 \<Longrightarrow> lastn p xs \<noteq> 0"
  by (induction xs arbitrary: p) auto

lemma ends_neq [simp]:
  "q \<noteq> p \<Longrightarrow> q \<notin> set xs \<Longrightarrow> lastn p xs \<noteq> q" "q \<noteq> p \<Longrightarrow> q \<notin> set xs \<Longrightarrow> firstn xs p \<noteq> q"
  "q \<noteq> p \<Longrightarrow> q \<notin> set xs \<Longrightarrow> q \<noteq> lastn p xs" "q \<noteq> p \<Longrightarrow> q \<notin> set xs \<Longrightarrow> q \<noteq> firstn xs p"
  by (auto simp: lastn_def firstn_def split: list.splits)

lemma became_Some:
  "l_offset l' = l_offset l \<Longrightarrow> holds l' m' es' \<Longrightarrow> only l es m m' \<Longrightarrow> became l m es es' (Some (l', m'))"
  by (simp add: became_def)

lemma freshE:
  assumes "fresh l m es e"
  obtains n where "m (e2n l e) = Some n" "e \<notin> set es" "e \<noteq> 0" "e2n l e \<noteq> 0"
  using assms by (auto simp: fresh_def)


section \<open>Inserting\<close>

lemma add_tail:
  assumes h: "holds l m (es)" and f: "fresh l m (es) e"
  shows "became l m (set (es @ [e])) (es @ [e]) (util_list_add_tail l m e)"
proof -
  obtain n where n: "m (e2n l e) = Some n" "e \<notin> set (es)" "e \<noteq> 0" "e2n l e \<noteq> 0" using f by (rule freshE)
  show ?thesis
  proof (cases es rule: rev_cases)
    case Nil
    then show ?thesis using h n
      by (simp add: holds_def util_list_add_tail_def Let_def set_next_def set_prev_def became_Some only_def insert_absorb domI)
  next
    case (snoc fs g)
    have "firstn (nodes_of l fs) (e2n l g) \<noteq> 0" using h by (intro firstn_nonzero [of m 0]) (simp_all add: holds_def snoc)
    then show ?thesis using h n snoc
      by (auto simp: holds_def util_list_add_tail_def Let_def set_next_def set_prev_def became_Some only_def insert_absorb domI)
  qed
qed

lemma add_head:
  assumes h: "holds l m (es)" and f: "fresh l m (es) e"
  shows "became l m (set (e # es)) (e # es) (util_list_add_head l m e)"
proof -
  obtain n where n: "m (e2n l e) = Some n" "e \<notin> set (es)" "e \<noteq> 0" "e2n l e \<noteq> 0" using f by (rule freshE)
  show ?thesis
  proof (cases es)
    case Nil
    then show ?thesis using h n
      by (simp add: holds_def util_list_add_head_def Let_def set_next_def set_prev_def became_Some only_def insert_absorb domI)
  next
    case (Cons g fs)
    then show ?thesis using h n
      by (auto simp: holds_def util_list_add_head_def Let_def set_next_def set_prev_def became_Some only_def insert_absorb domI)
  qed
qed

lemma add_next:
  assumes h: "holds l m (es @ g # fs)" and f: "fresh l m (es @ g # fs) e"
  shows "became l m (set (es @ g # e # fs)) (es @ g # e # fs) (util_list_add_next l m e g)"
proof -
  obtain n where n: "m (e2n l e) = Some n" "e \<notin> set (es @ g # fs)" "e \<noteq> 0" "e2n l e \<noteq> 0" using f by (rule freshE)
  show ?thesis
  proof (cases fs)
    case Nil
    then show ?thesis using h n
      by (auto simp: holds_def util_list_add_next_def Let_def set_next_def set_prev_def became_Some only_def insert_absorb domI)
  next
    case (Cons k ks)
    then show ?thesis using h n
      by (auto simp: holds_def util_list_add_next_def Let_def set_next_def set_prev_def became_Some only_def insert_absorb domI)
  qed
qed

lemma add_prev:
  assumes h: "holds l m (es @ g # fs)" and f: "fresh l m (es @ g # fs) e"
  shows "became l m (set (es @ e # g # fs)) (es @ e # g # fs) (util_list_add_prev l m e g)"
proof -
  obtain n where n: "m (e2n l e) = Some n" "e \<notin> set (es @ g # fs)" "e \<noteq> 0" "e2n l e \<noteq> 0" using f by (rule freshE)
  show ?thesis
  proof (cases es rule: rev_cases)
    case Nil
    then show ?thesis using h n
      by (auto simp: holds_def util_list_add_prev_def Let_def set_next_def set_prev_def became_Some only_def insert_absorb domI)
  next
    case (snoc ks k)
    then show ?thesis using h n
      by (auto simp: holds_def util_list_add_prev_def Let_def set_next_def set_prev_def became_Some only_def insert_absorb domI)
  qed
qed

lemma remove:
  assumes h: "holds l m (es @ g # fs)"
  shows "became l m (set (es @ g # fs)) (es @ fs) (util_list_remove l m g)"
proof (cases es rule: rev_cases)
  case Nil
  then show ?thesis using h
    by (cases fs) (auto simp: holds_def util_list_remove_def Let_def set_next_def set_prev_def became_Some only_def insert_absorb domI)
next
  case (snoc ks k)
  then show ?thesis using h
    by (cases fs) (auto simp: holds_def util_list_remove_def Let_def set_next_def set_prev_def became_Some only_def insert_absorb domI)
qed


section \<open>Reading\<close>

lemma next_entry: "holds l m (es @ g # fs) \<Longrightarrow> util_list_next l m g = Some (firstn fs 0)"
  by (cases fs) (auto simp: holds_def util_list_next_def)

lemma prev_entry: "holds l m (es @ g # fs) \<Longrightarrow> util_list_prev l m g = Some (lastn 0 es)"
  by (cases es rule: rev_cases) (auto simp: holds_def util_list_prev_def)

lemma start_entry: "holds l m es \<Longrightarrow> util_list_start l = firstn es 0"
  by (cases es) (auto simp: holds_def util_list_start_def simp flip: n2e_def)

lemma end_entry: "holds l m es \<Longrightarrow> util_list_end l = lastn 0 es"
  by (cases es rule: rev_cases) (auto simp: holds_def util_list_end_def)

lemma empty_entry: "holds l m es \<Longrightarrow> util_list_is_empty l \<longleftrightarrow> es = []"
  by (cases es) (auto simp: holds_def util_list_is_empty_def)

lemma iterate_fold:
  "holds l m (es @ fs) \<Longrightarrow> util_list_iterate l m f (firstn fs 0) s = Some (fold f fs s)"
proof (induction fs arbitrary: es s)
  case Nil
  then show ?case by (subst util_list_iterate.simps) simp
next
  case (Cons g fs)
  have "g \<noteq> 0" using Cons.prems by (simp add: holds_def)
  then show ?case using Cons.IH [of "es @ [g]"] Cons.prems
    by (subst util_list_iterate.simps) (simp add: next_entry)
qed

lemma iterate_all: "holds l m es \<Longrightarrow> util_list_iterate l m f (util_list_start l) s = Some (fold f es s)"
  using iterate_fold [of l m "[]" es] by (simp add: start_entry)

lemma len_entries: "holds l m es \<Longrightarrow> util_list_len l m = Some (of_nat (length es))"
proof -
  have "fold (\<lambda>_ cnt. cnt + 1) es c = c + (of_nat (length es) :: u64)" for c
    by (induction es arbitrary: c) simp_all
  then show "holds l m es \<Longrightarrow> ?thesis" by (simp add: util_list_len_def iterate_all)
qed


section \<open>Sorting\<close>

text \<open>One round of the bubble sort exchanges two neighbours or goes on to the second of them.\<close>

lemma round_swap:
  assumes h: "holds l m (es @ g # k # fs)" and c: "cmp g k > 0"
  shows "\<exists>l' m'. sort_round cmp l m (e2n l g) = Some (l', m', e2n l g) \<and>
    became l m (set (es @ g # k # fs)) (es @ k # g # fs) (Some (l', m'))"
proof (cases es rule: rev_cases)
  case Nil
  then show ?thesis using h c
    by (cases fs) (auto simp: holds_def sort_round_def Let_def set_next_def set_prev_def became_Some only_def insert_absorb domI)
next
  case (snoc ns n)
  then show ?thesis using h c
    by (cases fs) (auto simp: holds_def sort_round_def Let_def set_next_def set_prev_def became_Some only_def insert_absorb domI)
qed

lemma round_keep:
  "holds l m (es @ g # k # fs) \<Longrightarrow> \<not> cmp g k > 0 \<Longrightarrow> sort_round cmp l m (e2n l g) = Some (l, m, e2n l k)"
  by (simp add: holds_def sort_round_def Let_def)

end
