(* ===== verification/Util_Sort.thy ===== *)
theory Util_Sort
  imports Util_List "HOL-Library.Multiset"
begin

text \<open>
  \<open>util_list_sort\<close>: the bubble sort on the nodes is a bubble sort on the list of entries, and the
  bubble sort on lists sorts for every comparison that goes with a transitive order, whether it answers
  zero for equal entries or not.
\<close>

section \<open>The bubble sort on lists\<close>

text \<open>The first \<open>k\<close> comparisons of a pass.\<close>

fun bpass :: "('a \<Rightarrow> 'a \<Rightarrow> int) \<Rightarrow> nat \<Rightarrow> 'a list \<Rightarrow> 'a list" where
  "bpass c (Suc k) (x # y # zs) = (if c x y > 0 then y # bpass c k (x # zs) else x # bpass c k (y # zs))"
| "bpass c k xs = xs"

definition bsort :: "('a \<Rightarrow> 'a \<Rightarrow> int) \<Rightarrow> 'a list \<Rightarrow> 'a list" where
  "bsort c xs = fold (\<lambda>i. bpass c (length xs - i)) [1..<length xs] xs"

lemma length_bpass [simp]: "length (bpass c k xs) = length xs"
  by (induction c k xs rule: bpass.induct) auto

lemma mset_bpass [simp]: "mset (bpass c k xs) = mset xs"
  by (induction c k xs rule: bpass.induct) auto

lemma mset_bsort: "mset (bsort c xs) = mset xs"
proof -
  have "mset (fold (\<lambda>i. bpass c (n - i)) js ys) = mset ys" for n js ys
    by (induction js arbitrary: ys) simp_all
  then show ?thesis by (simp add: bsort_def)
qed

text \<open>Entries that compare as equal keep their order.\<close>

lemma filter_bpass:
  assumes "\<And>x y. P x \<Longrightarrow> P y \<Longrightarrow> \<not> c x y > 0"
  shows "filter P (bpass c k xs) = filter P xs"
  using assms by (induction c k xs rule: bpass.induct) auto

lemma filter_bsort:
  assumes "\<And>x y. P x \<Longrightarrow> P y \<Longrightarrow> \<not> c x y > 0"
  shows "filter P (bsort c xs) = filter P xs"
proof -
  have "filter P (fold (\<lambda>i. bpass c (n - i)) js ys) = filter P ys" for n js ys
    using assms by (induction js arbitrary: ys) (simp_all add: filter_bpass)
  then show ?thesis by (simp add: bsort_def)
qed

locale comparison =
  fixes c :: "'a \<Rightarrow> 'a \<Rightarrow> int" and R :: "'a \<Rightarrow> 'a \<Rightarrow> bool"
  assumes trans: "R x y \<Longrightarrow> R y z \<Longrightarrow> R x z"
    and above: "c x y > 0 \<Longrightarrow> R y x" and below: "\<not> c x y > 0 \<Longrightarrow> R x y"
begin

text \<open>A pass over a list moves a greatest entry to its end.\<close>

lemma bpass_max:
  "length us = k \<Longrightarrow> \<exists>ws z. bpass c k (x # us @ vs) = ws @ z # vs \<and> length ws = k \<and> mset (ws @ [z]) = mset (x # us) \<and>
     (\<forall>w \<in> set ws. R w z)"
proof (induction k arbitrary: x us)
  case (Suc k)
  then obtain y us' where us: "us = y # us'" "length us' = k" by (cases us) auto
  show ?case
  proof (cases "c x y > 0")
    case True
    obtain ws z where ih: "bpass c k (x # us' @ vs) = ws @ z # vs" "length ws = k" "mset (ws @ [z]) = mset (x # us')"
      "\<forall>w \<in> set ws. R w z" using Suc.IH [OF us(2)] by blast
    have "x \<in> set (ws @ [z])" using ih(3) by (metis list.set_intros(1) set_mset_mset)
    then have "R y z" using above [OF True] trans ih(4) by auto
    then show ?thesis using ih True by (intro exI [of _ "y # ws"] exI [of _ z]) (simp add: us)
  next
    case False
    obtain ws z where ih: "bpass c k (y # us' @ vs) = ws @ z # vs" "length ws = k" "mset (ws @ [z]) = mset (y # us')"
      "\<forall>w \<in> set ws. R w z" using Suc.IH [OF us(2)] by blast
    have "y \<in> set (ws @ [z])" using ih(3) by (metis list.set_intros(1) set_mset_mset)
    then have "R x z" using below [OF False] trans ih(4) by auto
    then show ?thesis using ih False by (intro exI [of _ "x # ws"] exI [of _ z]) (simp add: us)
  qed
qed simp

lemma passes_sorted:
  "i \<le> n \<Longrightarrow> length xs = n \<Longrightarrow> 0 < i \<Longrightarrow> \<exists>us vs. fold (\<lambda>i. bpass c (n - i)) [1..<i] xs = us @ vs \<and> length vs = i - 1 \<and>
     length us = n - (i - 1) \<and> sorted_wrt R vs \<and> (\<forall>u \<in> set us. \<forall>v \<in> set vs. R u v)"
proof (induction i)
  case (Suc i)
  show ?case
  proof (cases i)
    case 0
    then show ?thesis using Suc.prems by (intro exI [of _ xs] exI [of _ "[]"]) simp
  next
    case (Suc j)
    obtain us vs where ih: "fold (\<lambda>i. bpass c (n - i)) [1..<i] xs = us @ vs" "length vs = i - 1" "length us = n - (i - 1)"
      "sorted_wrt R vs" "\<forall>u \<in> set us. \<forall>v \<in> set vs. R u v"
      using Suc.IH Suc.prems Suc by auto
    then obtain x us' where us: "us = x # us'" "length us' = n - i" using Suc Suc.prems by (cases us) auto
    obtain ws z where p: "bpass c (n - i) (x # us' @ vs) = ws @ z # vs" "length ws = n - i"
      "mset (ws @ [z]) = mset (x # us')" "\<forall>w \<in> set ws. R w z" using bpass_max [OF us(2)] by blast
    have "set (ws @ [z]) = set us" using p(3) us(1) by (metis set_mset_mset)
    then have r: "\<forall>u \<in> set ws. \<forall>v \<in> set vs. R u v" "\<forall>v \<in> set vs. R z v" using ih(5) by auto
    show ?thesis
      using ih p us r Suc Suc.prems by (intro exI [of _ ws] exI [of _ "z # vs"]) auto
  qed
qed simp

lemma bsort_sorted: "sorted_wrt R (bsort c xs)"
proof (cases xs)
  case Nil
  then show ?thesis by (simp add: bsort_def)
next
  case (Cons x ys)
  obtain us vs where p: "bsort c xs = us @ vs" "length us = 1" "sorted_wrt R vs" "\<forall>u \<in> set us. \<forall>v \<in> set vs. R u v"
    using passes_sorted [of "length xs" "length xs" xs] Cons by (auto simp: bsort_def)
  then obtain u where "us = [u]" by (cases us) auto
  then show ?thesis using p by simp
qed

end


section \<open>The sort on the heap\<close>

lemma became_trans:
  assumes "became l m A es (Some (l', m'))" "became l' m' A es' r"
  shows "became l m A es' r"
proof -
  have "l_offset l' = l_offset l" using assms(1) by (simp add: became_def)
  then have "e2n l' = e2n l" by (simp add: e2n_def fun_eq_iff)
  then show ?thesis using assms by (auto simp: became_def only_def split: option.splits)
qed

lemma became_refl: "holds l m es \<Longrightarrow> became l m A es (Some (l, m))"
  by (simp add: became_def only_def)

lemma rounds:
  "holds l m (es @ g # fs) \<Longrightarrow> k \<le> length fs \<Longrightarrow>
     became l m (set (es @ g # fs)) (es @ bpass cmp k (g # fs)) (sort_rounds k cmp l m (e2n l g))"
proof (induction k arbitrary: l m es g fs)
  case 0
  then show ?case by (simp add: became_refl)
next
  case (Suc k)
  then obtain h hs where fs: "fs = h # hs" "k \<le> length hs" by (cases fs) auto
  show ?case
  proof (cases "cmp g h > 0")
    case True
    obtain l' m' where s: "sort_round cmp l m (e2n l g) = Some (l', m', e2n l g)"
      and b: "became l m (set (es @ g # h # hs)) (es @ h # g # hs) (Some (l', m'))"
      using round_swap [of l m es g h hs cmp] Suc.prems(1) True fs(1) by blast
    have h': "holds l' m' ((es @ [h]) @ g # hs)" and o: "e2n l' = e2n l"
      using b by (auto simp: became_def e2n_def fun_eq_iff)
    have set_eq: "set ((es @ [h]) @ g # hs) = set (es @ g # h # hs)" by auto
    show ?thesis
      using became_trans [OF b] Suc.IH [OF h' fs(2), unfolded set_eq o] s True by (simp add: fs(1))
  next
    case False
    have "holds l m ((es @ [g]) @ h # hs)" using Suc.prems(1) fs(1) by simp
    from Suc.IH [OF this fs(2)] show ?thesis
      using round_keep [of l m es g h hs cmp] Suc.prems(1) False fs(1) by simp
  qed
qed

lemma passes:
  "holds l m es \<Longrightarrow> n = length es \<Longrightarrow> \<forall>i \<in> set is. 0 < i \<and> i < n \<Longrightarrow>
     became l m (set es) (fold (\<lambda>i. bpass cmp (n - i)) is es) (sort_passes is n cmp l m)"
proof (induction "is" arbitrary: l m es)
  case Nil
  then show ?case by (simp add: became_refl)
next
  case (Cons i "is")
  then obtain g fs where es: "es = g # fs" "n - i \<le> length fs" by (cases es) auto
  have st: "l_start l = e2n l g" using Cons.prems(1) by (simp add: holds_def es)
  have b: "became l m (set es) (bpass cmp (n - i) es) (sort_rounds (n - i) cmp l m (l_start l))"
    using rounds [of l m "[]" g fs "n - i" cmp] Cons.prems(1) es by (simp add: st)
  then obtain l' m' where s: "sort_rounds (n - i) cmp l m (l_start l) = Some (l', m')" and h: "holds l' m' (bpass cmp (n - i) es)"
    by (auto simp: became_def split: option.splits)
  have "set (bpass cmp (n - i) es) = set es" by (metis mset_bpass set_mset_mset)
  with Cons.IH [OF h] Cons.prems(2,3)
  have "became l' m' (set es) (fold (\<lambda>i. bpass cmp (n - i)) is (bpass cmp (n - i) es)) (sort_passes is n cmp l' m')"
    by simp
  then show ?case using became_trans b s by fastforce
qed

lemma entries_bound: "holds l m es \<Longrightarrow> length es < 2 ^ 64"
proof -
  assume h: "holds l m es"
  then have "set es \<subseteq> UNIV - {0}" "distinct es" by (auto simp: holds_def)
  then have "length es \<le> card (UNIV - {0 :: u64})" by (metis card_mono distinct_card finite)
  then show ?thesis by (simp add: card_word card_Diff_subset)
qed

lemma sort_heap: "holds l m es \<Longrightarrow> became l m (set es) (bsort cmp es) (util_list_sort cmp l m)"
proof -
  assume h: "holds l m es"
  have "unat (of_nat (length es) :: u64) = length es" using entries_bound [OF h] by (simp add: unat_of_nat_small)
  then show ?thesis using passes [OF h, of "length es" "[1..<length es]" cmp]
    by (simp add: util_list_sort_def len_entries [OF h] bsort_def)
qed


section \<open>What the list promises\<close>

lemma list_edits:
  assumes h: "holds l m (es @ g # fs)" and f: "fresh l m (es @ g # fs) e"
  shows "became l m (set (es @ g # fs @ [e])) (es @ g # fs @ [e]) (util_list_add_tail l m e) \<and>
    became l m (set (e # es @ g # fs)) (e # es @ g # fs) (util_list_add_head l m e) \<and>
    became l m (set (es @ g # e # fs)) (es @ g # e # fs) (util_list_add_next l m e g) \<and>
    became l m (set (es @ e # g # fs)) (es @ e # g # fs) (util_list_add_prev l m e g) \<and>
    became l m (set (es @ g # fs)) (es @ fs) (util_list_remove l m g) \<and>
    util_list_next l m g = Some (firstn fs 0) \<and> util_list_prev l m g = Some (lastn 0 es) \<and>
    util_list_len l m = Some (of_nat (length (es @ g # fs)))"
  using add_tail [OF h f] add_head [OF h f] add_next [OF h f] add_prev [OF h f] remove [OF h] next_entry [OF h]
    prev_entry [OF h] len_entries [OF h] by (intro conjI) simp_all

lemma sort_total:
  assumes h: "holds l m es" and t: "\<forall>x y z. R x y \<longrightarrow> R y z \<longrightarrow> R x z"
    and c: "\<forall>x y. cmp x y > 0 \<longrightarrow> R y x" "\<forall>x y. \<not> cmp x y > 0 \<longrightarrow> R x y"
  shows "\<exists>l' m' es'. util_list_sort cmp l m = Some (l', m') \<and> holds l' m' es' \<and> only l (set es) m m' \<and>
    mset es' = mset es \<and> sorted_wrt R es' \<and> (\<forall>P. (\<forall>x y. P x \<longrightarrow> P y \<longrightarrow> \<not> cmp x y > 0) \<longrightarrow> filter P es' = filter P es)"
proof -
  have "comparison cmp R" using t c by unfold_locales blast+
  then have "sorted_wrt R (bsort cmp es)" by (rule comparison.bsort_sorted)
  moreover have "\<forall>P. (\<forall>x y. P x \<longrightarrow> P y \<longrightarrow> \<not> cmp x y > 0) \<longrightarrow> filter P (bsort cmp es) = filter P es"
    using filter_bsort [where c = cmp] by blast
  moreover obtain l' m' where "util_list_sort cmp l m = Some (l', m')" "holds l' m' (bsort cmp es)" "only l (set es) m m'"
    using sort_heap [OF h, of cmp] by (auto simp: became_def split: option.splits)
  ultimately show ?thesis using mset_bsort [of cmp es] by blast
qed


text \<open>C30: For a comparison that goes with a transitive order, \<open>util_list_sort\<close> ends, its pointer exchanges leave a
  well-formed list of the same entries in sorted order, entries that compare as equal keep their order, and
  memory beside the nodes is not changed.\<close>

theorem util_list_sort_sorts:
  assumes "holds l m es" and "\<forall>x y z. R x y \<longrightarrow> R y z \<longrightarrow> R x z"
    and "\<forall>x y. cmp x y > 0 \<longrightarrow> R y x" and "\<forall>x y. \<not> cmp x y > 0 \<longrightarrow> R x y"
  shows "\<exists>l' m' es'. util_list_sort cmp l m = Some (l', m') \<and> holds l' m' es' \<and> only l (set es) m m' \<and>
    mset es' = mset es \<and> sorted_wrt R es' \<and> (\<forall>P. (\<forall>x y. P x \<longrightarrow> P y \<longrightarrow> \<not> cmp x y > 0) \<longrightarrow> filter P es' = filter P es)"
  using assms by (rule sort_total)

text \<open>Two entries with their nodes at offset eight, and one that is not in the list yet.\<close>

definition two_list :: util_list where
  "two_list = \<lparr>l_offset = 8, l_start = 208, l_end = 108\<rparr>"

definition two_nodes :: nodes where
  "two_nodes = [108 \<mapsto> \<lparr>nd_next = 0, nd_prev = 208\<rparr>, 208 \<mapsto> \<lparr>nd_next = 108, nd_prev = 0\<rparr>, 308 \<mapsto> \<lparr>nd_next = 0, nd_prev = 0\<rparr>]"

lemma two_holds: "holds two_list two_nodes [200, 100]" "fresh two_list two_nodes [200, 100] 300"
  by (simp_all add: holds_def fresh_def two_list_def two_nodes_def nodes_of_def e2n_def)


theorem util_list_sort_sorts_witness:
  "\<exists>l' m' es'. util_list_sort (\<lambda>a b. uint a - uint b) two_list two_nodes = Some (l', m') \<and> holds l' m' es' \<and>
    mset es' = {#200, 100#} \<and> sorted_wrt (\<le>) es'"
  using util_list_sort_sorts [OF two_holds(1), of "(\<le>)" "\<lambda>a b. uint a - uint b"] by (auto simp: word_le_def)

end
