(* ===== verification/Dfi_Mem.thy ===== *)
theory Dfi_Mem
  imports Util_Sort
begin

text \<open>
  The memory of a dump as \<open>zgetdump\<close> presents it: \<open>src/zdump/dfi.c\<close>.  A dump consists of memory chunks
  with a callback that reads the dump file; there is a list of physical chunks and a list of virtual
  chunks, in which parts can be cut out (\<open>mem_unmap\<close>) and mapped to other physical addresses
  (\<open>mem_map\<close>).  Chunks, the nodes in them and the data of their callbacks live on a heap; an access to
  memory that is not there, or not any more, is \<open>None\<close>, and so is a loop that does not end.

  The callbacks of the dump formats are a parameter: \<open>img c d off\<close> is the byte the callback of chunk
  \<open>c\<close> reads at offset \<open>off\<close>, \<open>d\<close> being what its data pointer points to.  \<open>alloc\<close> is \<open>zg_alloc\<close>.
\<close>

section \<open>Chunks\<close>

text \<open>The reader of a chunk: \<open>mem_chunk_map_read_fn\<close>, or the one of the dump format.  The fields \<open>out_start\<close> and
  \<open>out_end\<close> of a chunk belong to the output formats and are left out.\<close>

datatype dfi_mem_chunk_read_fn = Map_read | Dump_read

record dfi_mem_chunk =
  c_start :: u64
  c_end :: u64
  c_size :: u64
  c_read_fn :: dfi_mem_chunk_read_fn
  c_free_fn :: bool
  c_data :: u64

record mem =
  chunk_cache :: u64
  start_addr :: u64
  end_addr :: u64
  chunk_cnt :: u32
  chunk_list :: util_list

record heap =
  h_nodes :: nodes
  h_chunks :: "u64 \<rightharpoonup> dfi_mem_chunk"
  h_data :: "u64 \<rightharpoonup> u64"

record dfi =
  h :: heap
  mem_phys :: mem
  mem_virt :: mem
  kdump_base :: u64
  kdump_size :: u64

text \<open>The nodes are the first member of a chunk.\<close>

definition mem_init :: "mem \<Rightarrow> mem" where
  "mem_init m = m\<lparr>start_addr := - 1, end_addr := 0, chunk_list := util_list_init_offset 0\<rparr>"

text \<open>The comparison of \<open>mem_update\<close>; it is called for chunks of the list only.\<close>

definition chunk_start :: "heap \<Rightarrow> u64 \<Rightarrow> u64" where
  "chunk_start hp e = (case h_chunks hp e of None \<Rightarrow> 0 | Some c \<Rightarrow> c_start c)"

definition mem_chunk_cmp_fn :: "heap \<Rightarrow> u64 \<Rightarrow> u64 \<Rightarrow> int" where
  "mem_chunk_cmp_fn hp a b = (if chunk_start hp a < chunk_start hp b then -1 else 1)"

definition mem_update :: "heap \<Rightarrow> mem \<Rightarrow> (heap \<times> mem) option" where
  "mem_update hp m =
     util_list_sort (mem_chunk_cmp_fn hp) (chunk_list m) (h_nodes hp) \<bind> (\<lambda>(l, ns).
     util_list_iterate l ns (\<lambda>i r. r \<bind> (\<lambda>m. h_chunks hp i \<bind> (\<lambda>c.
         Some (m\<lparr>start_addr := min (start_addr m) (c_start c), end_addr := max (end_addr m) (c_end c)\<rparr>))))
       (util_list_start l) (Some (m\<lparr>chunk_list := l, start_addr := - 1, end_addr := 0\<rparr>)) \<bind> (\<lambda>r. r \<bind> (\<lambda>m.
     Some (hp\<lparr>h_nodes := ns\<rparr>, m))))"

text \<open>A new block of memory; its node has no links yet.\<close>

definition new_chunk :: "u64 \<Rightarrow> dfi_mem_chunk \<Rightarrow> heap \<Rightarrow> heap" where
  "new_chunk a c hp = hp\<lparr>h_nodes := (h_nodes hp)(a \<mapsto> \<lparr>nd_next = 0, nd_prev = 0\<rparr>), h_chunks := (h_chunks hp)(a \<mapsto> c)\<rparr>"

definition mem_chunk_create ::
  "(heap \<Rightarrow> u64) \<Rightarrow> heap \<Rightarrow> mem \<Rightarrow> u64 \<Rightarrow> u64 \<Rightarrow> u64 \<Rightarrow> dfi_mem_chunk_read_fn \<Rightarrow> bool \<Rightarrow> (heap \<times> mem) option" where
  "mem_chunk_create alloc hp m start sz data read_fn free_fn =
     (let a = alloc hp;
          c = \<lparr>c_start = start, c_end = start + sz - 1, c_size = sz, c_read_fn = read_fn, c_free_fn = free_fn,
               c_data = data\<rparr>;
          hp = new_chunk a c hp
      in util_list_add_tail (chunk_list m) (h_nodes hp) a \<bind> (\<lambda>(l, ns).
         Some (hp\<lparr>h_nodes := ns\<rparr>,
               m\<lparr>chunk_list := l, start_addr := min (start_addr m) (c_start c), end_addr := max (end_addr m) (c_end c),
                 chunk_cache := a, chunk_cnt := chunk_cnt m + 1\<rparr>)))"

definition mem_chunk_has_addr :: "dfi_mem_chunk \<Rightarrow> u64 \<Rightarrow> bool" where
  "mem_chunk_has_addr c addr \<longleftrightarrow> c_start c \<le> addr \<and> addr \<le> c_end c"

text \<open>The loop over the chunks; zero if no chunk has the address.\<close>

partial_function (option) find_from :: "heap \<Rightarrow> util_list \<Rightarrow> u64 \<Rightarrow> u64 \<Rightarrow> u64 option" where
  "find_from hp l addr i =
     (if i = 0 then Some 0
      else h_chunks hp i \<bind> (\<lambda>c.
        if mem_chunk_has_addr c addr then Some i
        else util_list_next l (h_nodes hp) i \<bind> (\<lambda>j. find_from hp l addr j)))"

definition mem_chunk_find :: "heap \<Rightarrow> mem \<Rightarrow> u64 \<Rightarrow> (u64 \<times> mem) option" where
  "mem_chunk_find hp m addr =
     h_chunks hp (chunk_cache m) \<bind> (\<lambda>c.
     if mem_chunk_has_addr c addr then Some (chunk_cache m, m)
     else find_from hp (chunk_list m) addr (util_list_start (chunk_list m)) \<bind> (\<lambda>i.
       Some (i, if i = 0 then m else m\<lparr>chunk_cache := i\<rparr>)))"


section \<open>Reading\<close>

text \<open>The two lists of chunks.\<close>

datatype which = Phys | Virt

definition the_mem :: "which \<Rightarrow> dfi \<Rightarrow> mem" where
  "the_mem w st = (case w of Phys \<Rightarrow> mem_phys st | Virt \<Rightarrow> mem_virt st)"

definition set_mem :: "which \<Rightarrow> mem \<Rightarrow> dfi \<Rightarrow> dfi" where
  "set_mem w m st = (case w of Phys \<Rightarrow> st\<lparr>mem_phys := m\<rparr> | Virt \<Rightarrow> st\<lparr>mem_virt := m\<rparr>)"

text \<open>A callback with a data pointer reads what it points to.\<close>

definition dump_read ::
  "(dfi_mem_chunk \<Rightarrow> u64 \<Rightarrow> u64 \<Rightarrow> u8) \<Rightarrow> heap \<Rightarrow> dfi_mem_chunk \<Rightarrow> u64 \<Rightarrow> u64 \<Rightarrow> bytes option" where
  "dump_read img hp c off cnt =
     (if c_data c = 0 then Some 0 else h_data hp (c_data c)) \<bind> (\<lambda>d.
     Some (map (\<lambda>i. img c d (off + of_nat i)) [0..<unat cnt]))"

text \<open>\<open>mem_read\<close> with the callbacks; the map callback reads physical memory.\<close>

partial_function (option) mem_read ::
  "(dfi_mem_chunk \<Rightarrow> u64 \<Rightarrow> u64 \<Rightarrow> u8) \<Rightarrow> which \<Rightarrow> dfi \<Rightarrow> u64 \<Rightarrow> u64 \<Rightarrow> (bytes \<times> dfi) option" where
  "mem_read img w st addr cnt =
     (if cnt = 0 then Some ([], st)
      else mem_chunk_find (h st) (the_mem w st) addr \<bind> (\<lambda>(i, m).
        h_chunks (h st) i \<bind> (\<lambda>c.
        let st = set_mem w m st;
            sz = min cnt (c_end c - addr + 1);
            off = addr - c_start c in
        (case c_read_fn c of
           Map_read \<Rightarrow> h_data (h st) (c_data c) \<bind> (\<lambda>start. mem_read img Phys st (start + off) sz)
         | Dump_read \<Rightarrow> dump_read img (h st) c off sz \<bind> (\<lambda>bs. Some (bs, st))) \<bind> (\<lambda>(bs, st).
        mem_read img w st (addr + sz) (cnt - sz) \<bind> (\<lambda>(bs', st). Some (bs @ bs', st))))))"

definition dfi_mem_read where "dfi_mem_read img st addr cnt = mem_read img Virt st addr cnt"
definition dfi_mem_phys_read where "dfi_mem_phys_read img st addr cnt = mem_read img Phys st addr cnt"

definition dfi_mem_chunk_find :: "dfi \<Rightarrow> u64 \<Rightarrow> (u64 \<times> dfi) option" where
  "dfi_mem_chunk_find st addr =
     mem_chunk_find (h st) (mem_virt st) addr \<bind> (\<lambda>(i, m). Some (i, st\<lparr>mem_virt := m\<rparr>))"

partial_function (option) range_valid_from :: "dfi \<Rightarrow> u64 \<Rightarrow> u64 \<Rightarrow> u64 \<Rightarrow> (bool \<times> dfi) option" where
  "range_valid_from st addr len addr_end =
     dfi_mem_chunk_find st addr \<bind> (\<lambda>(i, st).
     if i = 0 then Some (False, st)
     else h_chunks (h st) i \<bind> (\<lambda>c.
       let addr = addr + min len (c_end c - addr + 1)
       in if addr < addr_end then range_valid_from st addr len addr_end else Some (True, st)))"

definition dfi_mem_range_valid :: "dfi \<Rightarrow> u64 \<Rightarrow> u64 \<Rightarrow> (bool \<times> dfi) option" where
  "dfi_mem_range_valid st addr len = range_valid_from st addr len (addr + len)"

text \<open>-22 is \<open>-EINVAL\<close>.\<close>

definition dfi_mem_read_rc ::
  "(dfi_mem_chunk \<Rightarrow> u64 \<Rightarrow> u64 \<Rightarrow> u8) \<Rightarrow> dfi \<Rightarrow> u64 \<Rightarrow> u64 \<Rightarrow> (int \<times> bytes \<times> dfi) option" where
  "dfi_mem_read_rc img st addr cnt =
     dfi_mem_range_valid st addr cnt \<bind> (\<lambda>(ok, st).
     if \<not> ok then Some (-22, [], st)
     else dfi_mem_read img st addr cnt \<bind> (\<lambda>(bs, st). Some (0, bs, st)))"

definition dfi_mem_range :: "dfi \<Rightarrow> u64" where
  "dfi_mem_range st =
     (if start_addr (mem_virt st) = - 1 then 0 else end_addr (mem_virt st) - start_addr (mem_virt st) + 1)"


section \<open>Changing the virtual memory\<close>

definition dfi_mem_chunk_virt_add ::
  "(heap \<Rightarrow> u64) \<Rightarrow> heap \<Rightarrow> mem \<Rightarrow> u64 \<Rightarrow> u64 \<Rightarrow> u64 \<Rightarrow> dfi_mem_chunk_read_fn \<Rightarrow> bool \<Rightarrow> (heap \<times> mem) option" where
  "dfi_mem_chunk_virt_add alloc hp virt start sz data read_fn free_fn =
     mem_chunk_create alloc hp virt start sz data read_fn free_fn"

definition dfi_mem_chunk_add ::
  "(heap \<Rightarrow> u64) \<Rightarrow> dfi \<Rightarrow> u64 \<Rightarrow> u64 \<Rightarrow> u64 \<Rightarrow> dfi_mem_chunk_read_fn \<Rightarrow> bool \<Rightarrow> dfi option" where
  "dfi_mem_chunk_add alloc st start sz data read_fn free_fn =
     mem_chunk_create alloc (h st) (mem_phys st) start sz data read_fn free_fn \<bind> (\<lambda>(hp, phys).
     mem_chunk_create alloc hp (mem_virt st) start sz data read_fn free_fn \<bind> (\<lambda>(hp, virt).
     Some (st\<lparr>h := hp, mem_phys := phys, mem_virt := virt\<rparr>)))"

definition mem_chunk_map_add :: "(heap \<Rightarrow> u64) \<Rightarrow> heap \<Rightarrow> mem \<Rightarrow> u64 \<Rightarrow> u64 \<Rightarrow> u64 \<Rightarrow> (heap \<times> mem) option" where
  "mem_chunk_map_add alloc hp virt start sz start_p =
     (let data = alloc hp; hp = hp\<lparr>h_data := (h_data hp)(data \<mapsto> start_p)\<rparr>
      in dfi_mem_chunk_virt_add alloc hp virt start sz data Map_read True)"

definition mem_chunk_start_phys :: "heap \<Rightarrow> dfi_mem_chunk \<Rightarrow> u64 option" where
  "mem_chunk_start_phys hp c = (if c_read_fn c = Map_read then h_data hp (c_data c) else Some (c_start c))"

text \<open>The body of the loop of \<open>mem_unmap\<close> for the chunk at \<open>i\<close>.\<close>

definition unmap_rest ::
  "(heap \<Rightarrow> u64) \<Rightarrow> u64 \<Rightarrow> u64 \<Rightarrow> dfi_mem_chunk \<Rightarrow> heap \<Rightarrow> mem \<Rightarrow> (heap \<times> mem) option" where
  "unmap_rest alloc start stop c hp virt =
     mem_chunk_start_phys hp c \<bind> (\<lambda>start_phys.
     let end_phys = start_phys + c_size c - 1 in
     (if c_end c > stop then
        let addr_virt = stop + 1; size_virt = c_end c - stop; addr_phys = end_phys - size_virt + 1
        in mem_chunk_map_add alloc hp virt addr_virt size_virt addr_phys
      else Some (hp, virt)) \<bind> (\<lambda>(hp, virt).
     if c_start c < start then
        let addr_virt = c_start c; size_virt = start - addr_virt; addr_phys = start_phys
        in mem_chunk_map_add alloc hp virt addr_virt size_virt addr_phys
      else Some (hp, virt)))"

definition unmap_free :: "u64 \<Rightarrow> dfi_mem_chunk \<Rightarrow> heap \<Rightarrow> mem \<Rightarrow> (heap \<times> mem) option" where
  "unmap_free i c hp virt =
     util_list_remove (chunk_list virt) (h_nodes hp) i \<bind> (\<lambda>(l, ns).
     let virt = virt\<lparr>chunk_list := l, chunk_cnt := chunk_cnt virt - 1\<rparr>;
         hp = (if c_data c \<noteq> 0 \<and> c_free_fn c then hp\<lparr>h_data := (h_data hp)(c_data c := None)\<rparr> else hp)
     in Some (hp\<lparr>h_nodes := ns(i := None), h_chunks := (h_chunks hp)(i := None)\<rparr>, virt))"

definition unmap_chunk ::
  "(heap \<Rightarrow> u64) \<Rightarrow> u64 \<Rightarrow> u64 \<Rightarrow> u64 \<Rightarrow> heap \<Rightarrow> mem \<Rightarrow> (heap \<times> mem) option" where
  "unmap_chunk alloc start sz i hp virt =
     h_chunks hp i \<bind> (\<lambda>c.
     let stop = start + sz - 1 in
     if c_start c \<ge> start + sz then Some (hp, virt)
     else if c_end c < start then Some (hp, virt)
     else
       (if c_start c \<ge> start \<and> c_end c \<le> stop then Some (hp, virt)
        else unmap_rest alloc start stop c hp virt) \<bind> (\<lambda>(hp, virt).
       unmap_free i c hp virt))"

text \<open>\<open>util_list_iterate_safe\<close>: \<open>n\<close> is the entry behind \<open>i\<close>, taken before the body changes the list.\<close>

partial_function (option) unmap_loop ::
  "(heap \<Rightarrow> u64) \<Rightarrow> u64 \<Rightarrow> u64 \<Rightarrow> u64 \<Rightarrow> u64 \<Rightarrow> heap \<Rightarrow> mem \<Rightarrow> (heap \<times> mem) option" where
  "unmap_loop alloc start sz i n hp virt =
     (if i = 0 then Some (hp, virt)
      else unmap_chunk alloc start sz i hp virt \<bind> (\<lambda>(hp, virt).
        util_list_next (chunk_list virt) (h_nodes hp) n \<bind> (\<lambda>j.
        unmap_loop alloc start sz n j hp virt)))"

definition mem_unmap :: "(heap \<Rightarrow> u64) \<Rightarrow> u64 \<Rightarrow> u64 \<Rightarrow> heap \<Rightarrow> mem \<Rightarrow> (heap \<times> mem) option" where
  "mem_unmap alloc start sz hp virt =
     (let i = util_list_start (chunk_list virt) in
      util_list_next (chunk_list virt) (h_nodes hp) i \<bind> (\<lambda>n.
      unmap_loop alloc start sz i n hp virt \<bind> (\<lambda>(hp, virt).
      mem_update hp virt)))"

text \<open>Is a part of the range mapped already?\<close>

definition mem_range_mapped :: "u64 \<Rightarrow> u64 \<Rightarrow> heap \<Rightarrow> mem \<Rightarrow> bool option" where
  "mem_range_mapped start sz hp virt =
     (let stop = start + sz - 1 in
      util_list_iterate (chunk_list virt) (h_nodes hp)
        (\<lambda>i r. r \<bind> (\<lambda>found. h_chunks hp i \<bind> (\<lambda>c.
           Some (found \<or> \<not> (c_start c > stop) \<and> \<not> (c_end c < start)))))
        (util_list_start (chunk_list virt)) (Some False) \<bind> (\<lambda>r. r))"

text \<open>\<open>ABORT\<close> ends the program with a message.\<close>

definition mem_map ::
  "(heap \<Rightarrow> u64) \<Rightarrow> u64 \<Rightarrow> u64 \<Rightarrow> u64 \<Rightarrow> heap \<Rightarrow> mem \<Rightarrow> (string + heap \<times> mem) option" where
  "mem_map alloc start sz start_phys hp virt =
     mem_range_mapped start sz hp virt \<bind> (\<lambda>mapped.
     if mapped then Some (Inl ''Map request for already mapped region'')
     else mem_chunk_map_add alloc hp virt start sz start_phys \<bind> (\<lambda>(hp, virt).
       mem_update hp virt \<bind> (\<lambda>r. Some (Inr r))))"


section \<open>Dumps of a dumped kdump kernel\<close>

definition MIB :: u64 where "MIB = 1024 * 1024"

text \<open>The option \<open>--select\<close>.\<close>

datatype select = Sel_prod | Sel_kdump | Sel_all

definition kdump_select ::
  "(heap \<Rightarrow> u64) \<Rightarrow> select option \<Rightarrow> dfi \<Rightarrow> (string + dfi) option" where
  "kdump_select alloc sel st =
     (case sel of
        Some Sel_prod \<Rightarrow>
          mem_unmap alloc 0 (kdump_size st) (h st) (mem_virt st) \<bind> (\<lambda>(hp, virt).
          mem_unmap alloc (kdump_base st) (kdump_size st) hp virt \<bind> (\<lambda>(hp, virt).
          mem_map alloc 0 (kdump_size st) (kdump_base st) hp virt \<bind> (\<lambda>r.
          Some (case r of Inl e \<Rightarrow> Inl e | Inr (hp, virt) \<Rightarrow> Inr (st\<lparr>h := hp, mem_virt := virt\<rparr>)))))
      | Some Sel_kdump \<Rightarrow>
          mem_unmap alloc (kdump_size st) (- 1 - kdump_size st) (h st) (mem_virt st) \<bind> (\<lambda>(hp, virt).
          Some (Inr (st\<lparr>h := hp, mem_virt := virt\<rparr>)))
      | _ \<Rightarrow> Some (Inr st))"

text \<open>The two words are read with the byte order of the machine.\<close>

definition kdump_init ::
  "(dfi_mem_chunk \<Rightarrow> u64 \<Rightarrow> u64 \<Rightarrow> u8) \<Rightarrow> (heap \<Rightarrow> u64) \<Rightarrow> select option \<Rightarrow> dfi \<Rightarrow> (string + dfi) option" where
  "kdump_init img alloc sel st =
     dfi_mem_phys_read img st 0x10418 8 \<bind> (\<lambda>(b, st).
     dfi_mem_phys_read img st 0x10420 8 \<bind> (\<lambda>(s, st).
     let base = fst (get64 b); sz = fst (get64 s) in
     if base = 0 \<or> sz = 0 then Some (Inr st)
     else if base mod MIB \<noteq> 0 \<or> sz mod MIB \<noteq> 0 then Some (Inr st)
     else dfi_mem_range_valid st base sz \<bind> (\<lambda>(ok, st).
       if \<not> ok then Some (Inr st)
       else kdump_select alloc sel (st\<lparr>kdump_base := base, kdump_size := sz\<rparr>))))"

end
