(* ===== verification/Dfi_Read.thy ===== *)
theory Dfi_Read
  imports Dfi_Mem
begin

text \<open>
  Reading the memory of a dump: which chunk is found, and that \<open>mem_read\<close> returns the byte of every
  address of the range, across the borders of chunks and through the callback of mapped chunks.
\<close>

section \<open>Well-formed lists of chunks\<close>

definition chunk_ok :: "dfi_mem_chunk \<Rightarrow> bool" where
  "chunk_ok c \<longleftrightarrow> 0 < c_size c \<and> unat (c_start c) + unat (c_size c) < 2 ^ 64 \<and> c_end c = c_start c + c_size c - 1"

definition span :: "dfi_mem_chunk \<Rightarrow> nat set" where
  "span c = {unat (c_start c)..<unat (c_start c) + unat (c_size c)}"

definition mem_wf :: "heap \<Rightarrow> mem \<Rightarrow> u64 list \<Rightarrow> bool" where
  "mem_wf hp m es \<longleftrightarrow> l_offset (chunk_list m) = 0 \<and> holds (chunk_list m) (h_nodes hp) es \<and>
     (\<forall>e \<in> set es. \<exists>c. h_chunks hp e = Some c \<and> chunk_ok c)"

definition apart :: "heap \<Rightarrow> u64 set \<Rightarrow> bool" where
  "apart hp S \<longleftrightarrow> (\<forall>e \<in> S. \<forall>f \<in> S. \<forall>c d. e \<noteq> f \<longrightarrow> h_chunks hp e = Some c \<longrightarrow> h_chunks hp f = Some d \<longrightarrow>
     span c \<inter> span d = {})"

definition mem_ok :: "heap \<Rightarrow> mem \<Rightarrow> u64 list \<Rightarrow> bool" where
  "mem_ok hp m es \<longleftrightarrow> mem_wf hp m es \<and> apart hp (set es)"

lemma chunk_end: "chunk_ok c \<Longrightarrow> unat (c_end c) = unat (c_start c) + unat (c_size c) - 1"
proof -
  assume c: "chunk_ok c"
  then have s: "0 < unat (c_size c)" by (simp add: chunk_ok_def unat_gt_0 word_neq_0_conv)
  have "unat (c_start c + c_size c) = unat (c_start c) + unat (c_size c)"
    using c by (simp add: chunk_ok_def unat_add_lem [THEN iffD1])
  moreover from this s have "c_start c + c_size c \<noteq> 0" by (metis add_is_0 less_numeral_extra(3) unat_0)
  ultimately show ?thesis using c by (simp add: chunk_ok_def unat_minus_one)
qed

lemma has_addr_span: "chunk_ok c \<Longrightarrow> mem_chunk_has_addr c a \<longleftrightarrow> unat a \<in> span c"
proof -
  assume c: "chunk_ok c"
  then have "0 < unat (c_size c)" by (simp add: chunk_ok_def unat_gt_0 word_neq_0_conv)
  then show ?thesis using chunk_end [OF c] by (auto simp: mem_chunk_has_addr_def span_def word_le_nat_alt)
qed

lemma chunk_nonempty: "chunk_ok c \<Longrightarrow> unat (c_start c) \<in> span c"
  by (simp add: chunk_ok_def span_def unat_gt_0 word_neq_0_conv)

lemma mem_wfD:
  assumes "mem_wf hp m es"
  shows "holds (chunk_list m) (h_nodes hp) es" "l_offset (chunk_list m) = 0"
    "e \<in> set es \<Longrightarrow> \<exists>c. h_chunks hp e = Some c \<and> chunk_ok c"
  using assms by (auto simp: mem_wf_def)

lemma mem_okD:
  assumes "mem_ok hp m es"
  shows "holds (chunk_list m) (h_nodes hp) es" "l_offset (chunk_list m) = 0"
    "e \<in> set es \<Longrightarrow> \<exists>c. h_chunks hp e = Some c \<and> chunk_ok c"
    "e \<in> set es \<Longrightarrow> f \<in> set es \<Longrightarrow> h_chunks hp e = Some c \<Longrightarrow> h_chunks hp f = Some d \<Longrightarrow> x \<in> span c \<Longrightarrow> x \<in> span d \<Longrightarrow> e = f"
proof -
  assume "e \<in> set es" "f \<in> set es" "h_chunks hp e = Some c" "h_chunks hp f = Some d" "x \<in> span c" "x \<in> span d"
  moreover from this have "e \<noteq> f \<Longrightarrow> span c \<inter> span d = {}" using assms unfolding mem_ok_def apart_def by blast
  ultimately show "e = f" by blast
qed (use assms in \<open>auto simp: mem_ok_def mem_wf_def\<close>)


section \<open>Finding a chunk\<close>

text \<open>The entry whose chunk has the address.\<close>

definition entry_at :: "heap \<Rightarrow> u64 list \<Rightarrow> u64 \<Rightarrow> u64 option" where
  "entry_at hp es a = find (\<lambda>e. case h_chunks hp e of None \<Rightarrow> False | Some c \<Rightarrow> mem_chunk_has_addr c a) es"

lemma entry_at_Some:
  assumes "mem_ok hp m es"
  shows "entry_at hp es a = Some e \<longleftrightarrow> e \<in> set es \<and> (\<exists>c. h_chunks hp e = Some c \<and> unat a \<in> span c)"
proof
  assume "entry_at hp es a = Some e"
  then show "e \<in> set es \<and> (\<exists>c. h_chunks hp e = Some c \<and> unat a \<in> span c)"
    using mem_okD(3) [OF assms, of e] has_addr_span
    by (fastforce simp: entry_at_def find_Some_iff split: option.splits)
next
  assume r: "e \<in> set es \<and> (\<exists>c. h_chunks hp e = Some c \<and> unat a \<in> span c)"
  then obtain c where c: "e \<in> set es" "h_chunks hp e = Some c" "unat a \<in> span c" by blast
  have "chunk_ok c" using mem_okD(3) [OF assms c(1)] c(2) by auto
  then have "entry_at hp es a \<noteq> None" using c has_addr_span by (auto simp: entry_at_def find_None_iff)
  then obtain f where f: "entry_at hp es a = Some f" by blast
  then have "f \<in> set es" "\<exists>d. h_chunks hp f = Some d \<and> mem_chunk_has_addr d a"
    by (auto simp: entry_at_def find_Some_iff split: option.splits)
  then obtain d where d: "f \<in> set es" "h_chunks hp f = Some d" "mem_chunk_has_addr d a" by blast
  then have "unat a \<in> span d" using mem_okD(3) [OF assms d(1)] has_addr_span by auto
  then show "entry_at hp es a = Some e" using mem_okD(4) [OF assms d(1) c(1) d(2) c(2)] c(3) f by blast
qed

lemma find_from_entry:
  "holds l (h_nodes hp) (es @ fs) \<Longrightarrow> \<forall>e \<in> set fs. h_chunks hp e \<noteq> None \<Longrightarrow>
     find_from hp l a (firstn fs 0) = Some (case entry_at hp fs a of None \<Rightarrow> 0 | Some e \<Rightarrow> e)"
proof (induction fs arbitrary: es)
  case Nil
  then show ?case by (subst find_from.simps) (simp add: entry_at_def)
next
  case (Cons g fs)
  have "g \<noteq> 0" using Cons.prems by (simp add: holds_def)
  moreover obtain c where "h_chunks hp g = Some c" using Cons.prems(2) by auto
  ultimately show ?case using Cons.IH [of "es @ [g]"] Cons.prems
    by (subst find_from.simps) (simp add: next_entry entry_at_def)
qed

text \<open>The cache is only a shortcut.\<close>

lemma find_exact:
  assumes m: "mem_ok hp m es" and c: "chunk_cache m \<in> set es"
  shows "mem_chunk_find hp m a =
    (case entry_at hp es a of None \<Rightarrow> Some (0, m) | Some e \<Rightarrow> Some (e, m\<lparr>chunk_cache := e\<rparr>))"
proof -
  note d = mem_okD [OF m]
  obtain k where k: "h_chunks hp (chunk_cache m) = Some k" "chunk_ok k" using d(3) [OF c] by blast
  have z: "0 \<notin> set es" using d(1) by (simp add: holds_def)
  have st: "util_list_start (chunk_list m) = firstn es 0" by (rule start_entry [OF d(1)])
  have ff: "find_from hp (chunk_list m) a (firstn es 0) = Some (case entry_at hp es a of None \<Rightarrow> 0 | Some e \<Rightarrow> e)"
    using find_from_entry [of "chunk_list m" hp "[]" es a] d(1,3) by force
  show ?thesis
  proof (cases "mem_chunk_has_addr k a")
    case True
    then have "entry_at hp es a = Some (chunk_cache m)"
      using entry_at_Some [OF m] c k has_addr_span [OF k(2)] by auto
    then show ?thesis using True k by (simp add: mem_chunk_find_def)
  next
    case False
    have "entry_at hp es a \<noteq> Some 0" using entry_at_Some [OF m] z by blast
    then show ?thesis using False k ff by (auto simp: mem_chunk_find_def st split: option.splits)
  qed
qed


section \<open>The bytes of the memory\<close>

definition dump_byte :: "(dfi_mem_chunk \<Rightarrow> u64 \<Rightarrow> u64 \<Rightarrow> u8) \<Rightarrow> heap \<Rightarrow> dfi_mem_chunk \<Rightarrow> u64 \<Rightarrow> u8 option" where
  "dump_byte img hp c a =
     (if c_data c = 0 then Some 0 else h_data hp (c_data c)) \<bind> (\<lambda>d. Some (img c d (a - c_start c)))"

definition phys_byte :: "(dfi_mem_chunk \<Rightarrow> u64 \<Rightarrow> u64 \<Rightarrow> u8) \<Rightarrow> heap \<Rightarrow> u64 list \<Rightarrow> u64 \<Rightarrow> u8 option" where
  "phys_byte img hp ps a = entry_at hp ps a \<bind> (\<lambda>e. h_chunks hp e \<bind> (\<lambda>c.
     case c_read_fn c of Map_read \<Rightarrow> None | Dump_read \<Rightarrow> dump_byte img hp c a))"

definition virt_byte ::
  "(dfi_mem_chunk \<Rightarrow> u64 \<Rightarrow> u64 \<Rightarrow> u8) \<Rightarrow> heap \<Rightarrow> u64 list \<Rightarrow> u64 list \<Rightarrow> u64 \<Rightarrow> u8 option" where
  "virt_byte img hp ps vs a = entry_at hp vs a \<bind> (\<lambda>e. h_chunks hp e \<bind> (\<lambda>c.
     case c_read_fn c of
       Map_read \<Rightarrow> h_data hp (c_data c) \<bind> (\<lambda>s. phys_byte img hp ps (s + (a - c_start c)))
     | Dump_read \<Rightarrow> dump_byte img hp c a))"

definition read_ok :: "dfi \<Rightarrow> u64 list \<Rightarrow> u64 list \<Rightarrow> bool" where
  "read_ok st ps vs \<longleftrightarrow> mem_ok (h st) (mem_phys st) ps \<and> mem_ok (h st) (mem_virt st) vs \<and>
     chunk_cache (mem_phys st) \<in> set ps \<and> chunk_cache (mem_virt st) \<in> set vs"

text \<open>Only the two caches differ.\<close>

definition recached :: "u64 list \<Rightarrow> u64 list \<Rightarrow> dfi \<Rightarrow> dfi \<Rightarrow> bool" where
  "recached ps vs st st' \<longleftrightarrow> (\<exists>x \<in> set ps. \<exists>y \<in> set vs.
     st' = st\<lparr>mem_phys := (mem_phys st)\<lparr>chunk_cache := x\<rparr>, mem_virt := (mem_virt st)\<lparr>chunk_cache := y\<rparr>\<rparr>)"

lemma mem_ok_cache [simp]: "mem_ok hp (m\<lparr>chunk_cache := x\<rparr>) es = mem_ok hp m es"
  by (simp add: mem_ok_def mem_wf_def)

lemma recached_ok: "recached ps vs st st' \<Longrightarrow> read_ok st ps vs \<Longrightarrow> read_ok st' ps vs \<and> h st' = h st"
  by (auto simp: recached_def read_ok_def)

lemma recached_refl: "read_ok st ps vs \<Longrightarrow> recached ps vs st st"
  unfolding recached_def read_ok_def
  by (intro bexI [of _ "chunk_cache (mem_phys st)"] bexI [of _ "chunk_cache (mem_virt st)"]) simp_all

lemma recached_trans: "recached ps vs st st' \<Longrightarrow> recached ps vs st' st'' \<Longrightarrow> recached ps vs st st''"
proof -
  assume "recached ps vs st st'" "recached ps vs st' st''"
  then obtain x y x' y' where "x' \<in> set ps" "y' \<in> set vs"
    and "st' = st\<lparr>mem_phys := (mem_phys st)\<lparr>chunk_cache := x\<rparr>, mem_virt := (mem_virt st)\<lparr>chunk_cache := y\<rparr>\<rparr>"
      "st'' = st'\<lparr>mem_phys := (mem_phys st')\<lparr>chunk_cache := x'\<rparr>, mem_virt := (mem_virt st')\<lparr>chunk_cache := y'\<rparr>\<rparr>"
    unfolding recached_def by blast
  then show ?thesis unfolding recached_def by (intro bexI [of _ x'] bexI [of _ y']) simp_all
qed

text \<open>The part of a range that lies in the chunk of its first address.\<close>

lemma block:
  assumes m: "mem_ok hp m es" and e: "entry_at hp es a = Some e" "h_chunks hp e = Some c" and n: "0 < cnt"
    and sz: "sz = min cnt (c_end c - a + 1)"
  shows "0 < unat sz" "unat sz \<le> unat cnt" "i < unat sz \<Longrightarrow> entry_at hp es (a + of_nat i) = Some e"
    "unat (cnt - sz) = unat cnt - unat sz"
proof -
  have ok: "chunk_ok c" and a: "unat a \<in> span c" "e \<in> set es"
    using entry_at_Some [OF m] e mem_okD(3) [OF m, of e] by auto
  have le: "a \<le> c_end c" using a(1) chunk_end [OF ok] by (auto simp: span_def word_le_nat_alt)
  have top: "unat (c_end c) < 2 ^ 64 - 1" 
  proof -
    have "0 < unat (c_size c)" using ok by (simp add: chunk_ok_def unat_gt_0 word_neq_0_conv)
    moreover have "unat (c_start c) + unat (c_size c) < 2 ^ 64" using ok by (simp add: chunk_ok_def)
    ultimately show ?thesis unfolding chunk_end [OF ok] by linarith
  qed
  have r: "unat (c_end c - a + 1) = unat (c_end c) - unat a + 1"
  proof -
    have "unat (c_end c - a) = unat (c_end c) - unat a" using le by (simp add: unat_sub)
    moreover from this top have "unat (c_end c - a) + unat (1 :: u64) < 2 ^ 64" by simp
    ultimately show ?thesis by (simp add: unat_add_lem [THEN iffD1])
  qed
  have u: "unat sz = min (unat cnt) (unat (c_end c) - unat a + 1)"
    unfolding sz r [symmetric] by (simp add: min_def word_le_nat_alt)
  show "0 < unat sz" using n by (simp add: u unat_gt_0)
  show "unat sz \<le> unat cnt" by (simp add: u)
  then show "unat (cnt - sz) = unat cnt - unat sz" by (simp add: unat_sub word_le_nat_alt)
  assume i: "i < unat sz"
  then have "unat a + i \<le> unat (c_end c)" using le by (auto simp: u word_le_nat_alt)
  moreover from this have "unat (a + of_nat i) = unat a + i"
    using top by (intro unat_eqI) simp_all
  ultimately have "unat (a + of_nat i) \<in> span c" using a(1) chunk_end [OF ok] by (auto simp: span_def)
  then show "entry_at hp es (a + of_nat i) = Some e" using entry_at_Some [OF m] e(2) a(2) by auto
qed

lemma dump_read_bytes:
  assumes "\<forall>i < unat sz. dump_byte img hp c (a + of_nat i) = Some (f i)" and "0 < unat sz"
  shows "dump_read img hp c (a - c_start c) sz = Some (map f [0..<unat sz])"
proof -
  obtain d where d: "(if c_data c = 0 then Some 0 else h_data hp (c_data c)) = Some d"
    using assms by (auto simp: dump_byte_def bind_eq_Some_conv)
  then have "img c d (a - c_start c + of_nat i) = f i" if "i < unat sz" for i
    using assms(1) that by (auto simp: dump_byte_def algebra_simps)
  then show ?thesis using d by (simp add: dump_read_def)
qed

lemma map_blocks: "k \<le> n \<Longrightarrow> map f [0..<k] @ map (\<lambda>i. f (i + k)) [0..<n - k] = map f [0..<n]"
proof -
  assume k: "k \<le> n"
  have "map (\<lambda>i. f (i + k)) [0..<n - k] = map f (map (\<lambda>i. i + k) [0..<n - k])" by simp
  also have "map (\<lambda>i. i + k) [0..<n - k] = [k..<n]" using k map_add_upt [of k "n - k"] by simp
  finally show ?thesis using k upt_add_eq_append [of 0 k "n - k"] by simp
qed

lemma shift_addr: "k \<le> n \<Longrightarrow> (a + of_nat k) + of_nat i = a + (of_nat (i + k) :: u64)"
  by simp

lemma set_mem_sel [simp]: "h (set_mem w m st) = h st" "the_mem w (set_mem w m st) = m"
  by (simp_all add: set_mem_def the_mem_def split: which.split)

lemma mem_read_step:
  assumes "cnt \<noteq> 0" and ok: "mem_ok (h st) (the_mem w st) es" "chunk_cache (the_mem w st) \<in> set es"
    and e: "entry_at (h st) es a = Some e" "h_chunks (h st) e = Some c"
    and sz: "sz = min cnt (c_end c - a + 1)" and st1: "st1 = set_mem w ((the_mem w st)\<lparr>chunk_cache := e\<rparr>) st"
  shows "mem_read img w st a cnt =
    (case c_read_fn c of
       Map_read \<Rightarrow> h_data (h st) (c_data c) \<bind> (\<lambda>s. mem_read img Phys st1 (s + (a - c_start c)) sz)
     | Dump_read \<Rightarrow> dump_read img (h st) c (a - c_start c) sz \<bind> (\<lambda>bs. Some (bs, st1))) \<bind> (\<lambda>(bs, st).
    mem_read img w st (a + sz) (cnt - sz) \<bind> (\<lambda>(bs', st). Some (bs @ bs', st)))"
  unfolding sz st1 using assms(1) find_exact [OF ok, of a] e by (cases "c_read_fn c"; subst mem_read.simps; simp add: Let_def)

text \<open>The loop, for either list of chunks: what it needs is that one block is read as it should.\<close>

definition entries :: "which \<Rightarrow> u64 list \<Rightarrow> u64 list \<Rightarrow> u64 list" where
  "entries w ps vs = (case w of Phys \<Rightarrow> ps | Virt \<Rightarrow> vs)"

lemma recached_set:
  assumes "read_ok st ps vs" "e \<in> set (entries w ps vs)"
  shows "recached ps vs st (set_mem w ((the_mem w st)\<lparr>chunk_cache := e\<rparr>) st)"
proof (cases w)
  case Phys
  with assms show ?thesis unfolding recached_def read_ok_def
    by (intro bexI [of _ e] bexI [of _ "chunk_cache (mem_virt st)"]) (simp_all add: set_mem_def the_mem_def entries_def)
next
  case Virt
  with assms show ?thesis unfolding recached_def read_ok_def
    by (intro bexI [of _ "chunk_cache (mem_phys st)"] bexI [of _ e]) (simp_all add: set_mem_def the_mem_def entries_def)
qed

lemma read_okD:
  "read_ok st ps vs \<Longrightarrow> mem_ok (h st) (the_mem w st) (entries w ps vs)"
  "read_ok st ps vs \<Longrightarrow> chunk_cache (the_mem w st) \<in> set (entries w ps vs)"
  by (auto simp: read_ok_def the_mem_def entries_def split: which.split)

lemma read_loop:
  assumes entry: "\<And>hp a b. byte hp a = Some b \<Longrightarrow> entry_at hp (entries w ps vs) a \<noteq> None"
    and one: "\<And>st a e c sz f st1. read_ok st ps vs \<Longrightarrow> st1 = set_mem w ((the_mem w st)\<lparr>chunk_cache := e\<rparr>) st \<Longrightarrow>
      e \<in> set (entries w ps vs) \<Longrightarrow> h_chunks (h st) e = Some c \<Longrightarrow> 0 < unat sz \<Longrightarrow>
      \<forall>i < unat sz. entry_at (h st) (entries w ps vs) (a + of_nat i) = Some e \<and> byte (h st) (a + of_nat i) = Some (f i) \<Longrightarrow>
      \<exists>st'. (case c_read_fn c of
           Map_read \<Rightarrow> h_data (h st) (c_data c) \<bind> (\<lambda>s. mem_read img Phys st1 (s + (a - c_start c)) sz)
         | Dump_read \<Rightarrow> dump_read img (h st) c (a - c_start c) sz \<bind> (\<lambda>bs. Some (bs, st1))) = Some (map f [0..<unat sz], st') \<and>
        recached ps vs st1 st'"
  shows "read_ok st ps vs \<Longrightarrow> \<forall>i < unat cnt. byte (h st) (a + of_nat i) = Some (f i) \<Longrightarrow>
    \<exists>st'. mem_read img w st a cnt = Some (map f [0..<unat cnt], st') \<and> recached ps vs st st'"
proof (induction "unat cnt" arbitrary: st a cnt f rule: less_induct)
  case less
  show ?case
  proof (cases "cnt = 0")
    case True
    then show ?thesis using recached_refl [OF less.prems(1)] by (subst mem_read.simps) simp
  next
    case False
    then have n: "0 < cnt" "0 < unat cnt" by (simp_all add: word_neq_0_conv unat_gt_0)
    note ok = read_okD [OF less.prems(1), of w]
    have "byte (h st) a = Some (f 0)" using less.prems(2) n(2) by force
    then obtain e where e: "entry_at (h st) (entries w ps vs) a = Some e" using entry by blast
    then obtain c where c: "h_chunks (h st) e = Some c" "e \<in> set (entries w ps vs)" using entry_at_Some [OF ok(1)] by blast
    define sz where "sz = min cnt (c_end c - a + 1)"
    note b = block [OF ok(1) e c(1) n(1) sz_def]
    define st1 where "st1 = set_mem w ((the_mem w st)\<lparr>chunk_cache := e\<rparr>) st"
    have c1: "recached ps vs st st1" unfolding st1_def by (rule recached_set [OF less.prems(1) c(2)])
    obtain st2 where r: "(case c_read_fn c of
           Map_read \<Rightarrow> h_data (h st) (c_data c) \<bind> (\<lambda>s. mem_read img Phys st1 (s + (a - c_start c)) sz)
         | Dump_read \<Rightarrow> dump_read img (h st) c (a - c_start c) sz \<bind> (\<lambda>bs. Some (bs, st1))) = Some (map f [0..<unat sz], st2)"
      "recached ps vs st1 st2"
      using one [OF less.prems(1) st1_def c(2,1) b(1), of a f] b(2,3) less.prems(2) by (meson order_less_le_trans)
    have c2: "recached ps vs st st2" by (rule recached_trans [OF c1 r(2)])
    note ok2 = recached_ok [OF c2 less.prems(1)]
    have "byte (h st2) ((a + sz) + of_nat i) = Some (f (i + unat sz))" if "i < unat (cnt - sz)" for i
    proof -
      have "i + unat sz < unat cnt" using that b(2,4) by simp
      then have "byte (h st) (a + of_nat (i + unat sz)) = Some (f (i + unat sz))" using less.prems(2) by blast
      then show ?thesis by (simp add: ok2 algebra_simps)
    qed
    moreover have "unat (cnt - sz) < unat cnt" using b(1,4) n(2) by simp
    ultimately obtain st3 where ih: "mem_read img w st2 (a + sz) (cnt - sz) =
        Some (map (\<lambda>i. f (i + unat sz)) [0..<unat (cnt - sz)], st3)" "recached ps vs st2 st3"
      using less.hyps [of "cnt - sz" st2 "a + sz" "\<lambda>i. f (i + unat sz)"] ok2 by blast
    have "mem_read img w st a cnt = Some (map f [0..<unat sz] @ map (\<lambda>i. f (i + unat sz)) [0..<unat (cnt - sz)], st3)"
      unfolding mem_read_step [OF False ok e c(1) sz_def st1_def] r using ih(1) by simp
    then show ?thesis using recached_trans [OF c2 ih(2)] map_blocks [OF b(2)] b(4) by simp
  qed
qed

text \<open>Physical memory, and the virtual memory on top of it.\<close>

lemma byte_at:
  assumes "entry_at hp es a = Some e" "h_chunks hp e = Some c"
  shows "phys_byte img hp es a = (if c_read_fn c = Dump_read then dump_byte img hp c a else None)"
    "virt_byte img hp ps es a = (if c_read_fn c = Dump_read then dump_byte img hp c a
       else h_data hp (c_data c) \<bind> (\<lambda>s. phys_byte img hp ps (s + (a - c_start c))))"
  using assms by (cases "c_read_fn c"; simp add: phys_byte_def virt_byte_def)+

lemma phys_read:
  assumes "read_ok st ps vs" "\<forall>i < unat cnt. phys_byte img (h st) ps (a + of_nat i) = Some (f i)"
  shows "\<exists>st'. mem_read img Phys st a cnt = Some (map f [0..<unat cnt], st') \<and> recached ps vs st st'"
  using assms(1)
proof (rule read_loop [where byte = "\<lambda>hp. phys_byte img hp ps", rotated 2])
  fix st a e c f st1 and sz :: u64
  assume r: "read_ok st ps vs" "st1 = set_mem Phys ((the_mem Phys st)\<lparr>chunk_cache := e\<rparr>) st" "e \<in> set (entries Phys ps vs)"
    and c: "h_chunks (h st) e = Some c" "0 < unat sz"
    and f: "\<forall>i < unat sz. entry_at (h st) (entries Phys ps vs) (a + of_nat i) = Some e \<and>
      phys_byte img (h st) ps (a + of_nat i) = Some (f i)"
  have b: "entry_at (h st) ps (a + of_nat i) = Some e" "phys_byte img (h st) ps (a + of_nat i) = Some (f i)"
    if "i < unat sz" for i using f that by (simp_all add: entries_def)
  have "c_read_fn c = Dump_read" using b [OF c(2)] byte_at(1) [OF b(1) [OF c(2)] c(1), of img] by (simp split: if_splits)
  moreover from this have "\<forall>i < unat sz. dump_byte img (h st) c (a + of_nat i) = Some (f i)"
    using b byte_at(1) [OF b(1) c(1), of _ img] by simp
  then have "dump_read img (h st) c (a - c_start c) sz = Some (map f [0..<unat sz])" by (rule dump_read_bytes) (rule c(2))
  ultimately show "\<exists>st'. (case c_read_fn c of
           Map_read \<Rightarrow> h_data (h st) (c_data c) \<bind> (\<lambda>s. mem_read img Phys st1 (s + (a - c_start c)) sz)
         | Dump_read \<Rightarrow> dump_read img (h st) c (a - c_start c) sz \<bind> (\<lambda>bs. Some (bs, st1))) = Some (map f [0..<unat sz], st') \<and>
        recached ps vs st1 st'"
    using recached_refl recached_ok [OF recached_set [OF r(1,3)] r(1)] r(2) by fastforce
qed (use assms(2) in \<open>auto simp: phys_byte_def entries_def bind_eq_Some_conv\<close>)

lemma virt_read:
  assumes "read_ok st ps vs" "\<forall>i < unat cnt. virt_byte img (h st) ps vs (a + of_nat i) = Some (f i)"
  shows "\<exists>st'. mem_read img Virt st a cnt = Some (map f [0..<unat cnt], st') \<and> recached ps vs st st'"
  using assms(1)
proof (rule read_loop [where byte = "\<lambda>hp. virt_byte img hp ps vs", rotated 2])
  fix st a e c f st1 and sz :: u64
  assume r: "read_ok st ps vs" "st1 = set_mem Virt ((the_mem Virt st)\<lparr>chunk_cache := e\<rparr>) st" "e \<in> set (entries Virt ps vs)"
    and c: "h_chunks (h st) e = Some c" "0 < unat sz"
    and f: "\<forall>i < unat sz. entry_at (h st) (entries Virt ps vs) (a + of_nat i) = Some e \<and>
      virt_byte img (h st) ps vs (a + of_nat i) = Some (f i)"
  have b: "entry_at (h st) vs (a + of_nat i) = Some e" "virt_byte img (h st) ps vs (a + of_nat i) = Some (f i)"
    if "i < unat sz" for i using f that by (simp_all add: entries_def)
  note vb = byte_at(2) [OF b(1) c(1), of _ img ps]
  have st1: "read_ok st1 ps vs" "h st1 = h st" using recached_ok [OF recached_set [OF r(1,3)] r(1)] r(2) by simp_all
  show "\<exists>st'. (case c_read_fn c of
           Map_read \<Rightarrow> h_data (h st) (c_data c) \<bind> (\<lambda>s. mem_read img Phys st1 (s + (a - c_start c)) sz)
         | Dump_read \<Rightarrow> dump_read img (h st) c (a - c_start c) sz \<bind> (\<lambda>bs. Some (bs, st1))) = Some (map f [0..<unat sz], st') \<and>
        recached ps vs st1 st'"
  proof (cases "c_read_fn c")
    case Map_read
    obtain s where s: "h_data (h st) (c_data c) = Some s"
      using b(2) [OF c(2)] vb [OF c(2)] Map_read by (cases "h_data (h st) (c_data c)") simp_all
    have "\<forall>i < unat sz. phys_byte img (h st1) ps ((s + (a - c_start c)) + of_nat i) = Some (f i)"
      using b(2) vb Map_read s by (simp add: st1(2) algebra_simps)
    from phys_read [OF st1(1) this] show ?thesis using Map_read s by simp
  next
    case Dump_read
    then have "\<forall>i < unat sz. dump_byte img (h st) c (a + of_nat i) = Some (f i)"
      using b(2) vb by simp
    then have "dump_read img (h st) c (a - c_start c) sz = Some (map f [0..<unat sz])" by (rule dump_read_bytes) (rule c(2))
    then show ?thesis using Dump_read recached_refl [OF st1(1)] by simp
  qed
qed (use assms(2) in \<open>auto simp: virt_byte_def entries_def bind_eq_Some_conv\<close>)


section \<open>Valid ranges\<close>

lemma chunk_find_exact:
  assumes "read_ok st ps vs"
  shows "dfi_mem_chunk_find st a =
    (case entry_at (h st) vs a of None \<Rightarrow> Some (0, st) | Some e \<Rightarrow> Some (e, st\<lparr>mem_virt := (mem_virt st)\<lparr>chunk_cache := e\<rparr>\<rparr>))"
  using assms find_exact [of "h st" "mem_virt st" vs a]
  by (auto simp: read_ok_def dfi_mem_chunk_find_def split: option.split)

lemma recached_find:
  "read_ok st ps vs \<Longrightarrow> e \<in> set vs \<Longrightarrow> recached ps vs st (st\<lparr>mem_virt := (mem_virt st)\<lparr>chunk_cache := e\<rparr>\<rparr>)"
  using recached_set [of st ps vs e Virt] by (simp add: set_mem_def the_mem_def entries_def)

text \<open>What the first chunk covers.\<close>

lemma chunk_covers:
  assumes m: "mem_ok hp m es" and e: "entry_at hp es a = Some e" "h_chunks hp e = Some c" and len: "0 < unat len"
  defines "b \<equiv> a + min len (c_end c - a + 1)"
  shows "unat a < unat b" "unat b \<le> unat a + unat len" "\<forall>x \<in> {unat a..<unat b}. entry_at hp es (of_nat x) \<noteq> None"
proof -
  have "0 < len" using len by (simp add: unat_gt_0 word_neq_0_conv)
  note bl = block [OF m e this refl]
  have ok: "chunk_ok c" and a: "unat a \<in> span c" using entry_at_Some [OF m] e mem_okD(3) [OF m, of e] by auto
  have le: "unat a \<le> unat (c_end c)" using a chunk_end [OF ok] by (auto simp: span_def)
  have "unat (c_end c) < 2 ^ 64 - 1"
    using a ok chunk_end [OF ok] by (auto simp: chunk_ok_def span_def)
  moreover have "unat (c_end c - a + 1) \<le> unat (c_end c) - unat a + 1"
  proof -
    have "unat (c_end c - a) = unat (c_end c) - unat a" using le by (simp add: unat_sub word_le_nat_alt)
    then show ?thesis using unat_word_ariths(1) [of "c_end c - a" 1] by (metis One_nat_def le_refl mod_less_eq_dividend unsigned_1)
  qed
  moreover have "unat (min len (c_end c - a + 1)) \<le> unat (c_end c - a + 1)" by (simp add: min_def word_le_nat_alt)
  ultimately have "unat a + unat (min len (c_end c - a + 1)) < 2 ^ 64" using le by linarith
  then have b: "unat b = unat a + unat (min len (c_end c - a + 1))" unfolding b_def by (simp add: unat_add_lem [THEN iffD1])
  then show "unat a < unat b" "unat b \<le> unat a + unat len" using bl(1,2) by simp_all
  show "\<forall>x \<in> {unat a..<unat b}. entry_at hp es (of_nat x) \<noteq> None"
  proof
    fix x assume "x \<in> {unat a..<unat b}"
    then have "entry_at hp es (a + of_nat (x - unat a)) = Some e" using b by (intro bl(3)) auto
    moreover have "a + of_nat (x - unat a) = of_nat x" using \<open>x \<in> {unat a..<unat b}\<close> by (simp add: of_nat_diff)
    ultimately show "entry_at hp es (of_nat x) \<noteq> None" by simp
  qed
qed

lemma range_valid_loop:
  assumes "read_ok st ps vs" "unat a < unat stop" "unat stop \<le> unat a + unat len"
  shows "\<exists>st'. range_valid_from st a len stop = Some (\<forall>x \<in> {unat a..<unat stop}. entry_at (h st) vs (of_nat x) \<noteq> None, st') \<and>
    recached ps vs st st'"
  using assms
proof (induction "unat stop - unat a" arbitrary: st a rule: less_induct)
  case less
  show ?case
  proof (cases "entry_at (h st) vs a")
    case None
    then have "\<not> (\<forall>x \<in> {unat a..<unat stop}. entry_at (h st) vs (of_nat x) \<noteq> None)"
      using less.prems(2) by (intro notI) (auto dest: bspec [of _ _ "unat a"])
    then show ?thesis using None recached_refl [OF less.prems(1)]
      by (subst range_valid_from.simps) (simp add: chunk_find_exact [OF less.prems(1)])
  next
    case (Some e)
    have ok: "mem_ok (h st) (mem_virt st) vs" using less.prems(1) by (simp add: read_ok_def)
    obtain c where c: "h_chunks (h st) e = Some c" "e \<in> set vs" using entry_at_Some [OF ok] Some by blast
    have z: "e \<noteq> 0" using c(2) mem_okD(1) [OF ok] by (auto simp: holds_def)
    define b where "b = a + min len (c_end c - a + 1)"
    have "0 < unat len" using less.prems(2,3) by simp
    note cov = chunk_covers [OF ok Some c(1) this, folded b_def]
    let ?st = "st\<lparr>mem_virt := (mem_virt st)\<lparr>chunk_cache := e\<rparr>\<rparr>"
    have rc: "recached ps vs st ?st" by (rule recached_find [OF less.prems(1) c(2)])
    have step: "range_valid_from st a len stop = (if b < stop then range_valid_from ?st b len stop else Some (True, ?st))"
      using z c(1) Some by (subst range_valid_from.simps) (simp add: chunk_find_exact [OF less.prems(1)] Let_def b_def)
    show ?thesis
    proof (cases "b < stop")
      case True
      then have "unat b < unat stop" "unat stop - unat b < unat stop - unat a"
        using cov(1) by (simp_all add: word_less_nat_alt)
      then obtain st' where ih: "range_valid_from ?st b len stop =
          Some (\<forall>x \<in> {unat b..<unat stop}. entry_at (h ?st) vs (of_nat x) \<noteq> None, st')" "recached ps vs ?st st'"
        using less.hyps [of b ?st] recached_ok [OF rc less.prems(1)] cov(1) less.prems(2,3) by auto
      have "{unat a..<unat stop} = {unat a..<unat b} \<union> {unat b..<unat stop}"
        using True cov(1) by (auto simp: word_less_nat_alt)
      then have "(\<forall>x \<in> {unat b..<unat stop}. entry_at (h ?st) vs (of_nat x) \<noteq> None) =
          (\<forall>x \<in> {unat a..<unat stop}. entry_at (h st) vs (of_nat x) \<noteq> None)" using cov(3) by auto
      then show ?thesis using step True ih recached_trans [OF rc ih(2)] by auto
    next
      case False
      then have "\<forall>x \<in> {unat a..<unat stop}. entry_at (h st) vs (of_nat x) \<noteq> None"
        using cov(3) by (auto simp: word_less_nat_alt)
      then show ?thesis using step False rc by simp
    qed
  qed
qed

lemma range_valid:
  assumes "read_ok st ps vs" "0 < len" "unat a + unat len < 2 ^ 64"
  shows "\<exists>st'. dfi_mem_range_valid st a len =
      Some (\<forall>x \<in> {unat a..<unat a + unat len}. entry_at (h st) vs (of_nat x) \<noteq> None, st') \<and> recached ps vs st st'"
proof -
  have "unat (a + len) = unat a + unat len" using assms(3) by (simp add: unat_add_lem [THEN iffD1])
  then show ?thesis using range_valid_loop [OF assms(1), of a "a + len" len] assms(2)
    by (simp add: dfi_mem_range_valid_def unat_gt_0 word_neq_0_conv)
qed

end
