(* ===== verification/Dfi_Unmap.thy ===== *)
theory Dfi_Unmap
  imports Dfi_Read
begin

text \<open>
  Cutting ranges out of the virtual memory of a dump and mapping them elsewhere.  The abstract view
  is the map from virtual to physical addresses: \<open>mem_unmap\<close> takes the range out of it and leaves
  the rest, \<open>mem_map\<close> adds a range, both while the list of chunks is being walked.
\<close>

section \<open>Addresses\<close>

definition trans_of :: "heap \<Rightarrow> dfi_mem_chunk \<Rightarrow> u64 \<Rightarrow> u64 option" where
  "trans_of hp c a =
     (if c_read_fn c = Map_read then h_data hp (c_data c) \<bind> (\<lambda>s. Some (s + (a - c_start c))) else Some a)"

definition vtrans :: "heap \<Rightarrow> u64 list \<Rightarrow> u64 \<Rightarrow> u64 option" where
  "vtrans hp es a = entry_at hp es a \<bind> (\<lambda>e. h_chunks hp e \<bind> (\<lambda>c. trans_of hp c a))"

lemma vtrans_Some:
  assumes "mem_ok hp m es"
  shows "vtrans hp es a = Some p \<longleftrightarrow>
    (\<exists>e \<in> set es. \<exists>c. h_chunks hp e = Some c \<and> unat a \<in> span c \<and> trans_of hp c a = Some p)"
  using entry_at_Some [OF assms, of a] by (fastforce simp: vtrans_def bind_eq_Some_conv)

lemma option_eqI: "(\<And>y. x = Some y \<longleftrightarrow> z = Some y) \<Longrightarrow> x = z"
  by (cases x; cases z) auto

lemma range_end:
  fixes start sz :: u64
  assumes "0 < sz" "unat start + unat sz < 2 ^ 64"
  shows "unat (start + sz) = unat start + unat sz" "unat (start + sz - 1) = unat start + unat sz - 1"
proof -
  show u: "unat (start + sz) = unat start + unat sz" using assms(2) by (simp add: unat_add_lem [THEN iffD1])
  have "0 < unat sz" using assms(1) by (simp add: unat_gt_0 word_neq_0_conv)
  then have "start + sz \<noteq> 0" using u by (metis add_is_0 less_numeral_extra(3) unat_0)
  then show "unat (start + sz - 1) = unat start + unat sz - 1" using u by (simp add: unat_minus_one)
qed


section \<open>The virtual chunks beside the physical ones\<close>

text \<open>The memory that belongs to the physical chunks: the chunks \<open>Q\<close> and the data \<open>D\<close>.  A virtual
  chunk of the dump shares its data with the physical chunk and must not release it; a mapped chunk
  has data of its own.\<close>

definition data_ok :: "u64 set \<Rightarrow> heap \<Rightarrow> dfi_mem_chunk \<Rightarrow> bool" where
  "data_ok D hp c \<longleftrightarrow>
     (if c_read_fn c = Map_read then c_data c \<noteq> 0 \<and> h_data hp (c_data c) \<noteq> None \<and> c_data c \<notin> D
      else c_data c \<in> insert 0 D \<and> \<not> (c_data c \<noteq> 0 \<and> c_free_fn c))"

definition virt_wf :: "u64 set \<Rightarrow> u64 set \<Rightarrow> heap \<Rightarrow> mem \<Rightarrow> u64 list \<Rightarrow> bool" where
  "virt_wf Q D hp m es \<longleftrightarrow> mem_wf hp m es \<and> set es \<inter> Q = {} \<and> Q \<subseteq> dom (h_chunks hp) \<and> D \<subseteq> dom (h_data hp) \<and>
     (\<forall>e \<in> set es. \<forall>c. h_chunks hp e = Some c \<longrightarrow> data_ok D hp c) \<and>
     (\<forall>e \<in> set es. \<forall>f \<in> set es. \<forall>c d. h_chunks hp e = Some c \<longrightarrow> h_chunks hp f = Some d \<longrightarrow> e \<noteq> f \<longrightarrow>
        c_read_fn c = Map_read \<longrightarrow> c_data d \<noteq> c_data c)"

text \<open>What is in use, and what an allocation gives as long as there is memory.\<close>

definition in_use :: "heap \<Rightarrow> u64 set" where
  "in_use hp = dom (h_nodes hp) \<union> dom (h_chunks hp) \<union> dom (h_data hp)"

definition alloc_ok :: "(heap \<Rightarrow> u64) \<Rightarrow> bool" where
  "alloc_ok alloc \<longleftrightarrow> (\<forall>hp. card (in_use hp) < 2 ^ 64 - 1 \<longrightarrow> alloc hp \<noteq> 0 \<and> alloc hp \<notin> in_use hp)"

text \<open>The physical chunks, and the other virtual ones, are left alone.\<close>

definition kept :: "u64 set \<Rightarrow> u64 set \<Rightarrow> heap \<Rightarrow> heap \<Rightarrow> bool" where
  "kept Q D hp hp' \<longleftrightarrow> (\<forall>x \<in> Q. h_nodes hp' x = h_nodes hp x \<and> h_chunks hp' x = h_chunks hp x) \<and>
     (\<forall>d \<in> D. h_data hp' d = h_data hp d)"

lemma kept_trans: "kept Q D hp hp' \<Longrightarrow> kept Q D hp' hp'' \<Longrightarrow> kept Q D hp hp''"
  by (simp add: kept_def)

lemma kept_refl [simp]: "kept Q D hp hp"
  by (simp add: kept_def)


section \<open>A new chunk\<close>

lemma no_offset: "l_offset l = 0 \<Longrightarrow> e2n l e = e"
  by (simp add: e2n_def)

text \<open>\<open>mem_chunk_create\<close> at a fresh address.\<close>

lemma create:
  assumes m: "mem_wf hp m es" and a: "alloc hp = a" "a \<noteq> 0" "a \<notin> in_use hp"
    and c: "c = \<lparr>c_start = start, c_end = start + sz - 1, c_size = sz, c_read_fn = rf, c_free_fn = ff, c_data = data\<rparr>"
      "chunk_ok c"
  shows "\<exists>hp' m'. mem_chunk_create alloc hp m start sz data rf ff = Some (hp', m') \<and> mem_wf hp' m' (es @ [a]) \<and>
    h_chunks hp' = (h_chunks hp)(a \<mapsto> c) \<and> h_data hp' = h_data hp \<and> dom (h_nodes hp') = insert a (dom (h_nodes hp)) \<and>
    (\<forall>x. x \<notin> set es \<and> x \<noteq> a \<longrightarrow> h_nodes hp' x = h_nodes hp x) \<and> chunk_cache m' = a \<and> chunk_cnt m' = chunk_cnt m + 1"
proof -
  let ?h = "new_chunk a c hp"
  note d = mem_wfD [OF m]
  have ne: "a \<notin> set es" using a(3) d(3) by (auto simp: in_use_def)
  have off: "e2n (chunk_list m) x = x" for x using d(2) by (rule no_offset)
  have hh: "holds (chunk_list m) (h_nodes ?h) es"
  proof -
    have "seg (h_nodes ?h) 0 (nodes_of (chunk_list m) es) 0 = seg (h_nodes hp) 0 (nodes_of (chunk_list m) es) 0"
      using ne by (intro seg_frame) (auto simp: new_chunk_def off)
    then show ?thesis using d(1) by (simp add: holds_def)
  qed
  have "fresh (chunk_list m) (h_nodes ?h) es a" using ne a(2) by (simp add: fresh_def off new_chunk_def)
  from add_tail [OF hh this] obtain l ns where t: "util_list_add_tail (chunk_list m) (h_nodes ?h) a = Some (l, ns)"
    "l_offset l = 0" "holds l ns (es @ [a])" "only (chunk_list m) (set (es @ [a])) (h_nodes ?h) ns"
    using d(2) by (auto simp: became_def split: option.splits)
  have o: "dom ns = insert a (dom (h_nodes hp))" "x \<notin> set es \<and> x \<noteq> a \<Longrightarrow> ns x = h_nodes hp x" for x
    using t(4) by (auto simp: only_def new_chunk_def off image_iff)
  let ?hp = "?h\<lparr>h_nodes := ns\<rparr>" and ?m = "m\<lparr>chunk_list := l, start_addr := min (start_addr m) (c_start c),
    end_addr := max (end_addr m) (c_end c), chunk_cache := a, chunk_cnt := chunk_cnt m + 1\<rparr>"
  have r: "mem_chunk_create alloc hp m start sz data rf ff = Some (?hp, ?m)"
    using t(1) by (simp add: mem_chunk_create_def Let_def a(1) c(1) [symmetric])
  have hc: "h_chunks ?hp = (h_chunks hp)(a \<mapsto> c)" by (simp add: new_chunk_def)
  have "mem_wf ?hp ?m (es @ [a])" unfolding mem_wf_def hc
  proof (intro conjI)
    show "\<forall>e \<in> set (es @ [a]). \<exists>ca. ((h_chunks hp)(a \<mapsto> c)) e = Some ca \<and> chunk_ok ca" using d(3) c(2) ne by auto
  qed (use t in simp_all)
  with r hc o show ?thesis by (intro exI [of _ ?hp] exI [of _ ?m]) (simp add: new_chunk_def)
qed

lemma virt_wfD:
  assumes "virt_wf Q D hp m es"
  shows "mem_wf hp m es" "set es \<inter> Q = {}" "Q \<subseteq> dom (h_chunks hp)" "D \<subseteq> dom (h_data hp)"
    "e \<in> set es \<Longrightarrow> h_chunks hp e = Some c \<Longrightarrow> data_ok D hp c"
    "e \<in> set es \<Longrightarrow> f \<in> set es \<Longrightarrow> h_chunks hp e = Some c \<Longrightarrow> h_chunks hp f = Some d \<Longrightarrow> e \<noteq> f \<Longrightarrow>
       c_read_fn c = Map_read \<Longrightarrow> c_data d \<noteq> c_data c"
  using assms by (auto simp: virt_wf_def)

text \<open>The data of a chunk that is there already is in use.\<close>

lemma data_in_use: "data_ok D hp c \<Longrightarrow> D \<subseteq> dom (h_data hp) \<Longrightarrow> c_data c = 0 \<or> c_data c \<in> dom (h_data hp)"
  by (auto simp: data_ok_def split: if_splits)

text \<open>A new mapped chunk, in terms of what the later proofs use.\<close>

definition added :: "u64 set \<Rightarrow> u64 set \<Rightarrow> heap \<Rightarrow> u64 list \<Rightarrow> u64 \<Rightarrow> u64 \<Rightarrow> u64 \<Rightarrow> u64 \<Rightarrow> heap \<Rightarrow> mem \<Rightarrow> bool" where
  "added Q D hp es start sz p n hp' m' \<longleftrightarrow> virt_wf Q D hp' m' (es @ [n]) \<and> kept Q D hp hp' \<and> n \<notin> dom (h_chunks hp) \<and>
     (\<exists>c. h_chunks hp' n = Some c \<and> c_start c = start \<and> c_size c = sz \<and> chunk_ok c \<and> c_read_fn c = Map_read \<and>
        h_data hp' (c_data c) = Some p) \<and>
     (\<forall>e. e \<noteq> n \<longrightarrow> h_chunks hp' e = h_chunks hp e) \<and> (\<forall>d \<in> dom (h_data hp). h_data hp' d = h_data hp d) \<and>
     card (in_use hp') \<le> card (in_use hp) + 2 \<and> chunk_cache m' = n"

lemma map_add:
  assumes v: "virt_wf Q D hp m es" and al: "alloc_ok alloc" and room: "card (in_use hp) + 2 < 2 ^ 64"
    and sz: "0 < sz" "unat start + unat sz < 2 ^ 64"
  shows "\<exists>hp' m' n. mem_chunk_map_add alloc hp m start sz p = Some (hp', m') \<and> added Q D hp es start sz p n hp' m'"
proof -
  note d = virt_wfD [OF v]
  define a where "a = alloc hp"
  have a: "a \<noteq> 0" "a \<notin> in_use hp" using al room by (auto simp: alloc_ok_def a_def)
  define hp1 where "hp1 = hp\<lparr>h_data := (h_data hp)(a \<mapsto> p)\<rparr>"
  have u1: "in_use hp1 = insert a (in_use hp)" by (auto simp: in_use_def hp1_def)
  define n where "n = alloc hp1"
  have card1: "card (in_use hp1) = card (in_use hp) + 1" using a(2) by (simp add: u1)
  have n: "n \<noteq> 0" "n \<notin> in_use hp1" using al room card1 by (auto simp: alloc_ok_def n_def)
  define c where "c = \<lparr>c_start = start, c_end = start + sz - 1, c_size = sz, c_read_fn = Map_read, c_free_fn = True, c_data = a\<rparr>"
  have ok1: "mem_wf hp1 m es" using d(1) by (simp add: mem_wf_def hp1_def)
  have cok: "chunk_ok c" using sz by (simp add: chunk_ok_def c_def)
  from create [where alloc = alloc, OF ok1 n_def [symmetric] n c_def cok] obtain hp' m' where
    r: "mem_chunk_create alloc hp1 m start sz a Map_read True = Some (hp', m')" and ok': "mem_wf hp' m' (es @ [n])"
    and hc: "h_chunks hp' = (h_chunks hp1)(n \<mapsto> c)" and hd: "h_data hp' = h_data hp1"
    and hn: "dom (h_nodes hp') = insert n (dom (h_nodes hp1))" "\<forall>x. x \<notin> set es \<and> x \<noteq> n \<longrightarrow> h_nodes hp' x = h_nodes hp1 x"
    and cache: "chunk_cache m' = n" by blast
  have call: "mem_chunk_map_add alloc hp m start sz p = Some (hp', m')"
    using r by (simp add: mem_chunk_map_add_def dfi_mem_chunk_virt_add_def Let_def a_def hp1_def)
  have nn: "n \<notin> dom (h_chunks hp)" "n \<notin> dom (h_data hp)" "n \<noteq> a" and an: "a \<notin> dom (h_data hp)"
    using n a by (auto simp: in_use_def hp1_def)
  have nQ: "n \<notin> Q" "n \<notin> set es" using nn(1) d(3) mem_wfD(3) [OF d(1)] by auto
  have aD: "a \<notin> D" using an d(4) by auto
  have old: "h_data hp' x = h_data hp x" if "x \<noteq> a" for x using that by (simp add: hd hp1_def)
  have data: "data_ok D hp' k" if "e \<in> set es" "h_chunks hp e = Some k" for e k
  proof -
    have "c_data k \<noteq> a" using data_in_use [OF d(5) [OF that] d(4)] an a(1) by auto
    then show ?thesis using d(5) [OF that] old [of "c_data k"] by (auto simp: data_ok_def split: if_splits)
  qed
  have use': "in_use hp' = insert n (in_use hp1)" using hn(1) by (auto simp: in_use_def hc hd)
  have "virt_wf Q D hp' m' (es @ [n])" unfolding virt_wf_def
  proof (intro conjI)
    show "set (es @ [n]) \<inter> Q = {}" using d(2) nQ by auto
    show "Q \<subseteq> dom (h_chunks hp')" "D \<subseteq> dom (h_data hp')" using d(3,4) by (auto simp: hc hd hp1_def)
    show "\<forall>e \<in> set (es @ [n]). \<forall>k. h_chunks hp' e = Some k \<longrightarrow> data_ok D hp' k"
    proof (intro ballI allI impI)
      fix e k assume e: "e \<in> set (es @ [n])" "h_chunks hp' e = Some k"
      show "data_ok D hp' k"
      proof (cases "e = n")
        case True
        then have "k = c" using e(2) by (simp add: hc)
        then show ?thesis using aD a(1) by (simp add: data_ok_def c_def hd hp1_def)
      next
        case False
        then show ?thesis using data [of e k] e by (simp add: hc hp1_def)
      qed
    qed
    show "\<forall>e \<in> set (es @ [n]). \<forall>f \<in> set (es @ [n]). \<forall>k l. h_chunks hp' e = Some k \<longrightarrow> h_chunks hp' f = Some l \<longrightarrow> e \<noteq> f \<longrightarrow>
        c_read_fn k = Map_read \<longrightarrow> c_data l \<noteq> c_data k"
    proof (intro ballI allI impI)
      fix e f k l
      assume e: "e \<in> set (es @ [n])" "f \<in> set (es @ [n])" "h_chunks hp' e = Some k" "h_chunks hp' f = Some l" "e \<noteq> f" "c_read_fn k = Map_read"
      have "c_data x \<noteq> a" if "y \<in> set es" "h_chunks hp y = Some x" for x y
        using data_in_use [OF d(5) [OF that] d(4)] an a(1) by auto
      then show "c_data l \<noteq> c_data k" using e d(6) nQ(2) by (auto simp: hc hp1_def c_def split: if_splits) blast
    qed
  qed (rule ok')
  moreover have "kept Q D hp hp'" using nQ hn(2) aD d(2) by (auto simp: kept_def hc hd hp1_def)
  moreover have "card (in_use hp') \<le> card (in_use hp) + 2" using n(2) card1 by (simp add: use')
  ultimately have "added Q D hp es start sz p n hp' m'"
    unfolding added_def using nn an cok cache old by (auto simp: hc hd hp1_def c_def)
  then show ?thesis using call by blast
qed


section \<open>Removing a chunk\<close>

lemma holds_frame: "holds l m es \<Longrightarrow> \<forall>e \<in> set es. m' (e2n l e) = m (e2n l e) \<Longrightarrow> holds l m' es"
  using seg_frame [of "nodes_of l es" m' m 0 0] by (simp add: holds_def)

text \<open>The other chunks of a list, and the data of the mapped ones among them.\<close>

definition same_chunks :: "u64 set \<Rightarrow> heap \<Rightarrow> heap \<Rightarrow> bool" where
  "same_chunks S hp hp' \<longleftrightarrow> (\<forall>e \<in> S. h_chunks hp' e = h_chunks hp e \<and>
     (\<forall>c. h_chunks hp e = Some c \<longrightarrow> c_read_fn c = Map_read \<longrightarrow> h_data hp' (c_data c) = h_data hp (c_data c)))"

lemma same_trans: "same_chunks S hp hp' \<Longrightarrow> e \<in> S \<Longrightarrow> h_chunks hp e = Some c \<Longrightarrow> trans_of hp' c a = trans_of hp c a"
  by (simp add: same_chunks_def trans_of_def)

lemma same_chunksD: "same_chunks S hp hp' \<Longrightarrow> e \<in> S \<Longrightarrow> h_chunks hp' e = h_chunks hp e"
  by (simp add: same_chunks_def)

lemma same_chunks_trans: "same_chunks S hp hp' \<Longrightarrow> same_chunks S hp' hp'' \<Longrightarrow> same_chunks S hp hp''"
  by (simp add: same_chunks_def)

lemma free_chunk:
  assumes v: "virt_wf Q D hp m (us @ i # rs)" and c: "h_chunks hp i = Some c"
  shows "\<exists>hp' m'. unmap_free i c hp m = Some (hp', m') \<and> virt_wf Q D hp' m' (us @ rs) \<and> kept Q D hp hp' \<and>
    same_chunks (set (us @ rs)) hp hp' \<and> in_use hp' \<subseteq> in_use hp \<and> chunk_cache m' = chunk_cache m"
proof -
  note d = virt_wfD [OF v]
  note o = mem_wfD [OF d(1)]
  have i: "i \<in> set (us @ i # rs)" "i \<notin> Q" "i \<notin> set (us @ rs)" using d(2) o(1) by (auto simp: holds_def)
  have off: "e2n (chunk_list m) x = x" for x using o(2) by (rule no_offset)
  obtain l ns where r: "util_list_remove (chunk_list m) (h_nodes hp) i = Some (l, ns)" "l_offset l = 0" "holds l ns (us @ rs)"
    "only (chunk_list m) (set (us @ i # rs)) (h_nodes hp) ns"
    using remove [OF o(1)] o(2) by (auto simp: became_def split: option.splits)
  let ?d = "if c_data c \<noteq> 0 \<and> c_free_fn c then (h_data hp)(c_data c := None) else h_data hp"
  let ?h = "hp\<lparr>h_data := ?d, h_nodes := ns(i := None), h_chunks := (h_chunks hp)(i := None)\<rparr>"
  let ?m = "m\<lparr>chunk_list := l, chunk_cnt := chunk_cnt m - 1\<rparr>"
  have call: "unmap_free i c hp m = Some (?h, ?m)" using r(1) by (simp add: unmap_free_def Let_def)
  have dc: "data_ok D hp c" using d(5) [OF i(1) c] .
  then have D: "\<forall>x \<in> D. ?d x = h_data hp x" by (auto simp: data_ok_def split: if_splits)
  have other: "c_data k \<noteq> c_data c \<or> \<not> c_free_fn c \<or> c_data c = 0" if "e \<in> set (us @ rs)" "h_chunks hp e = Some k" for e k
  proof (cases "c_read_fn c")
    case Map_read
    moreover have "e \<in> set (us @ i # rs)" "i \<noteq> e" using that(1) i(3) by auto
    ultimately have "c_data k \<noteq> c_data c" using d(6) [OF i(1) _ c that(2)] by simp
    then show ?thesis by simp
  next
    case Dump_read
    then show ?thesis using dc by (auto simp: data_ok_def)
  qed
  have same: "same_chunks (set (us @ rs)) hp ?h"
    unfolding same_chunks_def using i(3) other by auto
  have data: "data_ok D ?h k" if "e \<in> set (us @ rs)" "h_chunks hp e = Some k" for e k
  proof -
    have "e \<in> set (us @ i # rs)" using that(1) by auto
    then show ?thesis using d(5) [OF _ that(2)] same that by (auto simp: data_ok_def same_chunks_def split: if_splits)
  qed
  have nodes: "\<forall>x \<in> Q. ns x = h_nodes hp x" "dom ns = dom (h_nodes hp)" using r(4) d(2) by (auto simp: only_def off)
  have "mem_wf ?h ?m (us @ rs)" unfolding mem_wf_def
  proof (intro conjI)
    show "holds (chunk_list ?m) (h_nodes ?h) (us @ rs)"
      using r(2,3) i(3) by (auto simp: no_offset intro: holds_frame)
    show "\<forall>e \<in> set (us @ rs). \<exists>c. h_chunks ?h e = Some c \<and> chunk_ok c" using o(3) i(3) by auto
  qed (use r(2) in simp)
  then have "virt_wf Q D ?h ?m (us @ rs)" unfolding virt_wf_def
  proof (intro conjI)
    show "set (us @ rs) \<inter> Q = {}" "Q \<subseteq> dom (h_chunks ?h)" using d(2,3) i(2) by auto
    show "D \<subseteq> dom (h_data ?h)"
    proof
      fix x assume "x \<in> D"
      then have "h_data ?h x = h_data hp x" "h_data hp x \<noteq> None" using D d(4) by auto
      then show "x \<in> dom (h_data ?h)" by (simp add: domIff)
    qed
    show "\<forall>e \<in> set (us @ rs). \<forall>k. h_chunks ?h e = Some k \<longrightarrow> data_ok D ?h k"
    proof (intro ballI allI impI)
      fix e k assume e: "e \<in> set (us @ rs)" "h_chunks ?h e = Some k"
      then have "h_chunks hp e = Some k" by (auto split: if_splits)
      then show "data_ok D ?h k" by (rule data [OF e(1)])
    qed
    show "\<forall>e \<in> set (us @ rs). \<forall>f \<in> set (us @ rs). \<forall>c d. h_chunks ?h e = Some c \<longrightarrow> h_chunks ?h f = Some d \<longrightarrow>
        e \<noteq> f \<longrightarrow> c_read_fn c = Map_read \<longrightarrow> c_data d \<noteq> c_data c"
      using d(6) i(3) by auto
  qed
  moreover have "kept Q D hp ?h" using D nodes(1) i(2) by (auto simp: kept_def)
  moreover have "in_use ?h \<subseteq> in_use hp" using nodes(2) by (auto simp: in_use_def split: if_splits)
  ultimately show ?thesis using call same by (intro exI [of _ ?h] exI [of _ ?m]) simp
qed


section \<open>One step of the loop\<close>

text \<open>A chunk is added if \<open>B\<close>; it maps its addresses to those from \<open>p\<close> on.\<close>

definition opt_added ::
  "u64 set \<Rightarrow> u64 set \<Rightarrow> bool \<Rightarrow> u64 \<Rightarrow> u64 \<Rightarrow> u64 \<Rightarrow> heap \<Rightarrow> u64 list \<Rightarrow> heap \<Rightarrow> mem \<Rightarrow> u64 list \<Rightarrow> bool" where
  "opt_added Q D B start sz p hp es hp' m' new \<longleftrightarrow> virt_wf Q D hp' m' (es @ new) \<and> kept Q D hp hp' \<and>
     same_chunks (set es) hp hp' \<and> card (in_use hp') \<le> card (in_use hp) + 2 \<and>
     (if B then \<exists>n k. new = [n] \<and> chunk_cache m' = n \<and> h_chunks hp' n = Some k \<and> span k = {unat start..<unat start + unat sz} \<and>
        (\<forall>a. trans_of hp' k a = Some (p + (a - start)))
      else new = [])"

lemma opt_add:
  assumes v: "virt_wf Q D hp m es" and al: "alloc_ok alloc" and room: "card (in_use hp) + 2 < 2 ^ 64"
    and sz: "B \<Longrightarrow> 0 < sz \<and> unat start + unat sz < 2 ^ 64"
  shows "\<exists>hp' m' new. (if B then mem_chunk_map_add alloc hp m start sz p else Some (hp, m)) = Some (hp', m') \<and>
    opt_added Q D B start sz p hp es hp' m' new"
proof (cases B)
  case True
  then obtain hp' m' n where r: "mem_chunk_map_add alloc hp m start sz p = Some (hp', m')"
    and ad: "added Q D hp es start sz p n hp' m'" using map_add [OF v al room] sz by blast
  note d = virt_wfD [OF v]
  have ne: "n \<notin> set es" using ad mem_wfD(3) [OF d(1), of n] unfolding added_def by blast
  have "same_chunks (set es) hp hp'" unfolding same_chunks_def
  proof (intro ballI conjI allI impI)
    fix e c assume e: "e \<in> set es"
    from e ne have "e \<noteq> n" by blast
    then show "h_chunks hp' e = h_chunks hp e" using ad unfolding added_def by blast
    assume "h_chunks hp e = Some c" "c_read_fn c = Map_read"
    then have "c_data c \<in> dom (h_data hp)" using d(5) [OF e] by (auto simp: data_ok_def)
    then show "h_data hp' (c_data c) = h_data hp (c_data c)" using ad by (simp add: added_def)
  qed
  moreover obtain k where k: "h_chunks hp' n = Some k" "c_start k = start" "c_size k = sz" "c_read_fn k = Map_read"
    "h_data hp' (c_data k) = Some p" using ad by (auto simp: added_def)
  then have "span k = {unat start..<unat start + unat sz}" "\<forall>a. trans_of hp' k a = Some (p + (a - start))"
    by (simp_all add: span_def trans_of_def)
  ultimately have "opt_added Q D B start sz p hp es hp' m' [n]" using True k(1) ad by (simp add: opt_added_def added_def)
  then show ?thesis using r True by auto
next
  case False
  then show ?thesis using v
    by (intro exI [of _ hp] exI [of _ m] exI [of _ "[]"]) (simp add: opt_added_def same_chunks_def)
qed

text \<open>The pieces of chunk \<open>c\<close> outside \<open>R\<close>.\<close>

definition pieces :: "heap \<Rightarrow> dfi_mem_chunk \<Rightarrow> nat set \<Rightarrow> heap \<Rightarrow> u64 list \<Rightarrow> bool" where
  "pieces hp c R hp' new \<longleftrightarrow>
     (\<forall>n \<in> set new. \<exists>k. h_chunks hp' n = Some k \<and> span k \<subseteq> span c - R \<and> (\<forall>a. trans_of hp' k a = trans_of hp c a)) \<and>
     (\<forall>x \<in> span c - R. \<exists>n \<in> set new. \<exists>k. h_chunks hp' n = Some k \<and> x \<in> span k) \<and> apart hp' (set new)"

lemma span_chunk: "chunk_ok c \<Longrightarrow> span c = {unat (c_start c)..<Suc (unat (c_end c))}"
  using chunk_end [of c] chunk_nonempty [of c] by (auto simp: span_def)

lemma phys_start:
  assumes "data_ok D hp c"
  obtains s where "mem_chunk_start_phys hp c = Some s" "\<And>a. trans_of hp c a = Some (s + (a - c_start c))"
  using assms by (auto simp: mem_chunk_start_phys_def trans_of_def data_ok_def split: if_splits)

lemma unmap_pieces:
  assumes v: "virt_wf Q D hp m es" and al: "alloc_ok alloc" and room: "card (in_use hp) + 4 < 2 ^ 64"
    and i: "i \<in> set es" "h_chunks hp i = Some c" and R: "0 < sz" "unat start + unat sz < 2 ^ 64"
    and hit: "c_start c < start + sz" "start \<le> c_end c" and stop: "stop = start + sz - 1"
  shows "\<exists>hp' m' new. unmap_rest alloc start stop c hp m = Some (hp', m') \<and> virt_wf Q D hp' m' (es @ new) \<and>
    kept Q D hp hp' \<and> same_chunks (set es) hp hp' \<and> card (in_use hp') \<le> card (in_use hp) + 4 \<and>
    pieces hp c {unat start..<unat start + unat sz} hp' new"
proof -
  note d = virt_wfD [OF v]
  have cok: "chunk_ok c" using mem_wfD(3) [OF d(1) i(1)] i(2) by auto
  obtain s where s: "mem_chunk_start_phys hp c = Some s" "\<And>a. trans_of hp c a = Some (s + (a - c_start c))"
    using phys_start [OF d(5) [OF i]] by blast
  have u: "unat stop = unat start + unat sz - 1" "unat (start + sz) = unat start + unat sz" "0 < unat sz"
    using range_end [OF R] R(1) by (simp_all add: stop unat_gt_0 word_neq_0_conv)
  have ce: "unat (c_end c) < 2 ^ 64 - 1" "unat (c_start c) \<le> unat (c_end c)"
    using cok chunk_end [OF cok] chunk_nonempty [OF cok] by (auto simp: chunk_ok_def span_def)
  let ?r = "c_end c > stop" and ?l = "c_start c < start"
  have r: "?r \<Longrightarrow> unat (stop + 1) = Suc (unat stop) \<and> unat (c_end c - stop) = unat (c_end c) - unat stop"
  proof -
    assume "?r"
    then have "unat stop < unat (c_end c)" by (simp add: word_less_nat_alt)
    then have "unat (stop + 1) = Suc (unat stop)" using ce(1) by (simp add: unat_word_ariths)
    then show ?thesis using \<open>?r\<close> by (simp add: unat_sub word_less_nat_alt word_le_nat_alt)
  qed
  define p where "p = (s + c_size c - 1) - (c_end c - stop) + 1"
  have pa: "p + (a - (stop + 1)) = s + (a - c_start c)" for a
    using cok by (simp add: p_def chunk_ok_def algebra_simps)
  have szr: "?r \<Longrightarrow> 0 < c_end c - stop \<and> unat (stop + 1) + unat (c_end c - stop) < 2 ^ 64"
    using r ce(1) by (auto simp: word_less_nat_alt)
  obtain hp1 m1 n1 where a1: "(if ?r then mem_chunk_map_add alloc hp m (stop + 1) (c_end c - stop) p else Some (hp, m)) = Some (hp1, m1)"
    and o1: "opt_added Q D ?r (stop + 1) (c_end c - stop) p hp es hp1 m1 n1"
    using opt_add [where p = p and B = ?r, OF v al _ szr] room by auto
  have szl: "?l \<Longrightarrow> 0 < start - c_start c \<and> unat (c_start c) + unat (start - c_start c) < 2 ^ 64"
    using R(2) by (auto simp: word_less_nat_alt unat_sub word_le_nat_alt)
  obtain hp2 m2 n2 where a2: "(if ?l then mem_chunk_map_add alloc hp1 m1 (c_start c) (start - c_start c) s else Some (hp1, m1)) = Some (hp2, m2)"
    and o2: "opt_added Q D ?l (c_start c) (start - c_start c) s hp1 (es @ n1) hp2 m2 n2"
  proof -
    have "virt_wf Q D hp1 m1 (es @ n1)" "card (in_use hp1) + 2 < 2 ^ 64" using o1 room by (simp_all add: opt_added_def)
    from opt_add [where p = s and B = ?l, OF this(1) al this(2) szl] show thesis using that by auto
  qed
  have call: "unmap_rest alloc start stop c hp m = Some (hp2, m2)"
    unfolding unmap_rest_def Let_def s(1) Option.bind.simps p_def [symmetric] a1 prod.case by (rule a2)
  have same: "same_chunks (set es) hp hp2"
  proof -
    have "same_chunks (set es) hp1 hp2" using o2 by (auto simp: opt_added_def same_chunks_def)
    then show ?thesis using o1 same_chunks_trans by (auto simp: opt_added_def)
  qed
  have P1: "if ?r then \<exists>x k. n1 = [x] \<and> h_chunks hp2 x = Some k \<and> span k = {Suc (unat stop)..<Suc (unat (c_end c))} \<and>
      (\<forall>a. trans_of hp2 k a = trans_of hp c a) else n1 = []"
  proof (cases ?r)
    case True
    then obtain x k where x: "n1 = [x]" "h_chunks hp1 x = Some k" "\<forall>a. trans_of hp1 k a = Some (p + (a - (stop + 1)))"
      "span k = {unat (stop + 1)..<unat (stop + 1) + unat (c_end c - stop)}"
      using o1 by (auto simp: opt_added_def)
    have sc: "same_chunks (set (es @ n1)) hp1 hp2" "x \<in> set (es @ n1)" using o2 x(1) by (simp_all add: opt_added_def)
    have "unat stop < unat (c_end c)" using True by (simp add: word_less_nat_alt)
    then show ?thesis
      using True x same_chunksD [OF sc] same_trans [OF sc x(2)] r [OF True] by (simp add: s(2) pa)
  next
    case False
    then show ?thesis using o1 by (simp add: opt_added_def)
  qed
  have P2: "if ?l then \<exists>x k. n2 = [x] \<and> h_chunks hp2 x = Some k \<and> span k = {unat (c_start c)..<unat start} \<and>
      (\<forall>a. trans_of hp2 k a = trans_of hp c a) else n2 = []"
  proof (cases ?l)
    case True
    then have "unat (c_start c) + unat (start - c_start c) = unat start"
      by (simp add: word_less_nat_alt unat_sub word_le_nat_alt)
    then show ?thesis using o2 True by (auto simp: opt_added_def s(2))
  next
    case False
    then show ?thesis using o2 by (simp add: opt_added_def)
  qed
  have "span c - {unat start..<unat start + unat sz} =
      (if ?l then {unat (c_start c)..<unat start} else {}) \<union> (if ?r then {Suc (unat stop)..<Suc (unat (c_end c))} else {})"
    using hit u by (auto simp: span_chunk [OF cok] word_less_nat_alt word_le_nat_alt)
  then have "pieces hp c {unat start..<unat start + unat sz} hp2 (n1 @ n2)"
    unfolding pieces_def apart_def using P1 P2 u(1,3) by (auto split: if_splits)
  moreover have "virt_wf Q D hp2 m2 (es @ n1 @ n2)" "kept Q D hp hp2" "card (in_use hp2) \<le> card (in_use hp) + 4"
    using o1 o2 kept_trans by (auto simp: opt_added_def)
  ultimately show ?thesis using call same by blast
qed

lemma apart_same:
  "apart hp S \<Longrightarrow> \<forall>e \<in> S. h_chunks hp' e = h_chunks hp e \<Longrightarrow> apart hp' S"
  by (simp add: apart_def)

lemma apart_union:
  assumes "apart hp S" "apart hp T"
    "\<And>e f c d. e \<in> S \<Longrightarrow> f \<in> T \<Longrightarrow> h_chunks hp e = Some c \<Longrightarrow> h_chunks hp f = Some d \<Longrightarrow> span c \<inter> span d = {}"
  shows "apart hp (S \<union> T)"
  unfolding apart_def
proof (intro ballI allI impI)
  fix e f c d assume e: "e \<in> S \<union> T" "f \<in> S \<union> T" "e \<noteq> f" "h_chunks hp e = Some c" "h_chunks hp f = Some d"
  consider "e \<in> S" "f \<in> S" | "e \<in> T" "f \<in> T" | "e \<in> S" "f \<in> T" | "e \<in> T" "f \<in> S" using e by blast
  then show "span c \<inter> span d = {}"
  proof cases
    case 1
    then show ?thesis using assms(1) e unfolding apart_def by blast
  next
    case 2
    then show ?thesis using assms(2) e unfolding apart_def by blast
  next
    case 3
    then show ?thesis using assms(3) e by blast
  next
    case 4
    then show ?thesis using assms(3) [OF 4(2,1) e(5,4)] by blast
  qed
qed

text \<open>The chunk has no address of \<open>R\<close>.\<close>

definition misses :: "nat set \<Rightarrow> heap \<Rightarrow> u64 \<Rightarrow> bool" where
  "misses R hp e \<longleftrightarrow> (\<forall>c. h_chunks hp e = Some c \<longrightarrow> span c \<inter> R = {})"

text \<open>The result of the body of the loop, or of several rounds: outside \<open>R\<close> nothing has changed.\<close>

definition unmapped :: "u64 set \<Rightarrow> u64 set \<Rightarrow> nat set \<Rightarrow> heap \<Rightarrow> u64 list \<Rightarrow> heap \<Rightarrow> mem \<Rightarrow> u64 list \<Rightarrow> bool" where
  "unmapped Q D R hp es hp' m' es' \<longleftrightarrow> virt_wf Q D hp' m' es' \<and> apart hp' (set es') \<and> kept Q D hp hp' \<and>
     (\<forall>a. unat a \<notin> R \<longrightarrow> vtrans hp' es' a = vtrans hp es a)"

lemma unmapped_trans:
  "unmapped Q D R hp es hp' m' es' \<Longrightarrow> unmapped Q D R hp' es' hp'' m'' es'' \<Longrightarrow> unmapped Q D R hp es hp'' m'' es''"
  by (auto simp: unmapped_def intro: kept_trans)

text \<open>The chunk \<open>c\<close> gives way to the chunks \<open>new\<close>; those of \<open>S\<close> stay.\<close>

definition replaced :: "nat set \<Rightarrow> heap \<Rightarrow> u64 set \<Rightarrow> dfi_mem_chunk \<Rightarrow> heap \<Rightarrow> u64 list \<Rightarrow> bool" where
  "replaced R hp S c hp' new \<longleftrightarrow>
     (\<forall>e \<in> S. h_chunks hp' e = h_chunks hp e \<and> (\<forall>d a. h_chunks hp e = Some d \<longrightarrow> trans_of hp' d a = trans_of hp d a)) \<and>
     (\<forall>n \<in> set new. \<exists>d. h_chunks hp' n = Some d \<and> span d \<subseteq> span c - R \<and> (\<forall>a. trans_of hp' d a = trans_of hp c a)) \<and>
     (\<forall>x \<in> span c - R. \<exists>n \<in> set new. \<exists>d. h_chunks hp' n = Some d \<and> x \<in> span d) \<and> apart hp' (set new)"

lemma replacedD:
  assumes "replaced R hp S c hp' new"
  shows "e \<in> S \<Longrightarrow> h_chunks hp' e = h_chunks hp e" "e \<in> S \<Longrightarrow> h_chunks hp e = Some d \<Longrightarrow> trans_of hp' d a = trans_of hp d a"
    "n \<in> set new \<Longrightarrow> \<exists>d. h_chunks hp' n = Some d \<and> span d \<subseteq> span c - R \<and> (\<forall>a. trans_of hp' d a = trans_of hp c a)"
    "x \<in> span c \<Longrightarrow> x \<notin> R \<Longrightarrow> \<exists>n \<in> set new. \<exists>d. h_chunks hp' n = Some d \<and> x \<in> span d" "apart hp' (set new)"
proof -
  note r = assms [unfolded replaced_def]
  show "e \<in> S \<Longrightarrow> h_chunks hp' e = h_chunks hp e" using r by (elim conjE) (drule (1) bspec, elim conjE)
  show "e \<in> S \<Longrightarrow> h_chunks hp e = Some d \<Longrightarrow> trans_of hp' d a = trans_of hp d a"
    using r by (elim conjE) (drule (1) bspec, elim conjE, elim allE impE)
  show "n \<in> set new \<Longrightarrow> \<exists>d. h_chunks hp' n = Some d \<and> span d \<subseteq> span c - R \<and> (\<forall>a. trans_of hp' d a = trans_of hp c a)"
    using r by (elim conjE) (drule (1) bspec)+
  show "x \<in> span c \<Longrightarrow> x \<notin> R \<Longrightarrow> \<exists>n \<in> set new. \<exists>d. h_chunks hp' n = Some d \<and> x \<in> span d"
    using r by (elim conjE) simp
  show "apart hp' (set new)" using r by (elim conjE)
qed

lemma replaced_intro:
  assumes same: "same_chunks (set (us @ i # rs)) hp hp1" and pc: "pieces hp c R hp1 new"
    and same2: "same_chunks (set (us @ rs @ new)) hp1 hp2"
  shows "replaced R hp (set us \<union> set rs) c hp2 new"
  unfolding replaced_def
proof (intro conjI ballI allI impI)
  fix e d a assume e: "e \<in> set us \<union> set rs"
  then have m: "e \<in> set (us @ i # rs)" "e \<in> set (us @ rs @ new)" by auto
  show "h_chunks hp2 e = h_chunks hp e" using same_chunksD [OF same m(1)] same_chunksD [OF same2 m(2)] by simp
  assume d: "h_chunks hp e = Some d"
  then have "h_chunks hp1 e = Some d" using same_chunksD [OF same m(1)] by simp
  then show "trans_of hp2 d a = trans_of hp d a" using same_trans [OF same m(1) d] same_trans [OF same2 m(2)] by simp
next
  fix n assume n: "n \<in> set new"
  obtain d where d: "h_chunks hp1 n = Some d" "span d \<subseteq> span c - R" "\<forall>a. trans_of hp1 d a = trans_of hp c a"
    using pc n unfolding pieces_def by blast
  have m: "n \<in> set (us @ rs @ new)" using n by simp
  show "\<exists>d. h_chunks hp2 n = Some d \<and> span d \<subseteq> span c - R \<and> (\<forall>a. trans_of hp2 d a = trans_of hp c a)"
    using d same_chunksD [OF same2 m] same_trans [OF same2 m d(1)] by simp
next
  fix x assume x: "x \<in> span c - R"
  obtain n d where "n \<in> set new" "h_chunks hp1 n = Some d" "x \<in> span d" using pc x unfolding pieces_def by blast
  then show "\<exists>n \<in> set new. \<exists>d. h_chunks hp2 n = Some d \<and> x \<in> span d" using same_chunksD [OF same2, of n] by auto
next
  have "apart hp1 (set new)" using pc by (simp add: pieces_def)
  then show "apart hp2 (set new)" by (rule apart_same) (simp add: same_chunksD [OF same2])
qed

lemma replaced_apart:
  assumes r: "replaced R hp (set us \<union> set rs) c hp' new" and ap: "apart hp (set (us @ i # rs))"
    and c: "h_chunks hp i = Some c" "i \<notin> set us \<union> set rs"
  shows "apart hp' (set (us @ rs @ new))"
proof -
  note d = replacedD [OF r]
  have "apart hp' ((set us \<union> set rs) \<union> set new)"
  proof (rule apart_union)
    have "apart hp (set us \<union> set rs)" using ap unfolding apart_def by auto
    then show "apart hp' (set us \<union> set rs)" by (rule apart_same) (simp add: d(1))
  next
    fix e n k b assume e: "e \<in> set us \<union> set rs" "n \<in> set new" "h_chunks hp' e = Some k" "h_chunks hp' n = Some b"
    have "h_chunks hp e = Some k" "e \<in> set (us @ i # rs)" "i \<in> set (us @ i # rs)" "e \<noteq> i"
      using e(3) d(1) [OF e(1)] e(1) c(2) by auto
    then have "span k \<inter> span c = {}" using ap c unfolding apart_def by blast
    then show "span k \<inter> span b = {}" using d(3) [OF e(2)] e(4) by auto
  qed (rule d(5))
  then show ?thesis by (simp add: Un_assoc)
qed

definition maps_to :: "heap \<Rightarrow> u64 set \<Rightarrow> u64 \<Rightarrow> u64 \<Rightarrow> bool" where
  "maps_to hp S a p \<longleftrightarrow> (\<exists>e \<in> S. \<exists>d. h_chunks hp e = Some d \<and> unat a \<in> span d \<and> trans_of hp d a = Some p)"

lemma maps_toI: "e \<in> S \<Longrightarrow> h_chunks hp e = Some d \<Longrightarrow> unat a \<in> span d \<Longrightarrow> trans_of hp d a = Some p \<Longrightarrow> maps_to hp S a p"
  unfolding maps_to_def by blast

lemma maps_toE:
  assumes "maps_to hp S a p"
  obtains e d where "e \<in> S" "h_chunks hp e = Some d" "unat a \<in> span d" "trans_of hp d a = Some p"
  using assms unfolding maps_to_def by blast

lemma vtrans_maps: "mem_ok hp m es \<Longrightarrow> vtrans hp es a = Some p \<longleftrightarrow> maps_to hp (set es) a p"
  unfolding maps_to_def by (rule vtrans_Some)

lemma replaced_maps:
  assumes r: "replaced R hp S c hp' new" and c: "h_chunks hp i = Some c" and a: "unat a \<notin> R"
  shows "maps_to hp' (S \<union> set new) a p \<longleftrightarrow> maps_to hp (insert i S) a p"
proof
  note d = replacedD [OF r]
  assume "maps_to hp' (S \<union> set new) a p"
  then obtain e k where e: "e \<in> S \<union> set new" "h_chunks hp' e = Some k" "unat a \<in> span k" "trans_of hp' k a = Some p"
    by (rule maps_toE)
  show "maps_to hp (insert i S) a p"
  proof (cases "e \<in> S")
    case True
    then have "h_chunks hp e = Some k" using d(1) e(2) by simp
    then show ?thesis using True e(3,4) d(2) [OF True] by (intro maps_toI [of e]) simp_all
  next
    case False
    then have "unat a \<in> span c" "trans_of hp c a = Some p" using d(3) [of e] e by auto
    then show ?thesis using c by (intro maps_toI [of i]) simp_all
  qed
next
  note d = replacedD [OF r]
  assume "maps_to hp (insert i S) a p"
  then obtain e k where e: "e \<in> insert i S" "h_chunks hp e = Some k" "unat a \<in> span k" "trans_of hp k a = Some p"
    by (rule maps_toE)
  show "maps_to hp' (S \<union> set new) a p"
  proof (cases "e \<in> S")
    case True
    then show ?thesis using e d(1) [OF True] d(2) [OF True e(2), of a] by (intro maps_toI [of e]) simp_all
  next
    case False
    then have "k = c" using e(1,2) c by simp
    then obtain n b where n: "n \<in> set new" "h_chunks hp' n = Some b" "unat a \<in> span b" using d(4) e(3) a by blast
    moreover have "trans_of hp' b a = Some p" using d(3) [OF n(1)] n(2) e(4) \<open>k = c\<close> by auto
    ultimately show ?thesis by (intro maps_toI [of n]) simp_all
  qed
qed

lemma piece_replaced:
  assumes v: "virt_wf Q D hp m (us @ i # rs)" and ap: "apart hp (set (us @ i # rs))" and c: "h_chunks hp i = Some c"
    and r: "replaced R hp (set us \<union> set rs) c hp' new" and v2: "virt_wf Q D hp' m' (us @ rs @ new)" and k: "kept Q D hp hp'"
  shows "unmapped Q D R hp (us @ i # rs) hp' m' (us @ rs @ new)" "\<forall>n \<in> set new. misses R hp' n"
proof -
  have i: "i \<notin> set us \<union> set rs" using mem_wfD(1) [OF virt_wfD(1) [OF v]] by (auto simp: holds_def)
  have ap2: "apart hp' (set (us @ rs @ new))" by (rule replaced_apart [OF r ap c i])
  have ok: "mem_ok hp m (us @ i # rs)" "mem_ok hp' m' (us @ rs @ new)"
    using virt_wfD(1) [OF v] virt_wfD(1) [OF v2] ap ap2 by (simp_all add: mem_ok_def)
  have "set (us @ rs @ new) = (set us \<union> set rs) \<union> set new" "set (us @ i # rs) = insert i (set us \<union> set rs)" by auto
  then have "vtrans hp' (us @ rs @ new) a = vtrans hp (us @ i # rs) a" if "unat a \<notin> R" for a
    using replaced_maps [OF r c that] vtrans_maps [OF ok(1)] vtrans_maps [OF ok(2)] by (intro option_eqI) presburger
  then show "unmapped Q D R hp (us @ i # rs) hp' m' (us @ rs @ new)" using v2 ap2 k by (simp add: unmapped_def)
  show "\<forall>n \<in> set new. misses R hp' n"
  proof
    fix n assume "n \<in> set new"
    then show "misses R hp' n" using replacedD(3) [OF r, of n] by (auto simp: misses_def)
  qed
qed

end
