(* ===== verification/Dfi_Map.thy ===== *)
theory Dfi_Map
  imports Dfi_Unmap
begin

text \<open>
  The loop of \<open>mem_unmap\<close>, the new bounds of the memory, and \<open>mem_map\<close>.  The loop walks the list while
  it removes chunks and appends their rests at the tail; it ends because the rests have no address of
  the range any more.
\<close>

section \<open>The body of the loop\<close>

lemma missed:
  assumes c: "h_chunks hp i = Some c" "chunk_ok c" and R: "0 < sz" "unat start + unat sz < 2 ^ 64"
  shows "misses {unat start..<unat start + unat sz} hp i \<longleftrightarrow> c_start c \<ge> start + sz \<or> c_end c < start"
proof -
  have u: "0 < unat sz" "unat (c_start c) \<le> unat (c_end c)"
    using R(1) chunk_nonempty [OF c(2)] by (auto simp: unat_gt_0 word_neq_0_conv span_chunk [OF c(2)])
  show ?thesis
    using u c(1) by (auto simp: misses_def span_chunk [OF c(2)] word_le_nat_alt word_less_nat_alt range_end [OF R])
qed

lemma unmap_miss:
  assumes c: "h_chunks hp i = Some c" "chunk_ok c" and R: "0 < sz" "unat start + unat sz < 2 ^ 64"
    and m: "misses {unat start..<unat start + unat sz} hp i"
  shows "unmap_chunk alloc start sz i hp virt = Some (hp, virt)"
  using m c(1) missed [OF c R] by (auto simp: unmap_chunk_def Let_def)

text \<open>The new chunks come before the old one goes.\<close>

lemma unmap_middle:
  assumes v: "virt_wf Q D hp m es" and al: "alloc_ok alloc" and room: "card (in_use hp) + 4 < 2 ^ 64"
    and i: "i \<in> set es" "h_chunks hp i = Some c" and R: "0 < sz" "unat start + unat sz < 2 ^ 64"
    and hit: "c_start c < start + sz" "start \<le> c_end c" and stop: "stop = start + sz - 1"
  shows "\<exists>hp' m' new. (if c_start c \<ge> start \<and> c_end c \<le> stop then Some (hp, m) else unmap_rest alloc start stop c hp m) =
      Some (hp', m') \<and> virt_wf Q D hp' m' (es @ new) \<and> kept Q D hp hp' \<and> same_chunks (set es) hp hp' \<and>
      card (in_use hp') \<le> card (in_use hp) + 4 \<and> pieces hp c {unat start..<unat start + unat sz} hp' new"
proof (cases "c_start c \<ge> start \<and> c_end c \<le> stop")
  case True
  have "chunk_ok c" using mem_wfD(3) [OF virt_wfD(1) [OF v] i(1)] i(2) by auto
  moreover have "0 < unat sz" using R(1) by (simp add: unat_gt_0 word_neq_0_conv)
  ultimately have "span c - {unat start..<unat start + unat sz} = {}"
    using True range_end [OF R] by (auto simp: span_chunk word_le_nat_alt stop)
  then have "pieces hp c {unat start..<unat start + unat sz} hp []" by (auto simp: pieces_def apart_def)
  then show ?thesis using True v by (intro exI [of _ hp] exI [of _ m] exI [of _ "[]"]) (simp add: same_chunks_def)
next
  case False
  then show ?thesis using unmap_pieces [OF v al room i R hit stop] by (simp only: if_False)
qed

lemma unmap_hit:
  assumes v: "virt_wf Q D hp m (us @ i # rs)" and ap: "apart hp (set (us @ i # rs))" and al: "alloc_ok alloc"
    and room: "card (in_use hp) + 4 < 2 ^ 64" and R: "0 < sz" "unat start + unat sz < 2 ^ 64"
    and Rs: "R = {unat start..<unat start + unat sz}" and hit: "\<not> misses R hp i"
  shows "\<exists>hp' m' new. unmap_chunk alloc start sz i hp m = Some (hp', m') \<and> unmapped Q D R hp (us @ i # rs) hp' m' (us @ rs @ new) \<and>
    (\<forall>n \<in> set new. misses R hp' n) \<and> (\<forall>e \<in> set us \<union> set rs. h_chunks hp' e = h_chunks hp e) \<and>
    card (in_use hp') \<le> card (in_use hp) + 4"
proof -
  have i: "i \<in> set (us @ i # rs)" by simp
  obtain c where c: "h_chunks hp i = Some c" "chunk_ok c" using mem_wfD(3) [OF virt_wfD(1) [OF v] i] by blast
  have h: "c_start c < start + sz" "start \<le> c_end c" using hit missed [OF c R] by (auto simp: Rs not_le)
  let ?stop = "start + sz - 1"
  obtain hp1 m1 new where a: "(if c_start c \<ge> start \<and> c_end c \<le> ?stop then Some (hp, m) else unmap_rest alloc start ?stop c hp m) = Some (hp1, m1)"
      "virt_wf Q D hp1 m1 ((us @ i # rs) @ new)" "kept Q D hp hp1" "same_chunks (set (us @ i # rs)) hp hp1"
      "card (in_use hp1) \<le> card (in_use hp) + 4" "pieces hp c R hp1 new"
    using unmap_middle [OF v al room i c(1) R h refl] unfolding Rs by blast
  have v1: "virt_wf Q D hp1 m1 (us @ i # rs @ new)" using a(2) by simp
  have c1: "h_chunks hp1 i = Some c" using same_chunksD [OF a(4) i] c(1) by simp
  obtain hp2 m2 where b: "unmap_free i c hp1 m1 = Some (hp2, m2)" "virt_wf Q D hp2 m2 (us @ rs @ new)" "kept Q D hp1 hp2"
      "same_chunks (set (us @ rs @ new)) hp1 hp2" "in_use hp2 \<subseteq> in_use hp1"
    using free_chunk [OF v1 c1] by blast
  have call: "unmap_chunk alloc start sz i hp m = Some (hp2, m2)"
    unfolding unmap_chunk_def c(1) Let_def Option.bind.simps using h a(1) b(1) by (simp add: not_le not_less)
  note r = replaced_intro [OF a(4,6) b(4)]
  have "card (in_use hp2) \<le> card (in_use hp1)" using b(5) by (intro card_mono) simp_all
  then have "card (in_use hp2) \<le> card (in_use hp) + 4" using a(5) by simp
  moreover have "\<forall>e \<in> set us \<union> set rs. h_chunks hp2 e = h_chunks hp e" using replacedD(1) [OF r] by blast
  ultimately show ?thesis
    using call piece_replaced [OF v ap c(1) r b(2) kept_trans [OF a(3) b(3)]] by blast
qed


section \<open>The loop\<close>

lemma misses_same: "h_chunks hp' e = h_chunks hp e \<Longrightarrow> misses R hp' e = misses R hp e"
  by (simp add: misses_def)

text \<open>How many chunks of the rest are hit.\<close>

definition hits :: "nat set \<Rightarrow> heap \<Rightarrow> u64 list \<Rightarrow> nat" where
  "hits R hp es = length (filter (\<lambda>e. \<not> misses R hp e) es)"

lemma hits_simps [simp]:
  "hits R hp [] = 0" "hits R hp (e # es) = (if misses R hp e then 0 else 1) + hits R hp es"
  "hits R hp (es @ fs) = hits R hp es + hits R hp fs"
  by (simp_all add: hits_def)

lemma hits_none: "\<forall>e \<in> set es. misses R hp e \<Longrightarrow> hits R hp es = 0"
  by (simp add: hits_def)

lemma hits_same: "\<forall>e \<in> set es. h_chunks hp' e = h_chunks hp e \<Longrightarrow> hits R hp' es = hits R hp es"
  unfolding hits_def by (metis (mono_tags, lifting) filter_cong misses_same)

text \<open>One round: \<open>us\<close> is what the loop has passed, \<open>new\<close> what it has appended.\<close>

lemma unmap_step:
  assumes al: "alloc_ok alloc" and R: "0 < sz" "unat start + unat sz < 2 ^ 64" and Rs: "R = {unat start..<unat start + unat sz}"
    and v: "virt_wf Q D hp m (us @ i # rs)" and ap: "apart hp (set (us @ i # rs))" and us: "\<forall>e \<in> set us. misses R hp e"
    and room: "card (in_use hp) + 4 * hits R hp (i # rs) < 2 ^ 64"
  shows "\<exists>hp' m' us' new. unmap_chunk alloc start sz i hp m = Some (hp', m') \<and>
    unmapped Q D R hp (us @ i # rs) hp' m' (us' @ rs @ new) \<and> (\<forall>e \<in> set us' \<union> set new. misses R hp' e) \<and>
    hits R hp' rs = hits R hp rs \<and> card (in_use hp') + 4 * hits R hp rs \<le> card (in_use hp) + 4 * hits R hp (i # rs) \<and>
    (misses R hp i \<longrightarrow> new = [])"
proof (cases "misses R hp i")
  case True
  obtain c where c: "h_chunks hp i = Some c" "chunk_ok c" using mem_wfD(3) [OF virt_wfD(1) [OF v], of i] by auto
  have "unmap_chunk alloc start sz i hp m = Some (hp, m)" using unmap_miss [OF c R] True by (simp add: Rs)
  moreover have "unmapped Q D R hp (us @ i # rs) hp m ((us @ [i]) @ rs @ [])" using v ap by (simp add: unmapped_def)
  ultimately show ?thesis using True us
    by (intro exI [of _ hp] exI [of _ m] exI [of _ "us @ [i]"] exI [of _ "[]"]) auto
next
  case False
  then have "card (in_use hp) + 4 < 2 ^ 64" using room by simp
  from unmap_hit [OF v ap al this R Rs False] obtain hp' m' new where
    r: "unmap_chunk alloc start sz i hp m = Some (hp', m')" "unmapped Q D R hp (us @ i # rs) hp' m' (us @ rs @ new)"
      "\<forall>n \<in> set new. misses R hp' n" "\<forall>e \<in> set us \<union> set rs. h_chunks hp' e = h_chunks hp e"
      "card (in_use hp') \<le> card (in_use hp) + 4" by blast
  have "hits R hp' rs = hits R hp rs" using r(4) by (intro hits_same) simp
  moreover have "\<forall>e \<in> set us. misses R hp' e" using r(4) us misses_same by blast
  ultimately show ?thesis using r False
    by (intro exI [of _ hp'] exI [of _ m'] exI [of _ us] exI [of _ new]) auto
qed

lemma unmap_walk:
  assumes al: "alloc_ok alloc" and R: "0 < sz" "unat start + unat sz < 2 ^ 64" and Rs: "R = {unat start..<unat start + unat sz}"
  shows "virt_wf Q D hp m (us @ i # rs) \<Longrightarrow> apart hp (set (us @ i # rs)) \<Longrightarrow> \<forall>e \<in> set us. misses R hp e \<Longrightarrow>
    card (in_use hp) + 4 * hits R hp (i # rs) < 2 ^ 64 \<Longrightarrow>
    \<exists>hp' m' es'. unmap_loop alloc start sz i (firstn rs 0) hp m = Some (hp', m') \<and>
      unmapped Q D R hp (us @ i # rs) hp' m' es' \<and> (\<forall>e \<in> set es'. misses R hp' e) \<and>
      card (in_use hp') \<le> card (in_use hp) + 4 * hits R hp (i # rs)"
proof (induction "length rs + (2 ^ 64) * hits R hp (i # rs)" arbitrary: hp m us i rs rule: less_induct)
  case less
  note v = less.prems(1)
  have i: "i \<noteq> 0" using mem_wfD(1) [OF virt_wfD(1) [OF v]] by (auto simp: holds_def)
  obtain hp' m' us' new where s: "unmap_chunk alloc start sz i hp m = Some (hp', m')"
    "unmapped Q D R hp (us @ i # rs) hp' m' (us' @ rs @ new)" "\<forall>e \<in> set us' \<union> set new. misses R hp' e"
    "hits R hp' rs = hits R hp rs" "card (in_use hp') + 4 * hits R hp rs \<le> card (in_use hp) + 4 * hits R hp (i # rs)"
    "misses R hp i \<longrightarrow> new = []"
    using unmap_step [OF al R Rs less.prems] by blast
  have v': "virt_wf Q D hp' m' (us' @ rs @ new)" "apart hp' (set (us' @ rs @ new))" using s(2) by (simp_all add: unmapped_def)
  note hl = mem_wfD(1) [OF virt_wfD(1) [OF v'(1)]]
  have new0: "hits R hp' new = 0" using s(3) by (intro hits_none) simp
  show ?case
  proof (cases rs)
    case Nil
    have "unmap_loop alloc start sz i (firstn rs 0) hp m = Some (hp', m')"
      using i s(1) Nil by (subst unmap_loop.simps) (simp add: util_list_next_def unmap_loop.simps)
    then show ?thesis using s Nil by (intro exI [of _ hp'] exI [of _ m'] exI [of _ "us' @ new"]) auto
  next
    case (Cons r ts)
    have len: "length (ts @ new) < 2 ^ 64" using entries_bound [OF hl] Cons by simp
    have "util_list_next (chunk_list m') (h_nodes hp') r = Some (firstn (ts @ new) 0)"
      using next_entry [of "chunk_list m'" "h_nodes hp'" us' r "ts @ new"] hl Cons by simp
    then have step: "unmap_loop alloc start sz i (firstn rs 0) hp m = unmap_loop alloc start sz r (firstn (ts @ new) 0) hp' m'"
      using i s(1) Cons by (subst unmap_loop.simps) simp
    have h': "hits R hp' (r # ts @ new) = hits R hp rs" using s(4) new0 Cons by simp
    have "length (ts @ new) + 2 ^ 64 * hits R hp' (r # ts @ new) < length rs + 2 ^ 64 * hits R hp (i # rs)"
      unfolding h' using s(6) Cons len by (cases "misses R hp i") simp_all
    moreover have "card (in_use hp') + 4 * hits R hp' (r # ts @ new) < 2 ^ 64" unfolding h' using s(5) less.prems(4) by linarith
    ultimately obtain hp2 m2 es2 where ih: "unmap_loop alloc start sz r (firstn (ts @ new) 0) hp' m' = Some (hp2, m2)"
      "unmapped Q D R hp' (us' @ r # ts @ new) hp2 m2 es2" "\<forall>e \<in> set es2. misses R hp2 e"
      "card (in_use hp2) \<le> card (in_use hp') + 4 * hits R hp' (r # ts @ new)"
      using less.hyps [of "ts @ new" hp' r m' us'] v' s(3) Cons by auto
    have "unmapped Q D R hp (us @ i # rs) hp2 m2 es2" using unmapped_trans s(2) ih(2) Cons by simp
    moreover have "card (in_use hp2) \<le> card (in_use hp) + 4 * hits R hp (i # rs)" using ih(4) s(5) unfolding h' by linarith
    ultimately show ?thesis using step ih(1,3) by auto
  qed
qed


section \<open>The bounds of the memory\<close>

interpretation chunk: comparison "mem_chunk_cmp_fn hp" "\<lambda>a b. chunk_start hp a \<le> chunk_start hp b" for hp
  by unfold_locales (auto simp: mem_chunk_cmp_fn_def not_less split: if_splits)

definition chunk_stop :: "heap \<Rightarrow> u64 \<Rightarrow> u64" where
  "chunk_stop hp e = (case h_chunks hp e of None \<Rightarrow> 0 | Some c \<Rightarrow> c_end c)"

lemma bounds_fold:
  "\<forall>e \<in> set es. h_chunks hp e \<noteq> None \<Longrightarrow>
    fold (\<lambda>i r. r \<bind> (\<lambda>m. h_chunks hp i \<bind> (\<lambda>c.
         Some (m\<lparr>start_addr := min (start_addr m) (c_start c), end_addr := max (end_addr m) (c_end c)\<rparr>)))) es (Some m) =
    Some (m\<lparr>start_addr := Min (set (start_addr m # map (chunk_start hp) es)),
            end_addr := Max (set (end_addr m # map (chunk_stop hp) es))\<rparr>)"
proof (induction es arbitrary: m)
  case Nil
  then show ?case by simp
next
  case (Cons e es)
  then obtain c where c: "h_chunks hp e = Some c" by auto
  have m: "finite A \<Longrightarrow> Min (insert (min a b) A) = Min (insert a (insert b A))"
    "finite A \<Longrightarrow> Max (insert (max a b) A) = Max (insert a (insert b A))" for a b :: u64 and A
    by (cases "A = {}"; simp add: min.assoc max.assoc)+
  have e: "chunk_start hp e = c_start c" "chunk_stop hp e = c_end c" by (simp_all add: chunk_start_def chunk_stop_def c)
  show ?case using Cons c by (simp add: e m del: Min_insert Max_insert)
qed

text \<open>The chunks are sorted and the bounds are set; nothing else changes.\<close>

definition updated :: "heap \<Rightarrow> mem \<Rightarrow> u64 list \<Rightarrow> bool" where
  "updated hp m es \<longleftrightarrow> sorted_wrt (\<lambda>a b. chunk_start hp a \<le> chunk_start hp b) es \<and>
     start_addr m = Min (insert (- 1) (chunk_start hp ` set es)) \<and> end_addr m = Max (insert 0 (chunk_stop hp ` set es))"

lemma update:
  assumes v: "virt_wf Q D hp m es"
  shows "\<exists>hp' m' es'. mem_update hp m = Some (hp', m') \<and> virt_wf Q D hp' m' es' \<and> mset es' = mset es \<and> updated hp' m' es' \<and>
    h_chunks hp' = h_chunks hp \<and> h_data hp' = h_data hp \<and> in_use hp' = in_use hp \<and> kept Q D hp hp' \<and>
    chunk_cache m' = chunk_cache m"
proof -
  note d = virt_wfD [OF v] and w = mem_wfD [OF virt_wfD(1) [OF v]]
  let ?es = "bsort (mem_chunk_cmp_fn hp) es"
  have ms: "mset ?es = mset es" "set ?es = set es" by (rule mset_bsort) (metis mset_bsort set_mset_mset)
  obtain l ns where s: "util_list_sort (mem_chunk_cmp_fn hp) (chunk_list m) (h_nodes hp) = Some (l, ns)"
    "l_offset l = 0" "holds l ns ?es" "only (chunk_list m) (set es) (h_nodes hp) ns"
    using sort_heap [OF w(1), of "mem_chunk_cmp_fn hp"] w(2) by (auto simp: became_def split: option.splits)
  have some: "\<forall>e \<in> set ?es. h_chunks hp e \<noteq> None" using w(3) ms(2) by fastforce
  let ?h = "hp\<lparr>h_nodes := ns\<rparr>" and ?m = "m\<lparr>chunk_list := l, start_addr := Min (insert (- 1) (chunk_start hp ` set es)),
      end_addr := Max (insert 0 (chunk_stop hp ` set es))\<rparr>"
  have call: "mem_update hp m = Some (?h, ?m)"
    using s(1) by (simp add: mem_update_def ms(2) iterate_all [OF s(3)] bounds_fold [OF some])
  have nodes: "dom ns = dom (h_nodes hp)" "\<forall>x \<in> Q. ns x = h_nodes hp x"
    using s(4) d(2) no_offset [OF w(2)] by (auto simp: only_def)
  have "chunk_start ?h = chunk_start hp" "chunk_stop ?h = chunk_stop hp" by (auto simp: chunk_start_def chunk_stop_def)
  then have up: "updated ?h ?m ?es" using chunk.bsort_sorted [of hp es] by (simp add: updated_def ms(2))
  have "mem_wf ?h ?m ?es" using s w(3) by (simp add: mem_wf_def ms(2))
  moreover have "data_ok D ?h = data_ok D hp" by (intro ext) (simp add: data_ok_def)
  ultimately have "virt_wf Q D ?h ?m ?es" using v by (simp add: virt_wf_def ms(2))
  then show ?thesis using call ms(1) nodes up
    by (intro exI [of _ ?h] exI [of _ ?m] exI [of _ ?es]) (simp add: in_use_def kept_def)
qed

lemma vtrans_update:
  assumes "mem_ok hp m es" "mem_wf hp' m' es'" "set es' = set es" "h_chunks hp' = h_chunks hp" "h_data hp' = h_data hp"
  shows "vtrans hp' es' a = vtrans hp es a" "apart hp' (set es')"
proof -
  show ap: "apart hp' (set es')" using assms by (simp add: mem_ok_def apart_def)
  then have ok: "mem_ok hp' m' es'" using assms(2) by (simp add: mem_ok_def)
  have "trans_of hp' = trans_of hp" using assms(5) by (intro ext) (simp add: trans_of_def)
  then show "vtrans hp' es' a = vtrans hp es a"
    by (intro option_eqI) (simp add: vtrans_Some [OF ok] vtrans_Some [OF assms(1)] assms(3,4))
qed


section \<open>Cutting out a range\<close>

text \<open>The abstract memory: which physical address stands at a virtual one.\<close>

definition virt_ok :: "u64 set \<Rightarrow> u64 set \<Rightarrow> heap \<Rightarrow> mem \<Rightarrow> u64 list \<Rightarrow> bool" where
  "virt_ok Q D hp m es \<longleftrightarrow> virt_wf Q D hp m es \<and> apart hp (set es)"

lemma virt_mem_ok: "virt_ok Q D hp m es \<Longrightarrow> mem_ok hp m es"
  by (simp add: virt_ok_def mem_ok_def virt_wf_def)

lemma hits_bound: "hits R hp es \<le> length es"
  by (simp add: hits_def)

lemma unmap:
  assumes v: "virt_ok Q D hp m es" and al: "alloc_ok alloc" and room: "card (in_use hp) + 4 * length es < 2 ^ 64"
    and R: "0 < sz" "unat start + unat sz < 2 ^ 64"
  shows "\<exists>hp' m' es'. mem_unmap alloc start sz hp m = Some (hp', m') \<and> virt_ok Q D hp' m' es' \<and> updated hp' m' es' \<and>
    kept Q D hp hp' \<and> card (in_use hp') \<le> card (in_use hp) + 4 * length es \<and>
    (\<forall>a. vtrans hp' es' a = (if unat a \<in> {unat start..<unat start + unat sz} then None else vtrans hp es a))"
proof -
  let ?R = "{unat start..<unat start + unat sz}"
  have vw: "virt_wf Q D hp m es" "apart hp (set es)" using v by (simp_all add: virt_ok_def)
  note h = mem_wfD(1) [OF virt_wfD(1) [OF vw(1)]]
  obtain hp1 m1 es1 where w: "util_list_next (chunk_list m) (h_nodes hp) (util_list_start (chunk_list m)) \<bind>
        (\<lambda>n. unmap_loop alloc start sz (util_list_start (chunk_list m)) n hp m) = Some (hp1, m1)"
      "unmapped Q D ?R hp es hp1 m1 es1" "\<forall>e \<in> set es1. misses ?R hp1 e"
      "card (in_use hp1) \<le> card (in_use hp) + 4 * length es"
  proof (cases es)
    case Nil
    have "util_list_start (chunk_list m) = 0" using start_entry [OF h] Nil by simp
    then show thesis using vw Nil by (intro that [of hp m "[]"])
        (simp_all add: util_list_next_def unmap_loop.simps unmapped_def)
  next
    case (Cons i rs)
    have st: "util_list_start (chunk_list m) = i" using start_entry [OF h] Cons by simp
    have nx: "util_list_next (chunk_list m) (h_nodes hp) i = Some (firstn rs 0)"
      using next_entry [of "chunk_list m" "h_nodes hp" "[]" i rs] h Cons by simp
    have b: "card (in_use hp) + 4 * hits ?R hp (i # rs) \<le> card (in_use hp) + 4 * length es"
      unfolding Cons using hits_bound [of ?R hp "i # rs"] by (intro add_left_mono mult_left_mono) auto
    have p: "virt_wf Q D hp m ([] @ i # rs)" "apart hp (set ([] @ i # rs))" "\<forall>e \<in> set []. misses ?R hp e"
      using vw Cons by simp_all
    have "card (in_use hp) + 4 * hits ?R hp (i # rs) < 2 ^ 64" using b room by (rule le_less_trans)
    from unmap_walk [OF al R refl p this] obtain hp1 m1 es1 where
      "unmap_loop alloc start sz i (firstn rs 0) hp m = Some (hp1, m1)" "unmapped Q D ?R hp ([] @ i # rs) hp1 m1 es1"
      "\<forall>e \<in> set es1. misses ?R hp1 e" "card (in_use hp1) \<le> card (in_use hp) + 4 * hits ?R hp (i # rs)" by blast
    then show thesis using nx b Cons by (intro that [of hp1 m1 es1]) (simp_all add: st)
  qed
  have v1: "virt_wf Q D hp1 m1 es1" "apart hp1 (set es1)" "kept Q D hp hp1" using w(2) by (simp_all add: unmapped_def)
  then have ok1: "mem_ok hp1 m1 es1" by (simp add: mem_ok_def virt_wf_def)
  obtain hp2 m2 es2 where u: "mem_update hp1 m1 = Some (hp2, m2)" "virt_wf Q D hp2 m2 es2" "mset es2 = mset es1" "updated hp2 m2 es2"
      "h_chunks hp2 = h_chunks hp1" "h_data hp2 = h_data hp1" "in_use hp2 = in_use hp1" "kept Q D hp1 hp2"
    using update [OF v1(1)] by blast
  have "set es2 = set es1" using u(3) by (metis set_mset_mset)
  note vu = vtrans_update [OF ok1 virt_wfD(1) [OF u(2)] this u(5,6)]
  have call: "mem_unmap alloc start sz hp m = Some (hp2, m2)"
    using w(1) u(1) by (auto simp: mem_unmap_def Let_def bind_eq_Some_conv)
  have "vtrans hp2 es2 a = (if unat a \<in> ?R then None else vtrans hp es a)" for a
  proof (cases "unat a \<in> ?R")
    case True
    have "vtrans hp1 es1 a \<noteq> Some p" for p
    proof
      assume "vtrans hp1 es1 a = Some p"
      then obtain e c where "e \<in> set es1" "h_chunks hp1 e = Some c" "unat a \<in> span c" using vtrans_Some [OF ok1] by blast
      then show False using w(3) True unfolding misses_def by blast
    qed
    then have "vtrans hp1 es1 a = None" by (cases "vtrans hp1 es1 a") blast+
    then show ?thesis using True vu(1) by simp
  next
    case False
    then have "vtrans hp1 es1 a = vtrans hp es a" using w(2) unfolding unmapped_def by blast
    then show ?thesis unfolding vu(1) if_not_P [OF False] .
  qed
  moreover have "card (in_use hp2) \<le> card (in_use hp) + 4 * length es" using w(4) u(7) by simp
  ultimately show ?thesis using call u(2,4) vu(2) kept_trans [OF v1(3) u(8)] by (auto simp: virt_ok_def)
qed

end
