(* ===== verification/Dfi_Kdump.thy ===== *)
theory Dfi_Kdump
  imports Dfi_Map
begin

text \<open>
  Mapping a range and the view of a dumped kdump kernel: \<open>--select prod\<close> puts the saved memory of the
  production system at address zero, and what is then read there are the bytes the dump has at the
  crash kernel's place.
\<close>

section \<open>Mapping a range\<close>

lemma range_mapped:
  assumes v: "virt_wf Q D hp m es" and R: "0 < sz" "unat start + unat sz < 2 ^ 64"
  shows "mem_range_mapped start sz hp m = Some (\<exists>e \<in> set es. \<not> misses {unat start..<unat start + unat sz} hp e)"
proof -
  let ?stop = "start + sz - 1"
  note w = mem_wfD [OF virt_wfD(1) [OF v]]
  have hit: "(\<not> c_start c > ?stop \<and> \<not> c_end c < start) = (\<not> misses {unat start..<unat start + unat sz} hp e)"
    if "h_chunks hp e = Some c" "chunk_ok c" for e c
  proof -
    have "0 < unat sz" using R(1) by (simp add: unat_gt_0 word_neq_0_conv)
    then have "c_start c > ?stop \<longleftrightarrow> c_start c \<ge> start + sz"
      using range_end [OF R] by (auto simp: word_less_nat_alt word_le_nat_alt)
    then show ?thesis using missed [OF that R] by simp
  qed
  have "fold (\<lambda>i r. r \<bind> (\<lambda>found. h_chunks hp i \<bind> (\<lambda>c. Some (found \<or> \<not> (c_start c > ?stop) \<and> \<not> (c_end c < start))))) fs (Some b) =
      Some (b \<or> (\<exists>e \<in> set fs. \<not> misses {unat start..<unat start + unat sz} hp e))" if "set fs \<subseteq> set es" for fs b
    using that
  proof (induction fs arbitrary: b)
    case (Cons e fs)
    then obtain c where c: "h_chunks hp e = Some c" "chunk_ok c" using w(3) [of e] by auto
    show ?case using Cons by (simp add: c(1) hit [OF c] del: not_less)
  qed simp
  then show ?thesis by (simp add: mem_range_mapped_def iterate_all [OF w(1)])
qed

lemma trans_defined: "data_ok D hp c \<Longrightarrow> trans_of hp c a \<noteq> None"
  by (auto simp: data_ok_def trans_of_def split: if_splits)

text \<open>Whether a range is mapped, in terms of the addresses.\<close>

lemma misses_vtrans:
  assumes "virt_ok Q D hp m es"
  shows "(\<forall>e \<in> set es. misses {lo..<hi} hp e) \<longleftrightarrow> (\<forall>a :: u64. unat a \<in> {lo..<hi} \<longrightarrow> vtrans hp es a = None)"
proof -
  note v = virt_wfD [OF assms [unfolded virt_ok_def, THEN conjunct1]]
  have some: "(\<exists>p. vtrans hp es a = Some p) \<longleftrightarrow> (\<exists>e \<in> set es. \<exists>c. h_chunks hp e = Some c \<and> unat a \<in> span c)" for a
    using vtrans_Some [OF virt_mem_ok [OF assms]] trans_defined [OF v(5)] by (meson not_Some_eq)
  have word: "x = unat (of_nat x :: u64)" if "e \<in> set es" "h_chunks hp e = Some c" "x \<in> span c" for x e c
  proof -
    have "chunk_ok c" using mem_wfD(3) [OF v(1) that(1)] that(2) by auto
    then show ?thesis using that(3) by (auto simp: chunk_ok_def span_def unat_of_nat_small)
  qed
  show ?thesis
  proof
    assume r: "\<forall>e \<in> set es. misses {lo..<hi} hp e"
    show "\<forall>a :: u64. unat a \<in> {lo..<hi} \<longrightarrow> vtrans hp es a = None"
    proof (intro allI impI)
      fix a :: u64 assume a: "unat a \<in> {lo..<hi}"
      have "\<not> (\<exists>p. vtrans hp es a = Some p)" unfolding some using r a unfolding misses_def by blast
      then show "vtrans hp es a = None" by simp
    qed
  next
    assume r: "\<forall>a :: u64. unat a \<in> {lo..<hi} \<longrightarrow> vtrans hp es a = None"
    show "\<forall>e \<in> set es. misses {lo..<hi} hp e" unfolding misses_def
    proof (intro ballI allI impI, rule ccontr)
      fix e c assume e: "e \<in> set es" "h_chunks hp e = Some c" "span c \<inter> {lo..<hi} \<noteq> {}"
      then obtain x where x: "x \<in> span c" "x \<in> {lo..<hi}" by blast
      have u: "unat (of_nat x :: u64) = x" using word [OF e(1,2) x(1)] by simp
      then have "vtrans hp es (of_nat x) = None" using r x(2) by simp
      moreover have "\<exists>p. vtrans hp es (of_nat x) = Some p" unfolding some u using e x(1) by blast
      ultimately show False by simp
    qed
  qed
qed

text \<open>A list that has a chunk \<open>n\<close> of the free range \<open>R\<close> at its end.\<close>

lemma snoc_view:
  assumes v: "virt_ok Q D hp m es" and w: "virt_wf Q' D hp' m' (es @ [n])" and same: "same_chunks (set es) hp hp'"
    and k: "h_chunks hp' n = Some k" "span k = R" "\<forall>a. trans_of hp' k a = Some (g a)"
    and free: "\<forall>e \<in> set es. misses R hp e"
  shows "virt_ok Q' D hp' m' (es @ [n])" "vtrans hp' (es @ [n]) a = (if unat a \<in> R then Some (g a) else vtrans hp es a)"
proof -
  have "apart hp' (set es \<union> {n})"
  proof (rule apart_union)
    have "apart hp (set es)" using v by (simp add: virt_ok_def)
    then show "apart hp' (set es)" by (rule apart_same) (simp add: same_chunksD [OF same])
    show "apart hp' {n}" by (simp add: apart_def)
    fix e f c d assume e: "e \<in> set es" "f \<in> {n}" "h_chunks hp' e = Some c" "h_chunks hp' f = Some d"
    then have "h_chunks hp e = Some c" "d = k" using same_chunksD [OF same] k(1) by simp_all
    then show "span c \<inter> span d = {}" using free e(1) k(2) unfolding misses_def by simp
  qed
  then show ok: "virt_ok Q' D hp' m' (es @ [n])" using w by (simp add: virt_ok_def)
  note view = vtrans_maps [OF virt_mem_ok [OF ok]] vtrans_maps [OF virt_mem_ok [OF v]]
  show "vtrans hp' (es @ [n]) a = (if unat a \<in> R then Some (g a) else vtrans hp es a)"
  proof (cases "unat a \<in> R")
    case True
    then have "maps_to hp' (set (es @ [n])) a (g a)" using k by (intro maps_toI [of n]) auto
    then show ?thesis using True view(1) by simp
  next
    case False
    have "maps_to hp' (set (es @ [n])) a q \<longleftrightarrow> maps_to hp (set es) a q" for q
    proof
      assume "maps_to hp' (set (es @ [n])) a q"
      then obtain e d where e: "e \<in> set (es @ [n])" "h_chunks hp' e = Some d" "unat a \<in> span d" "trans_of hp' d a = Some q"
        by (rule maps_toE)
      then have m: "e \<in> set es" using False k by auto
      then have "h_chunks hp e = Some d" using same_chunksD [OF same m] e(2) by simp
      then show "maps_to hp (set es) a q" using m e(3,4) same_trans [OF same m] by (intro maps_toI [of e]) simp_all
    next
      assume "maps_to hp (set es) a q"
      then obtain e d where e: "e \<in> set es" "h_chunks hp e = Some d" "unat a \<in> span d" "trans_of hp d a = Some q"
        by (rule maps_toE)
      then show "maps_to hp' (set (es @ [n])) a q"
        using same_chunksD [OF same e(1)] same_trans [OF same e(1,2), of a] by (intro maps_toI [of e]) simp_all
    qed
    then have "vtrans hp' (es @ [n]) a = vtrans hp es a" by (intro option_eqI) (simp only: view)
    then show ?thesis by (simp only: if_not_P [OF False])
  qed
qed

lemma added_view:
  assumes v: "virt_ok Q D hp m es" and a: "opt_added Q D True start sz p hp es hp' m' new"
    and free: "\<forall>e \<in> set es. misses {unat start..<unat start + unat sz} hp e"
  shows "virt_ok Q D hp' m' (es @ new)"
    "vtrans hp' (es @ new) a = (if unat a \<in> {unat start..<unat start + unat sz} then Some (p + (a - start)) else vtrans hp es a)"
proof -
  have vw: "virt_wf Q D hp' m' (es @ new)" "same_chunks (set es) hp hp'" using a unfolding opt_added_def by blast+
  obtain n k where k: "new = [n]" "h_chunks hp' n = Some k" "span k = {unat start..<unat start + unat sz}"
    "\<forall>a. trans_of hp' k a = Some (p + (a - start))"
    using a unfolding opt_added_def if_True by blast
  note sv = snoc_view [where g = "\<lambda>a. p + (a - start)", OF v vw(1) [unfolded k(1)] vw(2) k(2,3,4) free]
  show "virt_ok Q D hp' m' (es @ new)" unfolding k(1) by (rule sv(1))
  show "vtrans hp' (es @ new) a = (if unat a \<in> {unat start..<unat start + unat sz} then Some (p + (a - start)) else vtrans hp es a)"
    unfolding k(1) by (rule sv(2))
qed

lemma map_range:
  assumes v: "virt_ok Q D hp m es" and al: "alloc_ok alloc" and room: "card (in_use hp) + 2 < 2 ^ 64"
    and R: "0 < sz" "unat start + unat sz < 2 ^ 64"
    and free: "\<forall>a :: u64. unat a \<in> {unat start..<unat start + unat sz} \<longrightarrow> vtrans hp es a = None"
  shows "\<exists>hp' m' es'. mem_map alloc start sz p hp m = Some (Inr (hp', m')) \<and> virt_ok Q D hp' m' es' \<and> updated hp' m' es' \<and>
    kept Q D hp hp' \<and> chunk_cache m' \<in> set es' \<and> card (in_use hp') \<le> card (in_use hp) + 2 \<and>
    (\<forall>a. vtrans hp' es' a = (if unat a \<in> {unat start..<unat start + unat sz} then Some (p + (a - start)) else vtrans hp es a))"
proof -
  have ms: "\<forall>e \<in> set es. misses {unat start..<unat start + unat sz} hp e" unfolding misses_vtrans [OF v] by (rule free)
  have vw: "virt_wf Q D hp m es" using v by (simp add: virt_ok_def)
  have "\<not> (\<exists>e \<in> set es. \<not> misses {unat start..<unat start + unat sz} hp e)" using ms by blast
  then have rm: "mem_range_mapped start sz hp m = Some False" unfolding range_mapped [OF vw R] by (simp only: simp_thms)
  obtain hp1 m1 new where a: "mem_chunk_map_add alloc hp m start sz p = Some (hp1, m1)"
    "opt_added Q D True start sz p hp es hp1 m1 new"
    using opt_add [where B = True and p = p, OF vw al room conjI [OF R]] unfolding if_True by blast
  note av = added_view [OF v a(2) ms]
  have vw1: "virt_wf Q D hp1 m1 (es @ new)" "kept Q D hp hp1" "card (in_use hp1) \<le> card (in_use hp) + 2"
      "chunk_cache m1 \<in> set (es @ new)"
    using a(2) by (auto simp: opt_added_def)
  obtain hp2 m2 es2 where u: "mem_update hp1 m1 = Some (hp2, m2)" "virt_wf Q D hp2 m2 es2" "mset es2 = mset (es @ new)"
      "updated hp2 m2 es2" "h_chunks hp2 = h_chunks hp1" "h_data hp2 = h_data hp1" "in_use hp2 = in_use hp1" "kept Q D hp1 hp2"
      "chunk_cache m2 = chunk_cache m1"
    using update [OF vw1(1)] by blast
  have se: "set es2 = set (es @ new)" using u(3) by (metis set_mset_mset)
  note vu = vtrans_update [OF virt_mem_ok [OF av(1)] virt_wfD(1) [OF u(2)] se u(5,6)]
  have "mem_map alloc start sz p hp m = Some (Inr (hp2, m2))" using rm a(1) u(1) by (simp add: mem_map_def)
  moreover have "virt_ok Q D hp2 m2 es2" using u(2) vu(2) by (simp add: virt_ok_def)
  moreover have "chunk_cache m2 \<in> set es2" using vw1(4) u(9) se by simp
  moreover have "card (in_use hp2) \<le> card (in_use hp) + 2" using vw1(3) u(7) by simp
  moreover have "\<forall>a. vtrans hp2 es2 a =
      (if unat a \<in> {unat start..<unat start + unat sz} then Some (p + (a - start)) else vtrans hp es a)"
    by (simp only: vu(1) av(2) simp_thms)
  ultimately show ?thesis using u(4) kept_trans [OF vw1(2) u(8)] by blast
qed

lemma map_busy:
  assumes v: "virt_ok Q D hp m es" and R: "0 < sz" "unat start + unat sz < 2 ^ 64"
    and busy: "vtrans hp es a \<noteq> None" "unat a \<in> {unat start..<unat start + unat sz}"
  shows "mem_map alloc start sz p hp m = Some (Inl ''Map request for already mapped region'')"
proof -
  have "\<not> (\<forall>e \<in> set es. misses {unat start..<unat start + unat sz} hp e)"
  proof
    assume "\<forall>e \<in> set es. misses {unat start..<unat start + unat sz} hp e"
    then have "unat a \<in> {unat start..<unat start + unat sz} \<longrightarrow> vtrans hp es a = None"
      unfolding misses_vtrans [OF v] by (rule spec)
    then show False using busy by simp
  qed
  then have b: "(\<exists>e \<in> set es. \<not> misses {unat start..<unat start + unat sz} hp e) = True" by blast
  have "virt_wf Q D hp m es" using v by (simp add: virt_ok_def)
  from range_mapped [OF this R] have "mem_range_mapped start sz hp m = Some True" unfolding b .
  then show ?thesis by (simp add: mem_map_def)
qed



section \<open>The production system of a kdump dump\<close>

text \<open>The physical chunks read the dump, with data of their own; the virtual list is beside them.\<close>

definition dump_ok :: "u64 set \<Rightarrow> dfi \<Rightarrow> u64 list \<Rightarrow> u64 list \<Rightarrow> bool" where
  "dump_ok D st ps vs \<longleftrightarrow> read_ok st ps vs \<and> virt_ok (set ps) D (h st) (mem_virt st) vs \<and>
     (\<forall>e \<in> set ps. \<forall>c. h_chunks (h st) e = Some c \<longrightarrow> c_read_fn c = Dump_read \<and> c_data c \<in> insert 0 D)"

lemma dump_okD:
  assumes "dump_ok D st ps vs"
  shows "read_ok st ps vs" "virt_ok (set ps) D (h st) (mem_virt st) vs"
    "e \<in> set ps \<Longrightarrow> h_chunks (h st) e = Some c \<Longrightarrow> c_read_fn c = Dump_read \<and> c_data c \<in> insert 0 D"
  using assms by (simp_all add: dump_ok_def)

lemma kept_phys:
  assumes k: "kept (set ps) D hp hp'" and m: "mem_ok hp m ps"
    and d: "\<forall>e \<in> set ps. \<forall>c. h_chunks hp e = Some c \<longrightarrow> c_read_fn c = Dump_read \<and> c_data c \<in> insert 0 D"
  shows "mem_ok hp' m ps" "phys_byte img hp' ps = phys_byte img hp ps"
proof -
  have n: "\<forall>e \<in> set ps. h_nodes hp' e = h_nodes hp e" and c: "\<forall>e \<in> set ps. h_chunks hp' e = h_chunks hp e"
    using k by (simp_all add: kept_def)
  have w: "mem_wf hp m ps" and ap: "apart hp (set ps)" using m by (simp_all add: mem_ok_def)
  have "mem_wf hp' m ps" unfolding mem_wf_def
  proof (intro conjI)
    have "\<forall>e \<in> set ps. h_nodes hp' (e2n (chunk_list m) e) = h_nodes hp (e2n (chunk_list m) e)"
      using n by (simp add: no_offset [OF mem_wfD(2) [OF w]])
    then show "holds (chunk_list m) (h_nodes hp') ps" by (rule holds_frame [OF mem_wfD(1) [OF w]])
    show "\<forall>e \<in> set ps. \<exists>c. h_chunks hp' e = Some c \<and> chunk_ok c" using mem_wfD(3) [OF w] c by simp
  qed (rule mem_wfD(2) [OF w])
  then show "mem_ok hp' m ps" using apart_same [OF ap c] by (simp add: mem_ok_def)
  have fnd: "entry_at hp' ps a = entry_at hp ps a" for a
    unfolding entry_at_def using c by (intro find_cong) simp_all
  show "phys_byte img hp' ps = phys_byte img hp ps"
  proof
    fix a show "phys_byte img hp' ps a = phys_byte img hp ps a"
    proof (cases "entry_at hp ps a")
      case None
      then show ?thesis by (simp add: phys_byte_def fnd)
    next
      case (Some e)
      then obtain c' where e: "e \<in> set ps" "h_chunks hp e = Some c'" using entry_at_Some [OF m] by blast
      have "c_read_fn c' = Dump_read" "c_data c' = 0 \<or> c_data c' \<in> D" using d e by auto
      then have "dump_byte img hp' c' a = dump_byte img hp c' a" using k by (auto simp: dump_byte_def kept_def)
      then show ?thesis using Some e c by (simp add: phys_byte_def fnd split: dfi_mem_chunk_read_fn.split)
    qed
  qed
qed

lemma virt_ok_cache [simp]: "virt_ok Q D hp (m\<lparr>chunk_cache := x\<rparr>) es = virt_ok Q D hp m es"
  by (simp add: virt_ok_def virt_wf_def mem_wf_def)

lemma dump_ok_recached: "dump_ok D st ps vs \<Longrightarrow> recached ps vs st st' \<Longrightarrow> dump_ok D st' ps vs"
  using recached_ok [of ps vs st st'] by (auto simp: dump_ok_def recached_def)

lemma entries_in_use: "virt_ok Q D hp m es \<Longrightarrow> length es \<le> card (in_use hp)"
proof -
  assume "virt_ok Q D hp m es"
  then have w: "mem_wf hp m es" by (simp add: virt_ok_def virt_wf_def)
  then have "distinct es" by (simp add: mem_wf_def holds_def)
  moreover have "set es \<subseteq> in_use hp" using mem_wfD(3) [OF w] by (fastforce simp: in_use_def)
  ultimately show ?thesis by (metis card_mono distinct_card finite)
qed

text \<open>An address that is mapped elsewhere is read there.\<close>

lemma virt_byte_mapped:
  assumes m: "mem_ok hp m vs" and t: "vtrans hp vs a = Some p" "p \<noteq> a"
  shows "virt_byte img hp ps vs a = phys_byte img hp ps p"
proof -
  obtain e c where e: "entry_at hp vs a = Some e" "h_chunks hp e = Some c" "trans_of hp c a = Some p"
    using t(1) by (auto simp: vtrans_def bind_eq_Some_conv)
  have "c_read_fn c = Map_read" using e(3) t(2) by (auto simp: trans_of_def split: if_splits)
  then show ?thesis using byte_at(2) [OF e(1,2), of img ps] e(3)
    by (auto simp: trans_of_def bind_eq_Some_conv)
qed

text \<open>The virtual memory after the selection.\<close>

definition prod_view :: "u64 \<Rightarrow> u64 \<Rightarrow> (u64 \<Rightarrow> u64 option) \<Rightarrow> u64 \<Rightarrow> u64 option" where
  "prod_view base sz view a =
     (if unat a < unat sz then Some (base + a)
      else if unat a \<in> {unat base..<unat base + unat sz} then None else view a)"

lemma select_prod:
  assumes d: "dump_ok D st ps vs" and al: "alloc_ok alloc" and room: "25 * card (in_use (h st)) + 2 < 2 ^ 64"
    and sz: "0 < kdump_size st" "unat (kdump_base st) + unat (kdump_size st) < 2 ^ 64"
  shows "\<exists>st' vs'. kdump_select alloc (Some Sel_prod) st = Some (Inr st') \<and> dump_ok D st' ps vs' \<and>
    updated (h st') (mem_virt st') vs' \<and> phys_byte img (h st') ps = phys_byte img (h st) ps \<and>
    vtrans (h st') vs' = prod_view (kdump_base st) (kdump_size st) (vtrans (h st) vs)"
proof -
  let ?b = "kdump_base st" and ?s = "kdump_size st"
  note o = dump_okD [OF d]
  have R0: "unat (0 :: u64) + unat ?s < 2 ^ 64" using unsigned_less [of ?s] by simp
  have "card (in_use (h st)) + 4 * length vs < 2 ^ 64" using entries_in_use [OF o(2)] room by linarith
  then obtain hp1 m1 es1 where u1: "mem_unmap alloc 0 ?s (h st) (mem_virt st) = Some (hp1, m1)" "virt_ok (set ps) D hp1 m1 es1"
    "kept (set ps) D (h st) hp1" "card (in_use hp1) \<le> card (in_use (h st)) + 4 * length vs"
    "\<forall>a. vtrans hp1 es1 a = (if unat a \<in> {unat (0 :: u64)..<unat (0 :: u64) + unat ?s} then None else vtrans (h st) vs a)"
    using unmap [OF o(2) al _ sz(1) R0] by blast
  have c1: "card (in_use hp1) \<le> 5 * card (in_use (h st))" using u1(4) entries_in_use [OF o(2)] by linarith
  have "card (in_use hp1) + 4 * length es1 < 2 ^ 64" using c1 entries_in_use [OF u1(2)] room by linarith
  then obtain hp2 m2 es2 where u2: "mem_unmap alloc ?b ?s hp1 m1 = Some (hp2, m2)" "virt_ok (set ps) D hp2 m2 es2"
    "kept (set ps) D hp1 hp2" "card (in_use hp2) \<le> card (in_use hp1) + 4 * length es1"
    "\<forall>a. vtrans hp2 es2 a = (if unat a \<in> {unat ?b..<unat ?b + unat ?s} then None else vtrans hp1 es1 a)"
    using unmap [OF u1(2) al _ sz] by blast
  have "card (in_use hp2) + 2 < 2 ^ 64" using c1 u2(4) entries_in_use [OF u1(2)] room by linarith
  moreover have "\<forall>a :: u64. unat a \<in> {unat (0 :: u64)..<unat (0 :: u64) + unat ?s} \<longrightarrow> vtrans hp2 es2 a = None"
    using u1(5) u2(5) by simp
  ultimately obtain hp3 m3 es3 where u3: "mem_map alloc 0 ?s ?b hp2 m2 = Some (Inr (hp3, m3))" "virt_ok (set ps) D hp3 m3 es3"
    "updated hp3 m3 es3" "kept (set ps) D hp2 hp3" "chunk_cache m3 \<in> set es3"
    "\<forall>a. vtrans hp3 es3 a = (if unat a \<in> {unat (0 :: u64)..<unat (0 :: u64) + unat ?s} then Some (?b + (a - 0)) else vtrans hp2 es2 a)"
    using map_range [where p = ?b, OF u2(2) al _ sz(1) R0] by blast
  let ?st = "st\<lparr>h := hp3, mem_virt := m3\<rparr>"
  have call: "kdump_select alloc (Some Sel_prod) st = Some (Inr ?st)"
    using u1(1) u2(1) u3(1) by (simp add: kdump_select_def)
  note k = kept_trans [OF kept_trans [OF u1(3) u2(3)] u3(4)]
  have mp: "mem_ok (h st) (mem_phys st) ps" using o(1) by (simp add: read_ok_def)
  have dp: "\<forall>e \<in> set ps. \<forall>c. h_chunks (h st) e = Some c \<longrightarrow> c_read_fn c = Dump_read \<and> c_data c \<in> insert 0 D" using o(3) by blast
  have "read_ok ?st ps es3"
    using kept_phys(1) [OF k mp dp] virt_mem_ok [OF u3(2)] u3(5) o(1) by (simp add: read_ok_def)
  moreover have "\<forall>e \<in> set ps. \<forall>c. h_chunks hp3 e = Some c \<longrightarrow> c_read_fn c = Dump_read \<and> c_data c \<in> insert 0 D"
    using dp k unfolding kept_def by metis
  ultimately have "dump_ok D ?st ps es3" using u3(2) by (simp add: dump_ok_def)
  moreover have "vtrans hp3 es3 = prod_view ?b ?s (vtrans (h st) vs)"
    using u1(5) u2(5) u3(6) by (intro ext) (simp add: prod_view_def)
  ultimately show ?thesis using call u3(3) kept_phys(2) [OF k mp dp, of img]
    by (intro exI [of _ ?st] exI [of _ es3]) simp
qed

text \<open>What is read below the size are the bytes from the base on.\<close>

lemma prod_read:
  assumes d: "dump_ok D st ps vs" and base: "base \<noteq> 0" and v: "vtrans (h st) vs = prod_view base sz view"
    and r: "unat a + unat cnt \<le> unat sz" "\<forall>i < unat cnt. phys_byte img (h st) ps (base + a + of_nat i) = Some (f i)"
  shows "\<exists>st'. dfi_mem_read img st a cnt = Some (map f [0..<unat cnt], st') \<and> recached ps vs st st'"
  unfolding dfi_mem_read_def
proof (rule virt_read [OF dump_okD(1) [OF d]], intro allI impI)
  fix i assume i: "i < unat cnt"
  have "unat sz < 2 ^ 64" using unsigned_less [of sz] by simp
  then have u: "unat (a + of_nat i) = unat a + i"
    using i r(1) by (intro unat_eqI) simp_all
  have t: "vtrans (h st) vs (a + of_nat i) = Some (base + (a + of_nat i))"
    unfolding v prod_view_def u using i r(1) by simp
  have "virt_byte img (h st) ps vs (a + of_nat i) = phys_byte img (h st) ps (base + (a + of_nat i))"
    by (rule virt_byte_mapped [OF virt_mem_ok [OF dump_okD(2) [OF d]] t]) (use base in simp)
  then show "virt_byte img (h st) ps vs (a + of_nat i) = Some (f i)" using r(2) i by (simp add: add.assoc)
qed

text \<open>\<open>kdump_init\<close> as a whole: the two words are in the memory of the dumped kdump kernel.\<close>

definition word_at :: "(u64 \<Rightarrow> u8 option) \<Rightarrow> u64 \<Rightarrow> u64 \<Rightarrow> bool" where
  "word_at mem a w \<longleftrightarrow> (\<forall>i < 8. mem (a + of_nat i) = Some (be64 w ! i))"

lemma read_word:
  assumes "read_ok st ps vs" "word_at (phys_byte img (h st) ps) a w"
  shows "\<exists>bs st'. dfi_mem_phys_read img st a 8 = Some (bs, st') \<and> fst (get64 bs) = w \<and> recached ps vs st st'"
proof -
  have "map (\<lambda>i. be64 w ! i) [0..<8] = be64 w" using map_nth [of "be64 w"] by simp
  then have "fst (get64 (map (\<lambda>i. be64 w ! i) [0..<unat (8 :: u64)])) = w" using get64_be64 [of w "[]"] by simp
  moreover have "\<forall>i < unat (8 :: u64). phys_byte img (h st) ps (a + of_nat i) = Some (be64 w ! i)"
    using assms(2) by (simp add: word_at_def)
  ultimately show ?thesis using phys_read [OF assms(1)] unfolding dfi_mem_phys_read_def by blast
qed

definition in_memory :: "dfi \<Rightarrow> u64 list \<Rightarrow> u64 \<Rightarrow> u64 \<Rightarrow> bool" where
  "in_memory st vs a len \<longleftrightarrow> (\<forall>x \<in> {unat a..<unat a + unat len}. entry_at (h st) vs (of_nat x) \<noteq> None)"

lemma init_select:
  assumes d: "dump_ok D st ps vs" and b: "word_at (phys_byte img (h st) ps) 0x10418 base" "word_at (phys_byte img (h st) ps) 0x10420 sz"
    and z: "base \<noteq> 0" "sz \<noteq> 0" "base mod MIB = 0" "sz mod MIB = 0" "unat base + unat sz < 2 ^ 64"
  shows "\<exists>st'. recached ps vs st st' \<and> kdump_init img alloc sel st =
    (if in_memory st vs base sz then kdump_select alloc sel (st'\<lparr>kdump_base := base, kdump_size := sz\<rparr>) else Some (Inr st'))"
proof -
  obtain b1 st1 where r1: "dfi_mem_phys_read img st 0x10418 8 = Some (b1, st1)" "fst (get64 b1) = base" "recached ps vs st st1"
    using read_word [OF dump_okD(1) [OF d] b(1)] by blast
  note d1 = dump_ok_recached [OF d r1(3)] and e1 = recached_ok [OF r1(3) dump_okD(1) [OF d], THEN conjunct2]
  obtain b2 st2 where r2: "dfi_mem_phys_read img st1 0x10420 8 = Some (b2, st2)" "fst (get64 b2) = sz" "recached ps vs st1 st2"
    using read_word [OF dump_okD(1) [OF d1]] b(2) e1 by metis
  note d2 = dump_ok_recached [OF d1 r2(3)] and e2 = recached_ok [OF r2(3) dump_okD(1) [OF d1], THEN conjunct2]
  have "0 < sz" using z(2) by (simp add: word_neq_0_conv)
  from range_valid [OF dump_okD(1) [OF d2] this z(5)] obtain st3 where
    r3: "dfi_mem_range_valid st2 base sz = Some (in_memory st vs base sz, st3)" "recached ps vs st2 st3"
    unfolding in_memory_def e1 e2 by blast
  have "kdump_init img alloc sel st =
      (if in_memory st vs base sz then kdump_select alloc sel (st3\<lparr>kdump_base := base, kdump_size := sz\<rparr>) else Some (Inr st3))"
    using r1(1,2) r2(1,2) r3(1) z(1-4) by (simp add: kdump_init_def Let_def)
  then show ?thesis using recached_trans [OF r1(3) recached_trans [OF r2(3) r3(2)]] by blast
qed

lemma dump_ok_fields [simp]:
  "dump_ok D (st\<lparr>kdump_base := b, kdump_size := s\<rparr>) ps vs = dump_ok D st ps vs"
  by (simp add: dump_ok_def read_ok_def)

lemma init_prod:
  assumes d: "dump_ok D st ps vs" and al: "alloc_ok alloc" and room: "25 * card (in_use (h st)) + 2 < 2 ^ 64"
    and b: "word_at (phys_byte img (h st) ps) 0x10418 base" "word_at (phys_byte img (h st) ps) 0x10420 sz"
    and z: "base \<noteq> 0" "sz \<noteq> 0" "base mod MIB = 0" "sz mod MIB = 0" "unat base + unat sz < 2 ^ 64"
    and m: "in_memory st vs base sz"
  shows "\<exists>st' vs'. kdump_init img alloc (Some Sel_prod) st = Some (Inr st') \<and> dump_ok D st' ps vs' \<and>
    updated (h st') (mem_virt st') vs' \<and> vtrans (h st') vs' = prod_view base sz (vtrans (h st) vs) \<and>
    (\<forall>a cnt f. unat a + unat cnt \<le> unat sz \<longrightarrow> (\<forall>i < unat cnt. phys_byte img (h st) ps (base + a + of_nat i) = Some (f i)) \<longrightarrow>
      (\<exists>st''. dfi_mem_read img st' a cnt = Some (map f [0..<unat cnt], st'')))"
proof -
  obtain st1 where r: "recached ps vs st st1" "kdump_init img alloc (Some Sel_prod) st =
      kdump_select alloc (Some Sel_prod) (st1\<lparr>kdump_base := base, kdump_size := sz\<rparr>)"
    using init_select [OF d b z, of alloc "Some Sel_prod"] unfolding if_P [OF m] by blast
  let ?st = "st1\<lparr>kdump_base := base, kdump_size := sz\<rparr>"
  have e: "h ?st = h st" using recached_ok [OF r(1) dump_okD(1) [OF d]] by simp
  have d1: "dump_ok D ?st ps vs" using dump_ok_recached [OF d r(1)] by simp
  have "25 * card (in_use (h ?st)) + 2 < 2 ^ 64" "0 < kdump_size ?st" "unat (kdump_base ?st) + unat (kdump_size ?st) < 2 ^ 64"
    using room z e by (simp_all add: word_neq_0_conv)
  from select_prod [OF d1 al this, of img] obtain st' vs' where
    s: "kdump_select alloc (Some Sel_prod) ?st = Some (Inr st')" "dump_ok D st' ps vs'" "updated (h st') (mem_virt st') vs'"
      "phys_byte img (h st') ps = phys_byte img (h st) ps" "vtrans (h st') vs' = prod_view base sz (vtrans (h st) vs)"
    unfolding e by auto
  have "\<exists>st''. dfi_mem_read img st' a cnt = Some (map f [0..<unat cnt], st'')"
    if "unat a + unat cnt \<le> unat sz" "\<forall>i < unat cnt. phys_byte img (h st) ps (base + a + of_nat i) = Some (f i)" for a cnt f
    using prod_read [where img = img, OF s(2) z(1) s(5) that(1), unfolded s(4), OF that(2)] by blast
  then show ?thesis using r(2) s by (intro exI [of _ st'] exI [of _ vs']) simp
qed

end
