(* ===== verification/Dfi_Build.thy ===== *)
theory Dfi_Build
  imports Dfi_Kdump
begin

text \<open>
  Building the memory of a dump: the dump formats call \<open>dfi_mem_chunk_add\<close> for every chunk they find,
  which appends it to the physical and to the virtual list.  From the empty lists of \<open>mem_init\<close> on, the
  two lists satisfy what reading, unmapping and mapping need.
\<close>

text \<open>The state before a cache is set.\<close>

definition dump_wf :: "u64 set \<Rightarrow> dfi \<Rightarrow> u64 list \<Rightarrow> u64 list \<Rightarrow> bool" where
  "dump_wf D st ps vs \<longleftrightarrow> mem_ok (h st) (mem_phys st) ps \<and> virt_ok (set ps) D (h st) (mem_virt st) vs \<and>
     (\<forall>e \<in> set ps. \<forall>c. h_chunks (h st) e = Some c \<longrightarrow> c_read_fn c = Dump_read \<and> c_data c \<in> insert 0 D)"

lemma dump_ok_wf: "dump_ok D st ps vs \<longleftrightarrow>
    dump_wf D st ps vs \<and> chunk_cache (mem_phys st) \<in> set ps \<and> chunk_cache (mem_virt st) \<in> set vs"
  using virt_mem_ok by (auto simp: dump_ok_def dump_wf_def read_ok_def)

lemma dump_wf_init:
  assumes "mem_phys st = mem_init m" "mem_virt st = mem_init m'" "D \<subseteq> dom (h_data (h st))"
  shows "dump_wf D st [] []"
  using assms by (simp add: dump_wf_def mem_ok_def virt_ok_def virt_wf_def mem_wf_def mem_init_def apart_def
      holds_def nodes_of_def util_list_init_offset_def)

text \<open>The range of a new chunk is free in a list.\<close>

definition vacant :: "heap \<Rightarrow> u64 list \<Rightarrow> u64 \<Rightarrow> u64 \<Rightarrow> bool" where
  "vacant hp es start sz \<longleftrightarrow> (\<forall>e \<in> set es. misses {unat start..<unat start + unat sz} hp e)"

lemma create_apart:
  assumes ap: "apart hp (set es)" and v: "vacant hp es (c_start c) (c_size c)" and hc: "h_chunks hp' = (h_chunks hp)(a \<mapsto> c)"
    and a: "a \<notin> set es"
  shows "apart hp' (set (es @ [a]))"
proof -
  have same: "\<forall>e \<in> set es. h_chunks hp' e = h_chunks hp e" using a by (auto simp: hc)
  have "apart hp' (set es \<union> {a})"
  proof (rule apart_union)
    show "apart hp' (set es)" by (rule apart_same [OF ap same])
    show "apart hp' {a}" by (simp add: apart_def)
    fix e f k d assume e: "e \<in> set es" "f \<in> {a}" "h_chunks hp' e = Some k" "h_chunks hp' f = Some d"
    have "d = c" "h_chunks hp e = Some k" using e a by (auto simp: hc split: if_splits)
    then show "span k \<inter> span d = {}" using v e(1) unfolding vacant_def misses_def span_def by blast
  qed
  then show ?thesis by simp
qed

text \<open>A list whose nodes and chunks are left alone.\<close>

lemma mem_wf_frame:
  assumes "mem_wf hp m es" "\<forall>e \<in> set es. h_nodes hp' e = h_nodes hp e \<and> h_chunks hp' e = h_chunks hp e"
  shows "mem_wf hp' m es"
  unfolding mem_wf_def
proof (intro conjI)
  show "l_offset (chunk_list m) = 0" by (rule mem_wfD(2) [OF assms(1)])
  have "\<forall>e \<in> set es. h_nodes hp' (e2n (chunk_list m) e) = h_nodes hp (e2n (chunk_list m) e)"
    using assms(2) by (simp add: no_offset [OF mem_wfD(2) [OF assms(1)]])
  then show "holds (chunk_list m) (h_nodes hp') es" by (rule holds_frame [OF mem_wfD(1) [OF assms(1)]])
  show "\<forall>e \<in> set es. \<exists>c. h_chunks hp' e = Some c \<and> chunk_ok c" using mem_wfD(3) [OF assms(1)] assms(2) by simp
qed

lemma virt_wf_snoc:
  assumes vw: "virt_wf Q D hp m vs" and w: "mem_wf hp' m' (vs @ [v])"
    and hc: "h_chunks hp' = (h_chunks hp)(p \<mapsto> c, v \<mapsto> c)" and n: "p \<notin> set vs" "v \<notin> insert p Q" "v \<notin> set vs"
    and data: "c_data c \<in> insert 0 D" "c_free_fn c \<longrightarrow> c_data c = 0" and rf: "c_read_fn c = Dump_read" and hd: "h_data hp' = h_data hp"
  shows "virt_wf (insert p Q) D hp' m' (vs @ [v])"
  unfolding virt_wf_def
proof (intro conjI)
  note d = virt_wfD [OF vw]
  show "set (vs @ [v]) \<inter> insert p Q = {}" using d(2) n by auto
  show "insert p Q \<subseteq> dom (h_chunks hp')" "D \<subseteq> dom (h_data hp')" using d(3,4) by (auto simp: hc hd)
  have old: "h_chunks hp e = Some k" "data_ok D hp' k" if "e \<in> set vs" "h_chunks hp' e = Some k" for e k
  proof -
    show o: "h_chunks hp e = Some k" using that n by (auto simp: hc split: if_splits)
    have "data_ok D hp' k = data_ok D hp k" by (simp add: data_ok_def hd)
    then show "data_ok D hp' k" using d(5) [OF that(1) o] by simp
  qed
  have new: "c_data k \<noteq> c_data c" if "e \<in> set vs" "h_chunks hp' e = Some k" "c_read_fn k = Map_read" for e k
    using old(2) [OF that(1,2)] that(3) data(1) by (auto simp: data_ok_def)
  show "\<forall>e \<in> set (vs @ [v]). \<forall>k. h_chunks hp' e = Some k \<longrightarrow> data_ok D hp' k"
  proof (intro ballI allI impI)
    fix e k assume e: "e \<in> set (vs @ [v])" "h_chunks hp' e = Some k"
    show "data_ok D hp' k"
    proof (cases "e = v")
      case True
      then have "k = c" using e(2) by (simp add: hc)
      then show ?thesis using data rf by (auto simp: data_ok_def)
    next
      case False
      then have "e \<in> set vs" using e(1) by simp
      then show ?thesis using e(2) by (rule old(2))
    qed
  qed
  show "\<forall>e \<in> set (vs @ [v]). \<forall>f \<in> set (vs @ [v]). \<forall>k l. h_chunks hp' e = Some k \<longrightarrow> h_chunks hp' f = Some l \<longrightarrow> e \<noteq> f \<longrightarrow>
      c_read_fn k = Map_read \<longrightarrow> c_data l \<noteq> c_data k"
  proof (intro ballI allI impI)
    fix e f k l
    assume e: "e \<in> set (vs @ [v])" "f \<in> set (vs @ [v])" "h_chunks hp' e = Some k" "h_chunks hp' f = Some l" "e \<noteq> f" "c_read_fn k = Map_read"
    have ev: "e \<in> set vs" using e(1,3,6) rf by (auto simp: hc)
    show "c_data l \<noteq> c_data k"
    proof (cases "f = v")
      case True
      then have "l = c" using e(4) by (simp add: hc)
      then show ?thesis using new [OF ev e(3,6)] by simp
    next
      case False
      then have f: "f \<in> set vs" using e(2) by simp
      show ?thesis by (rule d(6) [OF ev f old(1) [OF ev e(3)] old(1) [OF f e(4)] e(5,6)])
    qed
  qed
qed (rule w)

lemma chunk_add:
  assumes w: "dump_wf D st ps vs" and al: "alloc_ok alloc" and room: "card (in_use (h st)) + 2 < 2 ^ 64"
    and sz: "0 < sz" "unat start + unat sz < 2 ^ 64" and vac: "vacant (h st) ps start sz" "vacant (h st) vs start sz"
    and data: "data \<in> insert 0 D" "ff \<longrightarrow> data = 0"
  shows "\<exists>st' p v. dfi_mem_chunk_add alloc st start sz data Dump_read ff = Some st' \<and> dump_ok D st' (ps @ [p]) (vs @ [v]) \<and>
    h_chunks (h st') = (h_chunks (h st))(p \<mapsto> \<lparr>c_start = start, c_end = start + sz - 1, c_size = sz, c_read_fn = Dump_read,
      c_free_fn = ff, c_data = data\<rparr>, v \<mapsto> \<lparr>c_start = start, c_end = start + sz - 1, c_size = sz, c_read_fn = Dump_read,
      c_free_fn = ff, c_data = data\<rparr>) \<and>
    h_data (h st') = h_data (h st) \<and> card (in_use (h st')) = card (in_use (h st)) + 2"
proof -
  let ?c = "\<lparr>c_start = start, c_end = start + sz - 1, c_size = sz, c_read_fn = Dump_read, c_free_fn = ff, c_data = data\<rparr>"
  have cok: "chunk_ok ?c" using sz by (simp add: chunk_ok_def)
  have mp: "mem_wf (h st) (mem_phys st) ps" "apart (h st) (set ps)" and vo: "virt_ok (set ps) D (h st) (mem_virt st) vs"
    using w by (simp_all add: dump_wf_def mem_ok_def)
  have vw: "virt_wf (set ps) D (h st) (mem_virt st) vs" "apart (h st) (set vs)" using vo by (simp_all add: virt_ok_def)
  note d = virt_wfD [OF vw(1)]
  define p where "p = alloc (h st)"
  have p: "p \<noteq> 0" "p \<notin> in_use (h st)" using al room by (auto simp: alloc_ok_def p_def)
  from create [where alloc = alloc, OF mp(1) p_def [symmetric] p refl cok] obtain hp1 m1 where c1:
    "mem_chunk_create alloc (h st) (mem_phys st) start sz data Dump_read ff = Some (hp1, m1)" "mem_wf hp1 m1 (ps @ [p])"
    "h_chunks hp1 = (h_chunks (h st))(p \<mapsto> ?c)" "h_data hp1 = h_data (h st)" "dom (h_nodes hp1) = insert p (dom (h_nodes (h st)))"
    "\<forall>x. x \<notin> set ps \<and> x \<noteq> p \<longrightarrow> h_nodes hp1 x = h_nodes (h st) x" "chunk_cache m1 = p" by blast
  have u1: "in_use hp1 = insert p (in_use (h st))" using c1(3,4,5) by (auto simp: in_use_def)
  define v where "v = alloc hp1"
  have "card (in_use hp1) = card (in_use (h st)) + 1" using p(2) by (simp add: u1)
  then have v: "v \<noteq> 0" "v \<notin> in_use hp1" using al room by (auto simp: alloc_ok_def v_def)
  have pn: "p \<notin> set ps" "p \<notin> set vs"
    using p(2) mem_wfD(3) [OF mp(1), of p] mem_wfD(3) [OF d(1), of p] by (auto simp: in_use_def)
  have "\<forall>e \<in> set vs. h_nodes hp1 e = h_nodes (h st) e \<and> h_chunks hp1 e = h_chunks (h st) e"
    using c1(3,6) pn d(2) by auto
  then have mv: "mem_wf hp1 (mem_virt st) vs" by (rule mem_wf_frame [OF d(1)])
  from create [where alloc = alloc, OF mv v_def [symmetric] v refl cok] obtain hp2 m2 where c2:
    "mem_chunk_create alloc hp1 (mem_virt st) start sz data Dump_read ff = Some (hp2, m2)" "mem_wf hp2 m2 (vs @ [v])"
    "h_chunks hp2 = (h_chunks hp1)(v \<mapsto> ?c)" "h_data hp2 = h_data hp1" "dom (h_nodes hp2) = insert v (dom (h_nodes hp1))"
    "\<forall>x. x \<notin> set vs \<and> x \<noteq> v \<longrightarrow> h_nodes hp2 x = h_nodes hp1 x" "chunk_cache m2 = v" by blast
  have vn: "v \<notin> set ps" "v \<notin> set vs" "v \<noteq> p"
    using v(2) u1 mem_wfD(3) [OF mp(1), of v] mem_wfD(3) [OF d(1), of v] by (auto simp: in_use_def)
  have u2: "in_use hp2 = insert v (insert p (in_use (h st)))" using c2(3,4,5) u1 by (auto simp: in_use_def)
  let ?st = "st\<lparr>h := hp2, mem_phys := m1, mem_virt := m2\<rparr>"
  have call: "dfi_mem_chunk_add alloc st start sz data Dump_read ff = Some ?st"
    using c1(1) c2(1) by (simp add: dfi_mem_chunk_add_def)
  have "\<forall>e \<in> set (ps @ [p]). h_nodes hp2 e = h_nodes hp1 e \<and> h_chunks hp2 e = h_chunks hp1 e"
    using c2(3,6) vn pn d(2) by auto
  then have wp: "mem_wf hp2 m1 (ps @ [p])" by (rule mem_wf_frame [OF c1(2)])
  have hc: "h_chunks hp2 = (h_chunks (h st))(p \<mapsto> ?c, v \<mapsto> ?c)" by (simp add: c1(3) c2(3))
  have ap1: "apart hp1 (set (ps @ [p]))" using create_apart [OF mp(2) _ c1(3) pn(1)] vac(1) by simp
  have app: "apart hp2 (set (ps @ [p]))" by (rule apart_same [OF ap1]) (use c2(3) vn in auto)
  have sv: "\<forall>e \<in> set vs. h_chunks hp1 e = h_chunks (h st) e" using c1(3) pn by auto
  have "vacant hp1 vs start sz" using vac(2) sv by (simp add: vacant_def misses_def)
  then have apv: "apart hp2 (set (vs @ [v]))"
    using create_apart [OF apart_same [OF vw(2) sv] _ c2(3) vn(2)] by simp
  have "virt_wf (set (ps @ [p])) D hp2 m2 (vs @ [v])"
    using virt_wf_snoc [OF vw(1) c2(2) hc pn(2) _ vn(2)] data vn c1(4) c2(4) by simp
  moreover have "\<forall>e \<in> set (ps @ [p]). \<forall>c. h_chunks hp2 e = Some c \<longrightarrow> c_read_fn c = Dump_read \<and> c_data c \<in> insert 0 D"
    using w data(1) vn(1) by (auto simp: hc dump_wf_def)
  ultimately have "dump_ok D ?st (ps @ [p]) (vs @ [v])"
    using wp app apv c1(7) c2(7) by (simp add: dump_ok_wf dump_wf_def mem_ok_def virt_ok_def)
  moreover have "card (in_use hp2) = card (in_use (h st)) + 2" using p(2) v(2) u1 by (simp add: u2)
  ultimately show ?thesis using call hc c1(4) c2(4) by (intro exI [of _ ?st] exI [of _ p] exI [of _ v]) simp
qed

end
