(* ===== verification/Dfi_View.thy ===== *)
theory Dfi_View
  imports Dfi_Build
begin

text \<open>
  What the memory interface of \<open>zgetdump\<close> promises to the dump formats and to the output formats, from
  building the two lists of chunks to reading the production system of a kdump dump, with a dump for
  which everything is carried out.
\<close>

section \<open>The library lemmas in the form of the interface\<close>

lemma read_rc:
  assumes r: "read_ok st ps vs" and R: "0 < len" "unat a + unat len < 2 ^ 64"
  shows "(if in_memory st vs a len
    then \<forall>f. (\<forall>i < unat len. virt_byte img (h st) ps vs (a + of_nat i) = Some (f i)) \<longrightarrow>
      (\<exists>st'. dfi_mem_read_rc img st a len = Some (0, map f [0..<unat len], st') \<and> recached ps vs st st')
    else \<exists>st'. dfi_mem_read_rc img st a len = Some (-22, [], st') \<and> recached ps vs st st')"
proof -
  obtain st1 where v: "dfi_mem_range_valid st a len = Some (in_memory st vs a len, st1)" "recached ps vs st st1"
    using range_valid [OF r R] unfolding in_memory_def by blast
  note o = recached_ok [OF v(2) r]
  show ?thesis
  proof (cases "in_memory st vs a len")
    case True
    have "\<exists>st'. dfi_mem_read_rc img st a len = Some (0, map f [0..<unat len], st') \<and> recached ps vs st st'"
      if f: "\<forall>i < unat len. virt_byte img (h st) ps vs (a + of_nat i) = Some (f i)" for f
    proof -
      obtain st' where s: "mem_read img Virt st1 a len = Some (map f [0..<unat len], st')" "recached ps vs st1 st'"
        using virt_read [where img = img and a = a and cnt = len and f = f, OF conjunct1 [OF o]] f o by auto
      then show ?thesis using v(1) True recached_trans [OF v(2) s(2)] by (simp add: dfi_mem_read_rc_def dfi_mem_read_def)
    qed
    then show ?thesis using True by simp
  next
    case False
    then show ?thesis using v by (simp add: dfi_mem_read_rc_def)
  qed
qed

lemma map_exact:
  assumes v: "virt_ok Q D hp m es" and al: "alloc_ok alloc" and room: "card (in_use hp) + 2 < 2 ^ 64"
    and R: "0 < sz" "unat start + unat sz < 2 ^ 64"
  shows "if \<forall>a. unat a \<in> {unat start..<unat start + unat sz} \<longrightarrow> vtrans hp es a = None
    then \<exists>hp' m' es'. mem_map alloc start sz p hp m = Some (Inr (hp', m')) \<and> virt_ok Q D hp' m' es' \<and> updated hp' m' es' \<and>
      kept Q D hp hp' \<and>
      (\<forall>a. vtrans hp' es' a = (if unat a \<in> {unat start..<unat start + unat sz} then Some (p + (a - start)) else vtrans hp es a))
    else mem_map alloc start sz p hp m = Some (Inl ''Map request for already mapped region'')"
proof (cases "\<forall>a. unat a \<in> {unat start..<unat start + unat sz} \<longrightarrow> vtrans hp es a = None")
  case True
  then show ?thesis using map_range [where p = p, OF v al room R True] unfolding if_P [OF True] by blast
next
  case False
  then obtain a where "vtrans hp es a \<noteq> None" "unat a \<in> {unat start..<unat start + unat sz}" by blast
  then show ?thesis unfolding if_not_P [OF False] by (rule map_busy [OF v R])
qed

lemma add_view:
  assumes w: "dump_wf D st ps vs" and al: "alloc_ok alloc" and room: "card (in_use (h st)) + 2 < 2 ^ 64"
    and sz: "0 < sz" "unat start + unat sz < 2 ^ 64" and vac: "vacant (h st) ps start sz" "vacant (h st) vs start sz"
    and data: "data \<in> insert 0 D" "ff \<longrightarrow> data = 0"
  shows "\<exists>st' p v. dfi_mem_chunk_add alloc st start sz data Dump_read ff = Some st' \<and> dump_ok D st' (ps @ [p]) (vs @ [v]) \<and>
    (\<forall>a. vtrans (h st') (vs @ [v]) a =
      (if unat a \<in> {unat start..<unat start + unat sz} then Some a else vtrans (h st) vs a))"
proof -
  let ?c = "\<lparr>c_start = start, c_end = start + sz - 1, c_size = sz, c_read_fn = Dump_read, c_free_fn = ff, c_data = data\<rparr>"
  obtain st' p v where r: "dfi_mem_chunk_add alloc st start sz data Dump_read ff = Some st'" "dump_ok D st' (ps @ [p]) (vs @ [v])"
    "h_chunks (h st') = (h_chunks (h st))(p \<mapsto> ?c, v \<mapsto> ?c)" "h_data (h st') = h_data (h st)"
    using chunk_add [OF w al room sz vac data] by blast
  have vo: "virt_ok (set ps) D (h st) (mem_virt st) vs" using w by (simp add: dump_wf_def)
  have vw: "virt_wf (set (ps @ [p])) D (h st') (mem_virt st') (vs @ [v])" using dump_okD(2) [OF r(2)] by (simp add: virt_ok_def)
  have n: "p \<notin> set vs" "v \<notin> set vs"
    using virt_wfD(2) [OF vw] mem_wfD(1) [OF virt_wfD(1) [OF vw]] by (auto simp: holds_def)
  have same: "same_chunks (set vs) (h st) (h st')" using n by (auto simp: same_chunks_def r(3,4))
  have k: "h_chunks (h st') v = Some ?c" "span ?c = {unat start..<unat start + unat sz}" "\<forall>a. trans_of (h st') ?c a = Some a"
    by (simp_all add: r(3) span_def trans_of_def)
  show ?thesis using r(1,2) snoc_view(2) [OF vo vw same k vac(2) [unfolded vacant_def]] by blast
qed


section \<open>A dump\<close>

text \<open>Three megabytes of memory: the saved kernel is in the third, the words of the kdump kernel are in the first.\<close>

definition small_chunk :: dfi_mem_chunk where
  "small_chunk = \<lparr>c_start = 0, c_end = 0x2FFFFF, c_size = 0x300000, c_read_fn = Dump_read, c_free_fn = False, c_data = 0\<rparr>"

definition small_heap :: heap where
  "small_heap = \<lparr>h_nodes = [16 \<mapsto> \<lparr>nd_next = 0, nd_prev = 0\<rparr>, 32 \<mapsto> \<lparr>nd_next = 0, nd_prev = 0\<rparr>],
     h_chunks = [16 \<mapsto> small_chunk, 32 \<mapsto> small_chunk], h_data = Map.empty\<rparr>"

definition small_mem :: "u64 \<Rightarrow> mem" where
  "small_mem e = \<lparr>chunk_cache = e, start_addr = 0, end_addr = 0x2FFFFF, chunk_cnt = 1,
     chunk_list = \<lparr>l_offset = 0, l_start = e, l_end = e\<rparr>\<rparr>"

definition small_dump :: dfi where
  "small_dump = \<lparr>h = small_heap, mem_phys = small_mem 16, mem_virt = small_mem 32, kdump_base = 0, kdump_size = 0\<rparr>"

definition small_img :: "dfi_mem_chunk \<Rightarrow> u64 \<Rightarrow> u64 \<Rightarrow> u8" where
  "small_img c d off =
     (if 0x10418 \<le> off \<and> off < 0x10420 then be64 0x200000 ! unat (off - 0x10418)
      else if 0x10420 \<le> off \<and> off < 0x10428 then be64 0x100000 ! unat (off - 0x10420) else ucast off)"

text \<open>The smallest free address.\<close>

definition least_free :: "heap \<Rightarrow> u64" where
  "least_free hp = (LEAST a. a \<noteq> 0 \<and> a \<notin> in_use hp)"

lemma least_free_ok: "alloc_ok least_free"
  unfolding alloc_ok_def
proof (intro allI impI)
  fix hp :: heap assume c: "card (in_use hp) < 2 ^ 64 - 1"
  have "\<exists>a :: u64. a \<noteq> 0 \<and> a \<notin> in_use hp"
  proof (rule ccontr)
    assume "\<not> ?thesis"
    then have "UNIV - {0 :: u64} \<subseteq> in_use hp" by blast
    then have "card (UNIV - {0 :: u64}) \<le> card (in_use hp)" by (intro card_mono) simp_all
    then show False using c by (simp add: card_word card_Diff_subset)
  qed
  then show "least_free hp \<noteq> 0 \<and> least_free hp \<notin> in_use hp" unfolding least_free_def by (rule LeastI_ex)
qed

lemma small_wf: "dump_ok {} small_dump [16] [32]"
proof -
  have c: "chunk_ok small_chunk" by (simp add: chunk_ok_def small_chunk_def)
  have m: "mem_wf small_heap (small_mem 16) [16]" "mem_wf small_heap (small_mem 32) [32]"
    using c by (simp_all add: mem_wf_def small_mem_def small_heap_def holds_def nodes_of_def e2n_def)
  have "data_ok {} small_heap small_chunk" by (simp add: data_ok_def small_chunk_def)
  moreover have "h_chunks small_heap = [16 \<mapsto> small_chunk, 32 \<mapsto> small_chunk]" by (simp add: small_heap_def)
  ultimately have v: "virt_wf {16} {} small_heap (small_mem 32) [32]" using m(2) by (simp add: virt_wf_def)
  then show ?thesis using m
    by (simp add: dump_ok_def read_ok_def virt_ok_def mem_ok_def apart_def small_dump_def)
      (simp add: small_mem_def small_heap_def small_chunk_def)
qed

lemma small_in_use: "in_use (h small_dump) = {16, 32}"
  by (auto simp: in_use_def small_dump_def small_heap_def)

lemma small_entry:
  "unat a < 0x300000 \<Longrightarrow> entry_at (h small_dump) [16] a = Some 16" "unat a < 0x300000 \<Longrightarrow> entry_at (h small_dump) [32] a = Some 32"
  by (simp_all add: entry_at_def small_dump_def small_heap_def mem_chunk_has_addr_def small_chunk_def word_le_nat_alt)

lemma small_phys: "unat a < 0x300000 \<Longrightarrow> phys_byte small_img (h small_dump) [16] a = Some (small_img small_chunk 0 a)"
  by (simp add: phys_byte_def small_entry)
    (simp add: small_dump_def small_heap_def small_chunk_def dump_byte_def)

lemma small_virt: "unat a < 0x300000 \<Longrightarrow> virt_byte small_img (h small_dump) [16] [32] a = Some (small_img small_chunk 0 a)"
  by (simp add: virt_byte_def small_entry)
    (simp add: small_dump_def small_heap_def small_chunk_def dump_byte_def)

lemma small_words:
  "word_at (phys_byte small_img (h small_dump) [16]) 0x10418 0x200000"
  "word_at (phys_byte small_img (h small_dump) [16]) 0x10420 0x100000"
proof -
  have "phys_byte small_img (h small_dump) [16] (0x10418 + of_nat i) = Some (be64 0x200000 ! i)"
    "phys_byte small_img (h small_dump) [16] (0x10420 + of_nat i) = Some (be64 0x100000 ! i)" if i: "i < 8" for i
  proof -
    have u: "unat (of_nat i :: u64) = i" "unat (0x10418 + of_nat i :: u64) = 0x10418 + i" "unat (0x10420 + of_nat i :: u64) = 0x10420 + i"
      using i by (simp_all add: unat_of_nat_small unat_word_ariths)
    show "phys_byte small_img (h small_dump) [16] (0x10418 + of_nat i) = Some (be64 0x200000 ! i)"
      using i u by (subst small_phys) (simp_all add: small_img_def word_le_nat_alt word_less_nat_alt)
    show "phys_byte small_img (h small_dump) [16] (0x10420 + of_nat i) = Some (be64 0x100000 ! i)"
      using i u by (subst small_phys) (simp_all add: small_img_def word_le_nat_alt word_less_nat_alt)
  qed
  then show "word_at (phys_byte small_img (h small_dump) [16]) 0x10418 0x200000"
    "word_at (phys_byte small_img (h small_dump) [16]) 0x10420 0x100000" by (simp_all add: word_at_def)
qed

lemma small_memory: "unat a + unat len < 0x300000 \<Longrightarrow> in_memory small_dump [32] a len"
  by (auto simp: in_memory_def small_entry unat_of_nat_small)


section \<open>The properties\<close>

text \<open>C31: Adding a chunk whose range is free to a dump keeps the two lists well formed and apart from each other
  in memory, whether they are empty or not, and adds exactly the addresses of the chunk to the virtual memory.\<close>

theorem dump_memory_built:
  assumes "dump_wf D st ps vs" and "alloc_ok alloc" and "card (in_use (h st)) + 2 < 2 ^ 64"
    and "0 < sz" and "unat start + unat sz < 2 ^ 64" and "vacant (h st) ps start sz" and "vacant (h st) vs start sz"
    and "data \<in> insert 0 D" and "ff \<longrightarrow> data = 0"
  shows "\<exists>st' p v. dfi_mem_chunk_add alloc st start sz data Dump_read ff = Some st' \<and> dump_ok D st' (ps @ [p]) (vs @ [v]) \<and>
    (\<forall>a. vtrans (h st') (vs @ [v]) a =
      (if unat a \<in> {unat start..<unat start + unat sz} then Some a else vtrans (h st) vs a))"
  using assms by (rule add_view)

text \<open>C32: Reading virtual memory that is there gives the byte of every address of the range, across the borders of
  chunks and through mapped chunks, and changes the two caches only.\<close>

theorem dump_memory_read:
  assumes "read_ok st ps vs" and "\<forall>i < unat cnt. virt_byte img (h st) ps vs (a + of_nat i) = Some (f i)"
  shows "\<exists>st'. dfi_mem_read img st a cnt = Some (map f [0..<unat cnt], st') \<and> recached ps vs st st'"
  unfolding dfi_mem_read_def using assms by (rule virt_read)

text \<open>C33: \<open>dfi_mem_read_rc\<close> returns \<open>-EINVAL\<close> and reads nothing if some address of the range is in no chunk, and the
  bytes of the range otherwise.\<close>

theorem dump_memory_read_rc:
  assumes "read_ok st ps vs" and "0 < len" and "unat a + unat len < 2 ^ 64"
  shows "(if in_memory st vs a len
    then \<forall>f. (\<forall>i < unat len. virt_byte img (h st) ps vs (a + of_nat i) = Some (f i)) \<longrightarrow>
      (\<exists>st'. dfi_mem_read_rc img st a len = Some (0, map f [0..<unat len], st') \<and> recached ps vs st st')
    else \<exists>st'. dfi_mem_read_rc img st a len = Some (-22, [], st') \<and> recached ps vs st st')"
  using assms by (rule read_rc)

text \<open>C34: \<open>mem_unmap\<close> ends although it appends to the list it walks, uses no memory after it has freed it, takes exactly
  the range out of the map from virtual to physical addresses, leaves the physical chunks alone, and sorts the
  list and sets its bounds.\<close>

theorem mem_unmap_exact:
  assumes "virt_ok Q D hp m es" and "alloc_ok alloc" and "card (in_use hp) + 4 * length es < 2 ^ 64"
    and "0 < sz" and "unat start + unat sz < 2 ^ 64"
  shows "\<exists>hp' m' es'. mem_unmap alloc start sz hp m = Some (hp', m') \<and> virt_ok Q D hp' m' es' \<and> updated hp' m' es' \<and>
    kept Q D hp hp' \<and> card (in_use hp') \<le> card (in_use hp) + 4 * length es \<and>
    (\<forall>a. vtrans hp' es' a = (if unat a \<in> {unat start..<unat start + unat sz} then None else vtrans hp es a))"
  using assms by (rule unmap)

text \<open>C35: \<open>mem_map\<close> maps a free range to the physical addresses from \<open>p\<close> on and changes nothing else; if an address of
  the range is mapped already it ends the program with its message.\<close>

theorem mem_map_exact:
  assumes "virt_ok Q D hp m es" and "alloc_ok alloc" and "card (in_use hp) + 2 < 2 ^ 64"
    and "0 < sz" and "unat start + unat sz < 2 ^ 64"
  shows "if \<forall>a. unat a \<in> {unat start..<unat start + unat sz} \<longrightarrow> vtrans hp es a = None
    then \<exists>hp' m' es'. mem_map alloc start sz p hp m = Some (Inr (hp', m')) \<and> virt_ok Q D hp' m' es' \<and> updated hp' m' es' \<and>
      kept Q D hp hp' \<and>
      (\<forall>a. vtrans hp' es' a = (if unat a \<in> {unat start..<unat start + unat sz} then Some (p + (a - start)) else vtrans hp es a))
    else mem_map alloc start sz p hp m = Some (Inl ''Map request for already mapped region'')"
  using assms by (rule map_exact)

text \<open>C36: \<open>kdump_init\<close> with \<open>--select prod\<close>: if the memory of the kdump kernel has the two words and the range they
  describe is in the dump, the memory below the size afterwards shows the bytes from the base on, the place
  they were taken from is gone, and all other addresses are as before.\<close>

theorem kdump_prod_view:
  assumes "dump_ok D st ps vs" and "alloc_ok alloc" and "25 * card (in_use (h st)) + 2 < 2 ^ 64"
    and "word_at (phys_byte img (h st) ps) 0x10418 base" and "word_at (phys_byte img (h st) ps) 0x10420 sz"
    and "base \<noteq> 0" and "sz \<noteq> 0" and "base mod MIB = 0" and "sz mod MIB = 0" and "unat base + unat sz < 2 ^ 64"
    and "in_memory st vs base sz"
  shows "\<exists>st' vs'. kdump_init img alloc (Some Sel_prod) st = Some (Inr st') \<and> dump_ok D st' ps vs' \<and>
    updated (h st') (mem_virt st') vs' \<and> vtrans (h st') vs' = prod_view base sz (vtrans (h st) vs) \<and>
    (\<forall>a cnt f. unat a + unat cnt \<le> unat sz \<longrightarrow> (\<forall>i < unat cnt. phys_byte img (h st) ps (base + a + of_nat i) = Some (f i)) \<longrightarrow>
      (\<exists>st''. dfi_mem_read img st' a cnt = Some (map f [0..<unat cnt], st'')))"
  using assms by (rule init_prod)


section \<open>A cache that outlives its chunk\<close>

text \<open>Two virtual chunks that meet at the border of the kdump memory, with the cache on the upper one, where
  the check of the range in \<open>kdump_init\<close> leaves it.\<close>

declare find_from.simps [code] mem_read.simps [code] unmap_loop.simps [code]

definition lower_chunk :: dfi_mem_chunk where
  "lower_chunk = small_chunk\<lparr>c_end := 0xFFFFF, c_size := 0x100000\<rparr>"

definition upper_chunk :: dfi_mem_chunk where
  "upper_chunk = small_chunk\<lparr>c_start := 0x100000, c_size := 0x200000\<rparr>"

definition split_dump :: dfi where
  "split_dump = \<lparr>h = \<lparr>h_nodes = [16 \<mapsto> \<lparr>nd_next = 0, nd_prev = 0\<rparr>, 32 \<mapsto> \<lparr>nd_next = 48, nd_prev = 0\<rparr>, 48 \<mapsto> \<lparr>nd_next = 0, nd_prev = 32\<rparr>],
       h_chunks = [16 \<mapsto> small_chunk, 32 \<mapsto> lower_chunk, 48 \<mapsto> upper_chunk], h_data = Map.empty\<rparr>,
     mem_phys = small_mem 16,
     mem_virt = (small_mem 48)\<lparr>chunk_cnt := 2, chunk_list := \<lparr>l_offset = 0, l_start = 32, l_end = 48\<rparr>\<rparr>,
     kdump_base = 0x200000, kdump_size = 0x100000\<rparr>"

lemma split_ok: "read_ok split_dump [16] [32, 48]"
proof -
  have "chunk_ok small_chunk" "chunk_ok lower_chunk" "chunk_ok upper_chunk" "span lower_chunk \<inter> span upper_chunk = {}"
    by (auto simp: chunk_ok_def small_chunk_def lower_chunk_def upper_chunk_def span_def)
  then show ?thesis
    by (simp add: read_ok_def mem_ok_def mem_wf_def apart_def split_dump_def small_mem_def holds_def nodes_of_def e2n_def Int_commute)
qed


text \<open>The dump as the reader of ELF files sets it up: the data of a chunk is allocated, and \<open>dfi_mem_chunk_add\<close> gives
  it with its destructor to the physical and to the virtual chunk.\<close>

definition elf_chunk :: dfi_mem_chunk where
  "elf_chunk = small_chunk\<lparr>c_data := 64, c_free_fn := True\<rparr>"

definition elf_dump :: dfi where
  "elf_dump = small_dump\<lparr>h := small_heap\<lparr>h_chunks := [16 \<mapsto> elf_chunk, 32 \<mapsto> elf_chunk], h_data := [64 \<mapsto> 0x1000]\<rparr>,
     kdump_base := 0x200000, kdump_size := 0x100000\<rparr>"

definition first_free :: "heap \<Rightarrow> u64" where
  "first_free hp = (case find (\<lambda>a. h_nodes hp a = None \<and> h_chunks hp a = None \<and> h_data hp a = None) [80, 96, 112, 128] of
     None \<Rightarrow> 0 | Some a \<Rightarrow> a)"

lemma elf_ok: "read_ok elf_dump [16] [32]"
proof -
  have "chunk_ok elf_chunk" by (simp add: chunk_ok_def elf_chunk_def small_chunk_def)
  then show ?thesis
    by (simp add: read_ok_def mem_ok_def mem_wf_def apart_def elf_dump_def small_dump_def small_heap_def small_mem_def
        holds_def nodes_of_def e2n_def)
qed



section \<open>The properties on the small dump\<close>

lemma small_virt_ok: "virt_ok {16} {} (h small_dump) (mem_virt small_dump) [32]"
  using dump_okD(2) [OF small_wf] by simp

lemma small_byte:
  assumes "i < 4"
  shows "virt_byte small_img (h small_dump) [16] [32] (0x1000 + of_nat i) = Some (of_nat i)"
proof -
  have "i = 0 \<or> i = 1 \<or> i = 2 \<or> i = 3" using assms by auto
  then show ?thesis by (elim disjE) (simp_all add: small_virt small_img_def)
qed

theorem dump_memory_built_witness:
  "\<exists>st' p v. dfi_mem_chunk_add least_free small_dump 0x400000 0x100000 0 Dump_read False = Some st' \<and>
    dump_ok {} st' [16, p] [32, v] \<and> vtrans (h st') [32, v] 0x400010 = Some 0x400010"
proof -
  have v: "vacant (h small_dump) [16] 0x400000 0x100000" "vacant (h small_dump) [32] 0x400000 0x100000"
    by (simp_all add: vacant_def misses_def small_dump_def small_heap_def small_chunk_def span_def)
  have w: "dump_wf {} small_dump [16] [32]" using small_wf by (simp add: dump_ok_wf)
  have r: "card (in_use (h small_dump)) + 2 < 2 ^ 64" by (simp add: small_in_use)
  show ?thesis
    using dump_memory_built [where data = 0 and ff = False, OF w least_free_ok r _ _ v] by fastforce
qed

theorem dump_memory_read_witness:
  "\<exists>st'. dfi_mem_read small_img small_dump 0x1000 4 = Some ([0, 1, 2, 3], st')"
proof -
  have "[0..<unat (4 :: u64)] = [0, 1, 2, 3]" by (simp add: upt_rec)
  then show ?thesis
    using dump_memory_read [where cnt = 4 and a = "0x1000" and f = of_nat, OF dump_okD(1) [OF small_wf]] small_byte by auto
qed

theorem dump_memory_read_rc_witness:
  "(\<exists>st'. dfi_mem_read_rc small_img small_dump 0x1000 4 = Some (0, [0, 1, 2, 3], st')) \<and>
   (\<exists>st'. dfi_mem_read_rc small_img small_dump 0x2FFFFF 2 = Some (-22, [], st'))"
proof
  have "[0..<unat (4 :: u64)] = [0, 1, 2, 3]" by (simp add: upt_rec)
  moreover have "in_memory small_dump [32] 0x1000 4" by (rule small_memory) simp
  ultimately show "\<exists>st'. dfi_mem_read_rc small_img small_dump 0x1000 4 = Some (0, [0, 1, 2, 3], st')"
    using dump_memory_read_rc [where len = 4 and a = "0x1000" and img = small_img, OF dump_okD(1) [OF small_wf]] small_byte by auto
next
  have "entry_at (h small_dump) [32] 0x300000 = None"
    by (simp add: entry_at_def small_dump_def small_heap_def mem_chunk_has_addr_def small_chunk_def)
  then have "\<not> in_memory small_dump [32] 0x2FFFFF 2" 
    unfolding in_memory_def by (intro notI) (drule bspec [of _ _ "0x300000"], simp_all)
  then show "\<exists>st'. dfi_mem_read_rc small_img small_dump 0x2FFFFF 2 = Some (-22, [], st')"
    using dump_memory_read_rc [where len = 2 and a = "0x2FFFFF" and img = small_img, OF dump_okD(1) [OF small_wf]] by auto
qed

theorem mem_unmap_exact_witness:
  "\<exists>hp' m' es'. mem_unmap least_free 0x100000 0x100000 (h small_dump) (mem_virt small_dump) = Some (hp', m') \<and>
    virt_ok {16} {} hp' m' es' \<and> vtrans hp' es' 0x180000 = None \<and>
    vtrans hp' es' 0x200000 = vtrans (h small_dump) [32] 0x200000"
proof -
  have "card (in_use (h small_dump)) + 4 * length [32 :: u64] < 2 ^ 64" by (simp add: small_in_use)
  from mem_unmap_exact [where start = "0x100000" and sz = "0x100000", OF small_virt_ok least_free_ok this]
  obtain hp' m' es' where "mem_unmap least_free 0x100000 0x100000 (h small_dump) (mem_virt small_dump) = Some (hp', m')"
    "virt_ok {16} {} hp' m' es'" "\<forall>a. vtrans hp' es' a = (if unat a \<in> {unat (0x100000 :: u64)..<unat (0x100000 :: u64) + unat (0x100000 :: u64)}
      then None else vtrans (h small_dump) [32] a)" by auto
  then show ?thesis by (intro exI [of _ hp'] exI [of _ m'] exI [of _ es']) simp
qed

theorem mem_map_exact_witness:
  "mem_map least_free 0x100000 0x100000 0 (h small_dump) (mem_virt small_dump) = Some (Inl ''Map request for already mapped region'')"
proof -
  have r: "card (in_use (h small_dump)) + 2 < 2 ^ 64" by (simp add: small_in_use)
  have "vtrans (h small_dump) [32] 0x100000 = Some 0x100000"
    by (simp add: vtrans_def small_entry) (simp add: small_dump_def small_heap_def small_chunk_def trans_of_def)
  then have n: "\<not> (\<forall>a :: u64. unat a \<in> {unat (0x100000 :: u64)..<unat (0x100000 :: u64) + unat (0x100000 :: u64)} \<longrightarrow>
      vtrans (h small_dump) [32] a = None)" by (intro notI) (drule spec [of _ "0x100000"], simp)
  show ?thesis
    using mem_map_exact [where start = "0x100000" and sz = "0x100000" and p = 0, OF small_virt_ok least_free_ok r]
    unfolding if_not_P [OF n] by simp
qed

theorem kdump_prod_view_witness:
  "\<exists>st' vs'. kdump_init small_img least_free (Some Sel_prod) small_dump = Some (Inr st') \<and> dump_ok {} st' [16] vs' \<and>
    vtrans (h st') vs' = prod_view 0x200000 0x100000 (vtrans (h small_dump) [32]) \<and> vtrans (h st') vs' 0x10 = Some 0x200010"
proof -
  have r: "25 * card (in_use (h small_dump)) + 2 < 2 ^ 64" by (simp add: small_in_use)
  have m: "in_memory small_dump [32] 0x200000 0x100000"
    by (auto simp: in_memory_def small_entry unat_of_nat_small)
  from kdump_prod_view [OF small_wf least_free_ok r small_words _ _ _ _ _ m] obtain st' vs' where
    "kdump_init small_img least_free (Some Sel_prod) small_dump = Some (Inr st')" "dump_ok {} st' [16] vs'"
    "vtrans (h st') vs' = prod_view 0x200000 0x100000 (vtrans (h small_dump) [32])"
    by (auto simp: MIB_def)
  then show ?thesis by (intro exI [of _ st'] exI [of _ vs']) (simp add: prod_view_def)
qed

end
