(* ===== verification/Tar_Header.thy ===== *)
theory Tar_Header
  imports Prelude
begin

text \<open>
  The header of an entry of a tar archive as \<open>dump2tar\<close> writes it: \<open>src/dump2tar/src/tar.c\<close> with the caches
  of user and group names of \<open>src/dump2tar/src/idcache.c\<close>.  The password and the group database are
  arguments: \<open>pw u\<close> is the name of user \<open>u\<close>, if there is one.
\<close>

section \<open>Numbers\<close>

text \<open>\<open>set_octal\<close> fills the field from its end.\<close>

fun octal_digits :: "nat \<Rightarrow> u64 \<Rightarrow> bytes" where
  "octal_digits 0 value = []"
| "octal_digits (Suc n) value = octal_digits n (drop_bit 3 value) @ [48 + ucast (value AND 7)]"

definition set_octal :: "nat \<Rightarrow> u64 \<Rightarrow> bytes" where
  "set_octal len value = octal_digits (len - 1) value @ [0]"

text \<open>\<open>set_time\<close> writes a time that has no octal form as a signed number in base 256.\<close>

fun base256 :: "nat \<Rightarrow> u64 \<Rightarrow> bytes" where
  "base256 0 value = []"
| "base256 (Suc n) value = base256 n (signed_drop_bit 8 value) @ [ucast value]"

definition set_time :: "nat \<Rightarrow> u64 \<Rightarrow> bytes" where
  "set_time len value =
     (if 0 \<le> sint value \<and> sint value \<le> 2 ^ (3 * (len - 1)) - 1 then set_octal len value
      else let dest = base256 len value in dest[0 := (dest ! 0) OR 0x80])"


section \<open>User and group names\<close>

type_synonym id_cache = "(u32 \<times> bytes) list"

definition ID_NAME_MAXLEN :: nat where "ID_NAME_MAXLEN = 32"

definition strncpy_id_cache_entry :: "bytes \<Rightarrow> id_cache \<Rightarrow> u32 \<Rightarrow> nat \<Rightarrow> bytes option" where
  "strncpy_id_cache_entry dest cache ident len =
     (case find (\<lambda>e. fst e = ident) cache of None \<Rightarrow> None
      | Some e \<Rightarrow> Some (overwrite dest 0 (strncpy_data (snd e) len)))"

definition add_id_cache_entry :: "id_cache \<Rightarrow> u32 \<Rightarrow> bytes \<Rightarrow> id_cache" where
  "add_id_cache_entry cache ident name = cache @ [(ident, strncpy_data name ID_NAME_MAXLEN)]"

text \<open>\<open>uid_to_name\<close> and \<open>gid_to_name\<close> are the same code over the two databases.\<close>

definition id_to_name :: "(u32 \<Rightarrow> bytes option) \<Rightarrow> id_cache \<Rightarrow> u32 \<Rightarrow> bytes \<Rightarrow> nat \<Rightarrow> bytes \<times> id_cache" where
  "id_to_name db cache ident name len =
     (case strncpy_id_cache_entry name cache ident len of
        Some name \<Rightarrow> (name, cache)
      | None \<Rightarrow>
          (case db ident of
             None \<Rightarrow> (name, cache)
           | Some result \<Rightarrow> (overwrite name 0 (strncpy_data result len), add_id_cache_entry cache ident result)))"

definition uid_to_name where "uid_to_name = id_to_name"
definition gid_to_name where "gid_to_name = id_to_name"


section \<open>The header\<close>

record tar_header =
  t_name :: bytes
  t_mode :: bytes
  t_uid :: bytes
  t_gid :: bytes
  t_size :: bytes
  t_mtime :: bytes
  t_chksum :: bytes
  t_typeflag :: u8
  t_linkname :: bytes
  t_magic :: bytes
  t_version :: bytes
  t_uname :: bytes
  t_gname :: bytes
  t_devmajor :: bytes
  t_devminor :: bytes
  t_prefix :: bytes

record stat =
  st_mode :: u32
  st_uid :: u32
  st_gid :: u32
  st_mtime :: u64

definition header_bytes :: "tar_header \<Rightarrow> bytes" where
  "header_bytes th = t_name th @ t_mode th @ t_uid th @ t_gid th @ t_size th @ t_mtime th @ t_chksum th @ [t_typeflag th] @
     t_linkname th @ t_magic th @ t_version th @ t_uname th @ t_gname th @ t_devmajor th @ t_devminor th @ t_prefix th"

definition blank_header :: tar_header where
  "blank_header = \<lparr>t_name = replicate 100 0, t_mode = replicate 8 0, t_uid = replicate 8 0, t_gid = replicate 8 0,
     t_size = replicate 12 0, t_mtime = replicate 12 0, t_chksum = replicate 8 0, t_typeflag = 0,
     t_linkname = replicate 100 0, t_magic = replicate 6 0, t_version = replicate 2 0, t_uname = replicate 32 0,
     t_gname = replicate 32 0, t_devmajor = replicate 8 0, t_devminor = replicate 8 0, t_prefix = replicate 155 0\<rparr>"

text \<open>\<open>%06o\<close>, cut to the six characters for which the call of \<open>snprintf\<close> has room.\<close>

fun oct_str :: "nat \<Rightarrow> bytes" where
  "oct_str v = (if v < 8 then [48 + of_nat v] else oct_str (v div 8) @ [48 + of_nat (v mod 8)])"

declare oct_str.simps [simp del]

definition fmt_06o :: "u32 \<Rightarrow> bytes" where
  "fmt_06o v = (let d = oct_str (unat v) in take 6 (replicate (6 - length d) 48 @ d) @ [0])"

definition checksum :: "tar_header \<Rightarrow> u32" where
  "checksum th = sum_list (map ucast (header_bytes (th\<lparr>t_chksum := replicate 8 32\<rparr>)))"

definition init_header ::
  "(u32 \<Rightarrow> bytes option) \<Rightarrow> (u32 \<Rightarrow> bytes option) \<Rightarrow> id_cache \<times> id_cache \<Rightarrow> bytes \<Rightarrow> bytes option \<Rightarrow> u64 \<Rightarrow> stat option \<Rightarrow> u8 \<Rightarrow>
     tar_header \<times> id_cache \<times> id_cache" where
  "init_header pw gr caches filename link len stat type =
     (let th = blank_header\<lparr>t_name := strncpy_data filename 100\<rparr>;
          th = (case link of None \<Rightarrow> th | Some l \<Rightarrow> th\<lparr>t_linkname := strncpy_data l 100\<rparr>);
          th = th\<lparr>t_size := set_octal 12 len\<rparr>;
          (mode, uid, gid, mtime) = (case stat of
             Some st \<Rightarrow> (st_mode st AND 0xFFF, st_uid st, st_gid st, st_mtime st)
           | None \<Rightarrow> (0x1A4, 0, 0, 0));
          th = th\<lparr>t_mode := set_octal 8 (ucast mode), t_uid := set_octal 8 (ucast uid), t_gid := set_octal 8 (ucast gid),
                 t_mtime := set_time 12 mtime\<rparr>;
          (uname, ucache) = uid_to_name pw (fst caches) uid (t_uname th) 32;
          (gname, gcache) = gid_to_name gr (snd caches) gid (t_gname th) 32;
          th = th\<lparr>t_uname := uname, t_gname := gname, t_typeflag := type, t_magic := bytes_of ''ustar '',
                 t_version := [32, 0]\<rparr>;
          th = th\<lparr>t_chksum := replicate 8 32\<rparr>
      in (th\<lparr>t_chksum := overwrite (t_chksum th) 0 (fmt_06o (checksum th))\<rparr>, ucache, gcache))"


section \<open>Numbers that are read back\<close>

definition from_oct :: "bytes \<Rightarrow> nat" where
  "from_oct bs = fold (\<lambda>d a. 8 * a + unat (d - 48)) bs 0"

definition be_int :: "bytes \<Rightarrow> int" where
  "be_int bs = fold (\<lambda>b a. 256 * a + uint b) bs 0"

lemma from_oct_snoc [simp]: "from_oct [] = 0" "from_oct (bs @ [d]) = 8 * from_oct bs + unat (d - 48)"
  by (simp_all add: from_oct_def)

lemma be_int_snoc [simp]: "be_int [] = 0" "be_int (bs @ [b]) = 256 * be_int bs + uint b"
  by (simp_all add: be_int_def)

lemma length_octal_digits [simp]: "length (octal_digits n v) = n"
  by (induction n v rule: octal_digits.induct) simp_all

lemma length_set_octal [simp]: "0 < len \<Longrightarrow> length (set_octal len v) = len"
  by (simp add: set_octal_def)

lemma unat_and7: "unat (v AND 7 :: u64) = unat v mod 8"
proof -
  have "v AND 7 = take_bit 3 v" by (simp add: take_bit_eq_mask mask_numeral)
  then have "v AND 7 = v mod 8" by (simp add: take_bit_eq_mod)
  then show ?thesis by (simp add: unat_mod)
qed

lemma from_octal_digits: "from_oct (octal_digits n v) = unat v mod 8 ^ n"
proof (induction n v rule: octal_digits.induct)
  case (2 n v)
  have "unat (ucast (v AND 7) :: u8) = unat v mod 8" by (simp add: unsigned_ucast_eq take_bit_eq_mod unat_and7)
  moreover have "unat (drop_bit 3 v) = unat v div 8" by (simp add: drop_bit_eq_div unat_div)
  ultimately show ?case using 2 by (simp add: mod_mult2_eq [of "unat v" 8 "8 ^ n"])
qed simp

lemma octal_digits_zero [simp]: "0 \<notin> set (octal_digits n v)"
proof (induction n v rule: octal_digits.induct)
  case (2 n v)
  have "unat (48 + ucast (v AND 7) :: u8) = 48 + unat v mod 8"
    by (simp add: unat_word_ariths unsigned_ucast_eq take_bit_eq_mod unat_and7)
  then have "(48 + ucast (v AND 7) :: u8) \<noteq> 0" by (metis add_is_0 unat_0 zero_neq_numeral)
  then show ?case using 2 by simp
qed simp

lemma cstr_zero: "0 \<notin> set xs \<Longrightarrow> cstr (xs @ 0 # ys) = xs"
  unfolding cstr_def by (induction xs) auto

lemma cstr_set_octal: "cstr (set_octal len v) = octal_digits (len - 1) v"
  by (simp add: cstr_def set_octal_def takeWhile_append)

lemma octal_field: "0 < len \<Longrightarrow> unat v < 8 ^ (len - 1) \<Longrightarrow> from_oct (cstr (set_octal len v)) = unat v"
  by (simp add: cstr_set_octal from_octal_digits)

text \<open>Base 256: the marker is the highest bit, the sign the next one.\<close>

definition from_base256 :: "bytes \<Rightarrow> int" where
  "from_base256 bs =
     (let n = be_int (bs[0 := (bs ! 0) AND 0x7F]); m = 2 ^ (8 * length bs - 1) in if n < m div 2 then n else n - m)"

lemma length_base256 [simp]: "length (base256 n v) = n"
  by (induction n v rule: base256.induct) simp_all

lemma be_int_base256: "be_int (base256 n v) = sint v mod 2 ^ (8 * n)"
proof (induction n v rule: base256.induct)
  case (2 n v)
  have "take_bit 8 (sint v) = take_bit 8 (uint v)" by (simp add: sint_uint take_bit_signed_take_bit)
  then have "uint (ucast v :: u8) = sint v mod 256" by (simp add: unsigned_ucast_eq take_bit_eq_mod)
  moreover have "sint (signed_drop_bit 8 v) = sint v div 256" by (simp add: sint_signed_drop_bit_eq drop_bit_eq_div)
  moreover have "(2 :: int) ^ (8 * Suc n) = 256 * 2 ^ (8 * n)" by (simp add: power_add)
  ultimately show ?case using 2 zmod_zmult2_eq [of "2 ^ (8 * n)" "sint v" 256] by simp
qed simp

lemma be_int_Cons: "be_int (x # xs) = uint x * 256 ^ length xs + be_int xs"
proof (induction xs rule: rev_induct)
  case Nil
  then show ?case using be_int_snoc(2) [of "[]" x] by simp
next
  case (snoc y ys)
  then show ?case using be_int_snoc(2) [of "x # ys" y] by (simp add: algebra_simps)
qed

lemma be_int_bound: "0 \<le> be_int xs \<and> be_int xs < 256 ^ length xs"
proof (induction xs rule: rev_induct)
  case (snoc x xs)
  then show ?case using uint_u8_bound [of x] by simp
qed simp

lemma be_int_unmark:
  assumes "bs \<noteq> []"
  shows "be_int (bs[0 := (bs ! 0) AND 0x7F]) = be_int bs mod 2 ^ (8 * length bs - 1)"
proof -
  obtain x xs where bs: "bs = x # xs" using assms by (cases bs) auto
  have "uint (x AND 0x7F) = uint x mod 128"
  proof -
    have "x AND 0x7F = take_bit 7 x" by (simp add: take_bit_eq_mask mask_numeral)
    then show ?thesis by (simp add: take_bit_eq_mod uint_mod)
  qed
  moreover have "(2 :: int) ^ (8 * length bs - 1) = 128 * 256 ^ length xs"
    by (simp add: bs power_add power_mult)
  moreover have "(uint x * 256 ^ length xs + be_int xs) mod (256 ^ length xs * 128) =
      256 ^ length xs * (uint x mod 128) + be_int xs"
    using zmod_zmult2_eq [of 128 "uint x * 256 ^ length xs + be_int xs" "256 ^ length xs"] be_int_bound [of xs] by simp
  ultimately show ?thesis by (simp add: bs be_int_Cons mult.commute)
qed

definition time_of :: "bytes \<Rightarrow> int" where
  "time_of bs = (if 0x80 \<le> bs ! 0 then from_base256 bs else int (from_oct (cstr bs)))"

lemma octal_digit_small: "d \<in> set (octal_digits n v) \<Longrightarrow> d < 0x80"
proof (induction n v rule: octal_digits.induct)
  case (2 n v)
  have "unat (48 + ucast (v AND 7) :: u8) = 48 + unat v mod 8"
    by (simp add: unat_word_ariths unsigned_ucast_eq take_bit_eq_mod unat_and7)
  then have "(48 + ucast (v AND 7) :: u8) < 0x80" by (simp add: word_less_nat_alt)
  then show ?case using 2 by auto
qed simp

lemma time_field: "time_of (set_time 12 v) = sint v"
proof (cases "0 \<le> sint v \<and> sint v \<le> 2 ^ (3 * (12 - 1)) - 1")
  case True
  have "octal_digits 11 v \<noteq> []" by (metis length_octal_digits list.size(3) zero_neq_numeral)
  then have "set_octal 12 v ! 0 \<in> set (octal_digits 11 v)" by (simp add: set_octal_def nth_append)
  then have "\<not> 0x80 \<le> set_octal 12 v ! 0" using octal_digit_small by (simp add: not_le)
  moreover have u: "int (unat v) = sint v" using True sint_lt [of v] by (simp add: uint_sint [of v] take_bit_int_eq_self)
  moreover have "unat v < 8 ^ (12 - 1)"
    unfolding of_nat_less_iff [where ?'a = int, symmetric] u using True by simp
  ultimately show ?thesis using True octal_field [of 12 v] by (simp add: time_of_def set_time_def)
next
  case False
  let ?b = "base256 12 v"
  have l: "?b \<noteq> []" by (metis length_base256 list.size(3) zero_neq_numeral)
  have m: "0x80 \<le> x OR 0x80" "(x OR 0x80) AND 0x7F = x AND 0x7F" for x :: u8
  proof -
    show "(x OR 0x80) AND 0x7F = x AND 0x7F" by (simp add: bit.conj_disj_distrib2)
    show "0x80 \<le> x OR 0x80"
    proof (rule ccontr)
      assume "\<not> 0x80 \<le> x OR 0x80"
      then have "unat (x OR 0x80) < 2 ^ 7" by (simp add: not_le word_less_nat_alt)
      moreover have "bit (x OR 0x80) 7" by (simp add: bit_or_iff)
      ultimately show False using bit_less_of_unat by blast
    qed
  qed
  have "time_of (set_time 12 v) = from_base256 (?b[0 := ?b ! 0 OR 0x80])"
    using False l m(1) by (auto simp: time_of_def set_time_def Let_def)
  also have "from_base256 (?b[0 := ?b ! 0 OR 0x80]) =
      (let n = be_int ?b mod 2 ^ 95; m = 2 ^ 95 in if n < m div 2 then n else n - m)"
    using be_int_unmark [OF l] l by (simp add: from_base256_def m(2))
  also have "be_int ?b mod 2 ^ 95 = sint v mod 2 ^ 95"
    by (simp add: be_int_base256 mod_mod_cancel)
  also have "(let n = sint v mod 2 ^ 95; m = 2 ^ 95 in if n < m div 2 then n else n - m) = sint v"
  proof (cases "0 \<le> sint v")
    case True
    then have "sint v mod 2 ^ 95 = sint v" using sint_lt [of v] by (intro mod_pos_pos_trivial) simp_all
    then show ?thesis using sint_lt [of v] by (simp add: Let_def)
  next
    case False
    then have "sint v mod 2 ^ 95 = sint v + 2 ^ 95" using sint_ge [of v]
      by (subst mod_add_self2 [symmetric], intro mod_pos_pos_trivial) simp_all
    then show ?thesis using False sint_ge [of v] by (simp add: Let_def)
  qed
  finally show ?thesis .
qed



section \<open>The checksum field\<close>

lemma oct_str_digit: "d \<in> set (oct_str v) \<Longrightarrow> d \<noteq> 0"
proof (induction v rule: oct_str.induct)
  case (1 v)
  have "(48 + of_nat k :: u8) \<noteq> 0" if "k < 8" for k
  proof -
    have "unat (48 + of_nat k :: u8) = 48 + k" using that by (simp add: unat_word_ariths unat_of_nat_small)
    then show ?thesis by (metis add_is_0 unat_0 zero_neq_numeral)
  qed
  then show ?case using 1 by (subst (asm) oct_str.simps) (auto split: if_splits)
qed

lemma from_oct_str: "from_oct (oct_str v) = v"
proof (induction v rule: oct_str.induct)
  case (1 v)
  have d: "unat (48 + of_nat k - 48 :: u8) = k" if "k < 8" for k using that by (simp add: unat_of_nat_small)
  show ?case
  proof (cases "v < 8")
    case True
    then show ?thesis using from_oct_snoc(2) [of "[]" "48 + of_nat v"] d by (simp add: oct_str.simps [of v])
  next
    case False
    then show ?thesis using 1 d [of "v mod 8"] by (simp add: oct_str.simps [of v])
  qed
qed

lemma length_oct_str: "v < 8 ^ n \<Longrightarrow> 0 < n \<Longrightarrow> length (oct_str v) \<le> n"
proof (induction v arbitrary: n rule: oct_str.induct)
  case (1 v)
  show ?case
  proof (cases "v < 8")
    case True
    then show ?thesis using 1 by (simp add: oct_str.simps [of v])
  next
    case False
    then obtain k where k: "n = Suc k" "0 < k" using 1 by (cases n; cases "n - 1") auto
    then have "v div 8 < 8 ^ k" using 1 by (simp add: less_mult_imp_div_less mult.commute)
    then show ?thesis using 1(1) [OF False _ k(2)] False k(1) by (simp add: oct_str.simps [of v])
  qed
qed

lemma from_oct_pad: "from_oct (replicate k 48 @ bs) = from_oct bs"
proof (induction bs rule: rev_induct)
  case Nil
  have "from_oct (replicate k 48) = 0" by (induction k) (simp_all add: from_oct_def)
  then show ?case by simp
next
  case (snoc b bs)
  then show ?case using from_oct_snoc(2) [of "replicate k 48 @ bs" b] by simp
qed

lemma fmt_06o_back:
  assumes "unat v < 8 ^ 6"
  shows "from_oct (cstr (fmt_06o v @ bs)) = unat v" "length (fmt_06o v) = 7"
proof -
  let ?d = "oct_str (unat v)"
  have l: "length ?d \<le> 6" using length_oct_str [OF assms] by simp
  then have f: "fmt_06o v = (replicate (6 - length ?d) 48 @ ?d) @ [0]" by (simp add: fmt_06o_def Let_def)
  have "0 \<notin> set (replicate (6 - length ?d) 48 @ ?d)" using oct_str_digit by auto
  then have "cstr (fmt_06o v @ bs) = replicate (6 - length ?d) 48 @ ?d"
    using cstr_zero [of "replicate (6 - length ?d) 48 @ ?d" bs] by (simp add: f)
  then show "from_oct (cstr (fmt_06o v @ bs)) = unat v" by (simp add: from_oct_pad from_oct_str)
  show "length (fmt_06o v) = 7" using l by (simp add: f)
qed

text \<open>The sum does not overflow.\<close>

lemma unat_sum_bytes:
  "255 * length bs < 2 ^ 32 \<Longrightarrow> unat (sum_list (map ucast bs) :: u32) = sum_list (map unat (bs :: bytes)) \<and>
     sum_list (map unat bs) \<le> 255 * length bs"
proof (induction bs)
  case (Cons b bs)
  have "unat (ucast b :: u32) = unat b" "unat b \<le> 255" using unat_u8_bound [of b] by (simp_all add: unsigned_ucast_eq take_bit_nat_eq_self)
  then show ?case using Cons by (simp add: unat_word_ariths)
qed simp



section \<open>The fields of a header\<close>

text \<open>The caches hold what the databases say, so that they change nothing.\<close>

definition cache_ok :: "(u32 \<Rightarrow> bytes option) \<Rightarrow> id_cache \<Rightarrow> bool" where
  "cache_ok db cache \<longleftrightarrow> (\<forall>(i, s) \<in> set cache. \<exists>n. db i = Some n \<and> s = strncpy_data n 32)"

definition id_field :: "(u32 \<Rightarrow> bytes option) \<Rightarrow> u32 \<Rightarrow> bytes" where
  "id_field db i = (case db i of None \<Rightarrow> replicate 32 0 | Some n \<Rightarrow> strncpy_data n 32)"

lemma cstr_zeros: "cstr (cstr s @ replicate k 0) = cstr s"
proof (cases k)
  case 0
  then show ?thesis by (simp add: cstr_no_zero)
next
  case (Suc j)
  then show ?thesis using cstr_zero [of "cstr s" "replicate j 0"] by simp
qed

lemma strncpy_data_again: "strncpy_data (strncpy_data s n) n = strncpy_data s n"
proof -
  have "take n (strncpy_data s n) = strncpy_data s n" by simp
  then show ?thesis by (simp add: strncpy_data_def Let_def cstr_zeros)
qed

lemma id_to_name_eq:
  assumes "cache_ok db cache"
  shows "\<exists>cache'. id_to_name db cache i (replicate 32 0) 32 = (id_field db i, cache') \<and> cache_ok db cache'"
proof (cases "find (\<lambda>e. fst e = i) cache")
  case None
  then show ?thesis using assms
    by (cases "db i") (auto simp: id_to_name_def strncpy_id_cache_entry_def id_field_def cache_ok_def add_id_cache_entry_def ID_NAME_MAXLEN_def)
next
  case (Some e)
  then have "e \<in> set cache" "fst e = i" by (auto simp: find_Some_iff)
  then obtain n where "db i = Some n" "snd e = strncpy_data n 32" using assms by (cases e) (auto simp: cache_ok_def)
  then show ?thesis using Some assms
    by (simp add: id_to_name_def strncpy_id_cache_entry_def id_field_def strncpy_data_again)
qed

lemma length_id_field [simp]: "length (id_field db i) = 32"
  by (simp add: id_field_def split: option.split)

definition stat_or :: "stat option \<Rightarrow> u32 \<times> u32 \<times> u32 \<times> u64" where
  "stat_or stat = (case stat of Some st \<Rightarrow> (st_mode st AND 0xFFF, st_uid st, st_gid st, st_mtime st) | None \<Rightarrow> (0x1A4, 0, 0, 0))"

definition plain_header ::
  "(u32 \<Rightarrow> bytes option) \<Rightarrow> (u32 \<Rightarrow> bytes option) \<Rightarrow> bytes \<Rightarrow> bytes option \<Rightarrow> u64 \<Rightarrow> stat option \<Rightarrow> u8 \<Rightarrow> tar_header" where
  "plain_header pw gr filename link len stat type =
     (let (mode, uid, gid, mtime) = stat_or stat in
      blank_header\<lparr>t_name := strncpy_data filename 100,
        t_linkname := (case link of None \<Rightarrow> replicate 100 0 | Some l \<Rightarrow> strncpy_data l 100), t_size := set_octal 12 len,
        t_mode := set_octal 8 (ucast mode), t_uid := set_octal 8 (ucast uid), t_gid := set_octal 8 (ucast gid),
        t_mtime := set_time 12 mtime, t_uname := id_field pw uid, t_gname := id_field gr gid, t_typeflag := type,
        t_magic := bytes_of ''ustar '', t_version := [32, 0]\<rparr>)"

text \<open>What \<open>init_header\<close> makes, caches or not.\<close>

lemma init_header_eq:
  assumes "cache_ok pw (fst caches)" "cache_ok gr (snd caches)"
  shows "\<exists>caches'. init_header pw gr caches filename link len stat type =
      ((plain_header pw gr filename link len stat type)\<lparr>t_chksum :=
         fmt_06o (checksum (plain_header pw gr filename link len stat type)) @ [32]\<rparr>, caches') \<and>
    cache_ok pw (fst caches') \<and> cache_ok gr (snd caches')"
proof -
  obtain mode uid gid mtime where st: "stat_or stat = (mode, uid, gid, mtime)" by (metis prod.exhaust)
  obtain uc where u: "id_to_name pw (fst caches) uid (replicate 32 0) 32 = (id_field pw uid, uc)" "cache_ok pw uc"
    using id_to_name_eq [OF assms(1)] by blast
  obtain gc where g: "id_to_name gr (snd caches) gid (replicate 32 0) 32 = (id_field gr gid, gc)" "cache_ok gr gc"
    using id_to_name_eq [OF assms(2)] by blast
  have f: "overwrite (replicate 8 32) 0 (fmt_06o v) = fmt_06o v @ [32]" for v
  proof -
    have "length (fmt_06o v) = 7" by (simp add: fmt_06o_def Let_def)
    then show ?thesis by (simp add: overwrite_def)
  qed
  have c: "checksum (th\<lparr>t_chksum := x\<rparr>) = checksum th" for th x by (simp add: checksum_def)
  have "init_header pw gr caches filename link len stat type =
      ((plain_header pw gr filename link len stat type)\<lparr>t_chksum :=
         fmt_06o (checksum (plain_header pw gr filename link len stat type)) @ [32]\<rparr>, uc, gc)"
  proof (cases link)
    case None
    then show ?thesis using u(1) g(1)
      by (simp add: init_header_def Let_def stat_or_def [symmetric] st plain_header_def uid_to_name_def gid_to_name_def f c)
        (simp add: blank_header_def c)
  next
    case (Some l)
    then show ?thesis using u(1) g(1)
      by (simp add: init_header_def Let_def stat_or_def [symmetric] st plain_header_def uid_to_name_def gid_to_name_def f c)
        (simp add: blank_header_def c)
  qed
  then show ?thesis using u(2) g(2) by simp
qed

end
