(* ===== verification/Tar_Emit.thy ===== *)
theory Tar_Emit
  imports Tar_Header
begin

text \<open>
  Writing an entry of a tar archive (\<open>emit_header\<close> to \<open>tar_emit_file_from_data\<close> of \<open>src/dump2tar/src/tar.c\<close>),
  and the reader of such an entry, as the format is documented: a header of 512 bytes with a checksum,
  names of more than 100 bytes in entries of their own in front, data in blocks of 512 bytes.  The
  callback that takes the bytes is an argument; it returns a return code and its new state.
\<close>

section \<open>Emitting\<close>

definition BLOCKSIZE :: nat where "BLOCKSIZE = 512"
definition LONGLINK :: bytes where "LONGLINK = bytes_of ''././@LongLink''"
definition TYPE_LONGLINK :: u8 where "TYPE_LONGLINK = 75"
definition TYPE_LONGNAME :: u8 where "TYPE_LONGNAME = 76"

text \<open>\<open>if (rc) return rc;\<close>\<close>

definition and_then :: "int \<times> 's \<Rightarrow> ('s \<Rightarrow> int \<times> 's) \<Rightarrow> int \<times> 's" where
  "and_then r f = (if fst r \<noteq> 0 then r else f (snd r))"

lemma and_then_ok [simp]: "and_then (0, s) f = f s"
  by (simp add: and_then_def)

text \<open>The memory that is emitted is given as the list of its bytes.\<close>

definition emit_padding :: "('s \<Rightarrow> bytes \<Rightarrow> int \<times> 's) \<Rightarrow> nat \<Rightarrow> 's \<Rightarrow> int \<times> 's" where
  "emit_padding emit_cb len s =
     (let pad = BLOCKSIZE - len mod BLOCKSIZE
      in if len mod BLOCKSIZE > 0 then emit_cb s (replicate pad 0) else (0, s))"

definition emit_data :: "('s \<Rightarrow> bytes \<Rightarrow> int \<times> 's) \<Rightarrow> bytes \<Rightarrow> 's \<Rightarrow> int \<times> 's" where
  "emit_data emit_cb addr s =
     (if addr = [] then (0, s)
      else and_then (emit_cb s addr) (emit_padding emit_cb (length addr)))"

text \<open>The state of \<open>emit_header\<close> has the caches of names beside the state of the callback.\<close>

type_synonym 's emit_state = "'s \<times> id_cache \<times> id_cache"

definition on_output :: "('s \<Rightarrow> int \<times> 's) \<Rightarrow> 's emit_state \<Rightarrow> int \<times> 's emit_state" where
  "on_output f st = (let (rc, s) = f (fst st) in (rc, s, snd st))"

text \<open>An empty target of a link is replaced by a blank.\<close>

definition link_text :: "bytes option \<Rightarrow> bytes option" where
  "link_text link = (case link of None \<Rightarrow> None | Some l \<Rightarrow> Some (if strlen l = 0 then [32] else l))"

definition link_len :: "bytes option \<Rightarrow> nat" where
  "link_len link = (case link of None \<Rightarrow> 0 | Some l \<Rightarrow> strlen l)"

lemma LONGLINK_len: "strlen LONGLINK = 13" "cstr LONGLINK = LONGLINK"
  by (simp_all add: LONGLINK_def bytes_of_def strlen_def cstr_def)

lemma link_text_len: "link_len (link_text link) \<le> max 1 (link_len link)"
  by (auto simp: link_text_def link_len_def strlen_def cstr_def split: option.split)

function emit_header ::
  "('s \<Rightarrow> bytes \<Rightarrow> int \<times> 's) \<Rightarrow> (u32 \<Rightarrow> bytes option) \<Rightarrow> (u32 \<Rightarrow> bytes option) \<Rightarrow> bytes \<Rightarrow> bytes option \<Rightarrow> u64 \<Rightarrow> stat option \<Rightarrow> u8 \<Rightarrow>
     's emit_state \<Rightarrow> int \<times> 's emit_state" where
  "emit_header emit_cb pw gr filename link len stat type st =
     and_then
       (if link_len (link_text link) > 100 then
          and_then (emit_header emit_cb pw gr LONGLINK None (of_nat (link_len (link_text link) + 1)) None TYPE_LONGLINK st)
            (on_output (emit_data emit_cb (cstr (the (link_text link)) @ [0])))
        else (0, st)) (\<lambda>st.
     and_then
       (if strlen filename > 100 then
          and_then (emit_header emit_cb pw gr LONGLINK None (of_nat (strlen filename + 1)) None TYPE_LONGNAME st)
            (on_output (emit_data emit_cb (cstr filename @ [0])))
        else (0, st)) (\<lambda>st.
     let (th, caches) = init_header pw gr (snd st) filename (link_text link) len stat type
     in on_output (emit_data emit_cb (header_bytes th)) (fst st, caches)))"
  by pat_completeness auto

termination emit_header
proof (relation "measure (\<lambda>(_, _, _, filename, link, _). strlen filename + link_len link)", goal_cases)
  case (2 emit_cb pw gr filename link len stat type st)
  then have "100 < link_len link" using link_text_len [of link] by simp
  then show ?case by (simp add: LONGLINK_len) (simp add: link_len_def)
next
  case (3 emit_cb pw gr filename link len stat type st x)
  then show ?case by (simp add: LONGLINK_len) (simp add: link_len_def)
qed simp

declare emit_header.simps [simp del]

definition tar_emit_file_from_data ::
  "(u32 \<Rightarrow> bytes option) \<Rightarrow> (u32 \<Rightarrow> bytes option) \<Rightarrow> bytes \<Rightarrow> bytes option \<Rightarrow> u64 \<Rightarrow> stat option \<Rightarrow> u8 \<Rightarrow> bytes option \<Rightarrow>
     ('s \<Rightarrow> bytes \<Rightarrow> int \<times> 's) \<Rightarrow> 's emit_state \<Rightarrow> int \<times> 's emit_state" where
  "tar_emit_file_from_data pw gr filename link len stat type addr emit_cb st =
     and_then (emit_header emit_cb pw gr filename link len stat type st) (\<lambda>st.
       case addr of None \<Rightarrow> (0, st) | Some bs \<Rightarrow> on_output (emit_data emit_cb (take (unat len) bs)) st)"


section \<open>The reader\<close>

record tar_member =
  m_name :: bytes
  m_link :: bytes
  m_mode :: nat
  m_uid :: nat
  m_gid :: nat
  m_size :: nat
  m_mtime :: int
  m_type :: u8
  m_uname :: bytes
  m_gname :: bytes
  m_data :: bytes

definition field :: "nat \<Rightarrow> nat \<Rightarrow> bytes \<Rightarrow> bytes" where
  "field off n bs = take n (drop off bs)"

definition read_header :: "bytes \<Rightarrow> tar_member option" where
  "read_header bs =
     (if length bs < 512 then None
      else if from_oct (cstr (field 148 8 bs)) \<noteq> sum_list (map unat (overwrite (take 512 bs) 148 (replicate 8 32))) then None
      else if field 257 6 bs \<noteq> bytes_of ''ustar '' then None
      else Some \<lparr>m_name = cstr (field 0 100 bs), m_link = cstr (field 157 100 bs), m_mode = from_oct (cstr (field 100 8 bs)),
        m_uid = from_oct (cstr (field 108 8 bs)), m_gid = from_oct (cstr (field 116 8 bs)),
        m_size = from_oct (cstr (field 124 12 bs)), m_mtime = time_of (field 136 12 bs), m_type = bs ! 156,
        m_uname = cstr (field 265 32 bs), m_gname = cstr (field 297 32 bs), m_data = []\<rparr>)"

text \<open>The name and the target of a link that were in entries in front.\<close>

function read_member :: "bytes option \<Rightarrow> bytes option \<Rightarrow> bytes \<Rightarrow> (tar_member \<times> bytes) option" where
  "read_member name link bs =
     (case read_header bs of None \<Rightarrow> None
      | Some m \<Rightarrow>
          (let data = drop 512 bs; n = m_size m; padded = (n + 511) div 512 * 512
           in if length bs < 512 \<or> length data < padded then None
              else if m_type m = TYPE_LONGLINK then read_member name (Some (cstr (take n data))) (drop padded data)
              else if m_type m = TYPE_LONGNAME then read_member (Some (cstr (take n data))) link (drop padded data)
              else Some (m\<lparr>m_name := (case name of None \<Rightarrow> m_name m | Some s \<Rightarrow> s),
                           m_link := (case link of None \<Rightarrow> m_link m | Some s \<Rightarrow> s), m_data := take n data\<rparr>,
                         drop padded data)))"
  by pat_completeness auto
termination by (relation "measure (\<lambda>(_, _, bs). length bs)") auto

declare read_member.simps [simp del]

end
