(* ===== verification/Tar_Read.thy ===== *)
theory Tar_Read
  imports Tar_Emit
begin

text \<open>
  What \<open>dump2tar\<close> writes is read back: the fields of one header, then a whole entry with its long names
  and its data, whatever follows in the archive.
\<close>

section \<open>The bytes of a header\<close>

definition header_ok :: "tar_header \<Rightarrow> bool" where
  "header_ok th \<longleftrightarrow> length (t_name th) = 100 \<and> length (t_mode th) = 8 \<and> length (t_uid th) = 8 \<and> length (t_gid th) = 8 \<and>
     length (t_size th) = 12 \<and> length (t_mtime th) = 12 \<and> length (t_chksum th) = 8 \<and> length (t_linkname th) = 100 \<and>
     length (t_magic th) = 6 \<and> length (t_version th) = 2 \<and> length (t_uname th) = 32 \<and> length (t_gname th) = 32 \<and>
     length (t_devmajor th) = 8 \<and> length (t_devminor th) = 8 \<and> length (t_prefix th) = 155"

lemma header_length: "header_ok th \<Longrightarrow> length (header_bytes th) = 500"
  by (simp add: header_ok_def header_bytes_def)

lemma field_append: "off + n \<le> length xs \<Longrightarrow> field off n (xs @ ys) = field off n xs"
  by (simp add: field_def)

lemma field_skip: "length xs \<le> off \<Longrightarrow> field off n (xs @ ys) = field (off - length xs) n ys"
  by (simp add: field_def)

lemma field_Cons: "0 < off \<Longrightarrow> field off n (x # xs) = field (off - 1) n xs"
  by (cases off) (simp_all add: field_def)

lemma field_here: "n = length xs \<Longrightarrow> field 0 n (xs @ ys) = xs"
  by (simp add: field_def)

lemma header_fields:
  assumes "header_ok th"
  shows "field 0 100 (header_bytes th @ bs) = t_name th" "field 100 8 (header_bytes th @ bs) = t_mode th"
    "field 108 8 (header_bytes th @ bs) = t_uid th" "field 116 8 (header_bytes th @ bs) = t_gid th"
    "field 124 12 (header_bytes th @ bs) = t_size th" "field 136 12 (header_bytes th @ bs) = t_mtime th"
    "field 148 8 (header_bytes th @ bs) = t_chksum th" "(header_bytes th @ bs) ! 156 = t_typeflag th"
    "field 157 100 (header_bytes th @ bs) = t_linkname th" "field 257 6 (header_bytes th @ bs) = t_magic th"
    "field 265 32 (header_bytes th @ bs) = t_uname th" "field 297 32 (header_bytes th @ bs) = t_gname th"
  using assms by (simp_all add: header_bytes_def header_ok_def field_skip field_Cons field_here nth_append)

lemma header_chksum:
  assumes "header_ok th"
  shows "overwrite (header_bytes th @ bs) 148 (replicate 8 32) = header_bytes (th\<lparr>t_chksum := replicate 8 32\<rparr>) @ bs"
  using assms by (simp add: overwrite_def header_bytes_def header_ok_def)

lemma plain_header_ok: "header_ok ((plain_header pw gr filename link len stat type)\<lparr>t_chksum := c\<rparr>) \<longleftrightarrow> length c = 8"
  and plain_header_ok': "header_ok (plain_header pw gr filename link len stat type)"
proof -
  have "length (set_time 12 v) = 12" for v by (simp add: set_time_def Let_def)
  then show "header_ok ((plain_header pw gr filename link len stat type)\<lparr>t_chksum := c\<rparr>) \<longleftrightarrow> length c = 8"
    "header_ok (plain_header pw gr filename link len stat type)"
    by (simp_all add: plain_header_def header_ok_def blank_header_def split: prod.split option.split)
qed

definition full_header where
  "full_header pw gr filename link len stat type =
     (let th = plain_header pw gr filename link len stat type in th\<lparr>t_chksum := fmt_06o (checksum th) @ [32]\<rparr>)"

lemma full_header_ok: "header_ok (full_header pw gr filename link len stat type)"
proof -
  have "length (fmt_06o v) = 7" for v by (simp add: fmt_06o_def Let_def)
  then show ?thesis by (simp add: full_header_def Let_def plain_header_ok)
qed

text \<open>Blocks.\<close>

definition pad_block :: "bytes \<Rightarrow> bytes" where
  "pad_block bs = bs @ replicate ((512 - length bs mod 512) mod 512) 0"

lemma length_pad_block: "length (pad_block bs) = (length bs + 511) div 512 * 512"
proof -
  have "n + (512 - n mod 512) mod 512 = (n + 511) div 512 * 512" for n :: nat
  proof -
    have n: "n = n div 512 * 512 + n mod 512" by simp
    have "(n + 511) div 512 = n div 512 + (n mod 512 + 511) div 512" 
    proof -
      have "(q * 512 + b) div 512 = q + b div 512" for q b :: nat by simp
      from this [of "n div 512" "n mod 512 + 511"] show ?thesis by (simp add: add.assoc [symmetric])
    qed
    moreover have "(n mod 512 + 511) div 512 * 512 = n mod 512 + (512 - n mod 512) mod 512"
    proof (cases "n mod 512 = 0")
      case False
      then have "(n mod 512 + 511) div 512 = 1" by (intro div_nat_eqI) (simp_all add: less_imp_le)
      then show ?thesis using False by simp
    qed simp
    ultimately show ?thesis by (simp only: add_mult_distrib) (simp add: add.assoc [symmetric])
  qed
  then show ?thesis by (simp add: pad_block_def)
qed

lemma take_pad_block [simp]: "take (length bs) (pad_block bs @ xs) = bs"
  by (simp add: pad_block_def)

lemma checksum_sum:
  assumes "header_ok th"
  shows "unat (checksum th) = sum_list (map unat (header_bytes (th\<lparr>t_chksum := replicate 8 32\<rparr>)))" "unat (checksum th) < 8 ^ 6"
proof -
  let ?b = "header_bytes (th\<lparr>t_chksum := replicate 8 32\<rparr>)"
  have "length ?b = 500" using assms by (intro header_length) (simp add: header_ok_def)
  then have "unat (sum_list (map ucast ?b) :: u32) = sum_list (map unat ?b) \<and> sum_list (map unat ?b) \<le> 255 * 500"
    using unat_sum_bytes [of ?b] by simp
  then show "unat (checksum th) = sum_list (map unat ?b)" "unat (checksum th) < 8 ^ 6" by (simp_all add: checksum_def)
qed

text \<open>The header of an entry is read back.\<close>

lemma octal8: "unat v < 8 ^ 7 \<Longrightarrow> from_oct (cstr (set_octal 8 (ucast (v :: u32)))) = unat v"
  by (subst octal_field) (simp_all add: unsigned_ucast_eq take_bit_nat_eq_self)

lemma cstr_strncpy:
  assumes "strlen s \<le> n"
  shows "cstr (strncpy_data s n) = cstr s"
proof -
  have "s = cstr s @ dropWhile (\<lambda>c. c \<noteq> 0) s" by (rule cstr_prefix)
  then have "take n s = cstr s @ take (n - strlen s) (dropWhile (\<lambda>c. c \<noteq> 0) s)"
    using assms by (metis strlen_def take_all take_append)
  moreover have "cstr (cstr s @ take k (dropWhile (\<lambda>c. c \<noteq> 0) s)) = cstr s" for k
  proof (cases "dropWhile (\<lambda>c. c \<noteq> 0) s")
    case Nil
    show ?thesis unfolding Nil take_Nil append_Nil2 by (rule cstr_no_zero) simp
  next
    case (Cons c cs)
    then have "c = 0" using hd_dropWhile [of "\<lambda>c. c \<noteq> 0" s] by simp
    then show ?thesis using Cons cstr_zero [of "cstr s"] by (cases k) (simp_all add: cstr_no_zero)
  qed
  ultimately show ?thesis by (simp add: strncpy_data_def Let_def cstr_zeros)
qed

lemma read_full_header:
  assumes len: "unat len < 8 ^ 11" and st: "stat_or stat = (mode, uid, gid, mtime)" "unat mode < 8 ^ 7" "unat uid < 8 ^ 7" "unat gid < 8 ^ 7"
  shows "read_header (pad_block (header_bytes (full_header pw gr filename link len stat type)) @ bs) =
    Some \<lparr>m_name = cstr (strncpy_data filename 100), m_link = (case link of None \<Rightarrow> [] | Some l \<Rightarrow> cstr (strncpy_data l 100)),
      m_mode = unat mode, m_uid = unat uid, m_gid = unat gid, m_size = unat len, m_mtime = sint mtime, m_type = type,
      m_uname = cstr (id_field pw uid), m_gname = cstr (id_field gr gid), m_data = []\<rparr>"
proof -
  let ?th = "full_header pw gr filename link len stat type" and ?p = "plain_header pw gr filename link len stat type"
  note ok = full_header_ok [of pw gr filename link len stat type]
  have l: "length (header_bytes ?th) = 500" by (rule header_length [OF ok])
  have p: "pad_block (header_bytes ?th) = header_bytes ?th @ replicate 12 0" by (simp add: pad_block_def l)
  have pok: "header_ok ?p" by (rule plain_header_ok')
  have sum: "sum_list (map unat (overwrite (take 512 (header_bytes ?th @ replicate 12 0 @ bs)) 148 (replicate 8 32))) = unat (checksum ?p)"
  proof -
    have "?th\<lparr>t_chksum := replicate 8 32\<rparr> = ?p\<lparr>t_chksum := replicate 8 32\<rparr>" by (simp add: full_header_def Let_def)
    then show ?thesis using checksum_sum(1) [OF pok] by (simp add: l header_chksum [OF ok] sum_list_replicate)
  qed
  have chk: "from_oct (cstr (t_chksum ?th)) = unat (checksum ?p)"
    using fmt_06o_back(1) [OF checksum_sum(2) [OF pok]] by (simp add: full_header_def Let_def)
  have f: "t_name ?th = strncpy_data filename 100" "t_linkname ?th = (case link of None \<Rightarrow> replicate 100 0 | Some l \<Rightarrow> strncpy_data l 100)"
    "t_mode ?th = set_octal 8 (ucast mode)" "t_uid ?th = set_octal 8 (ucast uid)" "t_gid ?th = set_octal 8 (ucast gid)"
    "t_size ?th = set_octal 12 len" "t_mtime ?th = set_time 12 mtime" "t_typeflag ?th = type" "t_magic ?th = bytes_of ''ustar ''"
    "t_uname ?th = id_field pw uid" "t_gname ?th = id_field gr gid"
    by (simp_all add: full_header_def plain_header_def Let_def st(1))
  have z: "cstr (replicate 100 0) = []" by (simp add: cstr_def)
  have o: "from_oct (cstr (set_octal 12 len)) = unat len" using len by (subst octal_field) simp_all
  show ?thesis
    unfolding read_header_def p append_assoc header_fields [OF ok] chk sum f
    using st(2-4) by (simp add: l octal8 o time_field z split: option.split)
qed



section \<open>What is emitted\<close>

text \<open>A callback that keeps everything.\<close>

definition collect :: "bytes \<Rightarrow> bytes \<Rightarrow> int \<times> bytes" where
  "collect s bs = (0, s @ bs)"

lemma emit_data_collect: "emit_data collect bs s = (0, s @ pad_block bs)"
proof -
  have "emit_padding collect n s = (0, s @ replicate ((512 - n mod 512) mod 512) 0)" for n s
    by (cases "n mod 512 = 0") (simp_all add: emit_padding_def collect_def BLOCKSIZE_def Let_def)
  then show ?thesis by (simp add: emit_data_def collect_def pad_block_def)
qed

definition names_ok where
  "names_ok pw gr caches \<longleftrightarrow> cache_ok pw (fst caches) \<and> cache_ok gr (snd caches)"

definition long_entry :: "(u32 \<Rightarrow> bytes option) \<Rightarrow> (u32 \<Rightarrow> bytes option) \<Rightarrow> u8 \<Rightarrow> bytes \<Rightarrow> bytes" where
  "long_entry pw gr type text =
     pad_block (header_bytes (full_header pw gr LONGLINK None (of_nat (strlen text + 1)) None type)) @ pad_block (cstr text @ [0])"

definition header_entry where
  "header_entry pw gr filename link len stat type =
     (if link_len (link_text link) > 100 then long_entry pw gr TYPE_LONGLINK (the (link_text link)) else []) @
     (if strlen filename > 100 then long_entry pw gr TYPE_LONGNAME filename else []) @
     pad_block (header_bytes (full_header pw gr filename (link_text link) len stat type))"

lemma emit_short:
  assumes "names_ok pw gr c" "link_len (link_text link) \<le> 100" "strlen filename \<le> 100"
  shows "\<exists>c'. emit_header collect pw gr filename link len stat type (s, c) =
    (0, s @ pad_block (header_bytes (full_header pw gr filename (link_text link) len stat type)), c') \<and> names_ok pw gr c'"
proof -
  obtain c' where "init_header pw gr c filename (link_text link) len stat type =
      (full_header pw gr filename (link_text link) len stat type, c')" "names_ok pw gr c'"
    using init_header_eq [of pw c gr filename "link_text link" len stat type] assms(1)
    by (auto simp: names_ok_def full_header_def Let_def)
  then show ?thesis using assms(2,3)
    by (subst emit_header.simps) (simp add: on_output_def emit_data_collect)
qed

lemma emit_long:
  assumes "names_ok pw gr c"
  shows "\<exists>c'. and_then (emit_header collect pw gr LONGLINK None (of_nat (strlen text + 1)) None type (s, c))
      (on_output (emit_data collect (cstr text @ [0]))) = (0, s @ long_entry pw gr type text, c') \<and> names_ok pw gr c'"
proof -
  have "link_text None = None" "link_len None \<le> 100" by (simp_all add: link_text_def link_len_def)
  then show ?thesis using emit_short [of pw gr c None LONGLINK "of_nat (strlen text + 1)" None type s] assms LONGLINK_len(1)
    by (auto simp: on_output_def emit_data_collect long_entry_def)
qed

lemma emit_header_collect:
  assumes "names_ok pw gr c"
  shows "\<exists>c'. emit_header collect pw gr filename link len stat type (s, c) =
    (0, s @ header_entry pw gr filename link len stat type, c') \<and> names_ok pw gr c'"
proof -
  let ?k = "link_len (link_text link) > 100" and ?l = "strlen filename > 100"
  obtain c1 where 1: "(if ?k then and_then (emit_header collect pw gr LONGLINK None (of_nat (link_len (link_text link) + 1)) None TYPE_LONGLINK (s, c))
      (on_output (emit_data collect (cstr (the (link_text link)) @ [0]))) else (0, (s, c))) =
      (0, s @ (if ?k then long_entry pw gr TYPE_LONGLINK (the (link_text link)) else []), c1)" "names_ok pw gr c1"
  proof (cases ?k)
    case True
    then obtain l where "link_text link = Some l" by (auto simp: link_len_def split: option.splits)
    then show thesis using emit_long [OF assms, of l TYPE_LONGLINK s] True that by (auto simp: link_len_def)
  next
    case False
    then show thesis using assms that by auto
  qed
  let ?s1 = "s @ (if ?k then long_entry pw gr TYPE_LONGLINK (the (link_text link)) else [])"
  obtain c2 where 2: "(if ?l then and_then (emit_header collect pw gr LONGLINK None (of_nat (strlen filename + 1)) None TYPE_LONGNAME (?s1, c1))
      (on_output (emit_data collect (cstr filename @ [0]))) else (0, (?s1, c1))) =
      (0, ?s1 @ (if ?l then long_entry pw gr TYPE_LONGNAME filename else []), c2)" "names_ok pw gr c2"
  proof (cases ?l)
    case True
    then show thesis using emit_long [OF 1(2), of filename TYPE_LONGNAME ?s1] that by (auto split: if_splits)
  next
    case False
    then show thesis using 1(2) that by auto
  qed
  obtain c3 where 3: "init_header pw gr c2 filename (link_text link) len stat type =
      (full_header pw gr filename (link_text link) len stat type, c3)" "names_ok pw gr c3"
    using init_header_eq [of pw c2 gr filename "link_text link" len stat type] 2(2)
    by (auto simp: names_ok_def full_header_def Let_def)
  have "emit_header collect pw gr filename link len stat type (s, c) =
      (0, s @ header_entry pw gr filename link len stat type, c3)"
    unfolding emit_header.simps [of collect pw gr filename link len stat type "(s, c)"] 1(1) and_then_ok 2(1)
    using 3(1) by (simp add: on_output_def emit_data_collect header_entry_def)
  then show ?thesis using 3(2) by blast
qed


section \<open>Reading an entry back\<close>

lemma read_step:
  assumes h: "read_header (pad_block hb @ data @ bs) = Some m" and l: "length hb = 500" and d: "length data = (m_size m + 511) div 512 * 512"
  shows "read_member n k (pad_block hb @ data @ bs) =
    (if m_type m = TYPE_LONGLINK then read_member n (Some (cstr (take (m_size m) data))) bs
     else if m_type m = TYPE_LONGNAME then read_member (Some (cstr (take (m_size m) data))) k bs
     else Some (m\<lparr>m_name := (case n of None \<Rightarrow> m_name m | Some s \<Rightarrow> s), m_link := (case k of None \<Rightarrow> m_link m | Some s \<Rightarrow> s),
       m_data := take (m_size m) data\<rparr>, bs))"
proof -
  have p: "length (pad_block hb) = 512" by (simp add: length_pad_block l)
  have "m_size m \<le> length data" unfolding d
    using length_pad_block [of "replicate (m_size m) 0"] by (simp add: pad_block_def)
  then show ?thesis using h p d by (subst read_member.simps) (simp add: Let_def)
qed

lemma fits8: "unat (x :: u32) < 8 ^ 7" if "x = 0 \<or> x = 0x1A4" for x
  using that by auto

lemma long_read:
  assumes t: "strlen text + 1 < 8 ^ 11" and ty: "type = TYPE_LONGLINK \<or> type = TYPE_LONGNAME"
  shows "read_member n k (long_entry pw gr type text @ bs) =
    (if type = TYPE_LONGLINK then read_member n (Some (cstr text)) bs else read_member (Some (cstr text)) k bs)"
proof -
  define N :: u64 where "N = of_nat (strlen text + 1)"
  let ?h = "full_header pw gr LONGLINK None N None type"
  have u: "unat N = strlen text + 1" using t unfolding N_def by (intro unat_of_nat_small) simp
  have so: "stat_or None = (0x1A4, 0, 0, 0)" by (simp add: stat_or_def)
  have l: "length (header_bytes ?h) = 500" by (rule header_length [OF full_header_ok])
  have c: "length (cstr text @ [0]) = strlen text + 1" by (simp add: strlen_def)
  have d: "length (pad_block (cstr text @ [0])) = (strlen text + 1 + 511) div 512 * 512" unfolding length_pad_block c ..
  have tk: "cstr (take (strlen text + 1) (pad_block (cstr text @ [0]))) = cstr text"
    using take_pad_block [of "cstr text @ [0]" "[]"] cstr_zero [of "cstr text" "[]"] unfolding c by simp
  have "TYPE_LONGNAME \<noteq> TYPE_LONGLINK" by (simp add: TYPE_LONGNAME_def TYPE_LONGLINK_def)
  then show ?thesis
    unfolding long_entry_def append_assoc N_def [symmetric]
    using ty t by (subst read_step [OF read_full_header [OF _ so] l]) (auto simp: u d tk [simplified])
qed

lemma member_read:
  assumes len: "unat len < 8 ^ 11" "length data = unat len" and st: "stat_or stat = (mode, uid, gid, mtime)"
      "unat mode < 8 ^ 7" "unat uid < 8 ^ 7" "unat gid < 8 ^ 7"
    and names: "strlen filename + 1 < 8 ^ 11" "link_len (link_text link) + 1 < 8 ^ 11"
    and ty: "type \<noteq> TYPE_LONGLINK" "type \<noteq> TYPE_LONGNAME"
  shows "read_member None None (header_entry pw gr filename link len stat type @ pad_block data @ bs) =
    Some (\<lparr>m_name = cstr filename, m_link = (case link_text link of None \<Rightarrow> [] | Some l \<Rightarrow> cstr l), m_mode = unat mode,
      m_uid = unat uid, m_gid = unat gid, m_size = unat len, m_mtime = sint mtime, m_type = type,
      m_uname = cstr (id_field pw uid), m_gname = cstr (id_field gr gid), m_data = data\<rparr>, bs)"
proof -
  let ?k = "link_len (link_text link) > 100" and ?l = "strlen filename > 100"
  let ?h = "pad_block (header_bytes (full_header pw gr filename (link_text link) len stat type))"
  let ?kk = "if ?k then Some (cstr (the (link_text link))) else None" and ?nn = "if ?l then Some (cstr filename) else None"
  have s1: "read_member None None ((if ?k then long_entry pw gr TYPE_LONGLINK (the (link_text link)) else []) @ xs) =
      read_member None ?kk xs" for xs
  proof (cases ?k)
    case True
    then obtain l where "link_text link = Some l" by (auto simp: link_len_def split: option.splits)
    then show ?thesis using True names(2) long_read [of l TYPE_LONGLINK] by (simp add: link_len_def)
  qed simp
  have s2: "read_member None k ((if ?l then long_entry pw gr TYPE_LONGNAME filename else []) @ xs) = read_member ?nn k xs" for k xs
    using names(1) long_read [of filename TYPE_LONGNAME] by (simp add: TYPE_LONGNAME_def TYPE_LONGLINK_def)
  have l: "length (header_bytes (full_header pw gr filename (link_text link) len stat type)) = 500"
    by (rule header_length [OF full_header_ok])
  have d: "length (pad_block data) = (unat len + 511) div 512 * 512" by (simp add: length_pad_block len(2))
  have tk: "take (unat len) (pad_block data) = data" using take_pad_block [of data "[]"] by (simp add: len(2))
  have lk: "?k \<longrightarrow> cstr (the (link_text link)) = (case link_text link of None \<Rightarrow> [] | Some l \<Rightarrow> cstr l)"
    "\<not> ?k \<longrightarrow> (case link_text link of None \<Rightarrow> [] | Some l \<Rightarrow> cstr (strncpy_data l 100)) =
      (case link_text link of None \<Rightarrow> [] | Some l \<Rightarrow> cstr l)"
    by (auto simp: link_len_def cstr_strncpy split: option.split)
  have nm: "\<not> ?l \<longrightarrow> cstr (strncpy_data filename 100) = cstr filename"
    by (simp add: cstr_strncpy)
  show ?thesis
    unfolding header_entry_def append_assoc s1 s2
    using ty lk nm by (subst read_step [OF read_full_header [OF len(1) st] l]) (simp_all add: d tk)
qed

end
