(* ===== verification/Tar_Buffer.thy ===== *)
theory Tar_Buffer
  imports Tar_Read "HOL-Library.Monad_Syntax"
begin

text \<open>
  The data buffer of \<open>dump2tar\<close> (\<open>src/dump2tar/src/buffer.c\<close>, the read and write loops of \<open>misc.c\<close>, \<open>read_fd\<close>
  of \<open>dump.c\<close>): memory up to a limit, then a temporary file.  The operating system is an argument: \<open>io n\<close>
  is the answer to the \<open>n\<close>th system call, an error if negative, otherwise the most bytes it transfers;
  \<open>junk\<close> is what \<open>realloc\<close> leaves in new memory; \<open>ab n\<close> is whether the \<open>n\<close>th look at the flag \<open>aborted\<close>
  finds it set.  A loop that does not end is \<open>None\<close>.  Sizes are natural numbers: they count bytes of memory
  and files and stay below \<open>2 ^ 64\<close>.
\<close>

section \<open>System calls\<close>

record os =
  os_calls :: nat
  os_polls :: nat
  os_file :: bytes
  os_pos :: nat
  os_input :: bytes

definition sys_call :: "(nat \<Rightarrow> int) \<Rightarrow> os \<Rightarrow> int \<times> os" where
  "sys_call io os = (io (os_calls os), os\<lparr>os_calls := Suc (os_calls os)\<rparr>)"

definition sys_write :: "(nat \<Rightarrow> int) \<Rightarrow> bytes \<Rightarrow> os \<Rightarrow> int \<times> os" where
  "sys_write io bs os =
     (let (r, os) = sys_call io os; k = min (nat r) (length bs) in
      if r < 0 then (-1, os)
      else (int k, os\<lparr>os_file := overwrite (os_file os) (os_pos os) (take k bs), os_pos := os_pos os + k\<rparr>))"

definition sys_read :: "(nat \<Rightarrow> int) \<Rightarrow> nat \<Rightarrow> os \<Rightarrow> (int \<times> bytes) \<times> os" where
  "sys_read io len os =
     (let (r, os) = sys_call io os; bs = take (min (nat r) len) (drop (os_pos os) (os_file os)) in
      if r < 0 then ((-1, []), os) else ((int (length bs), bs), os\<lparr>os_pos := os_pos os + length bs\<rparr>))"

definition sys_read_input :: "(nat \<Rightarrow> int) \<Rightarrow> nat \<Rightarrow> os \<Rightarrow> (int \<times> bytes) \<times> os" where
  "sys_read_input io len os =
     (let (r, os) = sys_call io os; bs = take (min (nat r) len) (os_input os) in
      if r < 0 then ((-1, []), os) else ((int (length bs), bs), os\<lparr>os_input := drop (length bs) (os_input os)\<rparr>))"

definition sys_seek :: "(nat \<Rightarrow> int) \<Rightarrow> nat \<Rightarrow> os \<Rightarrow> bool \<times> os" where
  "sys_seek io pos os = (let (r, os) = sys_call io os in if r < 0 then (False, os) else (True, os\<lparr>os_pos := pos\<rparr>))"

definition sys_ftruncate :: "(nat \<Rightarrow> int) \<Rightarrow> nat \<Rightarrow> os \<Rightarrow> bool \<times> os" where
  "sys_ftruncate io len os =
     (let (r, os) = sys_call io os in
      if r < 0 then (False, os)
      else (True, os\<lparr>os_file := take len (os_file os) @ replicate (len - length (os_file os)) 0\<rparr>))"

definition sys_tmpfile :: "(nat \<Rightarrow> int) \<Rightarrow> os \<Rightarrow> bool \<times> os" where
  "sys_tmpfile io os = (let (r, os) = sys_call io os in if r < 0 then (False, os) else (True, os\<lparr>os_file := [], os_pos := 0\<rparr>))"

definition is_aborted :: "(nat \<Rightarrow> bool) \<Rightarrow> os \<Rightarrow> bool \<times> os" where
  "is_aborted ab os = (ab (os_polls os), os\<lparr>os_polls := Suc (os_polls os)\<rparr>)"


section \<open>Loops over partial transfers\<close>

partial_function (option) misc_write_data :: "(nat \<Rightarrow> int) \<Rightarrow> bytes \<Rightarrow> os \<Rightarrow> (int \<times> os) option" where
  "misc_write_data io bs os =
     (if bs = [] then Some (0, os)
      else let (w, os) = sys_write io bs os in
        if w < 0 then Some (1, os) else misc_write_data io (drop (nat w) bs) os)"

text \<open>The bytes read, or nothing after an error.\<close>

partial_function (option) misc_read_data :: "(nat \<Rightarrow> int) \<Rightarrow> nat \<Rightarrow> os \<Rightarrow> (bytes option \<times> os) option" where
  "misc_read_data io len os =
     (if len = 0 then Some (Some [], os)
      else let ((r, bs), os) = sys_read io len os in
        if r < 0 then Some (None, os)
        else if r = 0 then Some (Some [], os)
        else misc_read_data io (len - nat r) os \<bind> (\<lambda>(rest, os). Some (map_option ((@) bs) rest, os)))"


section \<open>The buffer\<close>

record buffer =
  b_total :: nat
  b_off :: nat
  b_size :: nat
  b_addr :: bytes
  b_open :: bool

definition buffer_init :: "nat \<Rightarrow> buffer" where
  "buffer_init sz = \<lparr>b_total = 0, b_off = 0, b_size = sz, b_addr = replicate sz 0, b_open = False\<rparr>"

definition buffer_reset :: "(nat \<Rightarrow> int) \<Rightarrow> buffer \<Rightarrow> os \<Rightarrow> buffer \<times> os" where
  "buffer_reset io b os =
     (let b = b\<lparr>b_total := 0, b_off := 0\<rparr> in
      if b_open b then
        let (ok, os) = sys_ftruncate io 0 os; (ok, os) = sys_seek io 0 os in (b, os)
      else (b, os))"

text \<open>The return codes are those of C: zero and one.\<close>

definition buffer_open :: "(nat \<Rightarrow> int) \<Rightarrow> buffer \<Rightarrow> os \<Rightarrow> int \<times> buffer \<times> os" where
  "buffer_open io b os =
     (if b_open b then (0, b, os)
      else let (ok, os) = sys_tmpfile io os in
        if \<not> ok then (1, b, os) else (0, b\<lparr>b_open := True\<rparr>, os))"

definition buffer_flush :: "(nat \<Rightarrow> int) \<Rightarrow> buffer \<Rightarrow> os \<Rightarrow> (int \<times> buffer \<times> os) option" where
  "buffer_flush io b os =
     (if b_off b = 0 then Some (0, b, os)
      else let (rc, b, os) = buffer_open io b os in
        if rc \<noteq> 0 then Some (1, b, os)
        else misc_write_data io (take (b_off b) (b_addr b)) os \<bind> (\<lambda>(rc, os).
          Some (if rc \<noteq> 0 then (1, b, os) else (0, b\<lparr>b_off := 0\<rparr>, os))))"

definition mrealloc :: "(nat \<Rightarrow> u8) \<Rightarrow> bytes \<Rightarrow> nat \<Rightarrow> bytes" where
  "mrealloc junk addr n = take n addr @ map junk [length addr..<n]"

definition buffer_make_room ::
  "(nat \<Rightarrow> int) \<Rightarrow> (nat \<Rightarrow> u8) \<Rightarrow> buffer \<Rightarrow> nat \<Rightarrow> bool \<Rightarrow> nat \<Rightarrow> os \<Rightarrow> (int \<times> buffer \<times> os) option" where
  "buffer_make_room io junk b sz usefile max_buffer_size os =
     (let sz = (if sz > max_buffer_size \<and> usefile then max_buffer_size else sz);
          needsize = b_off b + sz;
          grow = (\<lambda>needsize b os. Some (int sz, b\<lparr>b_size := needsize, b_addr := mrealloc junk (b_addr b) needsize\<rparr>, os))
      in if needsize \<le> b_size b then Some (int sz, b, os)
         else if needsize > max_buffer_size \<and> usefile then
           buffer_flush io b os \<bind> (\<lambda>(rc, b, os).
             if rc \<noteq> 0 then Some (-1, b, os)
             else if sz \<le> b_size b then Some (int sz, b, os)
             else grow sz b os)
         else grow needsize b os)"

text \<open>Bytes are stored behind those in memory.\<close>

definition stored :: "bytes \<Rightarrow> buffer \<Rightarrow> buffer" where
  "stored bs b = b\<lparr>b_addr := overwrite (b_addr b) (b_off b) bs, b_total := b_total b + length bs, b_off := b_off b + length bs\<rparr>"

definition buffer_read_fd ::
  "(nat \<Rightarrow> int) \<Rightarrow> (nat \<Rightarrow> u8) \<Rightarrow> buffer \<Rightarrow> nat \<Rightarrow> bool \<Rightarrow> nat \<Rightarrow> os \<Rightarrow> (int \<times> buffer \<times> os) option" where
  "buffer_read_fd io junk b chunk usefile max_buffer_size os =
     buffer_make_room io junk b chunk usefile max_buffer_size os \<bind> (\<lambda>(c, b, os).
     if c < 0 then Some (c, b, os)
     else let ((c, bs), os) = sys_read_input io (nat c) os in
       Some (c, if c > 0 then stored bs b else b, os))"

partial_function (option) buffer_add_data ::
  "(nat \<Rightarrow> int) \<Rightarrow> (nat \<Rightarrow> u8) \<Rightarrow> buffer \<Rightarrow> bytes option \<Rightarrow> nat \<Rightarrow> bool \<Rightarrow> nat \<Rightarrow> os \<Rightarrow> (int \<times> buffer \<times> os) option" where
  "buffer_add_data io junk b addr len usefile max_buffer_size os =
     (if len = 0 then Some (0, b, os)
      else buffer_make_room io junk b len usefile max_buffer_size os \<bind> (\<lambda>(c, b, os).
        if c < 0 then Some (1, b, os)
        else case addr of
            Some bs \<Rightarrow> buffer_add_data io junk (stored (take (nat c) bs) b) (Some (drop (nat c) bs)) (len - nat c) usefile max_buffer_size os
          | None \<Rightarrow> buffer_add_data io junk (stored (replicate (nat c) 0) b) None (len - nat c) usefile max_buffer_size os))"

text \<open>The loop of \<open>buffer_iterate\<close> over the file; the memory is the copy buffer.\<close>

partial_function (option) copy_file ::
  "(nat \<Rightarrow> int) \<Rightarrow> ('s \<Rightarrow> bytes \<Rightarrow> int \<times> 's) \<Rightarrow> 's \<Rightarrow> buffer \<Rightarrow> os \<Rightarrow> (int \<times> 's \<times> buffer \<times> os) option" where
  "copy_file io cb s b os =
     misc_read_data io (b_size b) os \<bind> (\<lambda>(r, os).
     case r of None \<Rightarrow> Some (1, s, b, os)
     | Some bs \<Rightarrow>
         if bs = [] then Some (0, s, b, os)
         else let b = b\<lparr>b_addr := overwrite (b_addr b) 0 bs\<rparr>; (rc, s) = cb s bs in
           if rc \<noteq> 0 then Some (rc, s, b, os) else copy_file io cb s b os)"

definition buffer_iterate ::
  "(nat \<Rightarrow> int) \<Rightarrow> ('s \<Rightarrow> bytes \<Rightarrow> int \<times> 's) \<Rightarrow> 's \<Rightarrow> buffer \<Rightarrow> os \<Rightarrow> (int \<times> 's \<times> buffer \<times> os) option" where
  "buffer_iterate io cb s b os =
     (if b_total b = 0 then Some (0, s, b, os)
      else if \<not> b_open b then let (rc, s) = cb s (take (b_off b) (b_addr b)) in Some (rc, s, b, os)
      else buffer_flush io b os \<bind> (\<lambda>(rc, b, os).
        if rc \<noteq> 0 then Some (1, s, b, os)
        else let (ok, os) = sys_seek io 0 os in
          if \<not> ok then Some (1, s, b, os) else copy_file io cb s b os))"

definition buffer_truncate :: "(nat \<Rightarrow> int) \<Rightarrow> buffer \<Rightarrow> nat \<Rightarrow> os \<Rightarrow> int \<times> buffer \<times> os" where
  "buffer_truncate io b len os =
     (if b_total b \<le> len then (0, b, os)
      else let delta = b_total b - len; b = b\<lparr>b_total := len\<rparr> in
        if b_open b \<and> delta > b_off b then
          let b = b\<lparr>b_off := 0\<rparr>; (ok, os) = sys_ftruncate io len os in
          if \<not> ok then (1, b, os)
          else let (ok, os) = sys_seek io len os in if \<not> ok then (1, b, os) else (0, b, os)
        else (0, b\<lparr>b_off := b_off b - delta\<rparr>, os))"


section \<open>Reading a file into the buffer\<close>

record dump_opts =
  read_chunk_size :: nat
  max_buffer_size :: nat
  file_max_size :: nat

partial_function (option) read_loop ::
  "(nat \<Rightarrow> int) \<Rightarrow> (nat \<Rightarrow> u8) \<Rightarrow> (nat \<Rightarrow> bool) \<Rightarrow> dump_opts \<Rightarrow> int \<Rightarrow> nat \<Rightarrow> buffer \<Rightarrow> os \<Rightarrow> (int \<times> buffer \<times> os) option" where
  "read_loop io junk ab opts rc c b os =
     (let (stop, os) = is_aborted ab os in
      if stop then Some (rc, b, os)
      else buffer_read_fd io junk b c True (max_buffer_size opts) os \<bind> (\<lambda>(rc, b, os).
        if rc \<le> 0 then Some (rc, b, os)
        else if file_max_size opts > 0 \<and> b_total b \<ge> file_max_size opts then
          let (_, b, os) = buffer_truncate io b (file_max_size opts) os in Some (0, b, os)
        else
          let c = b_size b - b_off b;
              c = (if c > 0 then c
                   else if b_size b + read_chunk_size opts < max_buffer_size opts then read_chunk_size opts
                   else max_buffer_size opts)
          in read_loop io junk ab opts rc c b os))"

definition read_fd ::
  "(nat \<Rightarrow> int) \<Rightarrow> (nat \<Rightarrow> u8) \<Rightarrow> (nat \<Rightarrow> bool) \<Rightarrow> dump_opts \<Rightarrow> buffer \<Rightarrow> os \<Rightarrow> (int \<times> buffer \<times> os) option" where
  "read_fd io junk ab opts b os =
     read_loop io junk ab opts 0 (if b_size b \<noteq> 0 then b_size b else read_chunk_size opts) b os \<bind> (\<lambda>(rc, b, os).
     let (stop, os) = is_aborted ab os in Some (if stop \<or> rc \<noteq> 0 then 1 else 0, b, os))"


section \<open>Emitting the buffer\<close>

text \<open>\<open>struct emit_content_cb_data\<close> without the callback: its state, the length left and the return code.\<close>

definition emit_content_cb :: "('s \<Rightarrow> bytes \<Rightarrow> int \<times> 's) \<Rightarrow> 's \<times> nat \<times> int \<Rightarrow> bytes \<Rightarrow> int \<times> 's \<times> nat \<times> int" where
  "emit_content_cb emit_cb d bs =
     (let (s, left, rc) = d; len = (if length bs > left then left else length bs); left = left - len;
          (rc, s) = emit_cb s (take len bs)
      in (if rc \<noteq> 0 \<or> left = 0 then 1 else 0, s, left, rc))"

definition emit_content ::
  "(nat \<Rightarrow> int) \<Rightarrow> ('s \<Rightarrow> bytes \<Rightarrow> int \<times> 's) \<Rightarrow> buffer \<Rightarrow> nat \<Rightarrow> 's \<Rightarrow> os \<Rightarrow> (int \<times> 's \<times> buffer \<times> os) option" where
  "emit_content io emit_cb b len s os =
     buffer_iterate io (emit_content_cb emit_cb) (s, len, 0) b os \<bind> (\<lambda>(_, (s, _, rc), b', os).
     if rc \<noteq> 0 then Some (rc, s, b', os)
     else let (rc, s) = emit_padding emit_cb (b_total b') s in Some (rc, s, b', os))"

definition tar_emit_file_from_buffer ::
  "(nat \<Rightarrow> int) \<Rightarrow> (u32 \<Rightarrow> bytes option) \<Rightarrow> (u32 \<Rightarrow> bytes option) \<Rightarrow> bytes \<Rightarrow> bytes option \<Rightarrow> u64 \<Rightarrow> stat option \<Rightarrow> u8 \<Rightarrow>
     buffer option \<Rightarrow> ('s \<Rightarrow> bytes \<Rightarrow> int \<times> 's) \<Rightarrow> 's emit_state \<Rightarrow> os \<Rightarrow> (int \<times> 's emit_state \<times> buffer option \<times> os) option" where
  "tar_emit_file_from_buffer io pw gr filename link len stat type content emit_cb st os =
     (let (rc, st) = emit_header emit_cb pw gr filename link len stat type st in
      if rc \<noteq> 0 then Some (rc, st, content, os)
      else case content of None \<Rightarrow> Some (rc, st, None, os)
      | Some b \<Rightarrow> emit_content io emit_cb b (unat len) (fst st) os \<bind> (\<lambda>(rc, s, b, os). Some (rc, (s, snd st), Some b, os)))"

end
