(* ===== verification/Tar_Dump.thy ===== *)
theory Tar_Dump
  imports Tar_Buffer
begin

text \<open>
  The buffer holds what was put into it, in memory or in the temporary file: the abstraction \<open>contents\<close>
  and what every operation does to it when the system calls succeed, in whatever pieces they transfer
  the data.  Reading a file into the buffer and emitting the buffer is then the same as emitting the
  data of the file, and a reader of the archive finds it there.
\<close>

section \<open>The abstraction\<close>

definition reliable :: "(nat \<Rightarrow> int) \<Rightarrow> bool" where
  "reliable io \<longleftrightarrow> (\<forall>n. 0 < io n)"

definition contents :: "buffer \<Rightarrow> os \<Rightarrow> bytes" where
  "contents b os = (if b_open b then os_file os else []) @ take (b_off b) (b_addr b)"

definition buf_ok :: "buffer \<Rightarrow> os \<Rightarrow> bool" where
  "buf_ok b os \<longleftrightarrow> length (b_addr b) = b_size b \<and> b_off b \<le> b_size b \<and> b_total b = length (contents b os) \<and>
     (b_open b \<longrightarrow> 0 < b_size b \<and> os_pos os = length (os_file os))"

lemma buf_okD:
  assumes "buf_ok b os"
  shows "length (b_addr b) = b_size b" "b_off b \<le> b_size b" "b_total b = length (contents b os)"
    "b_open b \<Longrightarrow> 0 < b_size b" "b_open b \<Longrightarrow> os_pos os = length (os_file os)"
  using assms by (simp_all add: buf_ok_def)

lemma init_ok: "buf_ok (buffer_init n) os" "contents (buffer_init n) os = []"
  by (simp_all add: buf_ok_def contents_def buffer_init_def)

section \<open>The loops\<close>

lemma write_data:
  assumes "reliable io"
  shows "os_pos os = length (os_file os) \<Longrightarrow>
    \<exists>n. misc_write_data io bs os = Some (0, os\<lparr>os_calls := n, os_file := os_file os @ bs, os_pos := length (os_file os @ bs)\<rparr>)"
proof (induction "length bs" arbitrary: bs os rule: less_induct)
  case less
  show ?case
  proof (cases "bs = []")
    case True
    then show ?thesis using less.prems
      by (subst misc_write_data.simps) (auto intro: exI [of _ "os_calls os"])
  next
    case False
    let ?k = "min (nat (io (os_calls os))) (length bs)"
    have io: "0 < io (os_calls os)" using assms by (simp add: reliable_def)
    then have k: "0 < ?k" using False by simp
    let ?os = "os\<lparr>os_calls := Suc (os_calls os), os_file := os_file os @ take ?k bs, os_pos := length (os_file os @ take ?k bs)\<rparr>"
    have w: "sys_write io bs os = (int ?k, ?os)"
      using io less.prems by (simp add: sys_write_def sys_call_def overwrite_def Let_def)
    have "length (drop ?k bs) < length bs" using k False by simp
    from less.hyps [OF this, of ?os] obtain n where
      "misc_write_data io (drop ?k bs) ?os = Some (0, ?os\<lparr>os_calls := n, os_file := (os_file os @ take ?k bs) @ drop ?k bs,
        os_pos := length ((os_file os @ take ?k bs) @ drop ?k bs)\<rparr>)" by auto
    then show ?thesis using False w by (subst misc_write_data.simps) (auto simp: Let_def)
  qed
qed

lemma read_step_data:
  "sys_read io len os = ((int (length bs), bs), os') \<Longrightarrow> bs \<noteq> [] \<Longrightarrow> 0 < len \<Longrightarrow>
    misc_read_data io len os = misc_read_data io (len - length bs) os' \<bind> (\<lambda>(rest, os). Some (map_option ((@) bs) rest, os))"
  by (subst misc_read_data.simps) (simp add: Let_def)

lemma read_data:
  assumes "reliable io"
  shows "os_pos os \<le> length (os_file os) \<Longrightarrow>
    \<exists>n. misc_read_data io len os = Some (Some (take len (drop (os_pos os) (os_file os))),
      os\<lparr>os_calls := n, os_pos := os_pos os + length (take len (drop (os_pos os) (os_file os)))\<rparr>)"
proof (induction len arbitrary: os rule: less_induct)
  case (less len)
  show ?case
  proof (cases "len = 0")
    case True
    then show ?thesis by (subst misc_read_data.simps) (auto intro: exI [of _ "os_calls os"])
  next
    case False
    let ?bs = "take (min (nat (io (os_calls os))) len) (drop (os_pos os) (os_file os))"
    let ?os = "os\<lparr>os_calls := Suc (os_calls os), os_pos := os_pos os + length ?bs\<rparr>"
    have io: "0 < io (os_calls os)" using assms by (simp add: reliable_def)
    have r: "sys_read io len os = ((int (length ?bs), ?bs), ?os)"
      using io by (simp add: sys_read_def sys_call_def Let_def)
    show ?thesis
    proof (cases "os_pos os < length (os_file os)")
      case eof: False
      then show ?thesis using False r less.prems
        by (subst misc_read_data.simps) (auto simp: Let_def intro: exI [of _ "Suc (os_calls os)"])
    next
      case True
      then have l: "0 < length ?bs" using io False by simp
      have "len - length ?bs < len" "os_pos ?os \<le> length (os_file ?os)" using l False True by simp_all
      from less.IH [OF this] obtain n where
        n: "misc_read_data io (len - length ?bs) ?os = Some (Some (take (len - length ?bs) (drop (os_pos os + length ?bs) (os_file os))),
          ?os\<lparr>os_calls := n, os_pos := os_pos os + length ?bs + length (take (len - length ?bs) (drop (os_pos os + length ?bs) (os_file os)))\<rparr>)"
        by auto
      have bs: "?bs = take (length ?bs) (drop (os_pos os) (os_file os))" by (metis append_eq_conv_conj append_take_drop_id)
      have "length ?bs \<le> len" by simp
      then have j: "?bs @ take (len - length ?bs) (drop (os_pos os + length ?bs) (os_file os)) = take len (drop (os_pos os) (os_file os))"
        using take_add [of "length ?bs" "len - length ?bs" "drop (os_pos os) (os_file os)"] bs
        by (simp add: add.commute)
      have p: "os_pos os + length ?bs + length (take (len - length ?bs) (drop (os_pos os + length ?bs) (os_file os))) =
          os_pos os + length (take len (drop (os_pos os) (os_file os)))"
        unfolding j [symmetric] by simp
      have "misc_read_data io len os = misc_read_data io (len - length ?bs) ?os \<bind> (\<lambda>(rest, os). Some (map_option ((@) ?bs) rest, os))"
        by (rule read_step_data [OF r]) (use False l in auto)
      then have "misc_read_data io len os = Some (Some (?bs @ take (len - length ?bs) (drop (os_pos os + length ?bs) (os_file os))),
          ?os\<lparr>os_calls := n, os_pos := os_pos os + length ?bs + length (take (len - length ?bs) (drop (os_pos os + length ?bs) (os_file os)))\<rparr>)"
        unfolding n by (simp only: bind.bind_lunit prod.case option.map)
      then show ?thesis unfolding j p by (intro exI [of _ n]) simp
    qed
  qed
qed



section \<open>The operations\<close>

text \<open>What the operations on the memory and the file leave alone.\<close>

definition same_data :: "buffer \<Rightarrow> os \<Rightarrow> buffer \<Rightarrow> os \<Rightarrow> bool" where
  "same_data b os b' os' \<longleftrightarrow> buf_ok b' os' \<and> contents b' os' = contents b os \<and> os_input os' = os_input os"

lemma same_dataD:
  assumes "same_data b os b' os'"
  shows "buf_ok b' os'" "contents b' os' = contents b os" "os_input os' = os_input os" "b_total b' = length (contents b os)"
  using assms by (auto simp: same_data_def buf_ok_def)

lemma flush:
  assumes r: "reliable io" and b: "buf_ok b os"
  shows "\<exists>b' os'. buffer_flush io b os = Some (0, b', os') \<and> same_data b os b' os' \<and> b_off b' = 0 \<and> b_size b' = b_size b \<and>
    (b_off b = 0 \<longrightarrow> b_open b' = b_open b)"
proof (cases "b_off b = 0")
  case True
  then show ?thesis using b by (auto simp: buffer_flush_def same_data_def)
next
  case False
  note d = buf_okD [OF b]
  let ?d = "take (b_off b) (b_addr b)"
  obtain b1 os1 where o: "buffer_open io b os = (0, b1, os1)" "b_open b1" "b_off b1 = b_off b" "b_size b1 = b_size b"
    "b_addr b1 = b_addr b" "b_total b1 = b_total b" "os_file os1 = (if b_open b then os_file os else [])"
    "os_pos os1 = length (os_file os1)" "os_input os1 = os_input os"
  proof (cases "b_open b")
    case True
    then show thesis using d by (intro that [of b os]) (auto simp: buffer_open_def)
  next
    case False
    have "\<not> io (os_calls os) < 0" using r by (simp add: reliable_def not_less less_imp_le)
    then show thesis using False
      by (intro that [of "b\<lparr>b_open := True\<rparr>" "os\<lparr>os_calls := Suc (os_calls os), os_file := [], os_pos := 0\<rparr>"])
        (auto simp: buffer_open_def sys_tmpfile_def sys_call_def Let_def)
  qed
  obtain n where w: "misc_write_data io ?d os1 = Some (0, os1\<lparr>os_calls := n, os_file := os_file os1 @ ?d, os_pos := length (os_file os1 @ ?d)\<rparr>)"
    using write_data [OF r o(8)] by blast
  let ?os = "os1\<lparr>os_calls := n, os_file := os_file os1 @ ?d, os_pos := length (os_file os1 @ ?d)\<rparr>"
  have "buffer_flush io b os = Some (0, b1\<lparr>b_off := 0\<rparr>, ?os)"
    using False o(1,3,5) w by (simp add: buffer_flush_def)
  moreover have "contents (b1\<lparr>b_off := 0\<rparr>) ?os = contents b os" using o by (simp add: contents_def)
  ultimately show ?thesis using o d False by (auto simp: same_data_def buf_ok_def)
qed

text \<open>Room for bytes behind those in memory.\<close>

lemma grown:
  assumes "buf_ok b os" "b_off b \<le> n" "b_open b \<longrightarrow> 0 < n"
  shows "same_data b os (b\<lparr>b_size := n, b_addr := mrealloc junk (b_addr b) n\<rparr>) os"
  using assms by (auto simp: same_data_def buf_ok_def contents_def mrealloc_def)

lemma make_room:
  assumes r: "reliable io" and b: "buf_ok b os" and m: "0 < mx" and sz: "0 < sz"
  shows "\<exists>c b' os'. buffer_make_room io junk b sz usefile mx os = Some (int c, b', os') \<and> same_data b os b' os' \<and>
    0 < c \<and> c \<le> sz \<and> b_off b' + c \<le> b_size b'"
proof -
  define s where "s = (if sz > mx \<and> usefile then mx else sz)"
  have s: "0 < s" "s \<le> sz" using m sz by (auto simp: s_def)
  have same: "same_data b os b os" using b by (simp add: same_data_def)
  consider (room) "b_off b + s \<le> b_size b" | (flush) "\<not> b_off b + s \<le> b_size b" "b_off b + s > mx \<and> usefile" |
    (grow) "\<not> b_off b + s \<le> b_size b" "\<not> (b_off b + s > mx \<and> usefile)" by blast
  then show ?thesis
  proof cases
    case room
    then have "buffer_make_room io junk b sz usefile mx os = Some (int s, b, os)"
      unfolding buffer_make_room_def s_def [symmetric] Let_def by simp
    then show ?thesis using same s room by blast
  next
    case flush
    obtain b1 os1 where f: "buffer_flush io b os = Some (0, b1, os1)" "same_data b os b1 os1" "b_off b1 = 0" "b_size b1 = b_size b"
      using Tar_Dump.flush [OF r b] by blast
    show ?thesis
    proof (cases "s \<le> b_size b1")
      case True
      then have "buffer_make_room io junk b sz usefile mx os = Some (int s, b1, os1)"
        using flush f(1) unfolding buffer_make_room_def s_def [symmetric] Let_def by simp
      then show ?thesis using f(2,3) s True by auto
    next
      case False
      let ?b = "b1\<lparr>b_size := s, b_addr := mrealloc junk (b_addr b1) s\<rparr>"
      have "buffer_make_room io junk b sz usefile mx os = Some (int s, ?b, os1)"
        using flush f(1) False unfolding buffer_make_room_def s_def [symmetric] Let_def by simp
      moreover have "same_data b1 os1 ?b os1" using same_dataD(1) [OF f(2)] f(3) s(1) by (intro grown) simp_all
      then have "same_data b os ?b os1" using f(2) by (simp add: same_data_def)
      ultimately show ?thesis using f(3) s by auto
    qed
  next
    case grow
    let ?b = "b\<lparr>b_size := b_off b + s, b_addr := mrealloc junk (b_addr b) (b_off b + s)\<rparr>"
    have "buffer_make_room io junk b sz usefile mx os = Some (int s, ?b, os)"
      using grow unfolding buffer_make_room_def s_def [symmetric] Let_def by auto
    moreover have "same_data b os ?b os" using b s(1) by (intro grown) simp_all
    ultimately show ?thesis using s by auto
  qed
qed

lemma stored_ok:
  assumes "buf_ok b os" "b_off b + length bs \<le> b_size b"
  shows "buf_ok (stored bs b) os" "contents (stored bs b) os = contents b os @ bs"
  using assms by (auto simp: buf_ok_def contents_def stored_def overwrite_def)

text \<open>The abstraction looks at the temporary file only.\<close>

lemma same_file:
  assumes "os_file os' = os_file os" "os_pos os' = os_pos os"
  shows "buf_ok b os' = buf_ok b os" "contents b os' = contents b os"
  using assms by (simp_all add: buf_ok_def contents_def)

lemma read_fd_step:
  assumes r: "reliable io" and b: "buf_ok b os" and m: "0 < mx" and sz: "0 < chunk"
  shows "\<exists>k b' os'. buffer_read_fd io junk b chunk True mx os = Some (int (length (take k (os_input os))), b', os') \<and> 0 < k \<and>
    buf_ok b' os' \<and> contents b' os' = contents b os @ take k (os_input os) \<and> os_input os' = drop k (os_input os)"
proof -
  obtain c b1 os1 where room: "buffer_make_room io junk b chunk True mx os = Some (int c, b1, os1)" "same_data b os b1 os1"
    "0 < c" "b_off b1 + c \<le> b_size b1" using make_room [OF r b m sz] by blast
  define k where "k = min (nat (io (os_calls os1))) c"
  let ?bs = "take k (os_input os)"
  let ?os = "os1\<lparr>os_calls := Suc (os_calls os1), os_input := drop k (os_input os)\<rparr>"
  have io: "0 < io (os_calls os1)" using r by (simp add: reliable_def)
  then have k: "0 < k" "k \<le> c" using room(3) by (simp_all add: k_def)
  have rd: "sys_read_input io c os1 = ((int (length ?bs), ?bs), ?os)"
    using io same_dataD(3) [OF room(2)]
    by (simp add: sys_read_input_def sys_call_def k_def [symmetric] Let_def) (simp add: min_def)
  have st: "buf_ok (stored ?bs b1) os1" "contents (stored ?bs b1) os1 = contents b os @ ?bs"
    using stored_ok [OF same_dataD(1) [OF room(2)], of ?bs] room(4) k(2) same_dataD(2) [OF room(2)] by simp_all
  define b' where "b' = (if int (length ?bs) > 0 then stored ?bs b1 else b1)"
  have "buffer_read_fd io junk b chunk True mx os = Some (int (length ?bs), b', ?os)"
    using rd by (simp add: buffer_read_fd_def room(1) b'_def)
  moreover have "buf_ok b' ?os \<and> contents b' ?os = contents b os @ ?bs"
    using st same_dataD(1,2) [OF room(2)] by (simp add: b'_def same_file [of ?os os1])
  ultimately show ?thesis using k(1) by (intro exI [of _ k] exI [of _ b'] exI [of _ ?os]) simp
qed

lemma truncate:
  assumes r: "reliable io" and b: "buf_ok b os"
  shows "\<exists>b' os'. buffer_truncate io b len os = (0, b', os') \<and> buf_ok b' os' \<and> contents b' os' = take len (contents b os)"
proof -
  note d = buf_okD [OF b]
  have io: "\<not> io n < 0" for n using r by (simp add: reliable_def not_less less_imp_le)
  consider (fits) "b_total b \<le> len" | (cut) "\<not> b_total b \<le> len" "b_open b" "b_total b - len > b_off b" |
    (memory) "\<not> b_total b \<le> len" "\<not> (b_open b \<and> b_total b - len > b_off b)" by blast
  then show ?thesis
  proof cases
    case fits
    then show ?thesis using b d(3) by (simp add: buffer_truncate_def)
  next
    case cut
    let ?b = "b\<lparr>b_total := len, b_off := 0\<rparr>"
    let ?os = "os\<lparr>os_calls := Suc (Suc (os_calls os)), os_file := take len (os_file os), os_pos := len\<rparr>"
    have l: "len < length (os_file os)" using cut d(1,2,3) by (simp add: contents_def)
    then have "buffer_truncate io b len os = (0, ?b, ?os)"
      using cut io by (simp add: buffer_truncate_def sys_ftruncate_def sys_seek_def sys_call_def Let_def)
    moreover have "buf_ok ?b ?os" "contents ?b ?os = take len (contents b os)"
      using cut(2) l d(1,4) by (simp_all add: buf_ok_def contents_def)
    ultimately show ?thesis by blast
  next
    case memory
    let ?b = "b\<lparr>b_total := len, b_off := b_off b - (b_total b - len)\<rparr>"
    have t: "b_total b = (if b_open b then length (os_file os) else 0) + b_off b"
      using d(1-3) by (simp add: contents_def)
    then have dl: "b_total b - len \<le> b_off b" using memory by (auto split: if_splits)
    have "buffer_truncate io b len os = (0, ?b, os)" using memory by (auto simp: buffer_truncate_def Let_def)
    moreover have c: "contents ?b os = take len (contents b os)"
      using t dl d(1,2) memory(1) by (auto simp: contents_def min_def split: if_splits)
    moreover have "length (contents ?b os) = len" unfolding c using d(3) memory(1) by simp
    then have "buf_ok ?b os" using d t dl memory(1) by (simp add: buf_ok_def)
    ultimately show ?thesis by blast
  qed
qed


section \<open>Reading a file\<close>

text \<open>At most \<open>--file-max-size\<close> bytes, if that is given.\<close>

definition capped :: "dump_opts \<Rightarrow> bytes \<Rightarrow> bytes" where
  "capped opts bs = (if file_max_size opts > 0 then take (file_max_size opts) bs else bs)"

definition opts_ok :: "dump_opts \<Rightarrow> bool" where
  "opts_ok opts \<longleftrightarrow> 0 < read_chunk_size opts \<and> 0 < max_buffer_size opts"

definition below_cap :: "dump_opts \<Rightarrow> nat \<Rightarrow> bool" where
  "below_cap opts n \<longleftrightarrow> (file_max_size opts > 0 \<longrightarrow> n < file_max_size opts)"

lemma read_loop_ok:
  assumes r: "reliable io" and o: "opts_ok opts"
  shows "buf_ok b os \<Longrightarrow> below_cap opts (length (contents b os)) \<Longrightarrow> 0 < c \<Longrightarrow>
    \<exists>b' os'. read_loop io junk (\<lambda>_. False) opts rc c b os = Some (0, b', os') \<and> buf_ok b' os' \<and>
      contents b' os' = capped opts (contents b os @ os_input os)"
proof (induction "length (os_input os)" arbitrary: b os c rc rule: less_induct)
  case less
  let ?p = "os\<lparr>os_polls := Suc (os_polls os)\<rparr>"
  have p: "buf_ok b ?p" using less.prems(1) by (simp add: same_file [of ?p os])
  obtain k b1 os1 where s: "buffer_read_fd io junk b c True (max_buffer_size opts) ?p = Some (int (length (take k (os_input os))), b1, os1)"
    "0 < k" "buf_ok b1 os1" "contents b1 os1 = contents b os @ take k (os_input os)" "os_input os1 = drop k (os_input os)"
    using read_fd_step [OF r p _ less.prems(3), of "max_buffer_size opts" junk] o
    by (auto simp: opts_ok_def same_file [of ?p os])
  have poll: "is_aborted (\<lambda>_. False) os = (False, ?p)" by (simp add: is_aborted_def)
  show ?case
  proof (cases "os_input os = []")
    case True
    then have "read_loop io junk (\<lambda>_. False) opts rc c b os = Some (0, b1, os1)"
      by (subst read_loop.simps) (use s(1) in \<open>simp add: poll\<close>)
    moreover have "capped opts (contents b os) = contents b os"
      using less.prems(2) by (auto simp: capped_def below_cap_def)
    ultimately show ?thesis using s(3,4) True by simp
  next
    case False
    define n where "n = int (length (take k (os_input os)))"
    have n: "0 < n" using False s(2) by (simp add: n_def)
    have t: "b_total b1 = length (contents b1 os1)" by (rule buf_okD(3) [OF s(3)])
    show ?thesis
    proof (cases "below_cap opts (b_total b1)")
      case cap: False
      obtain b2 os2 where tr: "buffer_truncate io b1 (file_max_size opts) os1 = (0, b2, os2)" "buf_ok b2 os2"
        "contents b2 os2 = take (file_max_size opts) (contents b1 os1)" using truncate [OF r s(3)] by blast
      have "read_loop io junk (\<lambda>_. False) opts rc c b os = Some (0, b2, os2)"
        unfolding read_loop.simps [of io junk "\<lambda>_. False" opts rc c b os] poll Let_def prod.case if_False s(1)
          bind.bind_lunit n_def [symmetric] tr(1) using n cap by (simp add: below_cap_def)
      moreover have "contents b2 os2 = capped opts (contents b os @ os_input os)"
      proof -
        have "contents b os @ os_input os = contents b1 os1 @ drop k (os_input os)" by (simp add: s(4))
        then show ?thesis using cap t tr(3) by (simp add: below_cap_def capped_def)
      qed
      ultimately show ?thesis using tr(2) by blast
    next
      case True
      define c' where "c' = (if b_size b1 - b_off b1 > 0 then b_size b1 - b_off b1
        else if b_size b1 + read_chunk_size opts < max_buffer_size opts then read_chunk_size opts else max_buffer_size opts)"
      have c': "0 < c'" using o by (simp add: c'_def opts_ok_def)
      have l: "length (os_input os1) < length (os_input os)" using False s(2,5) by simp
      have "contents b1 os1 @ os_input os1 = contents b os @ os_input os" using s(4,5) by simp
      with less.hyps [OF l s(3) True [unfolded t] c', of n] obtain b2 os2 where
        ih: "read_loop io junk (\<lambda>_. False) opts n c' b1 os1 = Some (0, b2, os2)" "buf_ok b2 os2"
          "contents b2 os2 = capped opts (contents b os @ os_input os)" by auto
      have nc: "\<not> (file_max_size opts > 0 \<and> b_total b1 \<ge> file_max_size opts)" using True by (auto simp: below_cap_def)
      have "read_loop io junk (\<lambda>_. False) opts rc c b os = read_loop io junk (\<lambda>_. False) opts n c' b1 os1"
        unfolding read_loop.simps [of io junk "\<lambda>_. False" opts rc c b os] poll Let_def prod.case if_False s(1)
          bind.bind_lunit n_def [symmetric] if_not_P [OF nc] c'_def
        using n by simp
      then show ?thesis using ih by simp
    qed
  qed
qed

lemma read_fd_ok:
  assumes "reliable io" "opts_ok opts" "buf_ok b os" "contents b os = []"
  shows "\<exists>b' os'. read_fd io junk (\<lambda>_. False) opts b os = Some (0, b', os') \<and> buf_ok b' os' \<and>
    contents b' os' = capped opts (os_input os)"
proof -
  let ?c = "if b_size b \<noteq> 0 then b_size b else read_chunk_size opts"
  have "0 < ?c" using assms(2) by (simp add: opts_ok_def)
  from read_loop_ok [OF assms(1-3) _ this, of junk 0] obtain b' os' where
    l: "read_loop io junk (\<lambda>_. False) opts 0 ?c b os = Some (0, b', os')" "buf_ok b' os'"
      "contents b' os' = capped opts (os_input os)" using assms(4) by (auto simp: below_cap_def)
  let ?os = "os'\<lparr>os_polls := Suc (os_polls os')\<rparr>"
  have "read_fd io junk (\<lambda>_. False) opts b os = Some (0, b', ?os)"
    using l(1) by (simp add: read_fd_def is_aborted_def)
  then show ?thesis using l(2,3) by (intro exI [of _ b'] exI [of _ ?os]) (simp add: same_file [of ?os os'])
qed


section \<open>Emitting the buffer\<close>

text \<open>The callback takes a stream: it is the same whether data comes in one piece or in two.\<close>

definition streams :: "('s \<Rightarrow> bytes \<Rightarrow> int \<times> 's) \<Rightarrow> bool" where
  "streams cb \<longleftrightarrow> (\<forall>s xs ys. cb s (xs @ ys) = and_then (cb s xs) (\<lambda>s. cb s ys))"

lemma streams_collect: "streams collect"
  by (simp add: streams_def collect_def)

lemma content_cb:
  assumes "bs \<noteq> []"
  shows "emit_content_cb cb (s, length (bs @ rest), rc) bs =
    (if fst (cb s bs) \<noteq> 0 \<or> rest = [] then 1 else 0, snd (cb s bs), length rest, fst (cb s bs))"
  by (simp add: emit_content_cb_def split: prod.split)

lemma copy_ok:
  assumes r: "reliable io" and st: "streams cb"
  shows "0 < b_size b \<Longrightarrow> os_pos os < length (os_file os) \<Longrightarrow>
    \<exists>rc' left b' os'. copy_file io (emit_content_cb cb) (s, length (drop (os_pos os) (os_file os)), 0) b os =
        Some (rc', (snd (cb s (drop (os_pos os) (os_file os))), left, fst (cb s (drop (os_pos os) (os_file os)))), b', os') \<and>
      b_total b' = b_total b"
proof (induction "length (os_file os) - os_pos os" arbitrary: s b os rule: less_induct)
  case less
  define bs where "bs = take (b_size b) (drop (os_pos os) (os_file os))"
  define rest where "rest = drop (b_size b) (drop (os_pos os) (os_file os))"
  have dr: "drop (os_pos os) (os_file os) = bs @ rest" unfolding bs_def rest_def by (rule append_take_drop_id [symmetric])
  have bs: "bs \<noteq> []" using less.prems by (simp add: bs_def)
  obtain n where rd: "misc_read_data io (b_size b) os = Some (Some bs, os\<lparr>os_calls := n, os_pos := os_pos os + length bs\<rparr>)"
    using read_data [OF r, of os "b_size b"] less.prems(2) unfolding bs_def by auto
  let ?os = "os\<lparr>os_calls := n, os_pos := os_pos os + length bs\<rparr>" and ?b = "b\<lparr>b_addr := overwrite (b_addr b) 0 bs\<rparr>"
  obtain rc1 s1 where cb: "cb s bs = (rc1, s1)" by fastforce
  have cc: "emit_content_cb cb (s, length (bs @ rest), 0) bs = (if rc1 \<noteq> 0 \<or> rest = [] then 1 else 0, s1, length rest, rc1)"
    using content_cb [OF bs, of cb s rest 0] by (simp add: cb)
  have step: "copy_file io (emit_content_cb cb) (s, length (bs @ rest), 0) b os =
      (if rc1 \<noteq> 0 \<or> rest = [] then Some (1, (s1, length rest, rc1), ?b, ?os)
       else copy_file io (emit_content_cb cb) (s1, length rest, rc1) ?b ?os)"
    unfolding copy_file.simps [of io _ _ b os] rd bind.bind_lunit prod.case option.case if_not_P [OF bs] Let_def cc by simp
  have all: "cb s (bs @ rest) = and_then (rc1, s1) (\<lambda>s. cb s rest)" using st cb by (simp add: streams_def)
  show ?case
  proof (cases "rc1 \<noteq> 0 \<or> rest = []")
    case True
    then have "cb s (bs @ rest) = (rc1, s1)" using all cb by (auto simp: and_then_def)
    then show ?thesis unfolding dr step using True by simp
  next
    case False
    have d: "drop (os_pos ?os) (os_file ?os) = rest" using dr by (simp add: add.commute [of "os_pos os"] flip: drop_drop)
    have l: "os_pos ?os < length (os_file ?os)" using d False drop_eq_Nil by (metis not_less)
    then have "length (os_file ?os) - os_pos ?os < length (os_file os) - os_pos os" using bs l by (cases bs) simp_all
    from less.hyps [OF this _ l, of ?b s1] less.prems(1) obtain rc' left b' os' where
      "copy_file io (emit_content_cb cb) (s1, length rest, 0) ?b ?os = Some (rc', (snd (cb s1 rest), left, fst (cb s1 rest)), b', os')"
      "b_total b' = b_total b" unfolding d by auto
    moreover have "cb s (bs @ rest) = cb s1 rest" using all False by simp
    ultimately show ?thesis unfolding dr step using False by auto
  qed
qed

lemma content_ok:
  assumes r: "reliable io" and st: "streams cb" and b: "buf_ok b os"
  shows "\<exists>b' os'. emit_content io cb b (length (contents b os)) s os =
    Some (fst (emit_data cb (contents b os) s), snd (emit_data cb (contents b os) s), b', os')"
proof -
  let ?c = "contents b os"
  note d = buf_okD [OF b]
  have pad: "(if fst (cb s ?c) \<noteq> 0 then Some (fst (cb s ?c), snd (cb s ?c), b', os')
      else (let (rc, s) = emit_padding cb (length ?c) (snd (cb s ?c)) in Some (rc, s, b', os'))) =
      Some (fst (emit_data cb ?c s), snd (emit_data cb ?c s), b', os')" if "?c \<noteq> []" for b' :: buffer and os' :: os
    using that by (simp add: emit_data_def and_then_def split: prod.split)
  consider (empty) "?c = []" | (memory) "?c \<noteq> []" "\<not> b_open b" | (spilled) "?c \<noteq> []" "b_open b" by blast
  then show ?thesis
  proof cases
    case empty
    then show ?thesis using d(3) by (simp add: emit_content_def buffer_iterate_def emit_data_def emit_padding_def BLOCKSIZE_def)
  next
    case memory
    have c: "take (b_off b) (b_addr b) = ?c" using memory(2) by (simp add: contents_def)
    have it: "buffer_iterate io (emit_content_cb cb) (s, length ?c, 0) b os =
        Some (1, (snd (cb s ?c), 0, fst (cb s ?c)), b, os)"
      using content_cb [OF memory(1), of cb s "[]" 0] memory d(3) by (simp add: buffer_iterate_def c)
    have "emit_content io cb b (length ?c) s os = Some (fst (emit_data cb ?c s), snd (emit_data cb ?c s), b, os)"
      unfolding emit_content_def it bind.bind_lunit prod.case d(3) by (rule pad [OF memory(1)])
    then show ?thesis by blast
  next
    case spilled
    obtain b1 os1 where f: "buffer_flush io b os = Some (0, b1, os1)" "same_data b os b1 os1" "b_off b1 = 0" "b_size b1 = b_size b"
      and o: "b_open b1" using flush [OF r b] spilled by (fastforce dest: same_dataD simp: contents_def)
    let ?os = "os1\<lparr>os_calls := Suc (os_calls os1), os_pos := 0\<rparr>"
    have c: "os_file os1 = ?c" using same_dataD(2) [OF f(2)] o f(3) by (simp add: contents_def)
    have "\<not> io (os_calls os1) < 0" using r by (simp add: reliable_def not_less less_imp_le)
    then have sk: "sys_seek io 0 os1 = (True, ?os)" by (simp add: sys_seek_def sys_call_def)
    have "drop (os_pos ?os) (os_file ?os) = ?c" "os_pos ?os < length (os_file ?os)" "0 < b_size b1"
      using c spilled d(4) f(4) by simp_all
    with copy_ok [OF r st, of b1 ?os s] obtain rc' left b' os' where
      cp: "copy_file io (emit_content_cb cb) (s, length ?c, 0) b1 ?os = Some (rc', (snd (cb s ?c), left, fst (cb s ?c)), b', os')"
        "b_total b' = b_total b1" by auto
    have "b_total b \<noteq> 0" using d(3) spilled(1) by simp
    then have it: "buffer_iterate io (emit_content_cb cb) (s, length ?c, 0) b os = Some (rc', (snd (cb s ?c), left, fst (cb s ?c)), b', os')"
      using spilled(2) by (simp add: buffer_iterate_def f(1) sk cp(1))
    have "emit_content io cb b (length ?c) s os = Some (fst (emit_data cb ?c s), snd (emit_data cb ?c s), b', os')"
      unfolding emit_content_def it bind.bind_lunit prod.case cp(2) same_dataD(4) [OF f(2)] by (rule pad [OF spilled(1)])
    then show ?thesis by blast
  qed
qed

end
