(* ===== verification/Tar_Archive.thy ===== *)
theory Tar_Archive
  imports Tar_Dump
begin

text \<open>
  The properties of the writer of archives: what a documented reader finds in an entry, and that a file
  that went through the buffer is emitted as its data would be.
\<close>

section \<open>An entry is read back\<close>

definition entry_data :: "u64 \<Rightarrow> bytes option \<Rightarrow> bytes" where
  "entry_data len addr = (case addr of None \<Rightarrow> [] | Some bs \<Rightarrow> take (unat len) bs)"

lemma mode_fits: "unat (stat_mode AND 0xFFF :: u32) < 8 ^ 7"
proof -
  have "stat_mode AND 0xFFF \<le> (0xFFF :: u32)" by (rule word_and_le1)
  then show ?thesis by (simp add: word_le_nat_alt)
qed

lemma stat_or_mode: "stat_or stat = (mode, uid, gid, mtime) \<Longrightarrow> unat mode < 8 ^ 7"
  using mode_fits by (auto simp: stat_or_def split: option.splits)

lemma emit_collect:
  assumes "names_ok pw gr caches"
  shows "\<exists>caches'. tar_emit_file_from_data pw gr filename link len stat type addr collect (s, caches) =
    (0, s @ header_entry pw gr filename link len stat type @ pad_block (entry_data len addr), caches') \<and> names_ok pw gr caches'"
proof -
  have "pad_block [] = []" by (simp add: pad_block_def)
  then show ?thesis using emit_header_collect [OF assms, of filename link len stat type s]
    by (auto simp: tar_emit_file_from_data_def on_output_def emit_data_collect entry_data_def split: option.split)
qed

lemma entry_read_back:
  assumes st: "stat_or stat = (mode, uid, gid, mtime)" "unat uid < 8 ^ 7" "unat gid < 8 ^ 7"
    and len: "unat len < 8 ^ 11" "length (entry_data len addr) = unat len"
    and names: "strlen filename + 1 < 8 ^ 11" "link_len (link_text link) + 1 < 8 ^ 11"
    and ty: "type \<noteq> TYPE_LONGLINK" "type \<noteq> TYPE_LONGNAME"
    and c: "names_ok pw gr caches"
  shows "\<exists>out caches'. tar_emit_file_from_data pw gr filename link len stat type addr collect (s, caches) = (0, s @ out, caches') \<and>
    names_ok pw gr caches' \<and>
    (\<forall>rest. read_member None None (out @ rest) =
      Some (\<lparr>m_name = cstr filename, m_link = (case link_text link of None \<Rightarrow> [] | Some l \<Rightarrow> cstr l), m_mode = unat mode,
        m_uid = unat uid, m_gid = unat gid, m_size = unat len, m_mtime = sint mtime, m_type = type,
        m_uname = cstr (id_field pw uid), m_gname = cstr (id_field gr gid), m_data = entry_data len addr\<rparr>, rest))"
proof -
  let ?out = "header_entry pw gr filename link len stat type @ pad_block (entry_data len addr)"
  obtain caches' where "tar_emit_file_from_data pw gr filename link len stat type addr collect (s, caches) = (0, s @ ?out, caches')"
    "names_ok pw gr caches'" using emit_collect [OF c] by blast
  then show ?thesis
    using member_read [OF len st(1) stat_or_mode [OF st(1)] st(2,3) names ty] by (intro exI [of _ ?out] exI [of _ caches']) simp
qed

text \<open>C39: What \<open>tar_emit_file_from_data\<close> writes is a well-formed entry: reading it as the format is documented gives back the
  name and the link target however long they are, the owner, the mode, the time, the type and all of the
  data, and leaves what follows in the archive, when owner ids and sizes fit their octal fields.\<close>

theorem tar_entry_read_back:
  assumes "stat_or stat = (mode, uid, gid, mtime)" "unat uid < 8 ^ 7" "unat gid < 8 ^ 7"
    and "unat len < 8 ^ 11" "length (entry_data len addr) = unat len"
    and "strlen filename + 1 < 8 ^ 11" "link_len (link_text link) + 1 < 8 ^ 11"
    and "type \<noteq> TYPE_LONGLINK" "type \<noteq> TYPE_LONGNAME"
    and "names_ok pw gr caches"
  shows "\<exists>out caches'. tar_emit_file_from_data pw gr filename link len stat type addr collect (s, caches) = (0, s @ out, caches') \<and>
    names_ok pw gr caches' \<and>
    (\<forall>rest. read_member None None (out @ rest) =
      Some (\<lparr>m_name = cstr filename, m_link = (case link_text link of None \<Rightarrow> [] | Some l \<Rightarrow> cstr l), m_mode = unat mode,
        m_uid = unat uid, m_gid = unat gid, m_size = unat len, m_mtime = sint mtime, m_type = type,
        m_uname = cstr (id_field pw uid), m_gname = cstr (id_field gr gid), m_data = entry_data len addr\<rparr>, rest))"
  using assms by (rule entry_read_back)

text \<open>A name of 101 bytes, three bytes of data, the owner 5 of an empty database.\<close>

theorem tar_entry_read_back_witness:
  "\<exists>out caches'. tar_emit_file_from_data (\<lambda>_. None) (\<lambda>_. None) (replicate 101 97) None 3
      (Some \<lparr>st_mode = 0x81A4, st_uid = 5, st_gid = 6, st_mtime = 7\<rparr>) 48 (Some [1, 2, 3]) collect ([], [], []) = (0, out, caches') \<and>
    read_member None None out =
      Some (\<lparr>m_name = replicate 101 97, m_link = [], m_mode = 0x1A4, m_uid = 5, m_gid = 6, m_size = 3, m_mtime = 7, m_type = 48,
        m_uname = [], m_gname = [], m_data = [1, 2, 3]\<rparr>, [])"
proof -
  have n: "names_ok (\<lambda>_. None) (\<lambda>_. None) ([], [])" by (simp add: names_ok_def cache_ok_def)
  have so: "stat_or (Some \<lparr>st_mode = 0x81A4, st_uid = 5, st_gid = 6, st_mtime = 7\<rparr>) = (0x1A4, 5, 6, 7)" by (simp add: stat_or_def)
  have c: "cstr (replicate 101 97) = replicate 101 97" "strlen (replicate 101 97) = 101" by (simp_all add: strlen_def cstr_no_zero)
  have i: "cstr (id_field (\<lambda>_. None) v) = []" for v by (simp add: id_field_def cstr_def)
  have l: "link_text None = None" by (simp add: link_text_def)
  obtain out caches' where "tar_emit_file_from_data (\<lambda>_. None) (\<lambda>_. None) (replicate 101 97) None 3
      (Some \<lparr>st_mode = 0x81A4, st_uid = 5, st_gid = 6, st_mtime = 7\<rparr>) 48 (Some [1, 2, 3]) collect ([], [], []) = (0, [] @ out, caches')"
    "\<forall>rest. read_member None None (out @ rest) =
      Some (\<lparr>m_name = cstr (replicate 101 97), m_link = (case link_text None of None \<Rightarrow> [] | Some l \<Rightarrow> cstr l), m_mode = unat (0x1A4 :: u32),
        m_uid = unat (5 :: u32), m_gid = unat (6 :: u32), m_size = unat (3 :: u64), m_mtime = sint (7 :: u64), m_type = 48,
        m_uname = cstr (id_field (\<lambda>_. None) 5), m_gname = cstr (id_field (\<lambda>_. None) 6),
        m_data = entry_data 3 (Some [1, 2, 3])\<rparr>, rest)"
    using tar_entry_read_back [OF so _ _ _ _ _ _ _ _ n, of 3 "Some [1, 2, 3]" "replicate 101 97" None 48 "[]"]
    by (auto simp: c l link_len_def entry_data_def TYPE_LONGLINK_def TYPE_LONGNAME_def)
  then show ?thesis by (auto simp: c i l entry_data_def dest: spec [of _ "[]"])
qed


section \<open>A file through the buffer\<close>

lemma buffered_file:
  assumes io: "reliable io" and o: "opts_ok opts" and cb: "streams cb"
    and d: "data = capped opts (os_input os)" "length data < 2 ^ 64"
    and e: "tar_emit_file_from_data pw gr filename link (of_nat (length data)) stat type (Some data) cb st = (rc, st')"
  shows "\<exists>b os1 b2 os2. read_fd io junk (\<lambda>_. False) opts (buffer_init n) os = Some (0, b, os1) \<and> b_total b = length data \<and>
    tar_emit_file_from_buffer io pw gr filename link (of_nat (b_total b)) stat type (Some b) cb st os1 = Some (rc, st', Some b2, os2)"
proof -
  obtain b os1 where r: "read_fd io junk (\<lambda>_. False) opts (buffer_init n) os = Some (0, b, os1)" "buf_ok b os1" "contents b os1 = data"
    using read_fd_ok [OF io o init_ok] d(1) by blast
  have t: "b_total b = length data" using buf_okD(3) [OF r(2)] r(3) by simp
  have u: "unat (of_nat (length data) :: u64) = length data" using d(2) by (intro unat_of_nat_small) simp
  obtain rc1 s1 c1 where h: "emit_header cb pw gr filename link (of_nat (length data)) stat type st = (rc1, s1, c1)"
    by (metis prod.exhaust)
  obtain b2 os2 where c: "emit_content io cb b (length data) s1 os1 = Some (fst (emit_data cb data s1), snd (emit_data cb data s1), b2, os2)"
    using content_ok [OF io cb r(2), of s1] r(3) by auto
  have "\<exists>b2 os2. tar_emit_file_from_buffer io pw gr filename link (of_nat (b_total b)) stat type (Some b) cb st os1 =
      Some (rc, st', Some b2, os2)"
    using e c by (cases "rc1 = 0")
      (auto simp: tar_emit_file_from_buffer_def tar_emit_file_from_data_def t h u on_output_def and_then_def split: prod.splits)
  then show ?thesis using r(1) t by blast
qed

text \<open>C40: A file that is read into a buffer, in memory or in the temporary file, and whatever pieces the system calls transfer,
  is emitted as its data, or as the first \<open>--file-max-size\<close> bytes of it, are emitted directly: with the same
  return code, the same bytes given to the callback and the same caches; no loop runs forever.\<close>

theorem tar_buffered_file:
  assumes "reliable io" "opts_ok opts" "streams cb"
    and "data = capped opts (os_input os)" "length data < 2 ^ 64"
    and "tar_emit_file_from_data pw gr filename link (of_nat (length data)) stat type (Some data) cb st = (rc, st')"
  shows "\<exists>b os1 b2 os2. read_fd io junk (\<lambda>_. False) opts (buffer_init n) os = Some (0, b, os1) \<and> b_total b = length data \<and>
    tar_emit_file_from_buffer io pw gr filename link (of_nat (b_total b)) stat type (Some b) cb st os1 = Some (rc, st', Some b2, os2)"
  using assms by (rule buffered_file)

text \<open>Ten bytes in pieces of at most three, a limit of seven, memory for four.\<close>

theorem tar_buffered_file_witness:
  "\<exists>b os1 b2 os2 st'.
    read_fd (\<lambda>_. 3) (\<lambda>_. 0xCC) (\<lambda>_. False) \<lparr>read_chunk_size = 2, max_buffer_size = 4, file_max_size = 7\<rparr> (buffer_init 0)
      \<lparr>os_calls = 0, os_polls = 0, os_file = [], os_pos = 0, os_input = [0, 1, 2, 3, 4, 5, 6, 7, 8, 9]\<rparr> = Some (0, b, os1) \<and>
    b_total b = 7 \<and>
    tar_emit_file_from_buffer (\<lambda>_. 3) (\<lambda>_. None) (\<lambda>_. None) [97] None 7 None 48 (Some b) collect ([], [], []) os1 =
      Some (0, st', Some b2, os2) \<and>
    tar_emit_file_from_data (\<lambda>_. None) (\<lambda>_. None) [97] None 7 None 48 (Some [0, 1, 2, 3, 4, 5, 6]) collect ([], [], []) = (0, st')"
proof -
  let ?opts = "\<lparr>read_chunk_size = 2, max_buffer_size = 4, file_max_size = 7\<rparr>"
  let ?os = "\<lparr>os_calls = 0, os_polls = 0, os_file = [], os_pos = 0, os_input = [0, 1, 2, 3, 4, 5, 6, 7, 8, 9]\<rparr>"
  have n: "names_ok (\<lambda>_. None) (\<lambda>_. None) ([], [])" by (simp add: names_ok_def cache_ok_def)
  obtain st' where e: "tar_emit_file_from_data (\<lambda>_. None) (\<lambda>_. None) [97] None 7 None 48 (Some [0, 1, 2, 3, 4, 5, 6]) collect ([], [], []) = (0, st')"
    using emit_collect [OF n, of "[97]" None 7 None 48 "Some [0, 1, 2, 3, 4, 5, 6]" "[]"] by auto
  have d: "[0, 1, 2, 3, 4, 5, 6] = capped ?opts (os_input ?os)" by (simp add: capped_def)
  have "reliable (\<lambda>_. 3)" "opts_ok ?opts" by (simp_all add: reliable_def opts_ok_def)
  from tar_buffered_file [OF this streams_collect d, of "\<lambda>_. None" "\<lambda>_. None" "[97]" None None 48 "([], [], [])" 0 st' "\<lambda>_. 0xCC" 0]
  show ?thesis using e by (auto simp del: split_paired_Ex)
qed


section \<open>Where entries go wrong\<close>

text \<open>An error while the temporary file is read back is not reported: here nothing of the data is emitted, for a size that
  the header in front promises, and the return code is zero.\<close>

lemma content_error_ignored:
  assumes b: "b_open b" "b_off b = 0" "0 < b_total b" "b_total b mod 512 = 0" "0 < b_size b"
    and io: "0 \<le> io (os_calls os)" "io (Suc (os_calls os)) < 0"
  shows "\<exists>b' os'. emit_content io cb b len s os = Some (0, s, b', os')"
proof -
  let ?os = "os\<lparr>os_calls := Suc (os_calls os), os_pos := 0\<rparr>"
  have f: "buffer_flush io b os = Some (0, b, os)" using b(2) by (simp add: buffer_flush_def)
  have k: "sys_seek io 0 os = (True, ?os)" using io(1) by (simp add: sys_seek_def sys_call_def)
  have m: "misc_read_data io (b_size b) ?os = Some (None, ?os\<lparr>os_calls := Suc (Suc (os_calls os))\<rparr>)"
    using b(5) io(2) by (subst misc_read_data.simps) (simp add: sys_read_def sys_call_def Let_def)
  have c: "copy_file io (emit_content_cb cb) (s, len, 0) b ?os = Some (1, (s, len, 0), b, ?os\<lparr>os_calls := Suc (Suc (os_calls os))\<rparr>)"
    by (subst copy_file.simps) (simp add: m)
  show ?thesis using b by (simp add: emit_content_def buffer_iterate_def f k c emit_padding_def BLOCKSIZE_def)
qed

text \<open>An owner that does not fit seven octal digits, or a size that does not fit eleven, is written as another one, without a
  warning.\<close>

lemma owner_truncated:
  "from_oct (cstr (set_octal 8 v)) = unat v mod 8 ^ 7" "from_oct (cstr (set_octal 12 v)) = unat v mod 8 ^ 11"
  by (simp_all add: cstr_set_octal from_octal_digits)

end
