(* ===== verification/Spec2Isabelle.thy ===== *)
theory Spec2Isabelle
  imports Vtoc_Freespace Fdasd_Roundtrip Dfi_View Tar_Archive
begin

text \<open>
  s390-tools: the disk label library \<open>libvtoc\<close> with the partitioning tool \<open>fdasd\<close>, the linked list of
  \<open>libutil\<close> with the memory of a dump in \<open>zgetdump\<close>, which is built on it, and the archive writer of
  \<open>dump2tar\<close>.

  \<^bold>\<open>The program.\<close>  A DASD (a disk of a mainframe) carries a volume label and, in its first cylinder, a
  volume table of contents (VTOC): a format 4 label with the geometry, a format 5 label (small volumes)
  or a format 7 label (large volumes) with the free space, and a format 1 or 8 label for every
  partition.  \<open>src/libvtoc/vtoc.c\<close> builds, reads, writes and updates these labels; \<open>src/fdasd/fdasd.c\<close>
  is the interactive and scripted tool on top: it reads the labels into an \<^emph>\<open>anchor\<close>, edits a list of
  at most three partitions, keeps the free-space labels in step, and writes everything back.

  \<open>zgetdump\<close> converts and presents memory dumps.  \<open>src/zdump/dfi.c\<close> keeps two lists of memory chunks, the
  physical memory of the dump and a virtual view of it, in the embedded doubly linked lists of
  \<open>src/libutil/util_list.c\<close>.  For the dump of a kdump kernel, which has saved the memory of the crashed
  production system, it cuts ranges out of the virtual view and maps others in their place.

  \<open>dump2tar\<close> copies files and the output of commands into a tar archive.  \<open>read_fd\<close> of \<open>src/dump2tar/src/dump.c\<close>
  reads data of unknown size into a buffer (\<open>buffer.c\<close>) that keeps it in memory up to a limit and then in
  a temporary file; \<open>tar.c\<close> writes the header, for long names entries in front of it, and the data of the
  buffer, with the names of owners from the caches of \<open>idcache.c\<close>.

  \<^bold>\<open>Theories, in the order of the calls.\<close>

  \<^item> \<open>Prelude\<close>: bytes, big-endian words, C string functions, C division, sequencing of fallible code.
  \<^item> \<open>Device\<close>: reading and writing a block device.
  \<^item> \<open>Vtoc_Types\<close>: the packed structs of \<open>src/include/lib/vtoc.h\<close> as records with their byte images.
  \<^item> \<open>Vtoc_Ebcdic\<close>: the two conversion tables of \<open>vtoc.c\<close> and the conversion in place.
  \<^item> \<open>Vtoc_Addr\<close>: cylinder/head/block addresses (\<open>vtoc_set_cchh\<close> to \<open>cchh2trk\<close>).
  \<^item> \<open>Vtoc_Label\<close>: label constructors, accessors, \<open>vtoc_read_label\<close>, \<open>vtoc_write_label\<close>, the volume label.
  \<^item> \<open>Freespace_Spec\<close>: sets of tracks as tables of intervals; the abstract specification of the two
    free-space labels.
  \<^item> \<open>Vtoc_Fmt7\<close>, \<open>Vtoc_Fmt5\<close>: the extents of the two labels (\<open>vtoc_update_format7_label_add\<close> and so on),
    as refinements of that specification; \<open>Vtoc_Freespace\<close>: \<open>vtoc_set_freespace\<close>, which chooses.
  \<^item> \<open>Fdasd_Input\<close>: lines, yes/no questions, \<open>fdasd_read_int\<close>, \<open>fdasd_error\<close>.
  \<^item> \<open>Fdasd_Types\<close>: the anchor of \<open>fdasd.h\<close>, partition types, data set numbers, \<open>fdasd_check_volser\<close>.
  \<^item> \<open>Fdasd_Part\<close>: adding, removing and listing partitions.
  \<^item> \<open>Fdasd_Inv\<close>, \<open>Fdasd_Table\<close>: the invariant \<open>anchor_ok\<close> of the anchor (partitions sorted and disjoint,
    the labels say the same as the list, the free-space label is the complement), and that adding,
    removing and listing keep it.
  \<^item> \<open>Fdasd_Vtoc\<close>: recreating and reusing a VTOC, partition types, the volume serial.
  \<^item> \<open>Fdasd_Write\<close>, \<open>Fdasd_Names\<close>: writing the labels, data set names.
  \<^item> \<open>Fdasd_Menu\<close>, \<open>Fdasd_Session\<close>, \<open>Fdasd_Commands\<close>: the commands and the main loop, the session as a
    step relation, its invariant, and what the single commands do.
  \<^item> \<open>Fdasd_Conf\<close>, \<open>Fdasd_Conf_Table\<close>: the configuration file (\<open>fdasd -c\<close>).
  \<^item> \<open>Fdasd_Geometry\<close>: the geometry of a volume, the \<open>force\<close> option.
  \<^item> \<open>Fdasd_Volume\<close>, \<open>Fdasd_Start\<close>: reading a volume, starting on a volume without a VTOC.
  \<^item> \<open>Fdasd_Main\<close>: \<open>main\<close>, from the checked options to the end of the program.
  \<^item> \<open>Fdasd_Disk\<close>: what the labels satisfy beside the invariant in every state of a session;
    \<open>Fdasd_Image\<close>: the blocks \<open>fdasd_write_vtoc_labels\<close> leaves on the device; \<open>Fdasd_Progress\<close>: that it
    ends without an error; \<open>Fdasd_Reread\<close>, \<open>Fdasd_Roundtrip\<close>: that \<open>fdasd_valid_vtoc_pointer\<close> builds
    the same table from these blocks.
  \<^item> \<open>Util_List\<close>, \<open>Util_Sort\<close>: \<open>util_list.c\<close> on a heap of nodes, as a refinement of lists of entries; its
    bubble sort, with a locale for the comparisons it works for.
  \<^item> \<open>Dfi_Mem\<close>: the memory part of \<open>dfi.c\<close>; \<open>Dfi_Read\<close>: finding chunks, reading, checking ranges; \<open>Dfi_Unmap\<close>,
    \<open>Dfi_Map\<close>: the loop of \<open>mem_unmap\<close>, \<open>mem_update\<close> (the comparison of chunks interprets the locale);
    \<open>Dfi_Kdump\<close>: \<open>mem_map\<close> and the selection of the production system; \<open>Dfi_Build\<close>: adding chunks;
    \<open>Dfi_View\<close>: the properties of the interface, on a small dump.
  \<^item> \<open>Tar_Header\<close>: fields, caches of names and \<open>init_header\<close>; \<open>Tar_Emit\<close>: \<open>emit_header\<close> to
    \<open>tar_emit_file_from_data\<close>, and a reader of the documented format; \<open>Tar_Read\<close>: reading back what is
    emitted; \<open>Tar_Buffer\<close>: the system calls, \<open>buffer.c\<close>, the transfer loops of \<open>misc.c\<close>, \<open>read_fd\<close> and
    \<open>tar_emit_file_from_buffer\<close>; \<open>Tar_Dump\<close>: the abstraction of a buffer to its contents, which every
    operation respects; \<open>Tar_Archive\<close>: the properties.

  \<^bold>\<open>How the model corresponds to the code.\<close>  A C struct is a record with the same fields, a C integer a
  word of its width; conversions between widths are the ones of C.  Every function returns its new
  state; the ways a program can end early are values of \<open>stop\<close>: an exit with a status, a message with
  its reason, an exit inside \<open>libvtoc\<close>, an undefined access (\<open>Crash\<close>), and waiting for input that
  does not come (\<open>Hang\<close>).  Standard input is a list of bytes.  The linked list of partitions is a
  list.  The answers of the kernel (ioctls), the date, and the bytes of the configuration file are
  arguments.  Messages to the terminal are left out, except those that say why the program ends.

  \<^bold>\<open>What is shown.\<close>  Round trips of the byte images, of the character tables and of reading and writing
  labels; that the free-space labels behave as sets of tracks; that every state of a session satisfies
  the invariant, that no command crashes, and what each command changes; that the configuration file
  is carried out exactly; that the whole program writes to the disk at most once, from a consistent
  table; that writing succeeds on a writable device and that the next run reads the same table.  All
  loops of these parts are total functions: loops that read input end with it (\<open>Hang\<close>), the loops over
  labels and extents are bounded by the lengths of the tables; there is no fuel.

  For the list and the dump memory the heap is a map from addresses to nodes, chunks and data; a
  function is \<open>None\<close> if it touches memory that is not allocated (any more), follows a null pointer, or
  does not end, so that each theorem that says \<open>Some\<close> is about memory safety and termination as well.
  Loops over lists are partial functions, which have their value where the list is finite.  The memory
  allocator is an argument, of which only is used that it returns free addresses while there are any.
  Shown is that the operations of the list are those on sequences and that the sort sorts; that reading
  returns the byte of every address, that unmapping and mapping change exactly their range, and that the
  production system is read from where the kdump kernel saved it.  Two theorems show states in which
  the code reads memory it has freed.

  For the archive the callback that takes the output is an argument, and so are the answers of the system
  calls: how many bytes each one transfers, or that it fails.  Shown is that an entry is read back with
  all its metadata and data, and that a file that went through the buffer is emitted as its data are, when
  no call fails.  The transfer loops are partial functions: with a system that makes no
  progress they have no value, so that the theorems, which say \<open>Some\<close>, show that they end.

  \<^bold>\<open>Not modelled.\<close>  \<open>fdasd_parse_options\<close> (\<open>getopt_long\<close> on the command line), \<open>fdasd_verify_device\<close>
  (the file system's view of the device node), \<open>fdasd_show_mapping\<close> and the help texts, which only
  print.  Of \<open>dfi.c\<close>: the CPU list and the attributes of a dump; the readers of the dump formats are an argument
  (\<open>img\<close>).  Of \<open>dump2tar\<close>: the queue of jobs and its threads, symbolic links, directories and commands, and the release of
  buffers.  The other tools of the repository are separate programs.
\<close>

end
